(* ===== verification/Prelude.thy ===== *)
theory Prelude
  imports Main
begin

text \<open>
  The prelude of the development: results of operations that may throw, the characters and
  strings of the TypeScript sources as lists of 8-bit code units, decimal numerals, and the
  generic lemmas on lists and maps that several components share.

  \<^item> A value of type \<open>'e + 'a\<close> is the outcome of code that may throw: \<open>Inl e\<close> for the
    error thrown, \<open>Inr v\<close> for the value returned. \<open>and_then\<close> sequences two such steps.
  \<^item> A JavaScript string is a \<open>string\<close>, one \<open>char\<close> per code unit; code units above
    255 are outside the model.
  \<^item> \<open>text_simps\<close> collects the facts about the string functions, \<open>res_simps\<close> those
    about results.
\<close>

named_theorems text_simps \<open>facts about the modelled string functions\<close>
named_theorems res_simps \<open>facts about sequencing results that may be errors\<close>

section \<open>Results that may be errors\<close>

fun and_then :: "'e + 'a \<Rightarrow> ('a \<Rightarrow> 'e + 'b) \<Rightarrow> 'e + 'b" where
  "and_then (Inl e) f = Inl e"
| "and_then (Inr x) f = f x"

lemma and_then_Inr_iff [res_simps]:
  "and_then r f = Inr y \<longleftrightarrow> (\<exists>x. r = Inr x \<and> f x = Inr y)"
  by (cases r) auto

lemma and_then_Inl_iff [res_simps]:
  "and_then r f = Inl e \<longleftrightarrow> r = Inl e \<or> (\<exists>x. r = Inr x \<and> f x = Inl e)"
  by (cases r) auto

lemma and_then_assoc:
  "and_then (and_then r f) g = and_then r (\<lambda>x. and_then (f x) g)"
  by (cases r) auto

definition require :: "bool \<Rightarrow> 'e \<Rightarrow> 'e + unit" where
  "require b e = (if b then Inr () else Inl e)"

lemma require_simps [simp]:
  "require True e = Inr ()" "require False e = Inl e"
  by (simp_all add: require_def)

lemma require_Inr_iff [res_simps]: "require b e = Inr u \<longleftrightarrow> b"
  by (simp add: require_def)

lemma require_Inl_iff [res_simps]: "require b e = Inl e' \<longleftrightarrow> \<not> b \<and> e' = e"
  by (auto simp: require_def)

definition is_ok :: "'e + 'a \<Rightarrow> bool" where
  "is_ok r = (case r of Inl _ \<Rightarrow> False | Inr _ \<Rightarrow> True)"

lemma is_ok_simps [simp]: "is_ok (Inl e) = False" "is_ok (Inr x) = True"
  by (simp_all add: is_ok_def)

section \<open>Character classes\<close>

abbreviation code_unit :: "char \<Rightarrow> nat" where
  "code_unit c \<equiv> of_char c"

definition is_digit :: "char \<Rightarrow> bool" where
  "is_digit c \<longleftrightarrow> 48 \<le> code_unit c \<and> code_unit c \<le> 57"

definition is_upper :: "char \<Rightarrow> bool" where
  "is_upper c \<longleftrightarrow> 65 \<le> code_unit c \<and> code_unit c \<le> 90"

definition is_lower :: "char \<Rightarrow> bool" where
  "is_lower c \<longleftrightarrow> 97 \<le> code_unit c \<and> code_unit c \<le> 122"

definition is_alpha :: "char \<Rightarrow> bool" where
  "is_alpha c \<longleftrightarrow> is_upper c \<or> is_lower c"

definition is_alnum :: "char \<Rightarrow> bool" where
  "is_alnum c \<longleftrightarrow> is_alpha c \<or> is_digit c"

definition is_hex :: "char \<Rightarrow> bool" where
  "is_hex c \<longleftrightarrow> is_digit c \<or> (97 \<le> code_unit c \<and> code_unit c \<le> 102)
     \<or> (65 \<le> code_unit c \<and> code_unit c \<le> 70)"

text \<open>The white space JavaScript's \<open>trim\<close> and \<open>\s\<close> know among the 8-bit code units.\<close>

definition is_space :: "char \<Rightarrow> bool" where
  "is_space c \<longleftrightarrow> (9 \<le> code_unit c \<and> code_unit c \<le> 13) \<or> code_unit c = 32 \<or> code_unit c = 160"

lemmas char_class_defs = is_digit_def is_upper_def is_lower_def is_alpha_def is_alnum_def
  is_hex_def is_space_def

definition to_upper :: "char \<Rightarrow> char" where
  "to_upper c = (if is_lower c then char_of (code_unit c - 32) else c)"

definition to_lower :: "char \<Rightarrow> char" where
  "to_lower c = (if is_upper c then char_of (code_unit c + 32) else c)"

lemma code_unit_to_upper:
  "code_unit (to_upper c) = (if is_lower c then code_unit c - 32 else code_unit c)"
  by (auto simp: to_upper_def is_lower_def of_char_of)

lemma code_unit_to_lower:
  "code_unit (to_lower c) = (if is_upper c then code_unit c + 32 else code_unit c)"
  by (auto simp: to_lower_def is_upper_def of_char_of)

lemma is_alpha_to_upper [text_simps]: "is_alpha (to_upper c) = is_alpha c"
  by (auto simp: is_alpha_def is_upper_def is_lower_def code_unit_to_upper)

lemma to_upper_idem [text_simps]: "to_upper (to_upper c) = to_upper c"
  by (auto simp: to_upper_def [of "to_upper c"] is_lower_def code_unit_to_upper)

lemma to_lower_idem [text_simps]: "to_lower (to_lower c) = to_lower c"
  by (auto simp: to_lower_def [of "to_lower c"] is_upper_def code_unit_to_lower)

section \<open>Trimming\<close>

definition js_trim :: "string \<Rightarrow> string" where
  "js_trim s = rev (dropWhile is_space (rev (dropWhile is_space s)))"

lemma dropWhile_id: "(s \<noteq> [] \<longrightarrow> \<not> P (hd s)) \<Longrightarrow> dropWhile P s = s"
  by (cases s) auto

lemma hd_dropWhile_not: "dropWhile P s \<noteq> [] \<Longrightarrow> \<not> P (hd (dropWhile P s))"
  by (rule hd_dropWhile)

lemma dropWhile_decomp: "\<exists>pre. s = pre @ dropWhile P s \<and> (\<forall>c\<in>set pre. P c)"
  by (metis takeWhile_dropWhile_id set_takeWhileD)

lemma js_trim_id:
  "(s \<noteq> [] \<longrightarrow> \<not> is_space (hd s) \<and> \<not> is_space (last s)) \<Longrightarrow> js_trim s = s"
  by (simp add: js_trim_def dropWhile_id hd_rev)

lemma js_trim_ends:
  "js_trim s \<noteq> [] \<Longrightarrow> \<not> is_space (hd (js_trim s)) \<and> \<not> is_space (last (js_trim s))"
proof -
  define t where "t = dropWhile is_space s"
  define u where "u = dropWhile is_space (rev t)"
  assume "js_trim s \<noteq> []"
  then have u: "u \<noteq> []" and js: "js_trim s = rev u"
    by (auto simp: js_trim_def u_def t_def)
  then have "\<not> is_space (hd u)"
    by (simp add: u_def hd_dropWhile_not)
  then have l: "\<not> is_space (last (js_trim s))"
    using u js by (simp add: last_rev)
  obtain pre where pre: "rev t = pre @ u"
    using dropWhile_decomp [of "rev t" is_space] by (auto simp: u_def)
  then have t: "t = rev u @ rev pre"
    by (metis rev_append rev_rev_ident)
  then have "t \<noteq> []" and "hd t = hd (rev u)"
    using u by auto
  moreover have "t \<noteq> [] \<Longrightarrow> \<not> is_space (hd t)"
    by (simp add: t_def hd_dropWhile_not)
  ultimately show ?thesis
    using l js by simp
qed

lemma js_trim_idem [text_simps, simp]: "js_trim (js_trim s) = js_trim s"
  using js_trim_ends [of s] by (intro js_trim_id) auto

lemma js_trim_set: "set (js_trim s) \<subseteq> set s"
  by (auto simp: js_trim_def dest!: set_dropWhileD)

lemma js_trim_length: "length (js_trim s) \<le> length s"
proof -
  have "length (dropWhile is_space (rev (dropWhile is_space s))) \<le> length (dropWhile is_space s)"
    using length_dropWhile_le [of is_space "rev (dropWhile is_space s)"] by simp
  then show ?thesis
    using length_dropWhile_le [of is_space s] by (simp add: js_trim_def)
qed

lemma js_trim_Nil [simp]: "js_trim [] = []"
  by (simp add: js_trim_def)

section \<open>Decimal numerals\<close>

text \<open>\<open>dec n\<close> is JavaScript's \<open>String(n)\<close> for a natural number, \<open>undec\<close> its \<open>Number(s)\<close> on digits.\<close>

definition digit_char :: "nat \<Rightarrow> char" where
  "digit_char d = char_of (48 + d)"

definition digit_val :: "char \<Rightarrow> nat" where
  "digit_val c = code_unit c - 48"

fun dec :: "nat \<Rightarrow> string" where
  "dec n = (if n < 10 then [digit_char n] else dec (n div 10) @ [digit_char (n mod 10)])"

declare dec.simps [simp del]

definition undec :: "string \<Rightarrow> nat" where
  "undec s = foldl (\<lambda>a c. 10 * a + digit_val c) 0 s"

lemma digit_val_char [simp]: "d < 10 \<Longrightarrow> digit_val (digit_char d) = d"
  by (simp add: digit_val_def digit_char_def of_char_of)

lemma is_digit_char [simp]: "d < 10 \<Longrightarrow> is_digit (digit_char d)"
  by (simp add: is_digit_def digit_char_def of_char_of)

lemma digit_char_val [simp]: "is_digit c \<Longrightarrow> digit_char (digit_val c) = c"
  by (simp add: digit_val_def digit_char_def is_digit_def)

lemma digit_val_less: "is_digit c \<Longrightarrow> digit_val c < 10"
  by (auto simp: digit_val_def is_digit_def)

lemma digit_char_0: "digit_char 0 = CHR ''0''"
  by code_simp

lemma undec_Nil [simp]: "undec [] = 0"
  by (simp add: undec_def)

lemma undec_snoc [simp]: "undec (s @ [c]) = 10 * undec s + digit_val c"
  by (simp add: undec_def)

lemma undec_single [simp]: "undec [c] = digit_val c"
  by (simp add: undec_def)

lemma undec_dec [simp]: "undec (dec n) = n"
proof (induction n rule: dec.induct)
  case (1 n)
  then show ?case
    by (cases "n < 10") (simp_all add: dec.simps [of n])
qed

lemma dec_inj: "dec m = dec n \<longleftrightarrow> m = n"
  by (metis undec_dec)

lemma dec_not_Nil [simp]: "dec n \<noteq> []"
  by (subst dec.simps) simp

lemma dec_digits: "\<forall>c\<in>set (dec n). is_digit c"
proof (induction n rule: dec.induct)
  case (1 n)
  then show ?case
    by (cases "n < 10") (auto simp: dec.simps [of n])
qed

lemma hd_dec: "0 < n \<Longrightarrow> hd (dec n) \<noteq> CHR ''0''"
proof (induction n rule: dec.induct)
  case (1 n)
  show ?case
  proof (cases "n < 10")
    case True
    have "digit_val (digit_char n) \<noteq> digit_val CHR ''0''"
      using 1 True by (simp add: digit_val_def [of "CHR ''0''"])
    then have "digit_char n \<noteq> CHR ''0''" by metis
    with True show ?thesis by (subst dec.simps) simp
  next
    case False
    with 1 show ?thesis by (subst dec.simps) simp
  qed
qed

lemma length_dec_bound: "0 < k \<Longrightarrow> n < 10 ^ k \<Longrightarrow> length (dec n) \<le> k"
proof (induction k arbitrary: n)
  case 0
  then show ?case by simp
next
  case (Suc k)
  show ?case
  proof (cases "n < 10")
    case True
    then show ?thesis by (subst dec.simps) simp
  next
    case False
    with Suc.prems have "n div 10 < 10 ^ k" and "0 < k"
      by (auto simp: less_mult_imp_div_less mult.commute intro: Nat.gr0I)
    with Suc.IH False show ?thesis by (subst dec.simps) simp
  qed
qed

text \<open>A digit string without a leading zero is the only spelling of its value.\<close>

lemma undec_pos: "s \<noteq> [] \<Longrightarrow> \<forall>c\<in>set s. is_digit c \<Longrightarrow> hd s \<noteq> CHR ''0'' \<Longrightarrow> 0 < undec s"
proof (induction s rule: rev_induct)
  case Nil
  then show ?case by simp
next
  case (snoc c s)
  show ?case
  proof (cases "s = []")
    case True
    with snoc.prems have "is_digit c" and "c \<noteq> CHR ''0''" by auto
    then have "digit_val c \<noteq> 0"
      using digit_char_val [of c] digit_char_0 by metis
    with True show ?thesis by simp
  next
    case False
    with snoc show ?thesis by simp
  qed
qed

lemma dec_undec:
  "s \<noteq> [] \<Longrightarrow> \<forall>c\<in>set s. is_digit c \<Longrightarrow> hd s \<noteq> CHR ''0'' \<Longrightarrow> dec (undec s) = s"
proof (induction s rule: rev_induct)
  case Nil
  then show ?case by simp
next
  case (snoc c s)
  then have c: "is_digit c" "digit_val c < 10" by (auto simp: digit_val_less)
  show ?case
  proof (cases "s = []")
    case True
    with c show ?thesis by (simp add: dec.simps [of "digit_val c"])
  next
    case False
    with snoc have IH: "dec (undec s) = s" and "0 < undec s"
      by (auto intro: undec_pos)
    with c show ?thesis by (simp add: dec.simps [of "10 * undec s + digit_val c"])
  qed
qed

section \<open>Lists and maps\<close>

lemma map_upd_eq_iff: "(m(k \<mapsto> v)) k' = Some v' \<longleftrightarrow> (if k' = k then v' = v else m k' = Some v')"
  by auto

lemma takeWhile_append_stop: "\<forall>c\<in>set a. P c \<Longrightarrow> \<not> P x \<Longrightarrow> takeWhile P (a @ x # b) = a"
  by (induction a) auto

lemma dropWhile_append_stop: "\<forall>c\<in>set a. P c \<Longrightarrow> \<not> P x \<Longrightarrow> dropWhile P (a @ x # b) = x # b"
  by (induction a) auto

text \<open>Two texts split at the first separator agree part by part.\<close>

lemma split_at_sep:
  assumes "\<forall>c\<in>set a. c \<noteq> x" and "\<forall>c\<in>set a'. c \<noteq> x" and "a @ x # b = a' @ x # b'"
  shows "a = a' \<and> b = b'"
proof -
  have "takeWhile (\<lambda>c. c \<noteq> x) (a @ x # b) = a" "takeWhile (\<lambda>c. c \<noteq> x) (a' @ x # b') = a'"
    using assms(1,2) by (simp_all add: takeWhile_append_stop)
  with assms(3) have "a = a'" by simp
  with assms(3) show ?thesis by simp
qed

lemma sum_list_filter_le: "sum_list (map f (filter P xs)) \<le> (sum_list (map f xs) :: nat)"
  by (induction xs) auto

end
