(* ===== verification/Base64Url.thy ===== *)
theory Base64Url
  imports Prelude
begin

text \<open>
  Base64url without padding, as \<open>base64url\<close> of \<open>platform-http/src/http/edge.ts\<close> writes it (\<open>btoa\<close>
  followed by the three replacements) and as Node's \<open>Buffer.from(s, 'base64url')\<close> reads a text of
  that alphabet. A byte is a natural number below 256, a sextet one below 64.
\<close>

fun sextets :: "nat list \<Rightarrow> nat list" where
  "sextets [] = []"
| "sextets [a] = [a div 4, (a mod 4) * 16]"
| "sextets [a, b] = [a div 4, (a mod 4) * 16 + b div 16, (b mod 16) * 4]"
| "sextets (a # b # c # r) =
     a div 4 # ((a mod 4) * 16 + b div 16) # ((b mod 16) * 4 + c div 64) # (c mod 64) # sextets r"

fun octets :: "nat list \<Rightarrow> nat list" where
  "octets (w # x # y # z # r) =
     (w * 4 + x div 16) # ((x mod 16) * 16 + y div 4) # ((y mod 4) * 64 + z) # octets r"
| "octets [w, x, y] = [w * 4 + x div 16, (x mod 16) * 16 + y div 4]"
| "octets [w, x] = [w * 4 + x div 16]"
| "octets [w] = []"
| "octets [] = []"

definition b64_char :: "nat \<Rightarrow> char" where
  "b64_char n =
     (if n < 26 then char_of (65 + n) else if n < 52 then char_of (71 + n)
      else if n < 62 then char_of (n - 4) else if n = 62 then CHR ''-'' else CHR ''_'')"

definition is_b64 :: "char \<Rightarrow> bool" where
  "is_b64 c \<longleftrightarrow> is_alnum c \<or> c = CHR ''-'' \<or> c = CHR ''_''"

definition b64_val :: "char \<Rightarrow> nat" where
  "b64_val c =
     (if is_upper c then code_unit c - 65 else if is_lower c then code_unit c - 71
      else if is_digit c then code_unit c + 4 else if c = CHR ''-'' then 62 else 63)"

definition base64url :: "nat list \<Rightarrow> string" where
  "base64url bs = map b64_char (sextets bs)"

definition from_base64url :: "string \<Rightarrow> nat list" where
  "from_base64url s = octets (map b64_val (filter is_b64 s))"

definition bytes :: "nat list \<Rightarrow> bool" where
  "bytes bs \<longleftrightarrow> (\<forall>b\<in>set bs. b < 256)"

lemma bytes_simps [simp]:
  "bytes []" "bytes (b # bs) \<longleftrightarrow> b < 256 \<and> bytes bs"
  by (auto simp: bytes_def)

lemma code_unit_dash: "code_unit CHR ''-'' = (45::nat)" "code_unit CHR ''_'' = (95::nat)"
  by simp_all

lemma is_b64_char [simp]: "n < 64 \<Longrightarrow> is_b64 (b64_char n)"
  by (auto simp: b64_char_def is_b64_def char_class_defs of_char_of)

lemma b64_val_char [simp]: "n < 64 \<Longrightarrow> b64_val (b64_char n) = n"
  by (auto simp: b64_char_def b64_val_def char_class_defs of_char_of)

lemma octets_sextets: "bytes bs \<Longrightarrow> octets (sextets bs) = bs"
proof (induction bs rule: sextets.induct)
  case (4 a b c r)
  then have "octets (sextets r) = r" and "a < 256" "b < 256" "c < 256" by auto
  then show ?case by (simp add: div_add1_eq)
qed (auto simp: div_add1_eq)

lemma sextets_less: "bytes bs \<Longrightarrow> \<forall>s\<in>set (sextets bs). s < 64"
  by (induction bs rule: sextets.induct) auto

lemma base64url_alphabet: "bytes bs \<Longrightarrow> \<forall>c\<in>set (base64url bs). is_b64 c"
  using sextets_less [of bs] by (auto simp: base64url_def)

lemma from_base64url_base64url [simp]: "bytes bs \<Longrightarrow> from_base64url (base64url bs) = bs"
proof -
  assume b: "bytes bs"
  have "filter is_b64 (base64url bs) = base64url bs"
    using base64url_alphabet [OF b] by (simp add: filter_id_conv)
  moreover have "map b64_val (base64url bs) = sextets bs"
    using sextets_less [OF b] by (simp add: base64url_def map_idI)
  ultimately show ?thesis
    using octets_sextets [OF b] by (simp add: from_base64url_def)
qed

lemma length_sextets: "length (sextets bs) = (4 * length bs + 2) div 3"
  by (induction bs rule: sextets.induct) auto

lemma length_base64url: "length (base64url bs) = (4 * length bs + 2) div 3"
  by (simp add: base64url_def length_sextets)

end
