(* ===== verification/EdgeProtocol.thy ===== *)
theory EdgeProtocol
  imports Base64Url
begin

text \<open>
  \<open>platform-http/src/http/edge-protocol.ts\<close>: what the Worker that signs a visitor's address and the
  API that verifies it share. The lemmas show that the signing string determines the timestamp,
  the address, the upper-cased method and the path it was built from.
\<close>

definition EDGE_HEADER_PREFIX :: string where
  "EDGE_HEADER_PREFIX = ''x-qnsc-edge-''"

definition EDGE_IP_HEADER :: string where
  "EDGE_IP_HEADER = ''x-qnsc-edge-ip''"

definition EDGE_TS_HEADER :: string where
  "EDGE_TS_HEADER = ''x-qnsc-edge-ts''"

definition EDGE_SIG_HEADER :: string where
  "EDGE_SIG_HEADER = ''x-qnsc-edge-sig''"

definition EDGE_MAX_SKEW_SECONDS :: int where
  "EDGE_MAX_SKEW_SECONDS = 60"

definition EDGE_SECRET_MIN_LENGTH :: nat where
  "EDGE_SECRET_MIN_LENGTH = 32"

definition MAX_SAFE_INTEGER :: int where
  "MAX_SAFE_INTEGER = 9007199254740991"

text \<open>The path that is signed: what precedes the first \<open>?\<close> or \<open>#\<close>, \<open>/\<close> when that is empty.\<close>

definition edgePath :: "string \<Rightarrow> string" where
  "edgePath raw =
     (let path = takeWhile (\<lambda>c. c \<noteq> CHR ''?'' \<and> c \<noteq> CHR ''#'') raw
      in if path = '''' then ''/'' else path)"

definition normalizeEdgeSecret :: "string \<Rightarrow> string" where
  "normalizeEdgeSecret secret = js_trim secret"

definition edgeMethod :: "string \<Rightarrow> string option" where
  "edgeMethod m = (if m \<noteq> [] \<and> list_all is_alpha m then Some (map to_upper m) else None)"

definition isEdgeIpText :: "string \<Rightarrow> bool" where
  "isEdgeIpText ip \<longleftrightarrow>
     length ip \<le> 45 \<and>
     (ip \<noteq> [] \<and> list_all (\<lambda>c. is_hex c \<or> c = CHR '':'' \<or> c = CHR ''.'') ip) \<and>
     list_ex (\<lambda>c. c = CHR ''.'' \<or> c = CHR '':'') ip"

datatype edge_error = BadMethod | BadTimestamp | BadAddress

text \<open>\<open>String(ts)\<close> of a whole number of seconds.\<close>

definition ts_text :: "int \<Rightarrow> string" where
  "ts_text ts = dec (nat ts)"

definition edgeSigningString :: "int \<Rightarrow> string \<Rightarrow> string \<Rightarrow> string \<Rightarrow> edge_error + string" where
  "edgeSigningString ts ip method path =
     (case edgeMethod method of
        None \<Rightarrow> Inl BadMethod
      | Some upper \<Rightarrow>
          if ts > MAX_SAFE_INTEGER \<or> ts < 0 then Inl BadTimestamp
          else if \<not> isEdgeIpText ip then Inl BadAddress
          else Inr (ts_text ts @ ''|'' @ ip @ ''|'' @ upper @ ''|'' @ edgePath path))"

section \<open>The parts hold no separator\<close>

abbreviation bar :: char where "bar \<equiv> CHR ''|''"

lemma bar_class [simp]: "\<not> is_digit bar" "\<not> is_alpha bar" "\<not> is_hex bar"
  by (simp_all add: char_class_defs)

lemma ts_text_no_bar: "\<forall>c\<in>set (ts_text ts). c \<noteq> bar"
  using dec_digits [of "nat ts"] by (auto simp: ts_text_def)

lemma ip_text_no_bar: "isEdgeIpText ip \<Longrightarrow> \<forall>c\<in>set ip. c \<noteq> bar"
  by (auto simp: isEdgeIpText_def list_all_iff)

lemma edgeMethod_Some:
  "edgeMethod m = Some u \<longleftrightarrow> m \<noteq> [] \<and> list_all is_alpha m \<and> u = map to_upper m"
  by (auto simp: edgeMethod_def)

lemma edgeMethod_no_bar: "edgeMethod m = Some u \<Longrightarrow> \<forall>c\<in>set u. c \<noteq> bar"
proof -
  assume "edgeMethod m = Some u"
  then have "list_all is_alpha u"
    by (auto simp: edgeMethod_Some list_all_iff is_alpha_to_upper)
  then show ?thesis by (auto simp: list_all_iff)
qed

lemma edgeMethod_idem: "edgeMethod m = Some u \<Longrightarrow> edgeMethod u = Some u"
  by (auto simp: edgeMethod_Some list_all_iff is_alpha_to_upper to_upper_idem)

lemma edgePath_idem [simp]: "edgePath (edgePath p) = edgePath p"
  by (simp add: edgePath_def Let_def takeWhile_idem) 

lemma edgePath_not_Nil [simp]: "edgePath p \<noteq> []"
  by (simp add: edgePath_def Let_def)

lemma edgePath_query:
  assumes "p \<noteq> []" "\<forall>c\<in>set p. c \<noteq> CHR ''?'' \<and> c \<noteq> CHR ''#''"
    and "q = [] \<or> hd q = CHR ''?'' \<or> hd q = CHR ''#''"
  shows "edgePath (p @ q) = p"
proof (cases q)
  case Nil
  with assms show ?thesis by (cases p) (auto simp: edgePath_def Let_def)
next
  case (Cons x r)
  have "takeWhile (\<lambda>c. c \<noteq> CHR ''?'' \<and> c \<noteq> CHR ''#'') (p @ x # r) = p"
    using assms(2,3) Cons by (intro takeWhile_append_stop) auto
  with Cons assms(1) show ?thesis by (simp add: edgePath_def)
qed

lemma ts_text_inj: "0 \<le> a \<Longrightarrow> 0 \<le> b \<Longrightarrow> ts_text a = ts_text b \<longleftrightarrow> a = b"
  by (auto simp: ts_text_def dec_inj)

lemma edgeSigningString_Inr:
  "edgeSigningString ts ip m p = Inr s \<longleftrightarrow>
     (\<exists>u. edgeMethod m = Some u \<and> 0 \<le> ts \<and> ts \<le> MAX_SAFE_INTEGER \<and> isEdgeIpText ip \<and>
        s = ts_text ts @ ''|'' @ ip @ ''|'' @ u @ ''|'' @ edgePath p)"
  by (auto simp: edgeSigningString_def split: option.splits)

lemma signing_string_unique:
  assumes "edgeSigningString ts ip m p = Inr s" and "edgeSigningString ts' ip' m' p' = Inr s"
  shows "ts = ts' \<and> ip = ip' \<and> edgeMethod m = edgeMethod m' \<and> edgePath p = edgePath p'"
proof -
  obtain u where u: "edgeMethod m = Some u" "0 \<le> ts" "isEdgeIpText ip"
    and s: "s = ts_text ts @ bar # (ip @ bar # (u @ bar # edgePath p))"
    using assms(1) by (auto simp: edgeSigningString_Inr)
  obtain u' where u': "edgeMethod m' = Some u'" "0 \<le> ts'" "isEdgeIpText ip'"
    and s': "s = ts_text ts' @ bar # (ip' @ bar # (u' @ bar # edgePath p'))"
    using assms(2) by (auto simp: edgeSigningString_Inr)
  have 1: "ts_text ts = ts_text ts' \<and> ip @ bar # (u @ bar # edgePath p) = ip' @ bar # (u' @ bar # edgePath p')"
    by (rule split_at_sep [OF ts_text_no_bar ts_text_no_bar]) (use s s' in simp)
  then have 2: "ip = ip' \<and> u @ bar # edgePath p = u' @ bar # edgePath p'"
    using split_at_sep [OF ip_text_no_bar [OF u(3)] ip_text_no_bar [OF u'(3)]] by blast
  then have "u = u' \<and> edgePath p = edgePath p'"
    using split_at_sep [OF edgeMethod_no_bar [OF u(1)] edgeMethod_no_bar [OF u'(1)]] by blast
  with 1 2 u u' show ?thesis by (simp add: ts_text_inj)
qed

text \<open>
  Two successful calls that give the same signing string were made for the same timestamp, the
  same address, the same upper-cased method and the same signed path: the string is injective in
  what it binds, so a signature cannot be read as one for another request.
\<close>

theorem signing_string_injective:
  assumes "edgeSigningString ts ip m p = Inr s" and "edgeSigningString ts' ip' m' p' = Inr s"
  shows "ts = ts' \<and> ip = ip' \<and> edgeMethod m = edgeMethod m' \<and> edgePath p = edgePath p'"
  using assms by (rule signing_string_unique)

theorem signing_string_injective_witness:
  "edgeSigningString 7 ''1.2.3.4'' ''get'' ''/a?x=1'' = Inr ''7|1.2.3.4|GET|/a''
   \<and> edgeMethod ''get'' = edgeMethod ''GET''"
proof -
  have a: "edgeSigningString 7 ''1.2.3.4'' ''get'' ''/a?x=1'' = Inr ''7|1.2.3.4|GET|/a''" by code_simp
  have b: "edgeSigningString 7 ''1.2.3.4'' ''GET'' ''/a#frag'' = Inr ''7|1.2.3.4|GET|/a''" by code_simp
  show ?thesis using signing_string_injective [OF a b] a by simp
qed

end
