(* ===== verification/EdgeClientIp.thy ===== *)
theory EdgeClientIp
  imports EdgeProtocol
begin

text \<open>
  \<open>platform-http/src/http/edge-client-ip.ts\<close>: the API side of the signed edge address. The secrets
  read from the environment (\<open>readEdgeConfig\<close>, memoised by \<open>edgeConfigFromEnv\<close>), the verification
  of one request (\<open>verifyEdgeClientIp\<close>), and the counting of refused signatures with at most one
  warning a minute (\<open>reportEdgeRejection\<close>).

  HMAC-SHA256 (\<open>node:crypto\<close>) is the parameter \<open>hmac\<close>, from a secret and a text to the bytes of the
  digest; \<open>isIP\<close> of \<open>node:net\<close> is the parameter \<open>is_ip\<close>.
\<close>

type_synonym env = "string \<Rightarrow> string option"

datatype header_val = One string | Many "string list"

type_synonym headers = "string \<Rightarrow> header_val option"

section \<open>The secrets\<close>

definition EDGE_SECRET_ENV :: string where
  "EDGE_SECRET_ENV = ''EDGE_CLIENT_IP_SECRET''"

definition EDGE_SECRET_PREVIOUS_ENV :: string where
  "EDGE_SECRET_PREVIOUS_ENV = ''EDGE_CLIENT_IP_SECRET_PREVIOUS''"

datatype edge_config_error = PreviousWithoutCurrent | SecretTooShort string

definition env_or_empty :: "env \<Rightarrow> string \<Rightarrow> string" where
  "env_or_empty env name = (case env name of None \<Rightarrow> '''' | Some v \<Rightarrow> v)"

text \<open>The loop over the two named secrets, in order, stopping at the first that is too short.\<close>

fun check_secret_lengths :: "(string \<times> string) list \<Rightarrow> edge_config_error + unit" where
  "check_secret_lengths [] = Inr ()"
| "check_secret_lengths ((name, value) # rest) =
     (if value \<noteq> '''' \<and> length value < EDGE_SECRET_MIN_LENGTH then Inl (SecretTooShort name)
      else check_secret_lengths rest)"

definition readEdgeConfig :: "env \<Rightarrow> edge_config_error + string list option" where
  "readEdgeConfig env =
     (let current = normalizeEdgeSecret (env_or_empty env EDGE_SECRET_ENV);
          previous = normalizeEdgeSecret (env_or_empty env EDGE_SECRET_PREVIOUS_ENV)
      in if current = '''' then
           (if previous \<noteq> '''' then Inl PreviousWithoutCurrent else Inr None)
         else and_then
           (check_secret_lengths [(EDGE_SECRET_ENV, current), (EDGE_SECRET_PREVIOUS_ENV, previous)])
           (\<lambda>_. Inr (Some (if previous \<noteq> '''' then [current, previous] else [current]))))"

text \<open>
  A configuration is accepted only with one or two secrets, each already trimmed and at least
  32 characters long, the current one first: a short, half-set or padded secret never becomes a key.
\<close>

theorem edge_config_secrets_usable:
  assumes "readEdgeConfig env = Inr (Some secrets)" and "k \<in> set secrets"
  shows "EDGE_SECRET_MIN_LENGTH \<le> length k \<and> normalizeEdgeSecret k = k \<and> length secrets \<le> 2 \<and>
    hd secrets = normalizeEdgeSecret (env_or_empty env EDGE_SECRET_ENV)"
  using assms
  by (auto simp: readEdgeConfig_def Let_def res_simps normalizeEdgeSecret_def split: if_splits)

theorem edge_config_secrets_usable_witness:
  "readEdgeConfig [EDGE_SECRET_ENV \<mapsto> '' 0123456789abcdef0123456789abcdef '']
     = Inr (Some [''0123456789abcdef0123456789abcdef'']) \<and>
   EDGE_SECRET_MIN_LENGTH \<le> length ''0123456789abcdef0123456789abcdef''"
proof -
  have a: "readEdgeConfig [EDGE_SECRET_ENV \<mapsto> '' 0123456789abcdef0123456789abcdef '']
    = Inr (Some [''0123456789abcdef0123456789abcdef''])"
    by (simp add: readEdgeConfig_def env_or_empty_def EDGE_SECRET_ENV_def EDGE_SECRET_PREVIOUS_ENV_def
        normalizeEdgeSecret_def js_trim_def is_space_def EDGE_SECRET_MIN_LENGTH_def)
  have k: "''0123456789abcdef0123456789abcdef'' \<in> set [''0123456789abcdef0123456789abcdef'']"
    by (rule list.set_intros(1))
  show ?thesis using a edge_config_secrets_usable [OF a k] by blast
qed

lemma readEdgeConfig_off_iff:
  "readEdgeConfig env = Inr None \<longleftrightarrow>
     normalizeEdgeSecret (env_or_empty env EDGE_SECRET_ENV) = '''' \<and>
     normalizeEdgeSecret (env_or_empty env EDGE_SECRET_PREVIOUS_ENV) = ''''"
  by (auto simp: readEdgeConfig_def Let_def res_simps split: if_splits)

section \<open>Reading the configuration once per text\<close>

text \<open>
  \<open>edgeConfigFromEnv\<close> keeps the last configuration with the text it was read from. Unusable settings
  are OFF here and logged once; \<open>misconfig_lines\<close> counts the lines written.
\<close>

record edge_cache =
  cached_key :: "string option"
  cached_config :: "string list option"
  misconfiguration_logged :: bool
  misconfig_lines :: nat

definition edge_cache_init :: edge_cache where
  "edge_cache_init =
     \<lparr>cached_key = None, cached_config = None, misconfiguration_logged = False, misconfig_lines = 0\<rparr>"

definition edge_key :: "env \<Rightarrow> string" where
  "edge_key env = env_or_empty env EDGE_SECRET_ENV @ [CHR 0x0A] @ env_or_empty env EDGE_SECRET_PREVIOUS_ENV"

definition edgeConfigFromEnv :: "env \<Rightarrow> edge_cache \<Rightarrow> string list option \<times> edge_cache" where
  "edgeConfigFromEnv env c =
     (if cached_key c = Some (edge_key env) then (cached_config c, c)
      else
        (let c1 = (case readEdgeConfig env of
                     Inr cfg \<Rightarrow> c\<lparr>cached_config := cfg\<rparr>
                   | Inl _ \<Rightarrow>
                       (let c0 = c\<lparr>cached_config := None\<rparr>
                        in if misconfiguration_logged c0 then c0
                           else c0\<lparr>misconfiguration_logged := True,
                                   misconfig_lines := Suc (misconfig_lines c0)\<rparr>));
             c2 = c1\<lparr>cached_key := Some (edge_key env)\<rparr>
         in (cached_config c2, c2)))"

text \<open>The reference: what an uncached read of the environment comes to.\<close>

definition edge_config_plain :: "env \<Rightarrow> string list option" where
  "edge_config_plain env = (case readEdgeConfig env of Inr cfg \<Rightarrow> cfg | Inl _ \<Rightarrow> None)"

text \<open>
  Values of an environment hold no line feed in the two variables (an env file cannot carry one),
  so the joined text tells the two apart.
\<close>

definition single_line :: "env \<Rightarrow> bool" where
  "single_line env \<longleftrightarrow>
     (\<forall>c\<in>set (env_or_empty env EDGE_SECRET_ENV). c \<noteq> CHR 0x0A) \<and>
     (\<forall>c\<in>set (env_or_empty env EDGE_SECRET_PREVIOUS_ENV). c \<noteq> CHR 0x0A)"

lemma edge_key_determines:
  assumes "single_line e" "single_line e'" "edge_key e = edge_key e'"
  shows "readEdgeConfig e = readEdgeConfig e'"
proof -
  have "env_or_empty e EDGE_SECRET_ENV = env_or_empty e' EDGE_SECRET_ENV \<and>
        env_or_empty e EDGE_SECRET_PREVIOUS_ENV = env_or_empty e' EDGE_SECRET_PREVIOUS_ENV"
    by (rule split_at_sep [where x = "CHR 0x0A"]) (use assms in \<open>auto simp: single_line_def edge_key_def\<close>)
  then show ?thesis by (simp add: readEdgeConfig_def)
qed

definition edge_cache_ok :: "edge_cache \<Rightarrow> bool" where
  "edge_cache_ok c \<longleftrightarrow>
     (\<forall>k. cached_key c = Some k \<longrightarrow>
        (\<exists>e. single_line e \<and> edge_key e = k \<and> cached_config c = edge_config_plain e)) \<and>
     misconfig_lines c = (if misconfiguration_logged c then 1 else 0)"

lemma edge_cache_init_ok: "edge_cache_ok edge_cache_init"
  by (simp add: edge_cache_ok_def edge_cache_init_def)

lemma edgeConfigFromEnv_ok:
  assumes ok: "edge_cache_ok c" and sl: "single_line env"
    and r: "edgeConfigFromEnv env c = (cfg, c')"
  shows "cfg = edge_config_plain env \<and> edge_cache_ok c'"
proof (cases "cached_key c = Some (edge_key env)")
  case True
  then obtain e where "single_line e" "edge_key e = edge_key env" "cached_config c = edge_config_plain e"
    using ok by (auto simp: edge_cache_ok_def)
  then have "cached_config c = edge_config_plain env"
    using edge_key_determines [of e env] sl by (simp add: edge_config_plain_def)
  with True r ok show ?thesis by (auto simp: edgeConfigFromEnv_def)
next
  case False
  have key: "cached_key c' = Some (edge_key env)" and cfg: "cached_config c' = cfg"
    using r False by (auto simp: edgeConfigFromEnv_def Let_def)
  have plain: "cfg = edge_config_plain env"
    using r False
    by (auto simp: edgeConfigFromEnv_def Let_def edge_config_plain_def split: sum.splits if_splits)
  have "misconfig_lines c' = (if misconfiguration_logged c' then 1 else 0)"
    using r False ok
    by (auto simp: edgeConfigFromEnv_def Let_def edge_cache_ok_def split: sum.splits if_splits)
  with key cfg plain sl show ?thesis by (auto simp: edge_cache_ok_def)
qed

fun edge_config_calls :: "env list \<Rightarrow> edge_cache \<Rightarrow> (string list option) list \<times> edge_cache" where
  "edge_config_calls [] c = ([], c)"
| "edge_config_calls (e # es) c =
     (let (r, c') = edgeConfigFromEnv e c; (rs, c'') = edge_config_calls es c' in (r # rs, c''))"

lemma edge_config_calls_ok:
  "edge_cache_ok c \<Longrightarrow> \<forall>e\<in>set es. single_line e \<Longrightarrow> edge_config_calls es c = (rs, c') \<Longrightarrow>
   rs = map edge_config_plain es \<and> edge_cache_ok c'"
proof (induction es arbitrary: c rs)
  case Nil
  then show ?case by simp
next
  case (Cons e es)
  obtain r c1 where 1: "edgeConfigFromEnv e c = (r, c1)" by fastforce
  obtain rs1 c2 where 2: "edge_config_calls es c1 = (rs1, c2)" by fastforce
  from Cons.prems(1,2) 1 have "r = edge_config_plain e" "edge_cache_ok c1"
    using edgeConfigFromEnv_ok [of c e r c1] by auto
  with Cons.IH [of c1 rs1] Cons.prems 1 2 show ?case by auto
qed



section \<open>Verifying one request\<close>

datatype edge_rejection = Incomplete | Malformed | Unverifiable | Stale | BadSignature | NotIp

record edge_request =
  er_headers :: headers
  er_method :: "string option"
  er_url :: "string option"

text \<open>One header as a string; a repeated or absent one is no string.\<close>

definition only :: "headers \<Rightarrow> string \<Rightarrow> string option" where
  "only hs name = (case hs name of Some (One v) \<Rightarrow> Some v | _ \<Rightarrow> None)"

text \<open>\<open>/^[1-9]\d{0,11}$/\<close> and \<open>/^[A-Za-z0-9_-]{43}$/\<close>.\<close>

definition ts_ok :: "string \<Rightarrow> bool" where
  "ts_ok s \<longleftrightarrow> s \<noteq> [] \<and> is_digit (hd s) \<and> hd s \<noteq> CHR ''0'' \<and> list_all is_digit s \<and> length s \<le> 12"

definition sig_ok :: "string \<Rightarrow> bool" where
  "sig_ok s \<longleftrightarrow> length s = 43 \<and> list_all is_b64 s"

text \<open>
  The outcome is the address or nothing, with the reasons \<open>reject\<close> was called with. The error side
  is the exception \<open>edgeSigningString\<close> could throw.
\<close>

definition verifyEdgeClientIp ::
  "(string \<Rightarrow> string \<Rightarrow> nat list) \<Rightarrow> (string \<Rightarrow> bool) \<Rightarrow> edge_request \<Rightarrow> string list \<Rightarrow> int
     \<Rightarrow> edge_error + string option \<times> edge_rejection list" where
  "verifyEdgeClientIp hmac is_ip req secrets now =
     (case (only (er_headers req) EDGE_IP_HEADER, only (er_headers req) EDGE_TS_HEADER,
            only (er_headers req) EDGE_SIG_HEADER) of
        (None, None, None) \<Rightarrow> Inr (None, [])
      | (Some ip, Some ts, Some sig) \<Rightarrow>
          if \<not> ts_ok ts \<or> \<not> sig_ok sig \<or> \<not> isEdgeIpText ip then Inr (None, [Malformed])
          else (case (er_method req, er_url req) of
              (Some method, Some url) \<Rightarrow>
                if edgeMethod method = None then Inr (None, [Unverifiable])
                else
                  (let signedAt = int (undec ts)
                   in if \<bar>now - signedAt\<bar> > EDGE_MAX_SKEW_SECONDS then Inr (None, [Stale])
                      else
                        (let given = from_base64url sig
                         in and_then (edgeSigningString signedAt ip method (edgePath url))
                              (\<lambda>input.
                                 if \<not> list_ex (\<lambda>secret. given = hmac secret input) secrets
                                 then Inr (None, [BadSignature])
                                 else if \<not> is_ip ip then Inr (None, [NotIp])
                                 else Inr (Some ip, []))))
            | _ \<Rightarrow> Inr (None, [Unverifiable]))
      | _ \<Rightarrow> Inr (None, [Incomplete]))"

lemma undec_less: "list_all is_digit s \<Longrightarrow> undec s < 10 ^ length s"
proof (induction s rule: rev_induct)
  case Nil
  then show ?case by simp
next
  case (snoc c s)
  then have "undec s < 10 ^ length s" "digit_val c < 10"
    by (auto simp: digit_val_less)
  then have "10 * undec s + digit_val c < 10 * 10 ^ length s" by linarith
  then show ?case by simp
qed

lemma ts_ok_safe: "ts_ok ts \<Longrightarrow> int (undec ts) \<le> MAX_SAFE_INTEGER"
proof -
  assume "ts_ok ts"
  then have "undec ts < 10 ^ length ts" "length ts \<le> 12"
    by (auto simp: ts_ok_def undec_less)
  moreover have "length ts \<le> 12 \<Longrightarrow> (10::nat) ^ length ts \<le> 10 ^ 12"
    by (intro power_increasing) auto
  ultimately have "undec ts < 10 ^ 12" by linarith
  then show ?thesis by (simp add: MAX_SAFE_INTEGER_def)
qed

lemma ts_ok_canonical: "ts_ok ts \<Longrightarrow> ts_text (int (undec ts)) = ts"
  by (auto simp: ts_ok_def ts_text_def list_all_iff intro: dec_undec)

text \<open>The text a request's signature must be a digest of.\<close>

definition signed_text :: "string \<Rightarrow> string \<Rightarrow> string \<Rightarrow> string \<Rightarrow> string" where
  "signed_text ts ip upper path = ts @ ''|'' @ ip @ ''|'' @ upper @ ''|'' @ path"

lemma signing_string_of_request:
  "ts_ok ts \<Longrightarrow> isEdgeIpText ip \<Longrightarrow> edgeMethod m = Some u \<Longrightarrow>
   edgeSigningString (int (undec ts)) ip m (edgePath url) = Inr (signed_text ts ip u (edgePath url))"
  by (simp add: edgeSigningString_def ts_ok_canonical signed_text_def not_less ts_ok_safe)

lemma verify_total:
  "\<exists>res reasons. verifyEdgeClientIp hmac is_ip req secrets now = Inr (res, reasons) \<and>
     (res \<noteq> None \<longleftrightarrow> reasons = [] \<and> only (er_headers req) EDGE_IP_HEADER \<noteq> None) \<and>
     (reasons = [] \<or> (\<exists>r. reasons = [r]))"
  by (auto simp: verifyEdgeClientIp_def Let_def signing_string_of_request
      split: option.split)

text \<open>
  Verifying never throws: \<open>edgeSigningString\<close>, which does, is only reached with a timestamp, an
  address and a method it accepts. A request that is refused is reported with exactly one reason,
  unless it carries none of the three headers, and one that is accepted is reported with none.
\<close>

theorem verify_total_one_reason:
  "\<exists>res reasons. verifyEdgeClientIp hmac is_ip req secrets now = Inr (res, reasons) \<and>
     (res \<noteq> None \<longleftrightarrow> reasons = [] \<and> only (er_headers req) EDGE_IP_HEADER \<noteq> None) \<and>
     (reasons = [] \<or> (\<exists>r. reasons = [r]))"
  by (rule verify_total)

lemma verify_accepts_iff:
  "verifyEdgeClientIp hmac is_ip req secrets now = Inr (Some ip, reasons) \<longleftrightarrow>
     reasons = [] \<and>
     (\<exists>ts sig method url u.
        only (er_headers req) EDGE_IP_HEADER = Some ip \<and> only (er_headers req) EDGE_TS_HEADER = Some ts \<and>
        only (er_headers req) EDGE_SIG_HEADER = Some sig \<and> ts_ok ts \<and> sig_ok sig \<and> isEdgeIpText ip \<and>
        er_method req = Some method \<and> er_url req = Some url \<and> edgeMethod method = Some u \<and>
        \<bar>now - int (undec ts)\<bar> \<le> EDGE_MAX_SKEW_SECONDS \<and> is_ip ip \<and>
        (\<exists>secret\<in>set secrets. from_base64url sig = hmac secret (signed_text ts ip u (edgePath url))))"
  by (auto simp: verifyEdgeClientIp_def Let_def signing_string_of_request list_ex_iff
      split: option.splits if_splits)

text \<open>
  An address is believed exactly when the three headers are present once each and well formed,
  the timestamp is at most 60 seconds from the clock either way, the address is a literal IP, and
  the signature decodes to the HMAC, under one of the configured secrets, of this timestamp, this
  address, this request's method and this request's path.
\<close>

theorem verify_accepts_exactly:
  "(\<exists>reasons. verifyEdgeClientIp hmac is_ip req secrets now = Inr (Some ip, reasons)) \<longleftrightarrow>
     (\<exists>ts sig method url u.
        only (er_headers req) EDGE_IP_HEADER = Some ip \<and> only (er_headers req) EDGE_TS_HEADER = Some ts \<and>
        only (er_headers req) EDGE_SIG_HEADER = Some sig \<and> ts_ok ts \<and> sig_ok sig \<and> isEdgeIpText ip \<and>
        er_method req = Some method \<and> er_url req = Some url \<and> edgeMethod method = Some u \<and>
        \<bar>now - int (undec ts)\<bar> \<le> EDGE_MAX_SKEW_SECONDS \<and> is_ip ip \<and>
        (\<exists>secret\<in>set secrets. from_base64url sig = hmac secret (signed_text ts ip u (edgePath url))))"
  by (simp add: verify_accepts_iff)

text \<open>The text the signature of a well-formed request must be a digest of, when it has all parts.\<close>

definition request_text :: "edge_request \<Rightarrow> string option" where
  "request_text req =
     (case (only (er_headers req) EDGE_IP_HEADER, only (er_headers req) EDGE_TS_HEADER,
            er_method req, er_url req) of
        (Some ip, Some ts, Some m, Some url) \<Rightarrow>
          (case edgeMethod m of Some u \<Rightarrow> Some (signed_text ts ip u (edgePath url)) | None \<Rightarrow> None)
      | _ \<Rightarrow> None)"

lemma verify_request_text:
  assumes "verifyEdgeClientIp hmac is_ip a [k] now = Inr (Some ip, ra)"
  obtains ts sig m url u where
    "only (er_headers a) EDGE_TS_HEADER = Some ts" "only (er_headers a) EDGE_SIG_HEADER = Some sig"
    "er_method a = Some m" "er_url a = Some url" "edgeMethod m = Some u" "ts_ok ts" "isEdgeIpText ip"
    "request_text a = Some (signed_text ts ip u (edgePath url))"
    "from_base64url sig = hmac k (signed_text ts ip u (edgePath url))"
  using assms by (auto simp: verify_accepts_iff request_text_def)

text \<open>
  A signature lifted from one accepted request onto another is accepted there only if the two
  requests agree on timestamp, address, method and path, unless the HMAC of the two requests' own
  signing texts collides: the signature binds all four.
\<close>

theorem signature_not_transferable:
  assumes "verifyEdgeClientIp hmac is_ip a [k] now = Inr (Some ip, ra)"
    and "verifyEdgeClientIp hmac is_ip b [k] now' = Inr (Some ip', rb)"
    and "only (er_headers a) EDGE_SIG_HEADER = only (er_headers b) EDGE_SIG_HEADER"
    and "map_option (hmac k) (request_text a) = map_option (hmac k) (request_text b) \<Longrightarrow>
         request_text a = request_text b"
  shows "ip = ip' \<and> only (er_headers a) EDGE_TS_HEADER = only (er_headers b) EDGE_TS_HEADER \<and>
    map_option edgeMethod (er_method a) = map_option edgeMethod (er_method b) \<and>
    map_option edgePath (er_url a) = map_option edgePath (er_url b)"
proof -
  obtain ts sig m url u where A: "only (er_headers a) EDGE_TS_HEADER = Some ts"
    "only (er_headers a) EDGE_SIG_HEADER = Some sig" "er_method a = Some m" "er_url a = Some url"
    "edgeMethod m = Some u" "ts_ok ts" "isEdgeIpText ip"
    "request_text a = Some (signed_text ts ip u (edgePath url))"
    "from_base64url sig = hmac k (signed_text ts ip u (edgePath url))"
    using verify_request_text [OF assms(1)] .
  obtain ts' sig' m' url' u' where B: "only (er_headers b) EDGE_TS_HEADER = Some ts'"
    "only (er_headers b) EDGE_SIG_HEADER = Some sig'" "er_method b = Some m'" "er_url b = Some url'"
    "edgeMethod m' = Some u'" "ts_ok ts'" "isEdgeIpText ip'"
    "request_text b = Some (signed_text ts' ip' u' (edgePath url'))"
    "from_base64url sig' = hmac k (signed_text ts' ip' u' (edgePath url'))"
    using verify_request_text [OF assms(2)] .
  have eq: "signed_text ts ip u (edgePath url) = signed_text ts' ip' u' (edgePath url')"
    using assms(3,4) A B by auto
  have sa: "edgeSigningString (int (undec ts)) ip m (edgePath url)
      = Inr (signed_text ts ip u (edgePath url))"
    using A(5,6,7) by (simp add: signing_string_of_request)
  have sb: "edgeSigningString (int (undec ts')) ip' m' (edgePath url')
      = Inr (signed_text ts ip u (edgePath url))"
    using B(5,6,7) eq by (simp add: signing_string_of_request)
  have "ts = ts_text (int (undec ts))" "ts' = ts_text (int (undec ts'))"
    using A(6) B(6) by (simp_all add: ts_ok_canonical)
  with signing_string_unique [OF sa sb] A B show ?thesis by simp
qed

text \<open>A signature fixed by a constant function, for closed examples: 32 zero bytes.\<close>

definition zero_hmac :: "string \<Rightarrow> string \<Rightarrow> nat list" where
  "zero_hmac secret input = replicate 32 0"

definition example_request :: edge_request where
  "example_request =
     \<lparr>er_headers = [EDGE_IP_HEADER \<mapsto> One ''1.2.3.4'', EDGE_TS_HEADER \<mapsto> One ''1000'',
                    EDGE_SIG_HEADER \<mapsto> One (replicate 43 CHR ''A'')],
      er_method = Some ''get'', er_url = Some ''/v1/me?x=1''\<rparr>"

lemma example_request_verifies:
  "verifyEdgeClientIp zero_hmac (\<lambda>_. True) example_request [''k''] 1030 = Inr (Some ''1.2.3.4'', [])"
  by code_simp

theorem signature_not_transferable_witness:
  "map_option edgePath (er_url example_request)
     = map_option edgePath (er_url (example_request\<lparr>er_url := Some ''/v1/me''\<rparr>))"
proof -
  let ?b = "example_request\<lparr>er_url := Some ''/v1/me''\<rparr>"
  have b: "verifyEdgeClientIp zero_hmac (\<lambda>_. True) ?b [''k''] 970 = Inr (Some ''1.2.3.4'', [])"
    by code_simp
  have sg: "only (er_headers example_request) EDGE_SIG_HEADER = only (er_headers ?b) EDGE_SIG_HEADER"
    by simp
  have nc: "request_text example_request = request_text ?b" by code_simp
  show ?thesis
    using signature_not_transferable [OF example_request_verifies b sg nc] by blast
qed

section \<open>Reporting refused signatures\<close>

definition WARN_EVERY_MS :: int where
  "WARN_EVERY_MS = 60000"

text \<open>
  The module's state: refusals not yet reported, in the order of their first occurrence, and when the
  last warning was written; the metric and the log are kept as what was sent to them.
\<close>

record edge_report =
  pending :: "(edge_rejection \<times> nat) list"
  lastWarnAt :: int
  metric :: "edge_rejection list"
  warnings :: "(int \<times> (edge_rejection \<times> nat) list \<times> bool) list"

definition edge_report_init :: edge_report where
  "edge_report_init = \<lparr>pending = [], lastWarnAt = 0, metric = [], warnings = []\<rparr>"

fun bump :: "edge_rejection \<Rightarrow> (edge_rejection \<times> nat) list \<Rightarrow> (edge_rejection \<times> nat) list" where
  "bump r [] = [(r, 1)]"
| "bump r ((x, n) # xs) = (if x = r then (x, n + 1) # xs else (x, n) # bump r xs)"

definition reportEdgeRejection :: "edge_rejection \<Rightarrow> int \<Rightarrow> edge_report \<Rightarrow> edge_report" where
  "reportEdgeRejection reason nowMs st =
     (let st1 = st\<lparr>metric := metric st @ [reason]\<rparr>;
          st2 = st1\<lparr>pending := bump reason (pending st1)\<rparr>
      in if nowMs - lastWarnAt st2 \<ge> WARN_EVERY_MS
         then (let summary = pending st2;
                   hint = (BadSignature \<in> set (map fst summary))
               in st2\<lparr>lastWarnAt := nowMs, pending := [],
                      warnings := warnings st2 @ [(nowMs, summary, hint)]\<rparr>)
         else st2)"

fun report_all :: "(edge_rejection \<times> int) list \<Rightarrow> edge_report \<Rightarrow> edge_report" where
  "report_all [] st = st"
| "report_all ((r, t) # es) st = report_all es (reportEdgeRejection r t st)"

definition tally :: "edge_rejection \<Rightarrow> (edge_rejection \<times> nat) list \<Rightarrow> nat" where
  "tally r xs = sum_list (map snd (filter (\<lambda>(x, _). x = r) xs))"

definition warned_total :: "edge_rejection \<Rightarrow> edge_report \<Rightarrow> nat" where
  "warned_total r st = sum_list (map (\<lambda>(_, s, _). tally r s) (warnings st))"

lemma tally_simps [simp]:
  "tally r [] = 0" "tally r ((x, n) # xs) = (if x = r then n else 0) + tally r xs"
  by (simp_all add: tally_def)

lemma tally_bump [simp]: "tally r (bump x xs) = tally r xs + (if x = r then 1 else 0)"
  by (induction x xs rule: bump.induct) auto

definition report_inv :: "edge_report \<Rightarrow> bool" where
  "report_inv st \<longleftrightarrow>
     (\<forall>r. count_list (metric st) r = warned_total r st + tally r (pending st)) \<and>
     sorted_wrt (\<lambda>(t, _, _) (t', _, _). t + WARN_EVERY_MS \<le> t') (warnings st) \<and>
     (\<forall>w\<in>set (warnings st). fst w \<le> lastWarnAt st)"

lemma reportEdgeRejection_inv: "report_inv st \<Longrightarrow> report_inv (reportEdgeRejection r t st)"
  by (auto simp: report_inv_def reportEdgeRejection_def Let_def warned_total_def sorted_wrt_append
      WARN_EVERY_MS_def split: prod.splits)

lemma report_all_inv: "report_inv st \<Longrightarrow> report_inv (report_all es st)"
  by (induction es st rule: report_all.induct) (auto intro: reportEdgeRejection_inv)

lemma report_all_metric: "metric (report_all es st) = metric st @ map fst es"
  by (induction es st rule: report_all.induct) (auto simp: reportEdgeRejection_def Let_def)

lemma report_init_inv: "report_inv edge_report_init"
  by (simp add: report_inv_def edge_report_init_def warned_total_def)

text \<open>
  No refusal is lost and the log is throttled: after any sequence of refusals, at any times, the
  number of refusals of each reason is what the warnings reported plus what the next warning will
  report, and any two warnings are at least a minute apart.
\<close>

theorem rejection_report_accounts:
  "count_list (map fst es) r
     = warned_total r (report_all es edge_report_init) + tally r (pending (report_all es edge_report_init)) \<and>
   sorted_wrt (\<lambda>(t, _, _) (t', _, _). t + WARN_EVERY_MS \<le> t') (warnings (report_all es edge_report_init))"
  using report_all_inv [OF report_init_inv, of es] report_all_metric [of es edge_report_init]
  by (auto simp: report_inv_def edge_report_init_def)

end
