(* ===== verification/ClientIp.thy ===== *)
theory ClientIp
  imports EdgeClientIp
begin

text \<open>
  \<open>platform-http/src/http/client-ip.ts\<close>: the address of the original client, for access logs and
  rate-limit keys. \<open>resolveClientIp\<close> tries the verified signed edge address, then
  \<open>cf-connecting-ip\<close>, then the socket, then Fastify's own answer; \<open>clientIp\<close> remembers the answer per
  request object.

  The lemmas show which headers can influence the answer and that a header value only ever becomes
  the answer when it is a literal address.
\<close>

record client_request =
  cr_headers :: headers
  cr_ip :: "string option"
  cr_remote :: "string option"
  cr_method :: "string option"
  cr_url :: "string option"

definition UNKNOWN_CLIENT_IP :: string where
  "UNKNOWN_CLIENT_IP = ''unknown''"

definition CF_HEADER :: string where
  "CF_HEADER = ''cf-connecting-ip''"

text \<open>
  The first value of a header; an empty array has none. (\<open>firstHeader\<close> of the source returns
  \<open>undefined\<close> there, as \<open>value[0]\<close> does.)
\<close>

definition firstHeader :: "headers \<Rightarrow> string \<Rightarrow> string option" where
  "firstHeader hs name =
     (case hs name of None \<Rightarrow> None | Some (One v) \<Rightarrow> Some v
      | Some (Many vs) \<Rightarrow> (case vs of [] \<Rightarrow> None | v # _ \<Rightarrow> Some v))"

definition asIp :: "(string \<Rightarrow> bool) \<Rightarrow> string option \<Rightarrow> string option" where
  "asIp is_ip value =
     (case value of None \<Rightarrow> None
      | Some v \<Rightarrow> (let candidate = js_trim v
                   in if candidate \<noteq> '''' \<and> is_ip candidate then Some candidate else None))"

definition edge_view :: "client_request \<Rightarrow> edge_request" where
  "edge_view req = \<lparr>er_headers = cr_headers req, er_method = cr_method req, er_url = cr_url req\<rparr>"

text \<open>
  \<open>signedEdgeIp\<close> for a given configuration (\<open>None\<close>: the feature is off) and time in milliseconds.
  The pair is the address and the rejections reported.
\<close>

definition signedEdgeIp ::
  "(string \<Rightarrow> string \<Rightarrow> nat list) \<Rightarrow> (string \<Rightarrow> bool) \<Rightarrow> client_request \<Rightarrow> string list option \<Rightarrow> int
     \<Rightarrow> edge_error + string option \<times> edge_rejection list" where
  "signedEdgeIp hmac is_ip req config nowMs =
     (case config of None \<Rightarrow> Inr (None, [])
      | Some secrets \<Rightarrow> verifyEdgeClientIp hmac is_ip (edge_view req) secrets (nowMs div 1000))"

definition or_else :: "'a option \<Rightarrow> 'a option \<Rightarrow> 'a option" where
  "or_else a b = (case a of Some x \<Rightarrow> Some x | None \<Rightarrow> b)"

lemma or_else_simps [simp]: "or_else (Some x) b = Some x" "or_else None b = b"
  by (simp_all add: or_else_def)

definition resolveClientIp ::
  "(string \<Rightarrow> string \<Rightarrow> nat list) \<Rightarrow> (string \<Rightarrow> bool) \<Rightarrow> client_request \<Rightarrow> string list option \<Rightarrow> int
     \<Rightarrow> edge_error + string \<times> edge_rejection list" where
  "resolveClientIp hmac is_ip req config nowMs =
     and_then (signedEdgeIp hmac is_ip req config nowMs)
       (\<lambda>(signed, reasons).
          Inr (case or_else signed
                     (or_else (asIp is_ip (firstHeader (cr_headers req) CF_HEADER))
                       (or_else (cr_remote req) (cr_ip req))) of
                 Some a \<Rightarrow> (a, reasons)
               | None \<Rightarrow> (UNKNOWN_CLIENT_IP, reasons)))"

lemma signedEdgeIp_total:
  "\<exists>res reasons. signedEdgeIp hmac is_ip req config nowMs = Inr (res, reasons)"
  using verify_total [of hmac is_ip "edge_view req" "the config" "nowMs div 1000"]
  by (auto simp: signedEdgeIp_def split: option.split)

lemma resolve_total: "\<exists>a reasons. resolveClientIp hmac is_ip req config nowMs = Inr (a, reasons)"
  using signedEdgeIp_total [of hmac is_ip req config nowMs]
  by (auto simp: resolveClientIp_def split: option.split)

text \<open>
  What comes from a header is a literal address: the answer is an address \<open>isIP\<close> accepts, or it
  is the socket's, Fastify's, or the fixed word for an unknown client. Attacker-chosen header text
  never reaches a log line or a cache key.
\<close>

theorem client_ip_literal:
  "\<exists>a reasons. resolveClientIp hmac is_ip req config nowMs = Inr (a, reasons) \<and>
     (is_ip a \<or> cr_remote req = Some a \<or> cr_ip req = Some a \<or> a = UNKNOWN_CLIENT_IP)"
proof -
  obtain res reasons where r: "signedEdgeIp hmac is_ip req config nowMs = Inr (res, reasons)"
    using signedEdgeIp_total by blast
  have "res = Some ip \<Longrightarrow> is_ip ip" for ip
    using r by (auto simp: signedEdgeIp_def verify_accepts_iff split: option.splits)
  moreover have "asIp is_ip v = Some ip \<Longrightarrow> is_ip ip" for v ip
    by (auto simp: asIp_def Let_def split: option.splits if_splits)
  ultimately show ?thesis
    using r by (auto simp: resolveClientIp_def or_else_def split: option.splits)
qed

lemma verify_depends:
  assumes "only (er_headers a) EDGE_IP_HEADER = only (er_headers b) EDGE_IP_HEADER"
    and "only (er_headers a) EDGE_TS_HEADER = only (er_headers b) EDGE_TS_HEADER"
    and "only (er_headers a) EDGE_SIG_HEADER = only (er_headers b) EDGE_SIG_HEADER"
    and "er_method a = er_method b" and "er_url a = er_url b"
  shows "verifyEdgeClientIp hmac is_ip a secrets now = verifyEdgeClientIp hmac is_ip b secrets now"
  by (simp only: verifyEdgeClientIp_def assms)

definition same_on :: "string list \<Rightarrow> headers \<Rightarrow> headers \<Rightarrow> bool" where
  "same_on names hs hs' \<longleftrightarrow> (\<forall>n\<in>set names. hs n = hs' n)"

text \<open>
  C5. Only four headers can influence the answer: a request that differs in any other header, an
  \<open>x-forwarded-for\<close> chain included, resolves to the same address and reports the same rejections;
  with the feature off, \<open>cf-connecting-ip\<close> is the only one.
\<close>

theorem client_ip_noninterference:
  assumes "same_on (if config = None then [CF_HEADER]
                    else [EDGE_IP_HEADER, EDGE_TS_HEADER, EDGE_SIG_HEADER, CF_HEADER])
             (cr_headers a) hs"
  shows "resolveClientIp hmac is_ip (a\<lparr>cr_headers := hs\<rparr>) config nowMs
       = resolveClientIp hmac is_ip a config nowMs"
proof -
  have cf: "firstHeader hs CF_HEADER = firstHeader (cr_headers a) CF_HEADER"
    using assms by (simp add: firstHeader_def same_on_def split: if_splits)
  have "signedEdgeIp hmac is_ip (a\<lparr>cr_headers := hs\<rparr>) config nowMs = signedEdgeIp hmac is_ip a config nowMs"
  proof (cases config)
    case (Some secrets)
    then have "only hs n = only (cr_headers a) n"
      if "n \<in> {EDGE_IP_HEADER, EDGE_TS_HEADER, EDGE_SIG_HEADER}" for n
      using assms that by (auto simp: only_def same_on_def)
    then show ?thesis
      by (simp add: Some signedEdgeIp_def) (intro verify_depends, simp_all add: edge_view_def)
  qed (simp add: signedEdgeIp_def)
  with cf show ?thesis by (simp add: resolveClientIp_def)
qed

theorem client_ip_noninterference_witness:
  "resolveClientIp zero_hmac (\<lambda>_. True)
     \<lparr>cr_headers = [''x-forwarded-for'' \<mapsto> One ''6.6.6.6''], cr_ip = None, cr_remote = Some ''10.0.0.1'',
      cr_method = None, cr_url = None\<rparr> None 0 = Inr (''10.0.0.1'', [])"
proof -
  let ?a = "\<lparr>cr_headers = Map.empty, cr_ip = None, cr_remote = Some ''10.0.0.1'',
      cr_method = None, cr_url = None\<rparr>"
  have s: "same_on (if (None::string list option) = None then [CF_HEADER]
      else [EDGE_IP_HEADER, EDGE_TS_HEADER, EDGE_SIG_HEADER, CF_HEADER])
      (cr_headers ?a) [''x-forwarded-for'' \<mapsto> One ''6.6.6.6'']"
    by (simp add: same_on_def CF_HEADER_def)
  have "resolveClientIp zero_hmac (\<lambda>_. True) ?a None 0 = Inr (''10.0.0.1'', [])" by code_simp
  with client_ip_noninterference [OF s, of zero_hmac "\<lambda>_. True" 0] show ?thesis by simp
qed

section \<open>One answer per request\<close>

text \<open>
  The weak map from request objects to their answer, requests named by numbers, together with the
  rejections reported so far. Calls with test options bypass it.
\<close>

record resolved_state =
  resolved :: "nat \<Rightarrow> string option"
  reported :: "edge_rejection list"

definition clientIp ::
  "(string \<Rightarrow> string \<Rightarrow> nat list) \<Rightarrow> (string \<Rightarrow> bool) \<Rightarrow> bool \<Rightarrow> nat \<Rightarrow> client_request \<Rightarrow> string list option \<Rightarrow> int
     \<Rightarrow> resolved_state \<Rightarrow> edge_error + string \<times> resolved_state" where
  "clientIp hmac is_ip cacheable rid req config nowMs st =
     (case (if cacheable then resolved st rid else None) of
        Some known \<Rightarrow> Inr (known, st)
      | None \<Rightarrow>
          and_then (resolveClientIp hmac is_ip req config nowMs)
            (\<lambda>(ip, reasons).
               (let st1 = st\<lparr>reported := reported st @ reasons\<rparr>
                in Inr (ip, if cacheable then st1\<lparr>resolved := (resolved st1)(rid \<mapsto> ip)\<rparr> else st1))))"

text \<open>A caller: the request it asks about, the request's content and the configuration and time it sees.\<close>

type_synonym ip_call = "nat \<times> client_request \<times> string list option \<times> int"

fun clientIp_calls ::
  "(string \<Rightarrow> string \<Rightarrow> nat list) \<Rightarrow> (string \<Rightarrow> bool) \<Rightarrow> ip_call list \<Rightarrow> resolved_state
     \<Rightarrow> edge_error + (nat \<times> string) list \<times> resolved_state" where
  "clientIp_calls hmac is_ip [] st = Inr ([], st)"
| "clientIp_calls hmac is_ip ((rid, req, cfg, now) # cs) st =
     and_then (clientIp hmac is_ip True rid req cfg now st)
       (\<lambda>(ip, st1). and_then (clientIp_calls hmac is_ip cs st1)
          (\<lambda>(ips, st2). Inr ((rid, ip) # ips, st2)))"

lemma clientIp_step:
  assumes "clientIp hmac is_ip True rid req cfg now st = Inr (ip, st1)"
  shows "resolved st1 = (resolved st)(rid \<mapsto> ip) \<and> (\<forall>ip'. resolved st rid = Some ip' \<longrightarrow> ip = ip' \<and> st1 = st) \<and>
    length (reported st1) \<le> length (reported st) + (if resolved st rid = None then 1 else 0)"
proof (cases "resolved st rid")
  case None
  then obtain reasons where "resolveClientIp hmac is_ip req cfg now = Inr (ip, reasons)"
    and st1: "st1 = st\<lparr>reported := reported st @ reasons, resolved := (resolved st)(rid \<mapsto> ip)\<rparr>"
    using assms by (auto simp: clientIp_def res_simps Let_def)
  then obtain res where "signedEdgeIp hmac is_ip req cfg now = Inr (res, reasons)"
    by (auto simp: resolveClientIp_def res_simps split: option.splits)
  then have "length reasons \<le> 1"
    using verify_total [of hmac is_ip "edge_view req" "the cfg" "now div 1000"]
    by (auto simp: signedEdgeIp_def split: option.splits)
  with st1 None show ?thesis by simp
qed (use assms in \<open>auto simp: clientIp_def\<close>)

lemma clientIp_calls_inv:
  "clientIp_calls hmac is_ip cs st = Inr (ips, st') \<Longrightarrow>
     (\<forall>rid ip. (rid, ip) \<in> set ips \<longrightarrow> resolved st' rid = Some ip) \<and>
     (\<forall>rid ip. resolved st rid = Some ip \<longrightarrow> resolved st' rid = Some ip) \<and>
     length (reported st') \<le> length (reported st) +
       card (fst ` set cs - dom (resolved st)) \<and>
     dom (resolved st') = dom (resolved st) \<union> fst ` set cs"
proof (induction cs arbitrary: st ips)
  case Nil
  then show ?case by simp
next
  case (Cons c cs)
  obtain rid req cfg now where c: "c = (rid, req, cfg, now)" by (cases c)
  with Cons.prems obtain ip st1 ips1 where
    1: "clientIp hmac is_ip True rid req cfg now st = Inr (ip, st1)"
    and 2: "clientIp_calls hmac is_ip cs st1 = Inr (ips1, st')" and ips: "ips = (rid, ip) # ips1"
    by (auto simp: res_simps)
  note s = clientIp_step [OF 1] and IH = Cons.IH [OF 2]
  note IH1 = IH [THEN conjunct1] and IH2 = IH [THEN conjunct2, THEN conjunct1]
  note IH3 = IH [THEN conjunct2, THEN conjunct2, THEN conjunct1]
    and IH4 = IH [THEN conjunct2, THEN conjunct2, THEN conjunct2]
  have st1: "resolved st1 = (resolved st)(rid \<mapsto> ip)" using s by blast
  have l1: "length (reported st1) \<le> length (reported st) + (if resolved st rid = None then 1 else 0)"
    using s by blast
  from st1 have dom1: "dom (resolved st1) = insert rid (dom (resolved st))" by auto
  have "card (fst ` set (c # cs) - dom (resolved st)) =
      card (fst ` set cs - dom (resolved st1)) + (if resolved st rid = None then 1 else 0)"
  proof (cases "resolved st rid")
    case None
    then have "fst ` set (c # cs) - dom (resolved st)
        = insert rid (fst ` set cs - dom (resolved st1))"
      using dom1 c by auto
    then show ?thesis using None dom1 by (simp add: card_insert_if)
  next
    case (Some x)
    then have "fst ` set (c # cs) - dom (resolved st) = fst ` set cs - dom (resolved st1)"
      using dom1 c by auto
    with Some show ?thesis by simp
  qed
  moreover have "length (reported st') \<le> length (reported st1) + card (fst ` set cs - dom (resolved st1))"
    by (rule IH3)
  ultimately have len: "length (reported st') \<le> length (reported st) + card (fst ` set (c # cs) - dom (resolved st))"
    using l1 by linarith
  have keep: "resolved st1 r = Some x" if "resolved st r = Some x" for r x
  proof (cases "r = rid")
    case True
    have "resolved st rid = Some x \<longrightarrow> ip = x" using s by blast
    with True that st1 show ?thesis by simp
  qed (simp add: st1 that)
  have "resolved st1 rid = Some ip" by (simp add: st1)
  then have "\<forall>r x. (r, x) \<in> set ips \<longrightarrow> resolved st' r = Some x"
    using IH1 IH2 ips by auto
  moreover have "\<forall>r x. resolved st r = Some x \<longrightarrow> resolved st' r = Some x"
    using IH2 keep by metis
  moreover have "dom (resolved st') = dom (resolved st) \<union> fst ` set (c # cs)"
    using IH4 dom1 c by auto
  ultimately show ?case using len by blast
qed

text \<open>
  The guard, the access log, idempotency and the identity mount agree: over any sequence of calls,
  all answers for one request are the same, and at most one rejection is reported per request, however
  many callers asked and whatever the clock did in between.
\<close>

theorem client_ip_agrees_per_request:
  assumes "clientIp_calls hmac is_ip cs \<lparr>resolved = Map.empty, reported = []\<rparr> = Inr (ips, st)"
    and "(rid, ip) \<in> set ips" and "(rid, ip') \<in> set ips"
  shows "ip = ip' \<and> length (reported st) \<le> card (fst ` set cs)"
proof -
  have "resolved st rid = Some ip" and "resolved st rid = Some ip'"
    using clientIp_calls_inv [OF assms(1)] assms(2,3) by blast+
  moreover have "length (reported st) \<le> card (fst ` set cs)"
    using clientIp_calls_inv [OF assms(1)] by simp
  ultimately show ?thesis by simp
qed

theorem client_ip_agrees_per_request_witness:
  "\<exists>ips st. clientIp_calls zero_hmac (\<lambda>_. True)
     [(1, \<lparr>cr_headers = [EDGE_IP_HEADER \<mapsto> One ''1.1.1.1''], cr_ip = None, cr_remote = Some ''9.9.9.9'',
           cr_method = None, cr_url = None\<rparr>, Some [''k''], 0),
      (1, \<lparr>cr_headers = Map.empty, cr_ip = None, cr_remote = None, cr_method = None, cr_url = None\<rparr>, None, 5)]
     \<lparr>resolved = Map.empty, reported = []\<rparr> = Inr (ips, st) \<and>
     ips = [(1, ''9.9.9.9''), (1, ''9.9.9.9'')] \<and> length (reported st) \<le> 1"
proof -
  let ?cs = "[(1, \<lparr>cr_headers = [EDGE_IP_HEADER \<mapsto> One ''1.1.1.1''], cr_ip = None,
           cr_remote = Some ''9.9.9.9'', cr_method = None, cr_url = None\<rparr>, Some [''k''], 0),
      (1, \<lparr>cr_headers = Map.empty, cr_ip = None, cr_remote = None, cr_method = None, cr_url = None\<rparr>,
        None, 5)] :: ip_call list"
  obtain st where r: "clientIp_calls zero_hmac (\<lambda>_. True) ?cs \<lparr>resolved = Map.empty, reported = []\<rparr>
      = Inr ([(1, ''9.9.9.9''), (1, ''9.9.9.9'')], st)"
    by (simp add: clientIp_def resolveClientIp_def signedEdgeIp_def verifyEdgeClientIp_def only_def
        edge_view_def EDGE_IP_HEADER_def EDGE_TS_HEADER_def EDGE_SIG_HEADER_def firstHeader_def
        CF_HEADER_def asIp_def Let_def)
  have "length (reported st) \<le> card (fst ` set ?cs)"
    using client_ip_agrees_per_request [OF r, of 1 "''9.9.9.9''" "''9.9.9.9''"] by auto
  with r show ?thesis by auto
qed

end
