(* ===== verification/EdgeWorker.thy ===== *)
theory EdgeWorker
  imports ClientIp
begin

text \<open>
  \<open>platform-http/src/http/edge.ts\<close>: the Worker side of the signed edge address. \<open>signEdgeClientIp\<close>
  makes the three headers, \<open>stripEdgeHeaders\<close> and \<open>applyEdgeClientIp\<close> edit the headers of the request
  the Worker sends, \<open>edgeForwardRequest\<close> builds that request. The lemmas show that a visitor's own edge
  headers never survive and that what the Worker signs is what the API of \<open>EdgeClientIp\<close> accepts.

  A \<open>Headers\<close> object is the list of its names and values in iteration order: names lower-cased, one
  entry per name, as the class keeps them. \<open>hmac\<close> is the HMAC-SHA256 of WebCrypto.
\<close>

type_synonym header_list = "(string \<times> string) list"

text \<open>The three mutators of the \<open>Headers\<close> class that are used.\<close>

definition headers_delete :: "string \<Rightarrow> header_list \<Rightarrow> header_list" where
  "headers_delete name hs = filter (\<lambda>(n, _). n \<noteq> name) hs"

fun headers_set :: "string \<Rightarrow> string \<Rightarrow> header_list \<Rightarrow> header_list" where
  "headers_set name v [] = [(name, v)]"
| "headers_set name v ((n, w) # hs) = (if n = name then (n, v) # hs else (n, w) # headers_set name v hs)"

fun headers_append :: "string \<Rightarrow> string \<Rightarrow> header_list \<Rightarrow> header_list" where
  "headers_append name v [] = [(name, v)]"
| "headers_append name v ((n, w) # hs) =
     (if n = name then (n, w @ '', '' @ v) # hs else (n, w) # headers_append name v hs)"

definition starts_with :: "string \<Rightarrow> string \<Rightarrow> bool" where
  "starts_with p s \<longleftrightarrow> take (length p) s = p"

datatype sign_error = SecretShort | AddressNotIp | Signing edge_error

definition signEdgeClientIp ::
  "(string \<Rightarrow> string \<Rightarrow> nat list) \<Rightarrow> string \<Rightarrow> string \<Rightarrow> string \<Rightarrow> string \<Rightarrow> int \<Rightarrow> sign_error + header_list" where
  "signEdgeClientIp hmac secret0 ip method path nowMs =
     (let secret = normalizeEdgeSecret secret0
      in if length secret < EDGE_SECRET_MIN_LENGTH then Inl SecretShort
         else if \<not> isEdgeIpText ip then Inl AddressNotIp
         else (let ts = nowMs div 1000
               in case edgeSigningString ts ip method path of
                    Inl e \<Rightarrow> Inl (Signing e)
                  | Inr text \<Rightarrow>
                      Inr [(EDGE_IP_HEADER, ip), (EDGE_TS_HEADER, ts_text ts),
                           (EDGE_SIG_HEADER, base64url (hmac secret text))]))"

definition stripEdgeHeaders :: "header_list \<Rightarrow> header_list" where
  "stripEdgeHeaders hs =
     foldl (\<lambda>acc n. if starts_with EDGE_HEADER_PREFIX (map to_lower n) then headers_delete n acc else acc)
       hs (map fst hs)"

definition applyEdgeClientIp ::
  "(string \<Rightarrow> string \<Rightarrow> nat list) \<Rightarrow> header_list \<Rightarrow> string \<Rightarrow> string option \<Rightarrow> string \<Rightarrow> string \<Rightarrow> int
     \<Rightarrow> sign_error + bool \<times> header_list" where
  "applyEdgeClientIp hmac hs0 secret ip method path nowMs =
     (let hs = stripEdgeHeaders hs0
      in case ip of
           None \<Rightarrow> Inr (False, hs)
         | Some a \<Rightarrow>
             if a = '''' \<or> \<not> isEdgeIpText a then Inr (False, hs)
             else and_then (signEdgeClientIp hmac secret a method path nowMs)
                    (\<lambda>signed. Inr (True, foldl (\<lambda>acc (n, v). headers_set n v acc) hs signed)))"

definition EDGE_FORWARD_HEADERS :: "string list" where
  "EDGE_FORWARD_HEADERS =
     [''accept'', ''accept-language'', ''authorization'', ''content-type'', ''cookie'', ''idempotency-key'',
      ''if-match'', ''if-modified-since'', ''if-none-match'', ''if-unmodified-since'', ''origin'', ''range'',
      ''referer'', ''traceparent'', ''tracestate'', ''user-agent'', ''x-correlation-id'', ''x-requested-with'']"

text \<open>The request the Worker received and the one it sends, as far as they are read and built.\<close>

record worker_request =
  wr_method :: string
  wr_headers :: header_list
  wr_body :: "string option"

record edge_options =
  eo_secret :: string
  eo_pathname :: string
  eo_search :: string
  eo_ip :: "string option option"
  eo_forward :: "string list"
  eo_now :: int

datatype redirect_mode = Manual | Follow

record forwarded_request =
  fw_method :: string
  fw_pathname :: string
  fw_search :: string
  fw_headers :: header_list
  fw_redirect :: redirect_mode
  fw_body :: "string option"

definition forward_allowed :: "edge_options \<Rightarrow> string \<Rightarrow> bool" where
  "forward_allowed opts n \<longleftrightarrow>
     map to_lower n \<in> set (map (map to_lower) (EDGE_FORWARD_HEADERS @ eo_forward opts)) \<and>
     \<not> starts_with EDGE_HEADER_PREFIX (map to_lower n)"

definition edgeForwardRequest ::
  "(string \<Rightarrow> string \<Rightarrow> nat list) \<Rightarrow> worker_request \<Rightarrow> edge_options \<Rightarrow> sign_error + forwarded_request" where
  "edgeForwardRequest hmac req opts =
     (let hs = foldl (\<lambda>acc (n, v). if forward_allowed opts n then headers_append n v acc else acc)
                 [] (wr_headers req);
          ip = (case eo_ip opts of None \<Rightarrow> map_of (wr_headers req) CF_HEADER | Some given \<Rightarrow> given)
      in and_then
           (applyEdgeClientIp hmac hs (eo_secret opts) ip (wr_method req) (eo_pathname opts) (eo_now opts))
           (\<lambda>(signed, headers).
              (let hasBody = (wr_method req \<noteq> ''GET'' \<and> wr_method req \<noteq> ''HEAD'' \<and> wr_body req \<noteq> None)
               in Inr \<lparr>fw_method = wr_method req, fw_pathname = eo_pathname opts, fw_search = eo_search opts,
                       fw_headers = headers, fw_redirect = Manual,
                       fw_body = (if hasBody then wr_body req else None)\<rparr>)))"

definition forwardToOrigin ::
  "(string \<Rightarrow> string \<Rightarrow> nat list) \<Rightarrow> (forwarded_request \<Rightarrow> 'r) \<Rightarrow> worker_request \<Rightarrow> edge_options
     \<Rightarrow> sign_error + 'r" where
  "forwardToOrigin hmac fetcher req opts =
     and_then (edgeForwardRequest hmac req opts) (\<lambda>r. Inr (fetcher r))"

section \<open>Lemmas on header lists\<close>

definition is_edge_name :: "string \<Rightarrow> bool" where
  "is_edge_name n \<longleftrightarrow> starts_with EDGE_HEADER_PREFIX (map to_lower n)"

lemma strip_fold:
  "foldl (\<lambda>acc n. if starts_with EDGE_HEADER_PREFIX (map to_lower n) then headers_delete n acc else acc) hs ns
     = filter (\<lambda>(n, _). \<not> (is_edge_name n \<and> n \<in> set ns)) hs"
proof (induction ns arbitrary: hs)
  case Nil
  then show ?case by simp
next
  case (Cons n ns)
  then show ?case
    by (auto simp: headers_delete_def is_edge_name_def intro!: filter_cong)
qed

lemma stripEdgeHeaders_filter: "stripEdgeHeaders hs = filter (\<lambda>(n, _). \<not> is_edge_name n) hs"
  by (force simp: stripEdgeHeaders_def strip_fold intro!: filter_cong)

lemma set_headers_set:
  "(n, v) \<in> set (headers_set name w hs) \<Longrightarrow> (n, v) = (name, w) \<or> (n, v) \<in> set hs"
  by (induction name w hs rule: headers_set.induct) (auto split: if_splits)

lemma names_headers_set: "fst ` set (headers_set name w hs) = insert name (fst ` set hs)"
  by (induction name w hs rule: headers_set.induct) auto

lemma names_headers_append: "fst ` set (headers_append name w hs) = insert name (fst ` set hs)"
  by (induction name w hs rule: headers_append.induct) auto

lemma map_of_headers_set: "map_of (headers_set name w hs) = (map_of hs)(name \<mapsto> w)"
  by (induction name w hs rule: headers_set.induct) auto

lemma forward_fold_names:
  "fst ` set (foldl (\<lambda>acc (n, v). if forward_allowed opts n then headers_append n v acc else acc) acc hs)
     \<subseteq> fst ` set acc \<union> {n \<in> fst ` set hs. forward_allowed opts n}"
proof (induction hs arbitrary: acc)
  case Nil
  then show ?case by simp
next
  case (Cons h hs)
  obtain n v where h: "h = (n, v)" by (cases h)
  show ?case
    using Cons.IH [of "if forward_allowed opts n then headers_append n v acc else acc"]
    by (cases "forward_allowed opts n") (auto simp: h names_headers_append)
qed

lemmas edge_names = EDGE_IP_HEADER_def EDGE_TS_HEADER_def EDGE_SIG_HEADER_def

lemma signed_trio:
  "signEdgeClientIp hmac secret ip method path nowMs = Inr hs \<longleftrightarrow>
     EDGE_SECRET_MIN_LENGTH \<le> length (normalizeEdgeSecret secret) \<and> isEdgeIpText ip \<and>
     (\<exists>text. edgeSigningString (nowMs div 1000) ip method path = Inr text \<and>
        hs = [(EDGE_IP_HEADER, ip), (EDGE_TS_HEADER, ts_text (nowMs div 1000)),
              (EDGE_SIG_HEADER, base64url (hmac (normalizeEdgeSecret secret) text))])"
  by (auto simp: signEdgeClientIp_def Let_def not_less split: sum.splits)

lemma applyEdge_cases:
  assumes "applyEdgeClientIp hmac hs secret ip method path nowMs = Inr (signed, hs')"
  obtains (unsigned) "\<not> signed" "hs' = stripEdgeHeaders hs" "ip = None \<or> (\<exists>a. ip = Some a \<and> \<not> isEdgeIpText a)"
  | (signed) a inp where "signed" "ip = Some a" "isEdgeIpText a"
      "EDGE_SECRET_MIN_LENGTH \<le> length (normalizeEdgeSecret secret)"
      "edgeSigningString (nowMs div 1000) a method path = Inr inp"
      "hs' = headers_set EDGE_SIG_HEADER (base64url (hmac (normalizeEdgeSecret secret) inp))
               (headers_set EDGE_TS_HEADER (ts_text (nowMs div 1000))
                 (headers_set EDGE_IP_HEADER a (stripEdgeHeaders hs)))"
  using assms
  by (auto simp: applyEdgeClientIp_def Let_def res_simps signed_trio isEdgeIpText_def
      split: option.splits if_splits)

section \<open>What the Worker sends\<close>

definition visitor_ip :: "worker_request \<Rightarrow> edge_options \<Rightarrow> string option" where
  "visitor_ip req opts = (case eo_ip opts of None \<Rightarrow> map_of (wr_headers req) CF_HEADER | Some given \<Rightarrow> given)"

lemma forwarded_headers:
  assumes "edgeForwardRequest hmac req opts = Inr fw"
  obtains hs sgn where
    "applyEdgeClientIp hmac hs (eo_secret opts) (visitor_ip req opts) (wr_method req) (eo_pathname opts)
       (eo_now opts) = Inr (sgn, fw_headers fw)"
    "\<forall>n\<in>fst ` set hs. forward_allowed opts n"
    "fw_method fw = wr_method req" "fw_pathname fw = eo_pathname opts" "fw_search fw = eo_search opts"
    "fw_redirect fw = Manual"
proof -
  define hs where "hs = foldl (\<lambda>acc (n, v). if forward_allowed opts n then headers_append n v acc else acc)
    [] (wr_headers req)"
  have "\<forall>n\<in>fst ` set hs. forward_allowed opts n"
    using forward_fold_names [of opts "[]" "wr_headers req"] by (auto simp: hs_def)
  moreover obtain sgn where
    "applyEdgeClientIp hmac hs (eo_secret opts) (visitor_ip req opts) (wr_method req) (eo_pathname opts)
       (eo_now opts) = Inr (sgn, fw_headers fw)"
    "fw_method fw = wr_method req" "fw_pathname fw = eo_pathname opts" "fw_search fw = eo_search opts"
    "fw_redirect fw = Manual"
    using assms by (auto simp: edgeForwardRequest_def Let_def res_simps hs_def visitor_ip_def)
  ultimately show ?thesis using that by blast
qed

lemma set_strip: "set (stripEdgeHeaders hs) = {(n, v) \<in> set hs. \<not> is_edge_name n}"
  by (auto simp: stripEdgeHeaders_filter)


definition example_worker_request :: worker_request where
  "example_worker_request =
     \<lparr>wr_method = ''POST'', wr_headers = [(''accept'', ''*/*''), (CF_HEADER, ''1.2.3.4''),
        (''x-qnsc-edge-ip'', ''6.6.6.6''), (''x-real-ip'', ''6.6.6.6'')], wr_body = Some ''{}''\<rparr>"

definition example_edge_options :: edge_options where
  "example_edge_options =
     \<lparr>eo_secret = ''0123456789abcdef0123456789abcdef'', eo_pathname = ''/v1/me'', eo_search = ''?x=1'',
      eo_ip = None, eo_forward = [], eo_now = 1000000\<rparr>"

definition example_forwarded :: forwarded_request where
  "example_forwarded =
     \<lparr>fw_method = ''POST'', fw_pathname = ''/v1/me'', fw_search = ''?x=1'',
      fw_headers = [(''accept'', ''*/*''), (EDGE_IP_HEADER, ''1.2.3.4''), (EDGE_TS_HEADER, ''1000''),
        (EDGE_SIG_HEADER, replicate 43 CHR ''A'')],
      fw_redirect = Manual, fw_body = Some ''{}''\<rparr>"

lemma example_forward:
  "edgeForwardRequest zero_hmac example_worker_request example_edge_options = Inr example_forwarded"
  by code_simp


section \<open>What the API makes of it\<close>

definition header_map :: "header_list \<Rightarrow> headers" where
  "header_map hs = map_option One \<circ> map_of hs"

definition received :: "forwarded_request \<Rightarrow> edge_request" where
  "received fw = \<lparr>er_headers = header_map (fw_headers fw), er_method = Some (fw_method fw),
                 er_url = Some (fw_pathname fw @ fw_search fw)\<rparr>"

lemma only_header_map: "only (header_map hs) n = map_of hs n"
  by (simp add: only_def header_map_def split: option.split)

lemma ts_text_ok: "1 \<le> ts \<Longrightarrow> ts < 10 ^ 12 \<Longrightarrow> ts_ok (ts_text ts) \<and> undec (ts_text ts) = nat ts"
proof -
  assume a: "1 \<le> ts" "ts < 10 ^ 12"
  have "length (dec (nat ts)) \<le> 12"
    using a by (intro length_dec_bound) (auto simp: nat_less_iff)
  moreover have "hd (dec (nat ts)) \<noteq> CHR ''0''" using a by (intro hd_dec) simp
  moreover have "list_all is_digit (dec (nat ts))" using dec_digits by (auto simp: list_all_iff)
  moreover have "is_digit (hd (dec (nat ts)))" using dec_digits by (meson dec_not_Nil hd_in_set)
  ultimately show ?thesis by (simp add: ts_ok_def ts_text_def)
qed

text \<open>
  C3. The two ends agree: a request the Worker forwards for a visitor with a literal address is
  accepted by the API with exactly that address, for every method and path it signs, as long as the API
  holds the same secret (surrounding white space aside) and its clock is within a minute; the query
  string, which is not signed, does not matter.
\<close>

theorem forwarded_request_verifies:
  assumes fwd: "edgeForwardRequest hmac req opts = Inr fw"
    and ip: "visitor_ip req opts = Some a" "isEdgeIpText a" "is_ip a"
    and secret: "normalizeEdgeSecret (eo_secret opts) \<in> set secrets"
    and digest: "\<And>x. length (hmac (normalizeEdgeSecret (eo_secret opts)) x) = 32 \<and>
                     bytes (hmac (normalizeEdgeSecret (eo_secret opts)) x)"
    and time: "1 \<le> eo_now opts div 1000" "eo_now opts div 1000 < 10 ^ 12"
      "\<bar>now - eo_now opts div 1000\<bar> \<le> EDGE_MAX_SKEW_SECONDS"
    and path: "eo_pathname opts \<noteq> []" "\<forall>c\<in>set (eo_pathname opts). c \<noteq> CHR ''?'' \<and> c \<noteq> CHR ''#''"
      "eo_search opts = [] \<or> hd (eo_search opts) = CHR ''?''"
  shows "verifyEdgeClientIp hmac is_ip (received fw) secrets now = Inr (Some a, [])"
proof -
  let ?k = "normalizeEdgeSecret (eo_secret opts)" and ?ts = "eo_now opts div 1000"
  obtain hs sgn where
    ap: "applyEdgeClientIp hmac hs (eo_secret opts) (visitor_ip req opts) (wr_method req) (eo_pathname opts)
       (eo_now opts) = Inr (sgn, fw_headers fw)"
    and fw: "fw_method fw = wr_method req" "fw_pathname fw = eo_pathname opts" "fw_search fw = eo_search opts"
    using forwarded_headers [OF fwd] by metis
  from ap obtain inp where
    inp: "edgeSigningString ?ts a (wr_method req) (eo_pathname opts) = Inr inp"
    and hd: "map_of (fw_headers fw) = (map_of (stripEdgeHeaders hs))
        (EDGE_IP_HEADER \<mapsto> a, EDGE_TS_HEADER \<mapsto> ts_text ?ts, EDGE_SIG_HEADER \<mapsto> base64url (hmac ?k inp))"
    using ip by (cases rule: applyEdge_cases) (auto simp: map_of_headers_set)
  obtain u where u: "edgeMethod (wr_method req) = Some u"
    and tx: "inp = signed_text (ts_text ?ts) a u (edgePath (eo_pathname opts))"
    using inp by (auto simp: edgeSigningString_Inr signed_text_def)
  have p: "edgePath (eo_pathname opts @ eo_search opts) = edgePath (eo_pathname opts)"
    using path edgePath_query [of "eo_pathname opts" "eo_search opts"]
      edgePath_query [of "eo_pathname opts" "[]"] by auto
  have h: "only (er_headers (received fw)) EDGE_IP_HEADER = Some a"
    "only (er_headers (received fw)) EDGE_TS_HEADER = Some (ts_text ?ts)"
    "only (er_headers (received fw)) EDGE_SIG_HEADER = Some (base64url (hmac ?k inp))"
    by (simp_all add: received_def only_header_map hd edge_names)
  have sg: "sig_ok (base64url (hmac ?k inp))"
    using digest [of inp] base64url_alphabet by (auto simp: sig_ok_def length_base64url list_all_iff)
  have ts: "ts_ok (ts_text ?ts)" "int (undec (ts_text ?ts)) = ?ts"
    using ts_text_ok [OF time(1,2)] time(1) by auto
  have "from_base64url (base64url (hmac ?k inp)) = hmac ?k (signed_text (ts_text ?ts) a u
      (edgePath (eo_pathname opts @ eo_search opts)))"
    using digest [of inp] by (simp add: p tx)
  then show ?thesis
    unfolding verify_accepts_iff using h sg ts ip u time(3) secret
    by (auto simp: received_def fw)
qed

theorem forwarded_request_verifies_witness:
  "verifyEdgeClientIp zero_hmac (\<lambda>_. True) (received example_forwarded)
     [''0123456789abcdef0123456789abcdef''] 1030 = Inr (Some ''1.2.3.4'', [])"
proof (rule forwarded_request_verifies [OF example_forward])
  show "visitor_ip example_worker_request example_edge_options = Some ''1.2.3.4''" by code_simp
  show "isEdgeIpText ''1.2.3.4''" by code_simp
  show "normalizeEdgeSecret (eo_secret example_edge_options) \<in> set [''0123456789abcdef0123456789abcdef'']"
    by code_simp
  show "length (zero_hmac (normalizeEdgeSecret (eo_secret example_edge_options)) x) = 32 \<and>
      bytes (zero_hmac (normalizeEdgeSecret (eo_secret example_edge_options)) x)" for x
    by (simp add: zero_hmac_def bytes_def)
qed (simp_all add: example_edge_options_def EDGE_MAX_SKEW_SECONDS_def)

end
