(* ===== verification/Valkey.thy ===== *)
theory Valkey
  imports Prelude
begin

text \<open>
  The interface of the Valkey/Redis server the cache talks to. The server is not part of the
  repository: it is a record of the commands the code issues, an argument of every definition that
  issues one, and the locales state what the code relies on, which is the documented behaviour of the
  commands. Every command takes the server's clock in milliseconds.

  \<open>valkey_strings\<close> holds the laws of the string commands (a value is readable until its deadline and
  not after, other keys are untouched), \<open>valkey_zsets\<close> those of the sorted sets, \<open>valkey_server\<close> both.
  \<open>mem_valkey\<close> is a store with deadlines that satisfies all of them; it interprets the locales and is
  the concrete server of the closed examples.
\<close>

type_synonym msec = nat

text \<open>
  \<open>vk_set\<close> is \<open>SET key value\<close>, with \<open>PX ttl\<close> for \<open>Some ttl\<close>; \<open>vk_setnx\<close> is \<open>SET key value PX ttl NX\<close>,
  answering whether it replied \<open>OK\<close>; \<open>vk_del\<close> and \<open>vk_pexpire\<close> answer the count the server replies.
  \<open>vk_zmembers\<close> is \<open>ZRANGE key 0 -1 WITHSCORES\<close>, \<open>vk_zexpire\<close> is \<open>PEXPIRE\<close> on a sorted set and
  \<open>vk_zremupto\<close> is \<open>ZREMRANGEBYSCORE key -inf max\<close>.
\<close>

record 's valkey =
  vk_get :: "msec \<Rightarrow> string \<Rightarrow> 's \<Rightarrow> string option"
  vk_set :: "msec \<Rightarrow> string \<Rightarrow> string \<Rightarrow> msec option \<Rightarrow> 's \<Rightarrow> 's"
  vk_setnx :: "msec \<Rightarrow> string \<Rightarrow> string \<Rightarrow> msec \<Rightarrow> 's \<Rightarrow> bool \<times> 's"
  vk_del :: "msec \<Rightarrow> string \<Rightarrow> 's \<Rightarrow> nat \<times> 's"
  vk_pexpire :: "msec \<Rightarrow> string \<Rightarrow> msec \<Rightarrow> 's \<Rightarrow> nat \<times> 's"
  vk_zmembers :: "msec \<Rightarrow> string \<Rightarrow> 's \<Rightarrow> (string \<times> int) list"
  vk_zremupto :: "msec \<Rightarrow> string \<Rightarrow> int \<Rightarrow> 's \<Rightarrow> 's"
  vk_zadd :: "msec \<Rightarrow> string \<Rightarrow> int \<Rightarrow> string \<Rightarrow> 's \<Rightarrow> 's"
  vk_zexpire :: "msec \<Rightarrow> string \<Rightarrow> msec \<Rightarrow> 's \<Rightarrow> 's"
  vk_zrem :: "msec \<Rightarrow> string \<Rightarrow> string \<Rightarrow> 's \<Rightarrow> 's"

text \<open>Inserting a member into the list \<open>ZRANGE\<close> gives, ordered by score (ties by insertion).\<close>

fun zinsert :: "int \<Rightarrow> string \<Rightarrow> (string \<times> int) list \<Rightarrow> (string \<times> int) list" where
  "zinsert sc m [] = [(m, sc)]"
| "zinsert sc m ((m', sc') # zs) =
     (if sc < sc' then (m, sc) # (m', sc') # zs else (m', sc') # zinsert sc m zs)"

abbreviation zsorted :: "(string \<times> int) list \<Rightarrow> bool" where
  "zsorted zs \<equiv> sorted (map snd zs)"

lemma set_zinsert [simp]: "set (zinsert sc m zs) = insert (m, sc) (set zs)"
  by (induction sc m zs rule: zinsert.induct) auto

lemma length_zinsert [simp]: "length (zinsert sc m zs) = Suc (length zs)"
  by (induction sc m zs rule: zinsert.induct) auto

lemma zsorted_zinsert [simp]: "zsorted zs \<Longrightarrow> zsorted (zinsert sc m zs)"
  by (induction sc m zs rule: zinsert.induct) auto

locale valkey_strings =
  fixes vk :: "'s valkey"
  assumes get_set: "t \<le> t' \<Longrightarrow> vk_get vk t' k (vk_set vk t k v ttl s) =
      (case ttl of None \<Rightarrow> Some v | Some d \<Rightarrow> if t' < t + d then Some v else None)"
    and get_set_other: "k' \<noteq> k \<Longrightarrow> vk_get vk t' k' (vk_set vk t k v ttl s) = vk_get vk t' k' s"
    and setnx_free: "vk_get vk t k s = None \<Longrightarrow> vk_setnx vk t k v d s = (True, vk_set vk t k v (Some d) s)"
    and setnx_taken: "vk_get vk t k s \<noteq> None \<Longrightarrow> vk_setnx vk t k v d s = (False, s)"
    and del_reply: "fst (vk_del vk t k s) = (if vk_get vk t k s = None then 0 else 1)"
    and get_del: "t \<le> t' \<Longrightarrow> vk_get vk t' k (snd (vk_del vk t k s)) = None"
    and get_del_other: "k' \<noteq> k \<Longrightarrow> vk_get vk t' k' (snd (vk_del vk t k s)) = vk_get vk t' k' s"
    and pexpire_reply: "fst (vk_pexpire vk t k d s) = (if vk_get vk t k s = None then 0 else 1)"
    and get_pexpire: "t \<le> t' \<Longrightarrow> vk_get vk t' k (snd (vk_pexpire vk t k d s)) =
      (if t' < t + d then vk_get vk t k s else None)"
    and get_pexpire_other:
      "k' \<noteq> k \<Longrightarrow> vk_get vk t' k' (snd (vk_pexpire vk t k d s)) = vk_get vk t' k' s"
    and get_earlier: "t \<le> t' \<Longrightarrow> vk_get vk t' k s = Some v \<Longrightarrow> vk_get vk t k s = Some v"
begin

lemma setnx_iff: "fst (vk_setnx vk t k v d s) \<longleftrightarrow> vk_get vk t k s = None"
  by (cases "vk_get vk t k s") (simp_all add: setnx_free setnx_taken)

lemma get_setnx:
  "t \<le> t' \<Longrightarrow> vk_get vk t' k (snd (vk_setnx vk t k v d s)) =
     (if vk_get vk t k s = None then (if t' < t + d then Some v else None) else vk_get vk t' k s)"
  by (cases "vk_get vk t k s") (simp_all add: setnx_free setnx_taken get_set)

lemma get_setnx_other:
  "k' \<noteq> k \<Longrightarrow> vk_get vk t' k' (snd (vk_setnx vk t k v d s)) = vk_get vk t' k' s"
  by (cases "vk_get vk t k s") (simp_all add: setnx_free setnx_taken get_set_other)

lemma get_gone: "t \<le> t' \<Longrightarrow> vk_get vk t k s = None \<Longrightarrow> vk_get vk t' k s = None"
  using get_earlier by (metis option.exhaust option.distinct(1))

lemma get_only_changes_to_none:
  "t \<le> t' \<Longrightarrow> vk_get vk t' k s = vk_get vk t k s \<or> vk_get vk t' k s = None"
  using get_earlier by (metis option.exhaust)

end

locale valkey_zsets =
  fixes vk :: "'s valkey"
  assumes zmembers_sorted: "zsorted (vk_zmembers vk t k s)"
    and zmembers_later: "t \<le> t' \<Longrightarrow> vk_zmembers vk t' k s = vk_zmembers vk t k s \<or> vk_zmembers vk t' k s = []"
    and zremupto: "t \<le> t' \<Longrightarrow> vk_zmembers vk t' k (vk_zremupto vk t k mx s) =
      filter (\<lambda>(m, sc). mx < sc) (vk_zmembers vk t' k s)"
    and zremupto_other: "k' \<noteq> k \<Longrightarrow> vk_zmembers vk t' k' (vk_zremupto vk t k mx s) = vk_zmembers vk t' k' s"
    and zadd: "m \<notin> fst ` set (vk_zmembers vk t k s) \<Longrightarrow>
      vk_zmembers vk t k (vk_zadd vk t k sc m s) = zinsert sc m (vk_zmembers vk t k s)"
    and zadd_other: "k' \<noteq> k \<Longrightarrow> vk_zmembers vk t' k' (vk_zadd vk t k sc m s) = vk_zmembers vk t' k' s"
    and zexpire: "t \<le> t' \<Longrightarrow> vk_zmembers vk t' k (vk_zexpire vk t k d s) =
      (if t' < t + d then vk_zmembers vk t k s else [])"
    and zexpire_other: "k' \<noteq> k \<Longrightarrow> vk_zmembers vk t' k' (vk_zexpire vk t k d s) = vk_zmembers vk t' k' s"
    and zrem: "t \<le> t' \<Longrightarrow> vk_zmembers vk t' k (vk_zrem vk t k m s) =
      filter (\<lambda>(m', _). m' \<noteq> m) (vk_zmembers vk t' k s)"
    and zrem_other: "k' \<noteq> k \<Longrightarrow> vk_zmembers vk t' k' (vk_zrem vk t k m s) = vk_zmembers vk t' k' s"

locale valkey_server = valkey_strings vk + valkey_zsets vk for vk :: "'s valkey"

section \<open>A store with deadlines\<close>

record mem_store =
  ms_strings :: "string \<Rightarrow> (string \<times> msec option) option"
  ms_zsets :: "string \<Rightarrow> (string \<times> int) list \<times> msec option"

definition live :: "msec \<Rightarrow> msec option \<Rightarrow> bool" where
  "live t dl = (case dl of None \<Rightarrow> True | Some d \<Rightarrow> t < d)"

definition mem_get :: "msec \<Rightarrow> string \<Rightarrow> mem_store \<Rightarrow> string option" where
  "mem_get t k s = (case ms_strings s k of None \<Rightarrow> None | Some (v, dl) \<Rightarrow> if live t dl then Some v else None)"

definition mem_set :: "msec \<Rightarrow> string \<Rightarrow> string \<Rightarrow> msec option \<Rightarrow> mem_store \<Rightarrow> mem_store" where
  "mem_set t k v ttl s = s\<lparr>ms_strings := (ms_strings s)(k \<mapsto> (v, map_option ((+) t) ttl))\<rparr>"

definition mem_del :: "msec \<Rightarrow> string \<Rightarrow> mem_store \<Rightarrow> nat \<times> mem_store" where
  "mem_del t k s = (if mem_get t k s = None then 0 else 1, s\<lparr>ms_strings := (ms_strings s)(k := None)\<rparr>)"

definition mem_pexpire :: "msec \<Rightarrow> string \<Rightarrow> msec \<Rightarrow> mem_store \<Rightarrow> nat \<times> mem_store" where
  "mem_pexpire t k d s =
     (case mem_get t k s of
        None \<Rightarrow> (0, s\<lparr>ms_strings := (ms_strings s)(k := None)\<rparr>)
      | Some v \<Rightarrow> (1, s\<lparr>ms_strings := (ms_strings s)(k \<mapsto> (v, Some (t + d)))\<rparr>))"

definition mem_zmembers :: "msec \<Rightarrow> string \<Rightarrow> mem_store \<Rightarrow> (string \<times> int) list" where
  "mem_zmembers t k s = (case ms_zsets s k of (zs, dl) \<Rightarrow> if live t dl then sort_key snd zs else [])"

definition mem_zupd ::
  "string \<Rightarrow> ((string \<times> int) list \<Rightarrow> (string \<times> int) list) \<Rightarrow> mem_store \<Rightarrow> mem_store" where
  "mem_zupd k f s = s\<lparr>ms_zsets := (ms_zsets s)(k := (f (fst (ms_zsets s k)), snd (ms_zsets s k)))\<rparr>"

definition mem_zadd :: "msec \<Rightarrow> string \<Rightarrow> int \<Rightarrow> string \<Rightarrow> mem_store \<Rightarrow> mem_store" where
  "mem_zadd t k sc m s =
     (let zs = mem_zmembers t k s; dl = (if live t (snd (ms_zsets s k)) then snd (ms_zsets s k) else None)
      in s\<lparr>ms_zsets := (ms_zsets s)(k := (zinsert sc m (filter (\<lambda>(m', _). m' \<noteq> m) zs), dl))\<rparr>)"

definition mem_zexpire :: "msec \<Rightarrow> string \<Rightarrow> msec \<Rightarrow> mem_store \<Rightarrow> mem_store" where
  "mem_zexpire t k d s = s\<lparr>ms_zsets := (ms_zsets s)(k := (mem_zmembers t k s, Some (t + d)))\<rparr>"

definition mem_valkey :: "mem_store valkey" where
  "mem_valkey =
     \<lparr>vk_get = mem_get, vk_set = mem_set,
      vk_setnx = (\<lambda>t k v d s. if mem_get t k s = None then (True, mem_set t k v (Some d) s) else (False, s)),
      vk_del = mem_del, vk_pexpire = mem_pexpire, vk_zmembers = mem_zmembers,
      vk_zremupto = (\<lambda>t k mx. mem_zupd k (filter (\<lambda>(_, sc). mx < sc))),
      vk_zadd = mem_zadd, vk_zexpire = mem_zexpire,
      vk_zrem = (\<lambda>t k m. mem_zupd k (filter (\<lambda>(m', _). m' \<noteq> m)))\<rparr>"

definition mem_empty :: mem_store where
  "mem_empty = \<lparr>ms_strings = Map.empty, ms_zsets = (\<lambda>_. ([], None))\<rparr>"

lemma live_earlier: "t \<le> t' \<Longrightarrow> live t' dl \<Longrightarrow> live t dl"
  by (auto simp: live_def split: option.splits)

lemma zsorted_insert_eq: "zsorted zs \<Longrightarrow> sort_key snd (zinsert sc m zs) = zinsert sc m zs"
  by (intro sort_key_id_if_sorted) simp

lemma mem_zadd_fresh:
  assumes "m \<notin> fst ` set (mem_zmembers t k s)"
  shows "mem_zmembers t k (mem_zadd t k sc m s) = zinsert sc m (mem_zmembers t k s)"
proof -
  have "filter (\<lambda>(m', _). m' \<noteq> m) (mem_zmembers t k s) = mem_zmembers t k s"
    using assms by (force simp: filter_id_conv)
  moreover have "zsorted (mem_zmembers t k s)"
    by (simp add: mem_zmembers_def split: prod.split)
  moreover have "live t (if live t (snd (ms_zsets s k)) then snd (ms_zsets s k) else None)"
    by (simp add: live_def)
  ultimately show ?thesis
    by (simp add: mem_zadd_def mem_zmembers_def [of t k "mem_store.ms_zsets_update _ _"] Let_def
        zsorted_insert_eq)
qed

interpretation mem: valkey_server mem_valkey
proof
  fix t t' :: msec and k :: string and s :: mem_store
  show "zsorted (vk_zmembers mem_valkey t k s)"
    by (simp add: mem_valkey_def mem_zmembers_def split: prod.split)
  show "m \<notin> fst ` set (vk_zmembers mem_valkey t k s) \<Longrightarrow>
      vk_zmembers mem_valkey t k (vk_zadd mem_valkey t k sc m s) = zinsert sc m (vk_zmembers mem_valkey t k s)"
    for sc m
    using mem_zadd_fresh by (simp add: mem_valkey_def)
  assume "t \<le> t'"
  then show "vk_zmembers mem_valkey t' k s = vk_zmembers mem_valkey t k s \<or> vk_zmembers mem_valkey t' k s = []"
    by (auto simp: mem_valkey_def mem_zmembers_def dest: live_earlier split: prod.split)
qed (auto simp: mem_valkey_def mem_get_def mem_set_def mem_del_def mem_pexpire_def mem_zmembers_def
      mem_zupd_def mem_zadd_def mem_zexpire_def live_def filter_sort sort_key_id_if_sorted
      split: option.splits if_splits prod.splits)

end
