(* ===== verification/Cache.thy ===== *)
theory Cache
  imports Valkey "HOL-Library.AList"
begin

text \<open>
  \<open>platform-cache/src/cache.service.ts\<close>: connection lifecycle, key/value access, the sliding-window
  rate limiter (a Lua script over a sorted set) and the distributed locks (\<open>SET NX PX\<close> with an owner
  token; Lua scripts for compare-and-delete and compare-and-expire).

  The server is the record \<open>vk\<close> of \<open>Valkey\<close>; \<open>on\<close> says whether the service has a client (optional mode
  without a url has none); \<open>t\<close> is the time, in milliseconds, the caller and the server see. Random
  tokens and members are arguments. A JavaScript number that must be an integer is an \<open>int option\<close>,
  \<open>None\<close> standing for every number that is not one.
\<close>

type_synonym js_int = "int option"

datatype cache_error = UrlRequired | ClientNotAvailable | TtlNotPositive | ScriptError

section \<open>Lifecycle\<close>

datatype cache_mode = OptionalMode | RequiredMode

record cache_options =
  co_url :: "string option"
  co_mode :: "cache_mode option"

text \<open>The client as far as the service sets it up: which listeners it has and whether it was told to quit.\<close>

record redis_client =
  rc_on_error :: bool
  rc_on_ready :: bool
  rc_silent_error :: bool
  rc_quit :: bool

definition cache_mode_of :: "cache_options \<Rightarrow> cache_mode" where
  "cache_mode_of opts = (case co_mode opts of None \<Rightarrow> RequiredMode | Some m \<Rightarrow> m)"

definition onModuleInit :: "cache_options \<Rightarrow> cache_error + redis_client option" where
  "onModuleInit opts =
     (if co_url opts = None \<or> co_url opts = Some '''' then
        (if cache_mode_of opts = RequiredMode then Inl UrlRequired else Inr None)
      else Inr (Some \<lparr>rc_on_error = True, rc_on_ready = True, rc_silent_error = False, rc_quit = False\<rparr>))"

definition onModuleDestroy :: "redis_client option \<Rightarrow> redis_client option" where
  "onModuleDestroy c = c"

text \<open>\<open>quit\<close> is told first; the listeners are exchanged whether or not it fails (\<open>ok\<close>).\<close>

definition onApplicationShutdown :: "bool \<Rightarrow> redis_client option \<Rightarrow> redis_client option \<times> bool" where
  "onApplicationShutdown ok c =
     (case c of None \<Rightarrow> (None, False)
      | Some client \<Rightarrow>
          (let c1 = client\<lparr>rc_on_ready := False\<rparr>; c2 = c1\<lparr>rc_quit := True\<rparr>;
               c3 = c2\<lparr>rc_on_error := False\<rparr>; c4 = c3\<lparr>rc_silent_error := True\<rparr>
           in (Some c4, \<not> ok)))"

definition instance_of :: "redis_client option \<Rightarrow> cache_error + redis_client" where
  "instance_of c = (case c of None \<Rightarrow> Inl ClientNotAvailable | Some client \<Rightarrow> Inr client)"

section \<open>Key/value access\<close>

definition cache_set :: "'s valkey \<Rightarrow> bool \<Rightarrow> msec \<Rightarrow> string \<Rightarrow> string \<Rightarrow> nat option \<Rightarrow> 's \<Rightarrow> 's" where
  "cache_set vk on t key value ttlSeconds s =
     (if \<not> on then s
      else case ttlSeconds of
             Some (Suc n) \<Rightarrow> vk_set vk t key value (Some (Suc n * 1000)) s
           | _ \<Rightarrow> vk_set vk t key value None s)"

definition cache_get :: "'s valkey \<Rightarrow> bool \<Rightarrow> msec \<Rightarrow> string \<Rightarrow> 's \<Rightarrow> string option" where
  "cache_get vk on t key s = (if on then vk_get vk t key s else None)"

fun del_keys :: "'s valkey \<Rightarrow> msec \<Rightarrow> string list \<Rightarrow> 's \<Rightarrow> 's" where
  "del_keys vk t [] s = s"
| "del_keys vk t (k # ks) s = del_keys vk t ks (snd (vk_del vk t k s))"

definition cache_del :: "'s valkey \<Rightarrow> bool \<Rightarrow> msec \<Rightarrow> string list \<Rightarrow> 's \<Rightarrow> 's" where
  "cache_del vk on t keys s = (if \<not> on \<or> keys = [] then s else del_keys vk t keys s)"

section \<open>The sliding-window rate limiter\<close>

record rate_result =
  rl_allowed :: bool
  rl_remaining :: int
  rl_resetAt :: int
  rl_id :: "string option"

text \<open>
  The script: evict, count, admit or reject. With nothing to show as the oldest entry (a limit of zero)
  \<open>tonumber(nil)\<close> fails the script.
\<close>

definition sliding_window_lua ::
  "'s valkey \<Rightarrow> msec \<Rightarrow> string \<Rightarrow> int \<Rightarrow> int \<Rightarrow> int \<Rightarrow> string \<Rightarrow> 's \<Rightarrow> (cache_error + int \<times> int \<times> int) \<times> 's" where
  "sliding_window_lua vk t key now window limit member s =
     (let s1 = vk_zremupto vk t key (now - window) s;
          count = int (length (vk_zmembers vk t key s1))
      in if count < limit then
           (let s2 = vk_zadd vk t key now member s1;
                s3 = vk_zexpire vk t key (nat window) s2
            in (Inr (1, limit - count - 1, now + window), s3))
         else (case vk_zmembers vk t key s1 of
                 [] \<Rightarrow> (Inl ScriptError, s1)
               | (m, oldest) # _ \<Rightarrow> (Inr (0, 0, oldest + window), s1)))"

definition ceil_div :: "int \<Rightarrow> int \<Rightarrow> int" where
  "ceil_div a b = - ((- a) div b)"

definition rl_key :: "string \<Rightarrow> string" where
  "rl_key key = ''rl:'' @ key"

definition consumeRateLimit ::
  "'s valkey \<Rightarrow> bool \<Rightarrow> msec \<Rightarrow> string \<Rightarrow> int \<Rightarrow> int \<Rightarrow> string \<Rightarrow> 's \<Rightarrow> (cache_error + rate_result) \<times> 's" where
  "consumeRateLimit vk on t key limit windowSeconds member s =
     (let windowMs = windowSeconds * 1000; nowMs = int t
      in if \<not> on then
           (Inr \<lparr>rl_allowed = True, rl_remaining = limit, rl_resetAt = nowMs div 1000 + windowSeconds,
                 rl_id = None\<rparr>, s)
         else (case sliding_window_lua vk t (rl_key key) nowMs windowMs limit member s of
                 (Inl e, s') \<Rightarrow> (Inl e, s')
               | (Inr (allowed, remaining, resetAtMs), s') \<Rightarrow>
                   (let admitted = (allowed = 1)
                    in (Inr \<lparr>rl_allowed = admitted, rl_remaining = max 0 remaining,
                             rl_resetAt = ceil_div resetAtMs 1000,
                             rl_id = (if admitted then Some member else None)\<rparr>, s'))))"

definition refundRateLimit :: "'s valkey \<Rightarrow> bool \<Rightarrow> msec \<Rightarrow> string \<Rightarrow> string \<Rightarrow> 's \<Rightarrow> 's" where
  "refundRateLimit vk on t key rid s = (if \<not> on then s else vk_zrem vk t (rl_key key) rid s)"

section \<open>Locks\<close>

record lock =
  lk_key :: string
  lk_token :: string
  lk_released :: bool

definition lock_key :: "string \<Rightarrow> string" where
  "lock_key key = ''lock:'' @ key"

definition release_lua :: "'s valkey \<Rightarrow> msec \<Rightarrow> string \<Rightarrow> string \<Rightarrow> 's \<Rightarrow> nat \<times> 's" where
  "release_lua vk t key token s = (if vk_get vk t key s = Some token then vk_del vk t key s else (0, s))"

definition extend_lua :: "'s valkey \<Rightarrow> msec \<Rightarrow> string \<Rightarrow> string \<Rightarrow> msec \<Rightarrow> 's \<Rightarrow> nat \<times> 's" where
  "extend_lua vk t key token d s =
     (if vk_get vk t key s = Some token then vk_pexpire vk t key d s else (0, s))"

definition positive_int :: "js_int \<Rightarrow> bool" where
  "positive_int n = (case n of None \<Rightarrow> False | Some i \<Rightarrow> 0 < i)"

definition tryLock ::
  "'s valkey \<Rightarrow> bool \<Rightarrow> msec \<Rightarrow> string \<Rightarrow> js_int \<Rightarrow> string \<Rightarrow> 's \<Rightarrow> (cache_error + lock option) \<times> 's" where
  "tryLock vk on t key ttlMs token s =
     (if \<not> positive_int ttlMs then (Inl TtlNotPositive, s)
      else if \<not> on then (Inr None, s)
      else (case vk_setnx vk t (lock_key key) token (nat (the ttlMs)) s of
              (False, s') \<Rightarrow> (Inr None, s')
            | (True, s') \<Rightarrow> (Inr (Some \<lparr>lk_key = key, lk_token = token, lk_released = False\<rparr>), s')))"

definition lock_release :: "'s valkey \<Rightarrow> bool \<Rightarrow> msec \<Rightarrow> lock \<Rightarrow> 's \<Rightarrow> bool \<times> lock \<times> 's" where
  "lock_release vk on t lk s =
     (if lk_released lk \<or> \<not> on then (False, lk, s)
      else (let lk' = lk\<lparr>lk_released := True\<rparr>
            in case release_lua vk t (lock_key (lk_key lk)) (lk_token lk) s of
                 (n, s') \<Rightarrow> (n = 1, lk', s')))"

definition lock_extend ::
  "'s valkey \<Rightarrow> bool \<Rightarrow> msec \<Rightarrow> lock \<Rightarrow> js_int \<Rightarrow> 's \<Rightarrow> (cache_error + bool) \<times> 's" where
  "lock_extend vk on t lk extendMs s =
     (if \<not> positive_int extendMs then (Inl TtlNotPositive, s)
      else if lk_released lk \<or> \<not> on then (Inr False, s)
      else (case extend_lua vk t (lock_key (lk_key lk)) (lk_token lk) (nat (the extendMs)) s of
              (n, s') \<Rightarrow> (Inr (n = 1), s')))"

section \<open>The deprecated API: locks remembered by key\<close>

text \<open>The map \<open>held\<close>, in insertion order: per key the locks taken and not released, oldest first.\<close>

type_synonym held = "(string \<times> (lock \<times> int) list) list"

definition prune_held :: "int \<Rightarrow> held \<Rightarrow> held" where
  "prune_held now h =
     filter (\<lambda>(_, es). es \<noteq> []) (map (\<lambda>(k, es). (k, filter (\<lambda>(_, until). until > now) es)) h)"

definition held_push :: "int \<Rightarrow> string \<Rightarrow> lock \<times> int \<Rightarrow> held \<Rightarrow> held" where
  "held_push now key entry h0 =
     (let h = (if length h0 \<ge> 1000 then prune_held now h0 else h0);
          entries = (case map_of h key of None \<Rightarrow> [] | Some es \<Rightarrow> es) @ [entry];
          kept = (if length entries > 16 then tl entries else entries)
      in AList.update key kept h)"

definition acquireLock ::
  "'s valkey \<Rightarrow> bool \<Rightarrow> msec \<Rightarrow> string \<Rightarrow> js_int \<Rightarrow> string \<Rightarrow> held \<times> 's \<Rightarrow> (cache_error + bool) \<times> held \<times> 's" where
  "acquireLock vk on t key ttlMs token = (\<lambda>(h, s).
     case tryLock vk on t key ttlMs token s of
       (Inl e, s') \<Rightarrow> (Inl e, h, s')
     | (Inr None, s') \<Rightarrow> (Inr False, h, s')
     | (Inr (Some lk), s') \<Rightarrow>
         (let now = int t in (Inr True, held_push now key (lk, now + the ttlMs) h, s')))"

definition releaseLock :: "'s valkey \<Rightarrow> bool \<Rightarrow> msec \<Rightarrow> string \<Rightarrow> held \<times> 's \<Rightarrow> held \<times> 's" where
  "releaseLock vk on t key = (\<lambda>(h, s).
     case map_of h key of
       None \<Rightarrow> (h, s)
     | Some [] \<Rightarrow> (h, s)
     | Some (oldest # rest) \<Rightarrow>
         (let h' = (if rest = [] then AList.delete key h else AList.update key rest h)
          in case lock_release vk on t (fst oldest) s of (_, _, s') \<Rightarrow> (h', s')))"

section \<open>Who may touch a lock\<close>

text \<open>
  What the rest of the world may do while a process holds the token \<open>mine\<close> on \<open>key\<close>: time passes,
  anyone takes, releases or extends locks under other tokens, and other keys are written or deleted.
\<close>

inductive others_step :: "'s valkey \<Rightarrow> string \<Rightarrow> string \<Rightarrow> msec \<times> 's \<Rightarrow> msec \<times> 's \<Rightarrow> bool"
  for vk :: "'s valkey" and key :: string and mine :: string where
  tick: "t \<le> t' \<Longrightarrow> others_step vk key mine (t, s) (t', s)"
| take: "token \<noteq> mine \<Longrightarrow> s' = snd (tryLock vk True t key' ttl token s) \<Longrightarrow>
     others_step vk key mine (t, s) (t, s')"
| free: "lk_token lk \<noteq> mine \<Longrightarrow> s' = snd (snd (lock_release vk True t lk s)) \<Longrightarrow>
     others_step vk key mine (t, s) (t, s')"
| prolong: "lk_token lk \<noteq> mine \<Longrightarrow> s' = snd (lock_extend vk True t lk ttl s) \<Longrightarrow>
     others_step vk key mine (t, s) (t, s')"
| put: "k \<noteq> lock_key key \<Longrightarrow> s' = cache_set vk True t k v ttl' s \<Longrightarrow>
     others_step vk key mine (t, s) (t, s')"
| erase: "lock_key key \<notin> set ks \<Longrightarrow> s' = cache_del vk True t ks s \<Longrightarrow>
     others_step vk key mine (t, s) (t, s')"

definition held_until :: "'s valkey \<Rightarrow> string \<Rightarrow> string \<Rightarrow> msec \<Rightarrow> msec \<times> 's \<Rightarrow> bool" where
  "held_until vk key token deadline = (\<lambda>(t, s).
     \<forall>u. t \<le> u \<and> u < deadline \<longrightarrow> vk_get vk u (lock_key key) s = Some token)"

lemma lock_key_inj [simp]: "lock_key a = lock_key b \<longleftrightarrow> a = b"
  by (simp add: lock_key_def)

lemma tryLock_acquired:
  "tryLock vk on t key ttl token s = (Inr (Some lk), s') \<longleftrightarrow>
     positive_int ttl \<and> on \<and> lk = \<lparr>lk_key = key, lk_token = token, lk_released = False\<rparr> \<and>
     vk_setnx vk t (lock_key key) token (nat (the ttl)) s = (True, s')"
  by (auto simp: tryLock_def split: prod.splits bool.splits)

lemma tryLock_state:
  "snd (tryLock vk on t key ttl token s) =
     (if positive_int ttl \<and> on then snd (vk_setnx vk t (lock_key key) token (nat (the ttl)) s) else s)"
  by (auto simp: tryLock_def split: prod.splits bool.splits)

lemma lock_release_state:
  "snd (snd (lock_release vk on t lk s)) =
     (if lk_released lk \<or> \<not> on then s else snd (release_lua vk t (lock_key (lk_key lk)) (lk_token lk) s))"
  by (auto simp: lock_release_def Let_def split: prod.splits)

lemma lock_extend_state:
  "snd (lock_extend vk on t lk d s) =
     (if \<not> positive_int d \<or> lk_released lk \<or> \<not> on then s
      else snd (extend_lua vk t (lock_key (lk_key lk)) (lk_token lk) (nat (the d)) s))"
  by (auto simp: lock_extend_def split: prod.splits)

lemmas lock_states = tryLock_state lock_release_state lock_extend_state

context valkey_strings begin

lemma release_lua_keeps:
  "t \<le> u \<Longrightarrow> vk_get vk t k s = Some v \<Longrightarrow> v \<noteq> token \<or> k \<noteq> key \<Longrightarrow>
   vk_get vk u k (snd (release_lua vk t key token s)) = vk_get vk u k s"
  by (cases "k = key") (auto simp: release_lua_def get_del_other)

lemma extend_lua_keeps:
  "t \<le> u \<Longrightarrow> vk_get vk t k s = Some v \<Longrightarrow> v \<noteq> token \<or> k \<noteq> key \<Longrightarrow>
   vk_get vk u k (snd (extend_lua vk t key token d s)) = vk_get vk u k s"
  by (cases "k = key") (auto simp: extend_lua_def get_pexpire_other)

lemma get_del_keys: "k \<notin> set ks \<Longrightarrow> vk_get vk u k (del_keys vk t ks s) = vk_get vk u k s"
  by (induction ks arbitrary: s) (simp_all add: get_del_other)

lemma cache_set_other: "k' \<noteq> k \<Longrightarrow> vk_get vk u k' (cache_set vk on t k v ttl s) = vk_get vk u k' s"
  by (auto simp: cache_set_def get_set_other split: option.split nat.split)

lemma tryLock_establishes:
  assumes "tryLock vk on t key ttl token s = (Inr (Some lk), s')"
  shows "held_until vk key token (t + nat (the ttl)) (t, s')"
proof -
  from assms have sx: "vk_setnx vk t (lock_key key) token (nat (the ttl)) s = (True, s')"
    by (simp add: tryLock_acquired)
  then have "vk_get vk t (lock_key key) s = None"
    using setnx_iff [of t "lock_key key" token "nat (the ttl)" s] by simp
  with sx show ?thesis
    using get_setnx [of t _ "lock_key key" token "nat (the ttl)" s] by (auto simp: held_until_def)
qed

lemma others_step_held:
  assumes "others_step vk key mine (t, s) (t', s')" and "held_until vk key mine deadline (t, s)"
  shows "t \<le> t' \<and> held_until vk key mine deadline (t', s')"
  using assms
proof (cases rule: others_step.cases)
  case tick
  with assms(2) show ?thesis by (auto simp: held_until_def)
next
  case (take token key' ttl)
  have "vk_get vk u (lock_key key) s' = Some mine" if "t \<le> u" "u < deadline" for u
  proof -
    have "vk_get vk t (lock_key key) s = Some mine" and "vk_get vk u (lock_key key) s = Some mine"
      using assms(2) that by (auto simp: held_until_def)
    then show ?thesis
      using take that by (cases "key' = key") (auto simp: lock_states get_setnx get_setnx_other)
  qed
  with take show ?thesis by (simp add: held_until_def)
next
  case (free lk)
  have "vk_get vk u (lock_key key) s' = Some mine" if "t \<le> u" "u < deadline" for u
    using assms(2) free that release_lua_keeps [of t u "lock_key key" s mine "lk_token lk"]
    by (auto simp: held_until_def lock_states)
  with free show ?thesis by (simp add: held_until_def)
next
  case (prolong lk ttl)
  have "vk_get vk u (lock_key key) s' = Some mine" if "t \<le> u" "u < deadline" for u
    using assms(2) prolong that extend_lua_keeps [of t u "lock_key key" s mine "lk_token lk"]
    by (auto simp: held_until_def lock_states)
  with prolong show ?thesis by (simp add: held_until_def)
next
  case (put k v ttl')
  with assms(2) show ?thesis by (auto simp: held_until_def cache_set_other)
next
  case (erase ks)
  with assms(2) show ?thesis by (auto simp: held_until_def cache_del_def get_del_keys)
qed

lemma others_steps_held:
  assumes "(others_step vk key mine)\<^sup>*\<^sup>* c c'" and "held_until vk key mine deadline c"
  shows "fst c \<le> fst c' \<and> held_until vk key mine deadline c'"
  using assms
proof (induction rule: rtranclp_induct)
  case (step y z)
  then show ?case
    using others_step_held [of key mine "fst y" "snd y" "fst z" "snd z" deadline] by auto
qed simp

lemma held_excludes:
  assumes "held_until vk key mine deadline (t, s)" and "t < deadline"
  shows "vk_get vk t (lock_key key) s = Some mine \<and>
    fst (tryLock vk True t key ttl token s) \<noteq> Inr (Some lk) \<and>
    fst (lock_release vk True t \<lparr>lk_key = key, lk_token = mine, lk_released = False\<rparr> s)"
proof -
  have g: "vk_get vk t (lock_key key) s = Some mine"
    using assms by (auto simp: held_until_def)
  then have "vk_setnx vk t (lock_key key) token d s = (False, s)" for d
    by (intro setnx_taken) simp
  moreover have "fst (vk_del vk t (lock_key key) s) = 1"
    using g by (simp add: del_reply)
  then have "fst (lock_release vk True t \<lparr>lk_key = key, lk_token = mine, lk_released = False\<rparr> s)"
    using g by (auto simp: lock_release_def release_lua_def Let_def split: prod.splits)
  ultimately show ?thesis
    using g by (simp add: tryLock_def)
qed

lemma lock_lease:
  assumes got: "tryLock vk True t key ttl token s0 = (Inr (Some lk), s)"
    and others: "(others_step vk key token)\<^sup>*\<^sup>* (t, s) (t', s')" and "t' < t + nat (the ttl)"
  shows "vk_get vk t' (lock_key key) s' = Some token \<and>
    fst (tryLock vk True t' key ttl' token' s') \<noteq> Inr (Some lk') \<and>
    fst (lock_release vk True t' lk s')"
proof -
  have "held_until vk key token (t + nat (the ttl)) (t', s')"
    using others_steps_held [OF others tryLock_establishes [OF got]] by simp
  moreover have "lk = \<lparr>lk_key = key, lk_token = token, lk_released = False\<rparr>"
    using got by (simp add: tryLock_acquired)
  ultimately show ?thesis using held_excludes assms(3) by blast
qed

lemma late_release_harmless:
  assumes "vk_get vk t k s = Some v" and "v \<noteq> lk_token lk"
  shows "vk_get vk u k (snd (snd (lock_release vk True t lk s))) = vk_get vk u k s"
proof -
  have "vk_get vk t (lock_key (lk_key lk)) s \<noteq> Some (lk_token lk) \<or> k \<noteq> lock_key (lk_key lk)"
    using assms by auto
  then show ?thesis by (auto simp: lock_states release_lua_def get_del_other)
qed

end


definition example_lock :: lock where
  "example_lock = \<lparr>lk_key = ''job'', lk_token = ''aa'', lk_released = False\<rparr>"


text \<open>
  A late holder frees nobody: releasing a lock whose key holds another token by now leaves every
  key of the server as it was, at every later time.
\<close>

theorem late_release_frees_nobody:
  assumes "valkey_strings vk" and "vk_get vk t k s = Some v" and "v \<noteq> lk_token lk"
  shows "vk_get vk u k (snd (snd (lock_release vk True t lk s))) = vk_get vk u k s"
  using assms by (rule valkey_strings.late_release_harmless)

theorem late_release_frees_nobody_witness:
  "vk_get mem_valkey 1600 (lock_key ''job'')
     (snd (snd (lock_release mem_valkey True 1500 example_lock
        (snd (tryLock mem_valkey True 1200 ''job'' (Some 1000) ''bb'' mem_empty))))) = Some ''bb''"
proof -
  let ?s = "snd (tryLock mem_valkey True 1200 ''job'' (Some 1000) ''bb'' mem_empty)"
  have g: "vk_get mem_valkey 1500 (lock_key ''job'') ?s = Some ''bb''"
    "vk_get mem_valkey 1600 (lock_key ''job'') ?s = Some ''bb''"
    by (simp_all add: tryLock_def positive_int_def mem_valkey_def mem_get_def mem_empty_def mem_set_def
        live_def)
  have "''bb'' \<noteq> lk_token example_lock" by (simp add: example_lock_def)
  from late_release_frees_nobody [OF mem.valkey_strings_axioms g(1) this, of 1600] g(2) show ?thesis by simp
qed

section \<open>The window holds\<close>

text \<open>One request after another on one key: its time, its unique member, and whether it was admitted.\<close>

type_synonym rl_log = "(msec \<times> string \<times> bool) list"

fun rl_calls :: "'s valkey \<Rightarrow> string \<Rightarrow> int \<Rightarrow> int \<Rightarrow> (msec \<times> string) list \<Rightarrow> 's \<Rightarrow> rl_log \<times> 's" where
  "rl_calls vk key limit windowSeconds [] s = ([], s)"
| "rl_calls vk key limit windowSeconds ((t, m) # cs) s =
     (case consumeRateLimit vk True t key limit windowSeconds m s of
        (r, s1) \<Rightarrow>
          (case rl_calls vk key limit windowSeconds cs s1 of
             (log, s2) \<Rightarrow> ((t, m, (case r of Inr x \<Rightarrow> rl_allowed x | Inl _ \<Rightarrow> False)) # log, s2)))"

text \<open>The admitted requests of a log whose time lies in the window that ends at \<open>e\<close>.\<close>

definition admitted_in :: "int \<Rightarrow> int \<Rightarrow> rl_log \<Rightarrow> rl_log" where
  "admitted_in w e log = filter (\<lambda>(t, m, a). a \<and> e - w < int t \<and> int t \<le> e) log"

definition rl_inv :: "'s valkey \<Rightarrow> string \<Rightarrow> int \<Rightarrow> int \<Rightarrow> msec \<Rightarrow> rl_log \<Rightarrow> 's \<Rightarrow> bool" where
  "rl_inv vk key limit w now log s \<longleftrightarrow>
     (\<exists>Z D.
        (\<forall>u\<ge>now. vk_zmembers vk u key s = (if int u < D then Z else [])) \<and>
        (\<forall>(t, m, a)\<in>set log. t \<le> now \<and> (a \<longrightarrow> int t + w \<le> D \<and> (int now - w < int t \<longrightarrow> (m, int t) \<in> set Z))) \<and>
        fst ` set Z \<subseteq> (\<lambda>x. fst (snd x)) ` set log \<and> int (length Z) \<le> limit) \<and>
     distinct (map (\<lambda>x. fst (snd x)) log) \<and>
     (\<forall>e. int (length (admitted_in w e log)) \<le> limit)"

lemma admitted_card:
  assumes "distinct (map (\<lambda>x. fst (snd x)) log)"
    and "\<And>t m. (t, m, True) \<in> set log \<Longrightarrow> e - w < int t \<Longrightarrow> int t \<le> e \<Longrightarrow> (m, int t) \<in> set Z"
  shows "length (admitted_in w e log) \<le> length Z"
proof -
  let ?F = "admitted_in w e log" and ?g = "\<lambda>(t, m, a::bool). (m::string, int t)"
  have "distinct (map (\<lambda>x. fst (snd x)) ?F)"
    using assms(1) by (simp add: admitted_in_def distinct_map_filter)
  then have "distinct (map fst (map ?g ?F))"
    by (simp add: case_prod_beta comp_def)
  then have "distinct (map ?g ?F)" by (auto simp: distinct_map intro: inj_on_imageI2)
  then have "length ?F = card (set (map ?g ?F))"
    by (metis distinct_card length_map)
  also have "\<dots> \<le> card (set Z)"
    using assms(2) by (intro card_mono) (auto simp: admitted_in_def)
  also have "\<dots> \<le> length Z" by (rule card_length)
  finally show ?thesis .
qed

lemma rl_key_simp [simp]: "rl_key a = rl_key b \<longleftrightarrow> a = b"
  by (simp add: rl_key_def)

context valkey_zsets begin

lemma window_after_evict:
  assumes "\<forall>u\<ge>now. vk_zmembers vk u k s = (if int u < D then Z else [])" and "now \<le> t" and "t \<le> u"
  shows "vk_zmembers vk u k (vk_zremupto vk t k mx s) = (if int u < D then filter (\<lambda>(m, sc). mx < sc) Z else [])"
  using assms by (simp add: zremupto)

lemma window_after_add:
  assumes "m \<notin> fst ` set (vk_zmembers vk t k s)" and "t \<le> u"
  shows "vk_zmembers vk u k (vk_zexpire vk t k d (vk_zadd vk t k sc m s)) =
    (if u < t + d then zinsert sc m (vk_zmembers vk t k s) else [])"
  using assms by (simp add: zexpire zadd)

lemma rl_step:
  assumes inv: "rl_inv vk (rl_key key) limit (ws * 1000) now log s" and "now \<le> t" and "0 \<le> ws"
    and fresh: "m \<notin> (\<lambda>x. fst (snd x)) ` set log"
    and r: "consumeRateLimit vk True t key limit ws m s = (r, s')"
  shows "rl_inv vk (rl_key key) limit (ws * 1000) t
     (log @ [(t, m, (case r of Inr x \<Rightarrow> rl_allowed x | Inl _ \<Rightarrow> False))]) s'"
proof -
  let ?k = "rl_key key" and ?w = "ws * 1000"
  obtain Z D where zm: "\<forall>u\<ge>now. vk_zmembers vk u ?k s = (if int u < D then Z else [])"
    and lg: "\<forall>(t, m, a)\<in>set log. t \<le> now \<and> (a \<longrightarrow> int t + ?w \<le> D \<and> (int now - ?w < int t \<longrightarrow> (m, int t) \<in> set Z))"
    and fz: "fst ` set Z \<subseteq> (\<lambda>x. fst (snd x)) ` set log" and lz: "int (length Z) \<le> limit"
    and dl: "distinct (map (\<lambda>x. fst (snd x)) log)" and cnt: "\<forall>e. int (length (admitted_in ?w e log)) \<le> limit"
    using inv by (auto simp: rl_inv_def)
  define s1 where "s1 = vk_zremupto vk t ?k (int t - ?w) s"
  define Z1 where "Z1 = filter (\<lambda>(m, sc). int t - ?w < sc) Z"
  have z1: "vk_zmembers vk u ?k s1 = (if int u < D then Z1 else [])" if "t \<le> u" for u
    using window_after_evict [OF zm assms(2) that] by (simp add: s1_def Z1_def)
  have l1: "int (length Z1) \<le> limit"
  proof -
    have "length Z1 \<le> length Z" by (simp add: Z1_def)
    with lz show ?thesis by linarith
  qed
  have keep: "int t' + ?w \<le> D \<and> (int t - ?w < int t' \<longrightarrow> (m', int t') \<in> set Z1)" and le: "t' \<le> t"
    if "(t', m', True) \<in> set log" for t' m'
    using lg that assms(2) by (auto simp: Z1_def)
  have le': "t' \<le> t" if "(t', m', a) \<in> set log" for t' m' a
    using lg that assms(2) by auto
  show ?thesis
  proof (cases "int (length (vk_zmembers vk t ?k s1)) < limit")
    case False
    have na: "(case r of Inr x \<Rightarrow> rl_allowed x | Inl _ \<Rightarrow> False) = False" and s': "s' = s1"
      using r False
      by (auto simp: consumeRateLimit_def sliding_window_lua_def Let_def s1_def
          split: list.splits prod.splits)
    have "admitted_in ?w e (log @ [(t, m, False)]) = admitted_in ?w e log" for e
      by (simp add: admitted_in_def)
    with z1 l1 keep le' fz dl cnt fresh show ?thesis
      unfolding rl_inv_def na s' by (intro conjI exI [of _ Z1] exI [of _ D]) (auto simp: Z1_def)
  next
    case True
    have fr: "m \<notin> fst ` set (vk_zmembers vk t ?k s1)"
      using z1 [of t] fz fresh by (auto simp: Z1_def)
    define Z2 where "Z2 = zinsert (int t) m (vk_zmembers vk t ?k s1)"
    have al: "(case r of Inr x \<Rightarrow> rl_allowed x | Inl _ \<Rightarrow> False) = True"
      and s': "s' = vk_zexpire vk t ?k (nat ?w) (vk_zadd vk t ?k (int t) m s1)"
      using r True by (auto simp: consumeRateLimit_def sliding_window_lua_def Let_def s1_def)
    have z2: "vk_zmembers vk u ?k s' = (if int u < int t + ?w then Z2 else [])" if "t \<le> u" for u
    proof -
      have "u < t + nat ?w \<longleftrightarrow> int u < int t + ?w" using assms(3) by linarith
      then show ?thesis using window_after_add [OF fr that, of "nat ?w" "int t"] by (simp add: s' Z2_def)
    qed
    have l2: "int (length Z2) \<le> limit" using True by (simp add: Z2_def)
    let ?log = "log @ [(t, m, True)]"
    have dl': "distinct (map (\<lambda>x. fst (snd x)) ?log)" using dl fresh by simp
    have in2: "(m', int t') \<in> set Z2" if "(t', m', True) \<in> set ?log" "int t - ?w < int t'" for t' m'
    proof (cases "(t', m', True) \<in> set log")
      case True
      then have "(m', int t') \<in> set Z1" "int t' + ?w \<le> D" using keep that(2) by blast+
      then show ?thesis using z1 [of t] that(2) by (simp add: Z2_def)
    qed (use that in \<open>simp add: Z2_def\<close>)
    have cnt': "int (length (admitted_in ?w e ?log)) \<le> limit" for e
    proof (cases "int t \<le> e")
      case True
      have "length (admitted_in ?w e ?log) \<le> length Z2"
        using True by (intro admitted_card [OF dl']) (auto intro!: in2)
      with l2 show ?thesis by linarith
    next
      case False
      then have "admitted_in ?w e ?log = admitted_in ?w e log" by (simp add: admitted_in_def)
      with cnt show ?thesis by simp
    qed
    have "fst ` set Z2 \<subseteq> (\<lambda>x. fst (snd x)) ` set ?log"
      using z1 [of t] fz by (auto simp: Z2_def Z1_def)
    with z2 l2 dl' cnt' in2 le le' show ?thesis
      unfolding rl_inv_def al
      by (intro conjI exI [of _ Z2] exI [of _ "int t + ?w"]) auto
  qed
qed

lemma rl_calls_inv:
  assumes "rl_inv vk (rl_key key) limit (ws * 1000) now log s" and "0 \<le> ws"
    and "sorted (now # map fst cs)" and "distinct (map (\<lambda>x. fst (snd x)) log @ map snd cs)"
    and "rl_calls vk key limit ws cs s = (log', s')"
  shows "\<exists>now'. rl_inv vk (rl_key key) limit (ws * 1000) now' (log @ log') s'"
  using assms
proof (induction cs arbitrary: now log s log')
  case Nil
  then show ?case by auto
next
  case (Cons c cs)
  obtain t m where c: "c = (t, m)" by (cases c)
  obtain r s1 where r: "consumeRateLimit vk True t key limit ws m s = (r, s1)" by fastforce
  let ?e = "(t, m, (case r of Inr x \<Rightarrow> rl_allowed x | Inl _ \<Rightarrow> False))"
  obtain log1 where l: "rl_calls vk key limit ws cs s1 = (log1, s')" and log': "log' = ?e # log1"
    using Cons.prems(5) r by (auto simp: c split: prod.splits)
  have "rl_inv vk (rl_key key) limit (ws * 1000) t (log @ [?e]) s1"
    using Cons.prems r by (intro rl_step [OF Cons.prems(1) _ _ _ r]) (auto simp: c)
  moreover have "sorted (t # map fst cs)" "distinct (map (\<lambda>x. fst (snd x)) (log @ [?e]) @ map snd cs)"
    using Cons.prems(3,4) by (auto simp: c)
  ultimately obtain now' where "rl_inv vk (rl_key key) limit (ws * 1000) now' ((log @ [?e]) @ log1) s'"
    using Cons.IH [OF _ Cons.prems(2) _ _ l] by blast
  then show ?case by (auto simp: log')
qed

lemma window_limit:
  assumes "vk_zmembers vk 0 (rl_key key) s = []" and "0 \<le> limit" and "0 \<le> ws"
    and "sorted (map fst cs)" and "distinct (map snd cs)"
    and "rl_calls vk key limit ws cs s = (log, s')"
  shows "int (length (admitted_in (ws * 1000) e log)) \<le> limit"
proof -
  have "vk_zmembers vk u (rl_key key) s = []" for u
    using zmembers_later [of 0 u "rl_key key" s] assms(1) by auto
  then have "rl_inv vk (rl_key key) limit (ws * 1000) 0 [] s"
    using assms(2) by (auto simp: rl_inv_def admitted_in_def intro!: exI [of _ "[]"])
  then obtain now' where "rl_inv vk (rl_key key) limit (ws * 1000) now' ([] @ log) s'"
    using rl_calls_inv [of key limit ws 0 "[]" s cs log s'] assms by auto
  then show ?thesis by (simp add: rl_inv_def)
qed

end

text \<open>
  C2. The limiter is a true sliding window: over any sequence of requests on a key, whatever the
  requests' spacing, no window of \<open>windowSeconds\<close> ending at any instant holds more admitted requests
  than the limit. There is no instant, a window boundary included, at which a burst doubles it.
\<close>

theorem rate_limit_sliding_window:
  assumes "valkey_zsets vk" and "vk_zmembers vk 0 (rl_key key) s = []" and "0 \<le> limit" and "0 \<le> ws"
    and "sorted (map fst cs)" and "distinct (map snd cs)"
    and "rl_calls vk key limit ws cs s = (log, s')"
  shows "int (length (admitted_in (ws * 1000) e log)) \<le> limit"
  using assms by (rule valkey_zsets.window_limit)

lemmas rl_eval = consumeRateLimit_def sliding_window_lua_def mem_valkey_def mem_zmembers_def mem_zupd_def
  mem_zadd_def mem_zexpire_def mem_empty_def live_def rl_key_def Let_def ceil_div_def sort_key_id_if_sorted

theorem rate_limit_sliding_window_witness:
  "int (length (admitted_in 1000 900 [(0, ''a'', True), (500, ''b'', False), (900, ''c'', False)])) \<le> 1"
proof -
  let ?cs = "[(0, ''a''), (500, ''b''), (900, ''c'')] :: (msec \<times> string) list"
  obtain s' where r: "rl_calls mem_valkey ''k'' 1 1 ?cs mem_empty =
      ([(0, ''a'', True), (500, ''b'', False), (900, ''c'', False)], s')"
    by (simp add: rl_eval)
  have "vk_zmembers mem_valkey 0 (rl_key ''k'') mem_empty = []" by (simp add: rl_eval)
  from rate_limit_sliding_window [OF mem.valkey_zsets_axioms this _ _ _ _ r, of 900] show ?thesis by simp
qed

section \<open>Waiting and refunding\<close>

context valkey_zsets begin

lemma rejected_then_wait:
  assumes r: "consumeRateLimit vk True t key limit ws m s = (Inr res, s')" and "\<not> rl_allowed res"
    and full: "int (length (vk_zmembers vk t (rl_key key) s)) \<le> limit"
    and later: "t \<le> t'" "rl_resetAt res * 1000 \<le> int t'"
  shows "\<exists>res'. fst (consumeRateLimit vk True t' key limit ws m' s') = Inr res' \<and> rl_allowed res'"
proof -
  let ?k = "rl_key key" and ?w = "ws * 1000"
  define s1 where "s1 = vk_zremupto vk t ?k (int t - ?w) s"
  obtain m0 sc0 zs where z: "vk_zmembers vk t ?k s1 = (m0, sc0) # zs" and s': "s' = s1"
    and ra: "rl_resetAt res = ceil_div (sc0 + ?w) 1000"
    using r assms(2)
    by (auto simp: consumeRateLimit_def sliding_window_lua_def Let_def s1_def
        split: if_splits list.splits prod.splits)
  have "sc0 + ?w \<le> rl_resetAt res * 1000"
    unfolding ra ceil_div_def by (simp add: minus_mult_left [symmetric] mult.commute)
  with later(2) have old: "sc0 \<le> int t' - ?w" by linarith
  have l1: "int (length (vk_zmembers vk t ?k s1)) \<le> limit"
  proof -
    have "length (vk_zmembers vk t ?k s1) \<le> length (vk_zmembers vk t ?k s)"
      by (simp add: s1_def zremupto)
    with full show ?thesis by linarith
  qed
  have ev: "vk_zmembers vk t' ?k (vk_zremupto vk t' ?k (int t' - ?w) s1)
      = filter (\<lambda>(m, sc). int t' - ?w < sc) (vk_zmembers vk t' ?k s1)"
    by (simp add: zremupto)
  have "length (filter (\<lambda>(m, sc). int t' - ?w < sc) (vk_zmembers vk t' ?k s1))
      < length (vk_zmembers vk t ?k s1)"
  proof (cases "vk_zmembers vk t' ?k s1 = []")
    case False
    then have "vk_zmembers vk t' ?k s1 = (m0, sc0) # zs"
      using zmembers_later [OF later(1), of ?k s1] z by auto
    then show ?thesis using old z by (simp add: le_imp_less_Suc)
  qed (simp add: z)
  with l1 have "int (length (vk_zmembers vk t' ?k (vk_zremupto vk t' ?k (int t' - ?w) s1))) < limit"
    unfolding ev by linarith
  then show ?thesis by (simp add: consumeRateLimit_def sliding_window_lua_def Let_def s')
qed

lemma refund_restores:
  assumes r: "consumeRateLimit vk True t key limit ws m s = (Inr res, s')" and "rl_id res = Some m"
    and fresh: "m \<notin> fst ` set (vk_zmembers vk t (rl_key key) s)"
    and u: "t \<le> u" "int u < int t + ws * 1000"
  shows "vk_zmembers vk u (rl_key key) (refundRateLimit vk True t key m s')
    = filter (\<lambda>(_, sc). int t - ws * 1000 < sc) (vk_zmembers vk t (rl_key key) s)"
proof -
  let ?k = "rl_key key" and ?w = "ws * 1000"
  define s1 where "s1 = vk_zremupto vk t ?k (int t - ?w) s"
  define Z where "Z = vk_zmembers vk t ?k s1"
  have Z: "Z = filter (\<lambda>(_, sc). int t - ?w < sc) (vk_zmembers vk t ?k s)"
    by (simp add: Z_def s1_def zremupto)
  then have fr: "m \<notin> fst ` set Z" using fresh by auto
  have s': "s' = vk_zexpire vk t ?k (nat ?w) (vk_zadd vk t ?k (int t) m s1)"
    using r assms(2)
    by (auto simp: consumeRateLimit_def sliding_window_lua_def Let_def s1_def
        split: if_splits list.splits prod.splits)
  have "u < t + nat ?w" using u by linarith
  then have "vk_zmembers vk u ?k s' = zinsert (int t) m Z"
    using window_after_add [of m t ?k s1 u "nat ?w" "int t"] fr u(1) by (simp add: s' Z_def)
  moreover have "filter (\<lambda>(m', _). m' \<noteq> m) (zinsert sc m zs) = filter (\<lambda>(m', _). m' \<noteq> m) zs" for sc zs
    by (induction sc m zs rule: zinsert.induct) auto
  moreover have "filter (\<lambda>(m', _). m' \<noteq> m) Z = Z" using fr by (force simp: filter_id_conv)
  ultimately show ?thesis by (simp add: refundRateLimit_def zrem u(1) Z)
qed

end

text \<open>
  C6. \<open>resetAt\<close> is honest: a refused caller that waits until the second it was told, and meets a key
  nobody else used meanwhile, is admitted.
\<close>

theorem rate_limit_reset_admits:
  assumes "valkey_zsets vk" and "consumeRateLimit vk True t key limit ws m s = (Inr res, s')"
    and "\<not> rl_allowed res" and "int (length (vk_zmembers vk t (rl_key key) s)) \<le> limit"
    and "t \<le> t'" and "rl_resetAt res * 1000 \<le> int t'"
  shows "\<exists>res'. fst (consumeRateLimit vk True t' key limit ws m' s') = Inr res' \<and> rl_allowed res'"
  using assms by (rule valkey_zsets.rejected_then_wait)

theorem rate_limit_reset_admits_witness:
  "\<exists>res'. fst (consumeRateLimit mem_valkey True 2000 ''k'' 1 1 ''c''
       (snd (consumeRateLimit mem_valkey True 600 ''k'' 1 1 ''b''
         (snd (consumeRateLimit mem_valkey True 500 ''k'' 1 1 ''a'' mem_empty))))) = Inr res' \<and> rl_allowed res'"
proof -
  let ?s = "snd (consumeRateLimit mem_valkey True 500 ''k'' 1 1 ''a'' mem_empty)"
  let ?res = "\<lparr>rl_allowed = False, rl_remaining = 0, rl_resetAt = 2, rl_id = None\<rparr>"
  have r: "consumeRateLimit mem_valkey True 600 ''k'' 1 1 ''b'' ?s
      = (Inr ?res, snd (consumeRateLimit mem_valkey True 600 ''k'' 1 1 ''b'' ?s))"
    by (simp add: rl_eval)
  have "int (length (vk_zmembers mem_valkey 600 (rl_key ''k'') ?s)) \<le> 1" by (simp add: rl_eval)
  from rate_limit_reset_admits [OF mem.valkey_zsets_axioms r _ this, of 2000 "''c''"] show ?thesis by simp
qed

section \<open>What the deprecated API remembers\<close>

definition held_ok :: "held \<Rightarrow> bool" where
  "held_ok h \<longleftrightarrow> distinct (map fst h) \<and>
     (\<forall>(k, es)\<in>set h. es \<noteq> [] \<and> length es \<le> 16 \<and> (\<forall>(lk, _)\<in>set es. lk_key lk = k \<and> \<not> lk_released lk))"

definition held_tokens :: "string \<Rightarrow> held \<Rightarrow> string set" where
  "held_tokens key h = (case map_of h key of None \<Rightarrow> {} | Some es \<Rightarrow> (lk_token \<circ> fst) ` set es)"

lemma set_alist_update:
  "(k, v) \<in> set (AList.update key w h) \<Longrightarrow> (k, v) = (key, w) \<or> ((k, v) \<in> set h)"
  by (induction h) (auto split: if_splits)

lemma held_ok_update:
  "held_ok h \<Longrightarrow> es \<noteq> [] \<Longrightarrow> length es \<le> 16 \<Longrightarrow> \<forall>(lk, _)\<in>set es. lk_key lk = key \<and> \<not> lk_released lk \<Longrightarrow>
   held_ok (AList.update key es h)"
  using set_alist_update [of _ _ key es h] distinct_update [of h key es]
  by (fastforce simp: held_ok_def)

lemma held_ok_entry: "held_ok h \<Longrightarrow> map_of h key = Some es \<Longrightarrow>
   es \<noteq> [] \<and> length es \<le> 16 \<and> (\<forall>(lk, _)\<in>set es. lk_key lk = key \<and> \<not> lk_released lk)"
  by (auto simp: held_ok_def dest!: map_of_SomeD)

lemma held_ok_prune: "held_ok h \<Longrightarrow> held_ok (prune_held now h)"
proof -
  assume ok: "held_ok h"
  have "map fst (prune_held now h) = map fst (filter (\<lambda>(_, es). filter (\<lambda>(_, until). until > now) es \<noteq> []) h)"
    by (induction h) (auto simp: prune_held_def)
  then have "distinct (map fst (prune_held now h))"
    using ok by (simp add: held_ok_def distinct_map_filter)
  moreover have len: "length (filter P es) \<le> 16" if "(k, es) \<in> set h" for k es and P :: "lock \<times> int \<Rightarrow> bool"
  proof -
    have "length es \<le> 16" using ok that by (auto simp: held_ok_def)
    then show ?thesis using length_filter_le [of P es] by linarith
  qed
  moreover have "es \<noteq> [] \<and> length es \<le> 16 \<and> (\<forall>(lk, _)\<in>set es. lk_key lk = k \<and> \<not> lk_released lk)"
    if prem: "(k, es) \<in> set (prune_held now h)" for k es
  proof -
    obtain es0 where "(k, es0) \<in> set h" "es = filter (\<lambda>(_, until). until > now) es0" "es \<noteq> []"
      using prem by (auto simp: prune_held_def)
    moreover from this(1) have "\<forall>(lk, _)\<in>set es0. lk_key lk = k \<and> \<not> lk_released lk"
      using ok by (auto simp: held_ok_def)
    ultimately show ?thesis
      using len [of k es0 "\<lambda>(_, until). until > now"] by auto
  qed
  ultimately show ?thesis unfolding held_ok_def by blast
qed

lemma held_ok_push:
  assumes "held_ok h" and "lk_key lk = key" and "\<not> lk_released lk"
  shows "held_ok (held_push now key (lk, u) h)"
proof -
  define h1 where "h1 = (if length h \<ge> 1000 then prune_held now h else h)"
  define es where "es = (case map_of h1 key of None \<Rightarrow> [] | Some es \<Rightarrow> es) @ [(lk, u)]"
  have h1: "held_ok h1" using assms(1) held_ok_prune by (simp add: h1_def)
  then have "length es \<le> 17 \<and> (\<forall>(l, _)\<in>set es. lk_key l = key \<and> \<not> lk_released l)"
    using held_ok_entry [OF h1, of key] assms(2,3) by (auto simp: es_def split: option.split)
  moreover have "es \<noteq> []" by (simp add: es_def)
  ultimately have "held_ok (AList.update key (if length es > 16 then tl es else es) h1)"
    using h1 by (cases es) (auto intro!: held_ok_update)
  moreover have "held_push now key (lk, u) h = AList.update key (if length es > 16 then tl es else es) h1"
    unfolding held_push_def Let_def h1_def es_def ..
  ultimately show ?thesis by simp
qed

datatype held_op = Acquire msec string js_int string | Release msec string

fun held_run :: "'s valkey \<Rightarrow> bool \<Rightarrow> held_op list \<Rightarrow> held \<times> 's \<Rightarrow> held \<times> 's" where
  "held_run vk on [] c = c"
| "held_run vk on (Acquire t key ttl token # ops) c =
     held_run vk on ops (snd (acquireLock vk on t key ttl token c))"
| "held_run vk on (Release t key # ops) c = held_run vk on ops (releaseLock vk on t key c)"

lemma acquireLock_held_ok:
  "held_ok (fst c) \<Longrightarrow> held_ok (fst (snd (acquireLock vk on t key ttl token c)))"
  by (cases c) (auto simp: acquireLock_def Let_def tryLock_acquired intro: held_ok_push
      split: prod.splits sum.splits option.splits)

lemma releaseLock_held_ok:
  assumes "held_ok (fst c)"
  shows "held_ok (fst (releaseLock vk on t key c))"
proof (cases "map_of (fst c) key")
  case (Some es)
  note e = held_ok_entry [OF assms Some]
  then obtain x rest where es: "es = x # rest" by (cases es) auto
  have "held_ok (AList.delete key (fst c))"
    using assms by (auto simp: held_ok_def distinct_map_filter AList.delete_eq)
  moreover have "rest \<noteq> [] \<Longrightarrow> held_ok (AList.update key rest (fst c))"
    using e es assms by (intro held_ok_update) auto
  ultimately show ?thesis
    using Some es by (cases c) (auto simp: releaseLock_def Let_def split: prod.splits)
qed (use assms in \<open>cases c, simp add: releaseLock_def\<close>)

lemma held_run_ok: "held_ok (fst c) \<Longrightarrow> held_ok (fst (held_run vk on ops c))"
  by (induction vk on ops c rule: held_run.induct) (auto intro: acquireLock_held_ok releaseLock_held_ok)

text \<open>
  What the deprecated API remembers stays bounded and clean: after any sequence of acquisitions
  and releases, each key appears once, with one to sixteen locks of that key, none of them released.
\<close>

theorem held_locks_bounded:
  "held_ok (fst (held_run vk on ops ([], s)))"
  by (rule held_run_ok) (simp add: held_ok_def)

context valkey_strings begin

lemma release_only_own:
  assumes "vk_get vk t k s = Some v" and "held_ok h"
    and "v \<notin> held_tokens key h \<or> k \<noteq> lock_key key"
  shows "vk_get vk u k (snd (releaseLock vk on t key (h, s))) = vk_get vk u k s"
proof (cases "map_of h key")
  case None
  then show ?thesis by (simp add: releaseLock_def)
next
  case (Some es)
  note e = held_ok_entry [OF assms(2) Some]
  then obtain lk d rest where es: "es = (lk, d) # rest" by (cases es) auto
  then have st: "snd (releaseLock vk on t key (h, s)) = snd (snd (lock_release vk on t lk s))"
    using Some by (auto simp: releaseLock_def Let_def split: prod.splits)
  have "v \<noteq> lk_token lk \<or> k \<noteq> lock_key (lk_key lk)"
    using assms(3) Some es e by (auto simp: held_tokens_def)
  then show ?thesis
    unfolding st lock_release_state using assms(1)
    by (cases "k = lock_key (lk_key lk)") (auto simp: release_lua_def get_del_other)
qed

end

text \<open>
  \<open>releaseLock\<close> releases only what this process took: whatever a key of the server holds, if its
  token is not one this process remembers for the key, the call leaves it as it is. A lock another
  process took over survives the late release of the first holder.
\<close>

theorem release_lock_only_own:
  assumes "valkey_strings vk" and "vk_get vk t k s = Some v" and "held_ok h"
    and "v \<notin> held_tokens key h \<or> k \<noteq> lock_key key"
  shows "vk_get vk u k (snd (releaseLock vk on t key (h, s))) = vk_get vk u k s"
  using assms by (rule valkey_strings.release_only_own)

theorem release_lock_only_own_witness:
  "vk_get mem_valkey 1600 (lock_key ''job'') (snd (releaseLock mem_valkey True 1500 ''job''
     ([(''job'', [(example_lock, 1000)])],
      snd (tryLock mem_valkey True 1200 ''job'' (Some 1000) ''bb'' mem_empty)))) = Some ''bb''"
proof -
  let ?s = "snd (tryLock mem_valkey True 1200 ''job'' (Some 1000) ''bb'' mem_empty)"
  have g: "vk_get mem_valkey 1500 (lock_key ''job'') ?s = Some ''bb''"
    "vk_get mem_valkey 1600 (lock_key ''job'') ?s = Some ''bb''"
    by (simp_all add: tryLock_def positive_int_def mem_valkey_def mem_get_def mem_empty_def mem_set_def
        live_def)
  have h: "held_ok [(''job'', [(example_lock, 1000)])]" by (simp add: held_ok_def example_lock_def)
  have "''bb'' \<notin> held_tokens ''job'' [(''job'', [(example_lock, 1000)])] \<or> lock_key ''job'' \<noteq> lock_key ''job''"
    by (simp add: held_tokens_def example_lock_def)
  from release_lock_only_own [OF mem.valkey_strings_axioms g(1) h this, of 1600 True] g(2)
  show ?thesis by simp
qed

end
