(* ===== verification/Json.thy ===== *)
theory Json
  imports Prelude "HOL-Library.Multiset"
begin

text \<open>
  What the packages use of JavaScript's values and of \<open>JSON\<close>: values as a datatype, \<open>JSON.stringify\<close>
  (what it drops, what it refuses, what it writes) and \<open>JSON.parse\<close>, with the round trip between them,
  and the order in which an object has its properties.

  A character is an 8-bit code unit, so text above U+00FF is outside the model. An integer is a
  \<open>JNum\<close>; a finite number that is not one is a \<open>JDec\<close> of its text; \<open>JNaN\<close> stands for the numbers JSON has
  no text for. \<open>JStream\<close> is an object that is a stream or a file, with the members a dump of it shows. A
  cyclic object is not a value of this type.
\<close>

datatype jsval =
    JUndef | JNull | JBool bool | JNum int | JDec string | JNaN | JStr string
  | JFun | JBig int | JBuf "nat list" | JStream "(string \<times> jsval) list"
  | JArr "jsval list" | JObj "(string \<times> jsval) list"

section \<open>Properties of objects\<close>

text \<open>
  Assigning a property keeps its place if it is there and appends it otherwise; the properties whose
  names are array indices come first, in numeric order, whatever the order of assignment.
\<close>

definition is_index :: "string \<Rightarrow> bool" where
  "is_index k \<longleftrightarrow> k \<noteq> [] \<and> (\<forall>c\<in>set k. is_digit c) \<and> (hd k = CHR ''0'' \<longrightarrow> k = ''0'')
     \<and> undec k < 4294967295"

fun put :: "string \<Rightarrow> 'v \<Rightarrow> (string \<times> 'v) list \<Rightarrow> (string \<times> 'v) list" where
  "put k v [] = [(k, v)]"
| "put k v ((k', v') # ps) = (if k' = k then (k, v) # ps else (k', v') # put k v ps)"

definition own_order :: "(string \<times> 'v) list \<Rightarrow> (string \<times> 'v) list" where
  "own_order ps = sort_key (\<lambda>p. undec (fst p)) (filter (\<lambda>p. is_index (fst p)) ps)
     @ filter (\<lambda>p. \<not> is_index (fst p)) ps"

definition from_entries :: "(string \<times> 'v) list \<Rightarrow> (string \<times> 'v) list" where
  "from_entries es = own_order (foldl (\<lambda>ps (k, v). put k v ps) [] es)"

definition member_of :: "string \<Rightarrow> (string \<times> jsval) list \<Rightarrow> jsval" where
  "member_of k ps = (case map_of ps k of None \<Rightarrow> JUndef | Some v \<Rightarrow> v)"

lemma put_new: "k \<notin> fst ` set ps \<Longrightarrow> put k v ps = ps @ [(k, v)]"
  by (induction ps) auto

lemma foldl_put_distinct:
  "distinct (map fst (ps @ es)) \<Longrightarrow> foldl (\<lambda>ps (k, v). put k v ps) ps es = ps @ es"
proof (induction es arbitrary: ps)
  case (Cons e es)
  then show ?case by (cases e) (simp add: put_new)
qed simp

lemma from_entries_id:
  "distinct (map fst es) \<Longrightarrow> own_order es = es \<Longrightarrow> from_entries es = es"
  using foldl_put_distinct [of "[]" es] by (simp add: from_entries_def)

lemma from_entries_distinct: "distinct (map fst es) \<Longrightarrow> from_entries es = own_order es"
  using foldl_put_distinct [of "[]" es] by (simp add: from_entries_def)

lemma own_order_idem [simp]: "own_order (own_order ps) = own_order ps"
proof -
  have s: "sort_key f (filter P ps) = filter P (sort_key f (filter P ps))" for f :: "_ \<Rightarrow> nat" and P
    by (simp add: filter_sort)
  have "filter (\<lambda>p. is_index (fst p)) (own_order ps)
      = sort_key (\<lambda>p. undec (fst p)) (filter (\<lambda>p. is_index (fst p)) ps)"
    by (simp add: own_order_def filter_sort filter_empty_conv)
  moreover have "filter (\<lambda>p. \<not> is_index (fst p)) (own_order ps) = filter (\<lambda>p. \<not> is_index (fst p)) ps"
    by (simp add: own_order_def filter_sort)
  moreover have "sort_key f (sort_key f xs) = sort_key f xs" for f :: "_ \<Rightarrow> nat" and xs :: "(string \<times> 'a) list"
    by (simp add: sort_key_id_if_sorted)
  ultimately show ?thesis
    by (simp add: own_order_def)
qed

lemma set_own_order [simp]: "set (own_order ps) = set ps"
  by (auto simp: own_order_def)

lemma mset_own_order [simp]: "mset (own_order ps) = mset ps"
  by (simp add: own_order_def)

lemma distinct_own_order [simp]: "distinct (map fst (own_order ps)) = distinct (map fst ps)"
  by (metis mset_own_order mset_map mset_eq_imp_distinct_iff)

section \<open>Text\<close>

datatype json_token = TOpenArr | TCloseArr | TOpenObj | TCloseObj | TComma | TColon
  | TStr string | TNum int | TDec string | TTrue | TFalse | TNull

definition int_text :: "int \<Rightarrow> string" where
  "int_text i = (if i < 0 then CHR ''-'' # dec (nat (- i)) else dec (nat i))"

definition hex_digit :: "nat \<Rightarrow> char" where
  "hex_digit d = (if d < 10 then char_of (48 + d) else char_of (87 + d))"

definition hex_val :: "char \<Rightarrow> nat" where
  "hex_val c = (if is_digit c then code_unit c - 48
     else if 97 \<le> code_unit c then code_unit c - 87 else code_unit c - 55)"

definition quote :: char where "quote = CHR 34"
definition backslash :: char where "backslash = CHR 92"

definition esc :: "char \<Rightarrow> string" where
  "esc c = (if c = quote then [backslash, quote] else if c = backslash then [backslash, backslash]
     else if c = CHR 8 then [backslash, CHR ''b''] else if c = CHR 9 then [backslash, CHR ''t'']
     else if c = CHR 10 then [backslash, CHR ''n''] else if c = CHR 12 then [backslash, CHR ''f'']
     else if c = CHR 13 then [backslash, CHR ''r'']
     else if code_unit c < 32
       then backslash # ''u00'' @ [hex_digit (code_unit c div 16), hex_digit (code_unit c mod 16)]
     else [c])"

definition quoted :: "string \<Rightarrow> string" where
  "quoted s = quote # concat (map esc s) @ [quote]"

fun token_text :: "json_token \<Rightarrow> string" where
  "token_text TOpenArr = ''[''"
| "token_text TCloseArr = '']''"
| "token_text TOpenObj = ''{''"
| "token_text TCloseObj = ''}''"
| "token_text TComma = '',''"
| "token_text TColon = '':''"
| "token_text (TStr s) = quoted s"
| "token_text (TNum i) = int_text i"
| "token_text (TDec d) = d"
| "token_text TTrue = ''true''"
| "token_text TFalse = ''false''"
| "token_text TNull = ''null''"

fun tokens :: "jsval \<Rightarrow> json_token list"
  and tokens_elems :: "jsval list \<Rightarrow> json_token list"
  and tokens_members :: "(string \<times> jsval) list \<Rightarrow> json_token list" where
  "tokens (JBool b) = [if b then TTrue else TFalse]"
| "tokens (JNum i) = [TNum i]"
| "tokens (JDec d) = [TDec d]"
| "tokens (JStr s) = [TStr s]"
| "tokens (JArr vs) = TOpenArr # tokens_elems vs @ [TCloseArr]"
| "tokens (JObj ps) = TOpenObj # tokens_members ps @ [TCloseObj]"
| "tokens _ = [TNull]"
| "tokens_elems [] = []"
| "tokens_elems [v] = tokens v"
| "tokens_elems (v # w # vs) = tokens v @ TComma # tokens_elems (w # vs)"
| "tokens_members [] = []"
| "tokens_members [(k, v)] = TStr k # TColon # tokens v"
| "tokens_members ((k, v) # p # ps) = TStr k # TColon # tokens v @ TComma # tokens_members (p # ps)"

definition tokens_text :: "json_token list \<Rightarrow> string" where
  "tokens_text ts = concat (map token_text ts)"

text \<open>
  What \<open>JSON.stringify\<close> makes of a value before it writes it: \<open>undefined\<close> and functions vanish (they are
  \<open>null\<close> in an array), a \<open>BigInt\<close> is a \<open>TypeError\<close>, a \<open>Buffer\<close> is what its \<open>toJSON\<close> gives.
\<close>

datatype type_error = BigIntNotSerializable

fun to_json :: "jsval \<Rightarrow> type_error + jsval option"
  and to_json_elems :: "jsval list \<Rightarrow> type_error + jsval list"
  and to_json_members :: "(string \<times> jsval) list \<Rightarrow> type_error + (string \<times> jsval) list" where
  "to_json JUndef = Inr None"
| "to_json JFun = Inr None"
| "to_json (JBig i) = Inl BigIntNotSerializable"
| "to_json JNaN = Inr (Some JNull)"
| "to_json (JBuf bs) = Inr (Some (JObj [(''type'', JStr ''Buffer''), (''data'', JArr (map (\<lambda>b. JNum (int b)) bs))]))"
| "to_json (JStream ps) = and_then (to_json_members ps) (\<lambda>qs. Inr (Some (JObj qs)))"
| "to_json (JArr vs) = and_then (to_json_elems vs) (\<lambda>ws. Inr (Some (JArr ws)))"
| "to_json (JObj ps) = and_then (to_json_members ps) (\<lambda>qs. Inr (Some (JObj qs)))"
| "to_json v = Inr (Some v)"
| "to_json_elems [] = Inr []"
| "to_json_elems (v # vs) = and_then (to_json v) (\<lambda>w. and_then (to_json_elems vs)
     (\<lambda>ws. Inr ((case w of None \<Rightarrow> JNull | Some u \<Rightarrow> u) # ws)))"
| "to_json_members [] = Inr []"
| "to_json_members ((k, v) # ps) = and_then (to_json v) (\<lambda>w. and_then (to_json_members ps)
     (\<lambda>qs. Inr (case w of None \<Rightarrow> qs | Some u \<Rightarrow> (k, u) # qs)))"

definition stringify :: "jsval \<Rightarrow> type_error + string option" where
  "stringify v = and_then (to_json v) (\<lambda>w. Inr (map_option (\<lambda>u. tokens_text (tokens u)) w))"

section \<open>Parsing\<close>

definition escape_char :: "char \<Rightarrow> char option" where
  "escape_char e =
     (if e = quote \<or> e = backslash \<or> e = CHR ''/'' then Some e
      else if e = CHR ''b'' then Some (CHR 8) else if e = CHR ''t'' then Some (CHR 9)
      else if e = CHR ''n'' then Some (CHR 10) else if e = CHR ''f'' then Some (CHR 12)
      else if e = CHR ''r'' then Some (CHR 13) else None)"

text \<open>The escape after a backslash: the character it stands for and the text after it.\<close>

fun escape_at :: "string \<Rightarrow> (char \<times> string) option" where
  "escape_at [] = None"
| "escape_at (e # cs) =
     (if e = CHR ''u'' then
        (let v = foldl (\<lambda>a h. 16 * a + hex_val h) 0 (take 4 cs)
         in if 4 \<le> length cs \<and> list_all is_hex (take 4 cs) \<and> v < 256
            then Some (char_of v, drop 4 cs) else None)
      else map_option (\<lambda>d. (d, cs)) (escape_char e))"

lemma escape_at_shorter: "escape_at s = Some (d, r) \<Longrightarrow> length r < length s"
  by (cases s) (auto simp: Let_def split: if_splits)

function unesc :: "string \<Rightarrow> (string \<times> string) option" where
  "unesc [] = None"
| "unesc (c # cs) =
     (if c = quote then Some ([], cs)
      else if c = backslash then
        (case escape_at cs of None \<Rightarrow> None
         | Some (d, r) \<Rightarrow> map_option (\<lambda>(s, t). (d # s, t)) (unesc r))
      else if code_unit c < 32 then None
      else map_option (\<lambda>(s, t). (c # s, t)) (unesc cs))"
  by pat_completeness auto
termination
  by (relation "measure length") (auto dest: escape_at_shorter)

declare unesc.simps [simp del]

lemma unesc_shorter: "unesc s = Some (x, r) \<Longrightarrow> length r < length s"
proof (induction s arbitrary: x r rule: unesc.induct)
  case (2 c cs)
  show ?case
  proof (cases "c = backslash \<and> c \<noteq> quote")
    case True
    with 2(3) obtain d r' y where e: "escape_at cs = Some (d, r')" and "unesc r' = Some (y, r)"
      by (auto simp: unesc.simps split: option.splits)
    with 2(1) True have "length r < length r'" by blast
    with escape_at_shorter [OF e] show ?thesis by simp
  next
    case False
    with 2(2,3) show ?thesis
      by (auto simp: unesc.simps split: if_splits dest: less_SucI)
  qed
qed (simp add: unesc.simps)

definition num_char :: "char \<Rightarrow> bool" where
  "num_char c \<longleftrightarrow> is_digit c \<or> c \<in> {CHR ''-'', CHR ''+'', CHR ''.'', CHR ''e'', CHR ''E''}"

definition int_part_ok :: "string \<Rightarrow> bool" where
  "int_part_ok s \<longleftrightarrow> s \<noteq> [] \<and> (\<forall>c\<in>set s. is_digit c) \<and> (hd s = CHR ''0'' \<longrightarrow> s = ''0'')"

definition digits_ok :: "string \<Rightarrow> bool" where
  "digits_ok s \<longleftrightarrow> s \<noteq> [] \<and> (\<forall>c\<in>set s. is_digit c)"

definition exp_ok :: "string \<Rightarrow> bool" where
  "exp_ok s = (case s of [] \<Rightarrow> True
     | c # cs \<Rightarrow> c \<in> {CHR ''e'', CHR ''E''} \<and>
         digits_ok (if cs \<noteq> [] \<and> hd cs \<in> {CHR ''+'', CHR ''-''} then tl cs else cs))"

definition fraction_ok :: "string \<Rightarrow> bool" where
  "fraction_ok s = (case s of [] \<Rightarrow> True
     | c # cs \<Rightarrow> if c = CHR ''.'' then digits_ok (takeWhile is_digit cs) \<and> exp_ok (dropWhile is_digit cs)
                 else exp_ok s)"

definition num_token :: "string \<Rightarrow> json_token option" where
  "num_token n =
     (let neg = n \<noteq> [] \<and> hd n = CHR ''-''; u = (if neg then tl n else n)
      in if int_part_ok u then Some (TNum (if neg then - int (undec u) else int (undec u)))
         else if int_part_ok (takeWhile is_digit u) \<and> fraction_ok (dropWhile is_digit u)
           then Some (TDec n) else None)"

section \<open>Lexing\<close>

definition json_space :: "char \<Rightarrow> bool" where
  "json_space c \<longleftrightarrow> code_unit c \<in> {9, 10, 13, 32}"

definition punctuation :: "char \<Rightarrow> json_token option" where
  "punctuation c =
     (if c = CHR ''['' then Some TOpenArr else if c = CHR '']'' then Some TCloseArr
      else if c = CHR ''{'' then Some TOpenObj else if c = CHR ''}'' then Some TCloseObj
      else if c = CHR '','' then Some TComma else if c = CHR '':'' then Some TColon else None)"

definition word_token :: "string \<Rightarrow> (json_token \<times> string) option" where
  "word_token s =
     (if take 4 s = ''true'' then Some (TTrue, drop 4 s)
      else if take 5 s = ''false'' then Some (TFalse, drop 5 s)
      else if take 4 s = ''null'' then Some (TNull, drop 4 s) else None)"

text \<open>The first token of a text that starts with no white space.\<close>

definition next_token :: "string \<Rightarrow> (json_token \<times> string) option" where
  "next_token s = (case s of [] \<Rightarrow> None | c # cs \<Rightarrow>
     (case punctuation c of Some t \<Rightarrow> Some (t, cs)
      | None \<Rightarrow>
         if c = quote then map_option (\<lambda>(x, r). (TStr x, r)) (unesc cs)
         else if num_char c then map_option (\<lambda>t. (t, dropWhile num_char s)) (num_token (takeWhile num_char s))
         else word_token s))"

lemma next_token_shorter: "next_token s = Some (t, r) \<Longrightarrow> length r < length s"
  by (auto simp: next_token_def word_token_def less_Suc_eq_le length_dropWhile_le
      split: list.splits option.splits if_splits dest: unesc_shorter)

function lex :: "string \<Rightarrow> json_token list option" where
  "lex s = (case dropWhile json_space s of [] \<Rightarrow> Some []
     | c # cs \<Rightarrow> (case next_token (c # cs) of None \<Rightarrow> None
         | Some (t, r) \<Rightarrow> map_option (Cons t) (lex r)))"
  by pat_completeness auto
termination
proof (relation "measure length", simp)
  fix s c cs p t r
  assume "dropWhile json_space s = c # cs" "next_token (c # cs) = Some p" "(t, r) = p"
  then have "length r < length (c # cs)" using next_token_shorter by metis
  also have "\<dots> \<le> length s" using length_dropWhile_le \<open>dropWhile json_space s = c # cs\<close> by metis
  finally show "(r, s) \<in> measure length" by simp
qed

declare lex.simps [simp del]


lemma lex_Nil [simp]: "lex [] = Some []"
  by (simp add: lex.simps)

lemma lex_step:
  "next_token s = Some (t, r) \<Longrightarrow> \<not> json_space (hd s) \<Longrightarrow> lex s = map_option (Cons t) (lex r)"
proof (cases s)
  case Nil
  then show "next_token s = Some (t, r) \<Longrightarrow> ?thesis" by (simp add: next_token_def)
next
  case (Cons c cs)
  then show "next_token s = Some (t, r) \<Longrightarrow> \<not> json_space (hd s) \<Longrightarrow> ?thesis"
    by (simp add: lex.simps [of "c # cs"])
qed

text \<open>A text that cannot continue a number.\<close>

definition sep :: "string \<Rightarrow> bool" where
  "sep r \<longleftrightarrow> r = [] \<or> \<not> num_char (hd r)"

definition token_ok :: "json_token \<Rightarrow> bool" where
  "token_ok t = (case t of TDec d \<Rightarrow> num_token d = Some t \<and> (\<forall>c\<in>set d. num_char c) | _ \<Rightarrow> True)"

lemma is_hex_digit: "d < 16 \<Longrightarrow> is_hex (hex_digit d) \<and> hex_val (hex_digit d) = d"
  by (cases "d < 10") (simp_all add: hex_digit_def hex_val_def is_hex_def is_digit_def of_char_of)

lemma unesc_backslash:
  "unesc (backslash # cs) = (case escape_at cs of None \<Rightarrow> None
     | Some (d, r) \<Rightarrow> map_option (\<lambda>(s, t). (d # s, t)) (unesc r))"
  by (simp add: unesc.simps quote_def backslash_def)

lemma escape_at_char: "escape_char e = Some d \<Longrightarrow> escape_at (e # cs) = Some (d, cs)"
  by (auto simp: escape_char_def quote_def backslash_def)

lemma escape_char_simps:
  "escape_char quote = Some quote" "escape_char backslash = Some backslash"
  "escape_char CHR ''b'' = Some (CHR 8)" "escape_char CHR ''t'' = Some (CHR 9)"
  "escape_char CHR ''n'' = Some (CHR 10)" "escape_char CHR ''f'' = Some (CHR 12)"
  "escape_char CHR ''r'' = Some (CHR 13)"
  by code_simp+

lemma escape_at_u:
  assumes "is_hex a" "is_hex b" "is_hex c" "is_hex d"
    and "16 * (16 * (16 * hex_val a + hex_val b) + hex_val c) + hex_val d < 256"
  shows "escape_at (CHR ''u'' # a # b # c # d # r)
    = Some (char_of (16 * (16 * (16 * hex_val a + hex_val b) + hex_val c) + hex_val d), r)"
proof -
  have "take 4 (a # b # c # d # r) = [a, b, c, d]" "drop 4 (a # b # c # d # r) = r"
    by (simp_all add: eval_nat_numeral)
  with assms show ?thesis by (simp only: escape_at.simps) (simp add: Let_def)
qed

lemma hex_zero: "is_hex CHR ''0''" "hex_val CHR ''0'' = 0"
  by (simp_all add: is_hex_def hex_val_def is_digit_def)

lemma escape_at_hex:
  assumes "code_unit c < 32"
  shows "escape_at (CHR ''u'' # CHR ''0'' # CHR ''0'' # hex_digit (code_unit c div 16) # hex_digit (code_unit c mod 16) # r) = Some (c, r)"
proof -
  define n where "n = code_unit c"
  from assms have "n div 16 < 16" "n mod 16 < 16" by (auto simp: n_def)
  note h = is_hex_digit [OF this(1)] is_hex_digit [OF this(2)]
  have n: "16 * (n div 16) + n mod 16 = n" by simp
  have "char_of n = c" by (simp add: n_def)
  with h n assms show ?thesis
    by (fold n_def) (subst escape_at_u; simp add: hex_zero)
qed

lemma esc_shape:
  "(\<exists>d. esc c = [backslash, d] \<and> escape_char d = Some c)
   \<or> (esc c = backslash # ''u00'' @ [hex_digit (code_unit c div 16), hex_digit (code_unit c mod 16)]
       \<and> code_unit c < 32)
   \<or> (esc c = [c] \<and> c \<noteq> quote \<and> c \<noteq> backslash \<and> \<not> code_unit c < 32)"
proof -
  note [simp] = escape_char_simps
  show ?thesis
    by (cases "c = quote"; cases "c = backslash"; cases "c = CHR 8"; cases "c = CHR 9";
        cases "c = CHR 10"; cases "c = CHR 12"; cases "c = CHR 13"; cases "code_unit c < 32")
      (simp_all add: esc_def)
qed

lemma unesc_esc: "unesc (esc c @ r) = map_option (\<lambda>(s, t). (c # s, t)) (unesc r)"
proof -
  have e: "unesc ([backslash, e] @ r) = map_option (\<lambda>(s, t). (d # s, t)) (unesc r)"
    if "escape_char e = Some d" for d e
    using escape_at_char [OF that] by (simp only: unesc_backslash append_Cons append_Nil) simp
  consider (named) d where "esc c = [backslash, d]" and "escape_char d = Some c"
    | (hex) "esc c = backslash # ''u00'' @ [hex_digit (code_unit c div 16), hex_digit (code_unit c mod 16)]"
        and "code_unit c < 32"
    | (self) "esc c = [c]" and "c \<noteq> quote" and "c \<noteq> backslash" and "\<not> code_unit c < 32"
    using esc_shape [of c] by blast
  then show ?thesis
  proof cases
    case named
    then show ?thesis using e by simp
  next
    case hex
    then show ?thesis using escape_at_hex [of c r] by (simp add: unesc_backslash del: escape_at.simps)
  next
    case self
    then show ?thesis by (simp add: unesc.simps)
  qed
qed

lemma unesc_quoted: "unesc (concat (map esc s) @ quote # r) = Some (s, r)"
proof (induction s)
  case Nil
  then show ?case by (simp add: unesc.simps)
next
  case (Cons c s)
  then show ?case by (simp add: unesc_esc)
qed

lemma num_char_span:
  "\<forall>c\<in>set n. num_char c \<Longrightarrow> sep r \<Longrightarrow> takeWhile num_char (n @ r) = n \<and> dropWhile num_char (n @ r) = r"
  by (cases r) (auto simp: sep_def takeWhile_append dropWhile_append)

lemma next_token_num:
  assumes "\<forall>c\<in>set n. num_char c" and "n \<noteq> []" and "sep r" and "num_token n = Some t"
  shows "next_token (n @ r) = Some (t, r)" and "\<not> json_space (hd (n @ r))"
proof -
  obtain c cs where n: "n = c # cs" using assms(2) by (cases n) auto
  with assms(1) have c: "num_char c" by simp
  then have "punctuation c = None" "c \<noteq> quote" "\<not> json_space c"
    by (auto simp: num_char_def is_digit_def punctuation_def quote_def json_space_def)
  with c n num_char_span [OF assms(1,3)] assms(4)
  show "next_token (n @ r) = Some (t, r)" and "\<not> json_space (hd (n @ r))"
    by (simp_all add: next_token_def)
qed

lemma int_part_dec: "int_part_ok (dec n)"
proof -
  have "hd (dec n) = CHR ''0'' \<Longrightarrow> dec n = ''0''"
    using hd_dec [of n] by (cases "n = 0") (simp_all add: dec.simps [of 0] digit_char_0)
  then show ?thesis by (simp add: int_part_ok_def dec_digits)
qed

lemma dec_no_minus: "hd (dec n) \<noteq> CHR ''-''"
  using dec_digits [of n] by (cases "dec n") (auto simp: is_digit_def)

lemma int_text_token:
  "num_token (int_text i) = Some (TNum i) \<and> (\<forall>c\<in>set (int_text i). num_char c) \<and> int_text i \<noteq> []"
  using dec_digits by (auto simp: int_text_def num_token_def int_part_dec dec_no_minus num_char_def Let_def)

lemma next_token_text:
  assumes "token_ok t" and "case t of TNum _ \<Rightarrow> sep r | TDec _ \<Rightarrow> sep r | _ \<Rightarrow> True"
  shows "next_token (token_text t @ r) = Some (t, r) \<and> \<not> json_space (hd (token_text t @ r))"
proof (cases t)
  case (TStr s)
  then show ?thesis
    by (simp add: next_token_def quoted_def unesc_quoted punctuation_def)
      (simp add: quote_def json_space_def)
next
  case (TNum i)
  with assms(2) show ?thesis using next_token_num [of "int_text i" r] int_text_token [of i] by simp
next
  case (TDec d)
  with assms have d: "num_token d = Some t" "\<forall>c\<in>set d. num_char c" "sep r" by (auto simp: token_ok_def)
  then have "d \<noteq> []" by (auto simp: num_token_def int_part_ok_def)
  with d TDec show ?thesis using next_token_num [of d r t] by simp
qed (simp_all add: next_token_def punctuation_def word_token_def json_space_def num_char_def
      is_digit_def quote_def)

lemma lex_token:
  assumes "token_ok t" and "case t of TNum _ \<Rightarrow> sep r | TDec _ \<Rightarrow> sep r | _ \<Rightarrow> True"
  shows "lex (token_text t @ r) = map_option (Cons t) (lex r)"
  using next_token_text [OF assms] by (simp add: lex_step)

text \<open>
  The values \<open>JSON.parse\<close> can give: no undefined, no functions, no buffers, every object with distinct
  properties in their own order.
\<close>

definition dec_ok :: "string \<Rightarrow> bool" where
  "dec_ok d \<longleftrightarrow> num_token d = Some (TDec d) \<and> (\<forall>c\<in>set d. num_char c)"

fun plain :: "jsval \<Rightarrow> bool"
  and plain_elems :: "jsval list \<Rightarrow> bool"
  and plain_members :: "(string \<times> jsval) list \<Rightarrow> bool" where
  "plain JNull = True"
| "plain (JBool b) = True"
| "plain (JNum i) = True"
| "plain (JStr s) = True"
| "plain (JDec d) = dec_ok d"
| "plain (JArr vs) = plain_elems vs"
| "plain (JObj ps) = (distinct (map fst ps) \<and> own_order ps = ps \<and> plain_members ps)"
| "plain _ = False"
| "plain_elems [] = True"
| "plain_elems (v # vs) = (plain v \<and> plain_elems vs)"
| "plain_members [] = True"
| "plain_members ((k, v) # ps) = (plain v \<and> plain_members ps)"

lemma sep_token [simp]: "sep (token_text t @ r) \<longleftrightarrow> t \<in> {TOpenArr, TCloseArr, TOpenObj, TCloseObj, TComma, TColon, TTrue, TFalse, TNull} \<or> (\<exists>s. t = TStr s)" if "\<forall>i d. t \<noteq> TNum i \<and> t \<noteq> TDec d"
  using that by (cases t) (auto simp: sep_def num_char_def is_digit_def quoted_def quote_def)

lemma sep_Nil [simp]: "sep []"
  by (simp add: sep_def)

lemma tokens_text_simps [simp]:
  "tokens_text [] = []" "tokens_text (t # ts) = token_text t @ tokens_text ts"
  "tokens_text (ts @ us) = tokens_text ts @ tokens_text us"
  by (simp_all add: tokens_text_def)

lemma lex_plain_token:
  "token_ok t \<Longrightarrow> \<forall>i d. t \<noteq> TNum i \<and> t \<noteq> TDec d \<Longrightarrow>
     lex (token_text t @ r) = map_option (Cons t) (lex r)"
  by (rule lex_token) (auto split: json_token.splits)

lemmas lex_punct =
  lex_plain_token [of TOpenArr] lex_plain_token [of TCloseArr] lex_plain_token [of TOpenObj]
  lex_plain_token [of TCloseObj] lex_plain_token [of TComma] lex_plain_token [of TColon]
  lex_plain_token [of "TStr s" for s] lex_plain_token [of TTrue] lex_plain_token [of TFalse]
  lex_plain_token [of TNull]

lemmas lex_value = lex_punct [unfolded token_ok_def, simplified]

lemma sep_punct [simp]:
  "sep (CHR '','' # r)" "sep (CHR '']'' # r)" "sep (CHR ''}'' # r)"
  by (simp_all add: sep_def num_char_def is_digit_def)

lemma append_fun: "append (x # xs) = (\<lambda>r. x # xs @ r)" "append (xs @ ys) = (\<lambda>r. xs @ ys @ r)"
    "append [] = (\<lambda>r. r)"
  by auto

lemma lex_tokens:
  "plain v \<Longrightarrow> sep r \<Longrightarrow> lex (tokens_text (tokens v) @ r) = map_option (append (tokens v)) (lex r)"
  "plain_elems vs \<Longrightarrow> sep r \<Longrightarrow> lex (tokens_text (tokens_elems vs) @ r) = map_option (append (tokens_elems vs)) (lex r)"
  "plain_members ps \<Longrightarrow> sep r \<Longrightarrow> lex (tokens_text (tokens_members ps) @ r) = map_option (append (tokens_members ps)) (lex r)"
proof (induction v and vs and ps arbitrary: r and r and r rule: tokens_tokens_elems_tokens_members.induct)
  case (3 d r)
  then show ?case using lex_token [of "TDec d" r]
    by (simp add: token_ok_def dec_ok_def)
next
  case (2 i r)
  then show ?case using lex_token [of "TNum i" r] by (simp add: token_ok_def)
qed (auto simp: lex_value option.map_comp comp_def option.map_ident append_fun)

section \<open>The parser\<close>

text \<open>
  A stack machine over the tokens: what the text read so far is waiting for, and the arrays and objects
  still open around it.
\<close>

datatype frame = FArr "jsval list" | FObj "(string \<times> jsval) list" | FKey "(string \<times> jsval) list" string

datatype pstate = PVal | PFirst | PKeyFirst | PKey | PColon string | PDone jsval | PErr

definition start_value :: "json_token \<Rightarrow> frame list \<Rightarrow> pstate \<times> frame list" where
  "start_value t st =
     (case t of TStr s \<Rightarrow> (PDone (JStr s), st) | TNum i \<Rightarrow> (PDone (JNum i), st)
      | TDec d \<Rightarrow> (PDone (JDec d), st) | TTrue \<Rightarrow> (PDone (JBool True), st)
      | TFalse \<Rightarrow> (PDone (JBool False), st) | TNull \<Rightarrow> (PDone JNull, st)
      | TOpenArr \<Rightarrow> (PFirst, FArr [] # st) | TOpenObj \<Rightarrow> (PKeyFirst, FObj [] # st)
      | _ \<Rightarrow> (PErr, []))"

definition parse_step :: "pstate \<times> frame list \<Rightarrow> json_token \<Rightarrow> pstate \<times> frame list" where
  "parse_step p t =
     (case p of
        (PVal, st) \<Rightarrow> start_value t st
      | (PFirst, FArr vs # st) \<Rightarrow> (if t = TCloseArr then (PDone (JArr []), st) else start_value t (FArr vs # st))
      | (PKeyFirst, FObj ps # st) \<Rightarrow>
          (case t of TCloseObj \<Rightarrow> (PDone (JObj []), st) | TStr k \<Rightarrow> (PColon k, FObj ps # st) | _ \<Rightarrow> (PErr, []))
      | (PKey, FObj ps # st) \<Rightarrow> (case t of TStr k \<Rightarrow> (PColon k, FObj ps # st) | _ \<Rightarrow> (PErr, []))
      | (PColon k, FObj ps # st) \<Rightarrow> (if t = TColon then (PVal, FKey ps k # st) else (PErr, []))
      | (PDone v, FArr vs # st) \<Rightarrow>
          (case t of TComma \<Rightarrow> (PVal, FArr (vs @ [v]) # st)
           | TCloseArr \<Rightarrow> (PDone (JArr (vs @ [v])), st) | _ \<Rightarrow> (PErr, []))
      | (PDone v, FKey ps k # st) \<Rightarrow>
          (case t of TComma \<Rightarrow> (PKey, FObj (ps @ [(k, v)]) # st)
           | TCloseObj \<Rightarrow> (PDone (JObj (from_entries (ps @ [(k, v)]))), st) | _ \<Rightarrow> (PErr, []))
      | _ \<Rightarrow> (PErr, []))"

definition json_parse :: "string \<Rightarrow> jsval option" where
  "json_parse s = (case lex s of None \<Rightarrow> None
     | Some ts \<Rightarrow> (case foldl parse_step (PVal, []) ts of (PDone v, []) \<Rightarrow> Some v | _ \<Rightarrow> None))"

lemma tokens_first:
  "foldl parse_step (PFirst, FArr vs # st) (tokens v) = foldl parse_step (PVal, FArr vs # st) (tokens v)"
  by (cases v) (simp_all add: parse_step_def)

lemma elems_first:
  "us \<noteq> [] \<Longrightarrow> foldl parse_step (PFirst, FArr vs # st) (tokens_elems us) = foldl parse_step (PVal, FArr vs # st) (tokens_elems us)"
  by (cases us rule: tokens_elems.cases) (simp_all add: tokens_first)

lemma members_first:
  "ps \<noteq> [] \<Longrightarrow> foldl parse_step (PKeyFirst, FObj qs # st) (tokens_members ps) = foldl parse_step (PKey, FObj qs # st) (tokens_members ps)"
  by (cases ps rule: tokens_members.cases) (simp_all add: parse_step_def)

lemma parse_tokens:
  "plain v \<Longrightarrow> foldl parse_step (PVal, st) (tokens v) = (PDone v, st)"
  "plain_elems vs \<Longrightarrow> vs \<noteq> [] \<Longrightarrow>
     foldl parse_step (PVal, FArr us # st) (tokens_elems vs @ [TCloseArr]) = (PDone (JArr (us @ vs)), st)"
  "plain_members ps \<Longrightarrow> ps \<noteq> [] \<Longrightarrow>
     foldl parse_step (PKey, FObj qs # st) (tokens_members ps @ [TCloseObj])
       = (PDone (JObj (from_entries (qs @ ps))), st)"
proof (induction v and vs and ps arbitrary: st and us st and qs st rule: tokens_tokens_elems_tokens_members.induct)
  case (5 vs)
  show ?case
  proof (cases "vs = []")
    case True
    then show ?thesis by (simp add: parse_step_def start_value_def)
  next
    case False
    with 5 have "foldl parse_step (PVal, FArr [] # st) (tokens_elems vs @ [TCloseArr]) = (PDone (JArr vs), st)"
      by simp
    then show ?thesis
      using elems_first [OF False] by (simp add: parse_step_def [of "(PVal, st)"] start_value_def)
  qed
next
  case (6 ps)
  show ?case
  proof (cases "ps = []")
    case True
    then show ?thesis by (simp add: parse_step_def start_value_def)
  next
    case False
    with 6 have "foldl parse_step (PKey, FObj [] # st) (tokens_members ps @ [TCloseObj])
        = (PDone (JObj ps), st)"
      by (simp add: from_entries_id)
    then show ?thesis
      using members_first [OF False] by (simp add: parse_step_def [of "(PVal, st)"] start_value_def)
  qed
qed (simp_all add: parse_step_def start_value_def)

text \<open>What is written is read back.\<close>

lemma json_round_trip: "plain v \<Longrightarrow> json_parse (tokens_text (tokens v)) = Some v"
  using lex_tokens(1) [of v "[]"] parse_tokens(1) [of v "[]"] by (simp add: json_parse_def)

lemma to_json_plain:
  "plain v \<Longrightarrow> to_json v = Inr (Some v)"
  "plain_elems vs \<Longrightarrow> to_json_elems vs = Inr vs"
  "plain_members ps \<Longrightarrow> to_json_members ps = Inr ps"
  by (induction v and vs and ps rule: to_json_to_json_elems_to_json_members.induct) auto

lemma stringify_plain: "plain v \<Longrightarrow> stringify v = Inr (Some (tokens_text (tokens v)))"
  by (simp add: stringify_def to_json_plain)

lemma stringify_inj:
  "plain v \<Longrightarrow> plain w \<Longrightarrow> tokens_text (tokens v) = tokens_text (tokens w) \<longleftrightarrow> v = w"
  by (metis json_round_trip option.inject)

lemma stringify_parse:
  "plain v \<Longrightarrow> stringify v = Inr (Some s) \<Longrightarrow> json_parse s = Some v"
  by (auto simp: stringify_plain json_round_trip)

section \<open>UTF-8\<close>

definition utf8 :: "string \<Rightarrow> nat list" where
  "utf8 s = concat (map (\<lambda>c. if code_unit c < 128 then [code_unit c]
     else [192 + code_unit c div 64, 128 + code_unit c mod 64]) s)"

text \<open>\<open>None\<close>: bytes that are not the UTF-8 of text of this model.\<close>

fun from_utf8 :: "nat list \<Rightarrow> string option" where
  "from_utf8 [] = Some []"
| "from_utf8 (a # bs) =
     (if a < 128 then map_option (Cons (char_of a)) (from_utf8 bs)
      else (case bs of [] \<Rightarrow> None
        | b # cs \<Rightarrow> if (a = 194 \<or> a = 195) \<and> 128 \<le> b \<and> b < 192
                    then map_option (Cons (char_of ((a - 192) * 64 + (b - 128)))) (from_utf8 cs) else None))"

lemma utf8_round_trip [simp]: "from_utf8 (utf8 s) = Some s"
proof (induction s)
  case (Cons c s)
  have "code_unit c < 256" using of_char_mod_256 [of c] by (metis mod_less_divisor zero_less_numeral)
  then have *: "\<not> code_unit c < 128 \<Longrightarrow> code_unit c div 64 = 2 \<or> code_unit c div 64 = 3" by linarith
  have **: "code_unit c div 64 * 64 + code_unit c mod 64 = code_unit c" by simp
  from Cons * ** show ?case by (auto simp: utf8_def)
qed (simp add: utf8_def)

lemma utf8_inj [simp]: "utf8 s = utf8 t \<longleftrightarrow> s = t"
  by (metis option.inject utf8_round_trip)

lemma code_unit_less: "code_unit c < 256"
  using of_char_mod_256 [of c] by (metis mod_less_divisor zero_less_numeral)

lemma utf8_bytes: "\<forall>b\<in>set (utf8 s). b < 256"
proof -
  have "code_unit c div 64 < 64" for c using code_unit_less [of c] by linarith
  moreover have "code_unit c mod 64 < 128" for c by (rule less_trans [of _ 64]) simp_all
  ultimately show ?thesis by (auto simp: utf8_def)
qed

end
