(* ===== verification/HttpErrors.thy ===== *)
theory HttpErrors
  imports Json
begin

text \<open>
  \<open>platform-http/src/errors\<close> and \<open>http/global-exception.filter.ts\<close>: the error taxonomy, the exceptions
  the packages throw, and the filter that turns whatever was thrown into one reply.
\<close>

section \<open>Codes and categories\<close>

datatype error_category = NOT_FOUND | CONFLICT | VALIDATION_FAILED | PERMISSION_DENIED
  | PRECONDITION_FAILED | RATE_LIMITED | UNAUTHORIZED | INTERNAL

fun CATEGORY_HTTP_STATUS :: "error_category \<Rightarrow> nat" where
  "CATEGORY_HTTP_STATUS NOT_FOUND = 404"
| "CATEGORY_HTTP_STATUS CONFLICT = 409"
| "CATEGORY_HTTP_STATUS VALIDATION_FAILED = 422"
| "CATEGORY_HTTP_STATUS PERMISSION_DENIED = 403"
| "CATEGORY_HTTP_STATUS PRECONDITION_FAILED = 412"
| "CATEGORY_HTTP_STATUS RATE_LIMITED = 429"
| "CATEGORY_HTTP_STATUS UNAUTHORIZED = 401"
| "CATEGORY_HTTP_STATUS INTERNAL = 500"

definition HttpErrorCodes :: "string list" where
  "HttpErrorCodes = [''INTERNAL_ERROR'', ''VALIDATION_FAILED'', ''RATE_LIMITED'', ''INVALID_CURSOR'',
     ''UNAUTHORIZED'', ''FORBIDDEN'', ''NOT_FOUND'', ''BAD_REQUEST'', ''METHOD_NOT_ALLOWED'', ''CONFLICT'',
     ''PRECONDITION_FAILED'', ''PAYLOAD_TOO_LARGE'', ''UNSUPPORTED_MEDIA_TYPE'', ''SERVICE_UNAVAILABLE'',
     ''IDEMPOTENCY_KEY_REUSED'', ''IDEMPOTENCY_IN_FLIGHT'', ''IDEMPOTENCY_NOT_REPLAYABLE'']"

definition httpStatusToErrorCode :: "nat \<Rightarrow> string" where
  "httpStatusToErrorCode status =
     (if status = 400 then ''BAD_REQUEST'' else if status = 401 then ''UNAUTHORIZED''
      else if status = 403 then ''FORBIDDEN'' else if status = 404 then ''NOT_FOUND''
      else if status = 405 then ''METHOD_NOT_ALLOWED'' else if status = 409 then ''CONFLICT''
      else if status = 412 then ''PRECONDITION_FAILED'' else if status = 413 then ''PAYLOAD_TOO_LARGE''
      else if status = 415 then ''UNSUPPORTED_MEDIA_TYPE'' else if status = 422 then ''VALIDATION_FAILED''
      else if status = 429 then ''RATE_LIMITED'' else if status = 503 then ''SERVICE_UNAVAILABLE''
      else ''INTERNAL_ERROR'')"

lemma status_code_known: "httpStatusToErrorCode status \<in> set HttpErrorCodes"
  by (simp add: httpStatusToErrorCode_def HttpErrorCodes_def)

section \<open>Exceptions\<close>

record domain_exception =
  de_code :: string
  de_message :: string
  de_httpStatus :: nat
  de_details :: "jsval list option"

definition DomainException :: "string \<Rightarrow> string \<Rightarrow> error_category \<Rightarrow> jsval list option \<Rightarrow> domain_exception" where
  "DomainException code message category details =
     \<lparr>de_code = code, de_message = message, de_httpStatus = CATEGORY_HTTP_STATUS category,
      de_details = details\<rparr>"

definition NotFoundException :: "string \<Rightarrow> string \<Rightarrow> domain_exception" where
  "NotFoundException code message = DomainException code message NOT_FOUND None"

definition ConflictException :: "string \<Rightarrow> string \<Rightarrow> domain_exception" where
  "ConflictException code message = DomainException code message CONFLICT None"

definition PermissionDeniedException :: "string \<Rightarrow> string option \<Rightarrow> domain_exception" where
  "PermissionDeniedException codeOrMessage message =
     (let isCode = message \<noteq> None
      in DomainException (if isCode then codeOrMessage else ''PERMISSION_DENIED'')
           (if isCode then the message else codeOrMessage) PERMISSION_DENIED None)"

definition UnauthorizedException :: "string \<Rightarrow> string \<Rightarrow> domain_exception" where
  "UnauthorizedException code message = DomainException code message UNAUTHORIZED None"

definition PreconditionFailedException :: "string \<Rightarrow> string \<Rightarrow> domain_exception" where
  "PreconditionFailedException code message = DomainException code message PRECONDITION_FAILED None"

definition RateLimitedException :: "string \<Rightarrow> domain_exception" where
  "RateLimitedException message = DomainException ''RATE_LIMITED'' message RATE_LIMITED None"

lemmas exception_defs = NotFoundException_def ConflictException_def PermissionDeniedException_def
  UnauthorizedException_def PreconditionFailedException_def RateLimitedException_def DomainException_def

section \<open>The filter\<close>

text \<open>
  What can be thrown: a Zod validation error with its issues, a \<open>DomainException\<close>, a framework
  \<open>HttpException\<close> with its status and response (text or an object), or anything else (\<open>Unexpected\<close> with
  whatever it says of the internals).
\<close>

datatype thrown = ZodInvalid "jsval list" | Domain domain_exception | HttpExc nat jsval | Unexpected string

record error_reply =
  er_status :: nat
  er_code :: string
  er_message :: jsval
  er_details :: "jsval list"
  er_correlationId :: string

datatype filter_log =
    SecurityDomain nat string string "string option"
  | SecurityFramework nat string
  | UnhandledLogged string

definition security_status :: "nat \<Rightarrow> bool" where
  "security_status s \<longleftrightarrow> s = 401 \<or> s = 403 \<or> s = 429"

definition response_text :: "jsval \<Rightarrow> string" where
  "response_text res = (case res of JStr s \<Rightarrow> s
     | _ \<Rightarrow> (case stringify res of Inr (Some s) \<Rightarrow> s | _ \<Rightarrow> ''undefined''))"

definition response_message :: "jsval \<Rightarrow> jsval" where
  "response_message res =
     (case res of JStr s \<Rightarrow> JStr s
      | JObj ps \<Rightarrow> (case member_of ''message'' ps of JUndef \<Rightarrow> JStr ''Error'' | JNull \<Rightarrow> JStr ''Error'' | m \<Rightarrow> m)
      | _ \<Rightarrow> JStr ''Error'')"

definition exception_filter ::
  "string option \<Rightarrow> string option \<Rightarrow> thrown \<Rightarrow> error_reply \<times> filter_log list" where
  "exception_filter ctx_correlation user ex =
     (let correlationId = (case ctx_correlation of None \<Rightarrow> ''unknown'' | Some c \<Rightarrow> c)
      in case ex of
           ZodInvalid issues \<Rightarrow>
             (\<lparr>er_status = 422, er_code = ''VALIDATION_FAILED'', er_message = JStr ''Validation failed'',
               er_details = issues, er_correlationId = correlationId\<rparr>, [])
         | Domain e \<Rightarrow>
             (\<lparr>er_status = de_httpStatus e, er_code = de_code e, er_message = JStr (de_message e),
               er_details = (case de_details e of None \<Rightarrow> [] | Some ds \<Rightarrow> ds),
               er_correlationId = correlationId\<rparr>,
              if security_status (de_httpStatus e)
              then [SecurityDomain (de_httpStatus e) (de_code e) (de_message e) user] else [])
         | HttpExc status res \<Rightarrow>
             (\<lparr>er_status = status, er_code = httpStatusToErrorCode status, er_message = response_message res,
               er_details = [], er_correlationId = correlationId\<rparr>,
              if security_status status then [SecurityFramework status (response_text res)] else [])
         | Unexpected info \<Rightarrow>
             (\<lparr>er_status = 500, er_code = ''INTERNAL_ERROR'',
               er_message = JStr ''An unexpected error occurred'', er_details = [],
               er_correlationId = correlationId\<rparr>, [UnhandledLogged info]))"

text \<open>Which errors the reply may depend on, and which replies leave a trace in the log.\<close>

lemma filter_hides_unexpected:
  "fst (exception_filter c u (Unexpected a)) = fst (exception_filter c u (Unexpected b))"
  by (simp add: exception_filter_def)

lemma filter_security_logged:
  "security_status (er_status (fst (exception_filter c u ex))) \<longleftrightarrow>
     (\<exists>l\<in>set (snd (exception_filter c u ex)). \<forall>i. l \<noteq> UnhandledLogged i)"
  by (cases ex) (auto simp: exception_filter_def security_status_def Let_def)

lemma filter_domain [simp]:
  "er_status (fst (exception_filter c u (Domain e))) = de_httpStatus e"
  "er_code (fst (exception_filter c u (Domain e))) = de_code e"
  by (simp_all add: exception_filter_def)

end
