(* ===== verification/Pagination.thy ===== *)
theory Pagination
  imports HttpErrors Base64Url
begin

text \<open>
  \<open>platform-http/src/http/pagination\<close>: opaque cursors (\<open>cursor.ts\<close>) and offset pages (\<open>offset.ts\<close>).

  Zod is not part of the repository: \<open>num\<close> is its coercion of a query parameter to a number (\<open>None\<close> when
  the result is no integer) and \<open>is_uuid\<close> its uuid check. The rest of the schemas is written out.
\<close>

definition DEFAULT_LIMIT :: int where "DEFAULT_LIMIT = 50"
definition MAX_LIMIT :: int where "MAX_LIMIT = 100"

section \<open>Cursors\<close>

datatype direction = Asc | Desc

record cursor_payload =
  cp_k :: "jsval list"
  cp_id :: string
  cp_d :: direction

fun direction_text :: "direction \<Rightarrow> string" where
  "direction_text Asc = ''asc''"
| "direction_text Desc = ''desc''"

definition payload_json :: "cursor_payload \<Rightarrow> jsval" where
  "payload_json p = JObj [(''v'', JNum 1), (''k'', JArr (cp_k p)), (''id'', JStr (cp_id p)),
     (''d'', JStr (direction_text (cp_d p)))]"

definition encodeCursor :: "cursor_payload \<Rightarrow> type_error + string" where
  "encodeCursor p = and_then (stringify (payload_json p))
     (\<lambda>s. Inr (base64url (utf8 (case s of None \<Rightarrow> [] | Some t \<Rightarrow> t))))"

text \<open>\<open>Buffer.from(cursor, 'base64url')\<close> reads both alphabets and stops at padding.\<close>

definition buffer_from_base64url :: "string \<Rightarrow> nat list" where
  "buffer_from_base64url s = from_base64url
     (map (\<lambda>c. if c = CHR ''+'' then CHR ''-'' else if c = CHR ''/'' then CHR ''_'' else c)
       (takeWhile (\<lambda>c. c \<noteq> CHR ''='') s))"

definition CursorPayloadSchema :: "(string \<Rightarrow> bool) \<Rightarrow> jsval \<Rightarrow> cursor_payload option" where
  "CursorPayloadSchema is_uuid raw =
     (case raw of
        JObj ps \<Rightarrow>
          (case (member_of ''v'' ps, member_of ''k'' ps, member_of ''id'' ps, member_of ''d'' ps) of
             (JNum v, JArr k, JStr i, JStr d) \<Rightarrow>
               (if v = 1 \<and> is_uuid i \<and> d \<in> {''asc'', ''desc''}
                then Some \<lparr>cp_k = k, cp_id = i, cp_d = (if d = ''asc'' then Asc else Desc)\<rparr> else None)
           | _ \<Rightarrow> None)
      | _ \<Rightarrow> None)"

definition decodeCursor :: "(string \<Rightarrow> bool) \<Rightarrow> string \<Rightarrow> domain_exception + cursor_payload" where
  "decodeCursor is_uuid cursor =
     (case Option.bind (Option.bind (from_utf8 (buffer_from_base64url cursor)) json_parse)
             (CursorPayloadSchema is_uuid) of
        Some p \<Rightarrow> Inr p
      | None \<Rightarrow> Inl (PreconditionFailedException ''INVALID_CURSOR'' ''Invalid or tampered cursor''))"

section \<open>Queries\<close>

datatype query_issue = LimitInvalid | OffsetInvalid

record page_query =
  pq_limit :: int
  pq_cursor :: "string option"
  pq_sort :: "string option"

definition parse_limit :: "(string \<Rightarrow> int option) \<Rightarrow> string option \<Rightarrow> query_issue + int" where
  "parse_limit num raw = (case raw of None \<Rightarrow> Inr DEFAULT_LIMIT
     | Some s \<Rightarrow> (case num s of None \<Rightarrow> Inl LimitInvalid
         | Some n \<Rightarrow> if 1 \<le> n \<and> n \<le> MAX_LIMIT then Inr n else Inl LimitInvalid))"

definition PageQuerySchema ::
  "(string \<Rightarrow> int option) \<Rightarrow> string option \<Rightarrow> string option \<Rightarrow> string option \<Rightarrow> query_issue + page_query" where
  "PageQuerySchema num lim cur srt = and_then (parse_limit num lim)
     (\<lambda>n. Inr \<lparr>pq_limit = n, pq_cursor = cur, pq_sort = srt\<rparr>)"

definition buildPageArgs ::
  "(string \<Rightarrow> bool) \<Rightarrow> page_query \<Rightarrow> domain_exception + int \<times> cursor_payload option" where
  "buildPageArgs is_uuid query =
     (case pq_cursor query of
        None \<Rightarrow> Inr (pq_limit query, None)
      | Some c \<Rightarrow> (if c = '''' then Inr (pq_limit query, None)
          else and_then (decodeCursor is_uuid c) (\<lambda>p. Inr (pq_limit query, Some p))))"

section \<open>Results\<close>

record page_info =
  pi_nextCursor :: "string option"
  pi_hasNextPage :: bool
  pi_limit :: int

text \<open>\<open>row_id\<close> reads an item's id and \<open>key\<close> is \<open>buildCursorKey\<close>.\<close>

definition buildPageResult ::
  "('a \<Rightarrow> string) \<Rightarrow> 'a list \<Rightarrow> int \<Rightarrow> ('a \<Rightarrow> jsval list) \<Rightarrow> direction \<Rightarrow> type_error + 'a list \<times> page_info" where
  "buildPageResult row_id rawItems limit key d =
     (let hasNextPage = limit < int (length rawItems);
          data = (if hasNextPage then take (nat limit) rawItems else rawItems)
      in and_then
           (if hasNextPage \<and> data \<noteq> []
            then and_then (encodeCursor \<lparr>cp_k = key (last data), cp_id = row_id (last data), cp_d = d\<rparr>)
                   (\<lambda>c. Inr (Some c))
            else Inr None)
           (\<lambda>nextCursor. Inr (data, \<lparr>pi_nextCursor = nextCursor, pi_hasNextPage = hasNextPage, pi_limit = limit\<rparr>)))"

record offset_query =
  oq_limit :: int
  oq_offset :: int
  oq_sort :: "string option"

definition OffsetQuerySchema ::
  "(string \<Rightarrow> int option) \<Rightarrow> string option \<Rightarrow> string option \<Rightarrow> string option \<Rightarrow> query_issue + offset_query" where
  "OffsetQuerySchema num lim off srt = and_then (parse_limit num lim)
     (\<lambda>n. and_then (case off of None \<Rightarrow> Inr 0
         | Some s \<Rightarrow> (case num s of None \<Rightarrow> Inl OffsetInvalid
             | Some m \<Rightarrow> if 0 \<le> m then Inr m else Inl OffsetInvalid))
       (\<lambda>m. Inr \<lparr>oq_limit = n, oq_offset = m, oq_sort = srt\<rparr>))"

record offset_info =
  oi_total :: int
  oi_limit :: int
  oi_offset :: int
  oi_hasNextPage :: bool

definition buildOffsetPageResult :: "'a list \<Rightarrow> int \<Rightarrow> int \<Rightarrow> int \<Rightarrow> 'a list \<times> offset_info" where
  "buildOffsetPageResult data cnt limit offset =
     (data, \<lparr>oi_total = cnt, oi_limit = limit, oi_offset = offset,
       oi_hasNextPage = offset + int (length data) < cnt\<rparr>)"

section \<open>Lemmas\<close>

lemma payload_plain: "plain_elems (cp_k p) \<Longrightarrow> plain (payload_json p)"
  by (simp add: payload_json_def own_order_def is_index_def is_digit_def)

lemma is_b64_no_pad: "is_b64 c \<Longrightarrow> c \<noteq> CHR ''='' \<and> c \<noteq> CHR ''+'' \<and> c \<noteq> CHR ''/''"
  by (auto simp: is_b64_def is_alnum_def is_alpha_def is_upper_def is_lower_def is_digit_def)

lemma buffer_from_base64url_base64url [simp]:
  assumes "bytes bs"
  shows "buffer_from_base64url (base64url bs) = bs"
proof -
  have a: "\<forall>c\<in>set (base64url bs). c \<noteq> CHR ''='' \<and> c \<noteq> CHR ''+'' \<and> c \<noteq> CHR ''/''"
    using base64url_alphabet [OF assms] is_b64_no_pad by blast
  then have "takeWhile (\<lambda>c. c \<noteq> CHR ''='') (base64url bs) = base64url bs"
    by (intro takeWhile_eq_all_conv [THEN iffD2]) blast
  moreover have "map (\<lambda>c. if c = CHR ''+'' then CHR ''-'' else if c = CHR ''/'' then CHR ''_'' else c)
      (base64url bs) = base64url bs"
    using a by (intro map_idI) simp
  ultimately show ?thesis using assms by (simp only: buffer_from_base64url_def from_base64url_base64url)
qed

lemma encode_plain:
  "plain_elems (cp_k p) \<Longrightarrow> encodeCursor p = Inr (base64url (utf8 (tokens_text (tokens (payload_json p)))))"
  using payload_plain [of p] by (simp add: encodeCursor_def stringify_plain)

lemma schema_payload:
  "is_uuid (cp_id p) \<Longrightarrow> CursorPayloadSchema is_uuid (payload_json p) = Some p"
  by (cases "cp_d p") (simp_all add: CursorPayloadSchema_def payload_json_def member_of_def)

lemma decode_encode:
  assumes "plain_elems (cp_k p)" and "is_uuid (cp_id p)" and "encodeCursor p = Inr c"
  shows "decodeCursor is_uuid c = Inr p"
proof -
  have "bytes (utf8 s)" for s by (simp add: bytes_def utf8_bytes)
  with assms payload_plain [OF assms(1)] show ?thesis
    by (auto simp: encode_plain decodeCursor_def json_round_trip schema_payload)
qed

lemma encode_nonempty: "encodeCursor p = Inr c \<Longrightarrow> plain_elems (cp_k p) \<Longrightarrow> c \<noteq> []"
proof
  assume "encodeCursor p = Inr c" and p: "plain_elems (cp_k p)" and "c = []"
  then have "base64url (utf8 (tokens_text (tokens (payload_json p)))) = []" by (simp add: encode_plain)
  then have "(4 * length (utf8 (tokens_text (tokens (payload_json p)))) + 2) div 3 = 0"
    using length_base64url [of "utf8 (tokens_text (tokens (payload_json p)))"] by simp
  then have "4 * length (utf8 (tokens_text (tokens (payload_json p)))) + 2 < 3"
    by (metis div_greater_zero_iff gr0I not_less zero_less_numeral)
  then have "length (utf8 (tokens_text (tokens (payload_json p)))) = 0" by simp
  then show False by (simp add: payload_json_def utf8_def)
qed

section \<open>Walking the pages\<close>

text \<open>
  A client that follows \<open>nextCursor\<close> until there is none, over a repository whose \<open>fetch\<close> answers the
  rows after a cursor. \<open>fuel\<close> bounds the requests; \<open>None\<close> is a walk that did not end within them, or
  one that was refused.
\<close>

fun walk ::
  "(string \<Rightarrow> bool) \<Rightarrow> (cursor_payload option \<Rightarrow> nat \<Rightarrow> 'a list) \<Rightarrow> ('a \<Rightarrow> string) \<Rightarrow> ('a \<Rightarrow> jsval list) \<Rightarrow>
    direction \<Rightarrow> int \<Rightarrow> nat \<Rightarrow> string option \<Rightarrow> 'a list option" where
  "walk is_uuid fetch row_id key d limit 0 cur = None"
| "walk is_uuid fetch row_id key d limit (Suc fuel) cur =
     (case buildPageArgs is_uuid \<lparr>pq_limit = limit, pq_cursor = cur, pq_sort = None\<rparr> of
        Inl e \<Rightarrow> None
      | Inr (n, after) \<Rightarrow>
          (case buildPageResult row_id (fetch after (nat n + 1)) n key d of
             Inl e \<Rightarrow> None
           | Inr (data, info) \<Rightarrow>
               (case pi_nextCursor info of
                  None \<Rightarrow> Some data
                | Some c \<Rightarrow> map_option (append data)
                    (walk is_uuid fetch row_id key d limit fuel (Some c)))))"

text \<open>What the client of the repository relies on: the rows come in one order, after the row of the cursor.\<close>

definition keyset_fetch ::
  "('a \<Rightarrow> string) \<Rightarrow> ('a \<Rightarrow> jsval list) \<Rightarrow> direction \<Rightarrow> 'a list \<Rightarrow> (cursor_payload option \<Rightarrow> nat \<Rightarrow> 'a list) \<Rightarrow> bool" where
  "keyset_fetch row_id key d rows fetch \<longleftrightarrow>
     (\<forall>n. fetch None n = take n rows) \<and>
     (\<forall>pre r post n. rows = pre @ r # post \<longrightarrow>
        fetch (Some \<lparr>cp_k = key r, cp_id = row_id r, cp_d = d\<rparr>) n = take n post)"

lemma last_take_nth: "0 < n \<Longrightarrow> n < length xs \<Longrightarrow> last (take n xs) = xs ! (n - 1)"
  by (cases n) (simp_all add: take_Suc_conv_app_nth)

lemma page_step:
  assumes "1 \<le> limit" and "\<forall>r\<in>set rest. is_uuid (row_id r) \<and> plain_elems (key r)"
  shows "buildPageResult row_id (take (nat limit + 1) rest) limit key d =
    (if length rest \<le> nat limit then Inr (rest, \<lparr>pi_nextCursor = None, pi_hasNextPage = False, pi_limit = limit\<rparr>)
     else Inr (take (nat limit) rest, \<lparr>pi_nextCursor = Some (base64url (utf8 (tokens_text (tokens (payload_json
       \<lparr>cp_k = key (rest ! (nat limit - 1)), cp_id = row_id (rest ! (nat limit - 1)), cp_d = d\<rparr>))))),
       pi_hasNextPage = True, pi_limit = limit\<rparr>))"
proof (cases "length rest \<le> nat limit")
  case True
  with assms(1) have "\<not> limit < int (length (take (nat limit + 1) rest))" "take (nat limit + 1) rest = rest" by auto
  with True show ?thesis by (simp add: buildPageResult_def Let_def)
next
  case False
  with assms(1) have *: "take (nat limit) rest \<noteq> []" and l: "last (take (nat limit) rest) = rest ! (nat limit - 1)"
    using last_take_nth [of "nat limit" rest] by auto
  from False have "rest ! (nat limit - 1) \<in> set rest" by simp
  with assms(2) have "plain_elems (key (rest ! (nat limit - 1)))" by blast
  moreover have "limit < int (length (take (nat limit + 1) rest))" using False assms(1) by auto
  moreover have "take (nat limit) (take (nat limit + 1) rest) = take (nat limit) rest" by (simp add: min_def)
  ultimately show ?thesis using False * l by (simp add: buildPageResult_def encode_plain Let_def del: take_take)
qed

lemma walk_rest:
  assumes "keyset_fetch row_id key d rows fetch" and "1 \<le> limit"
    and "\<forall>r\<in>set rows. is_uuid (row_id r) \<and> plain_elems (key r)"
    and "rows = pre @ rest" and "length rest < fuel"
    and "(pre = [] \<and> cur = None) \<or>
      (pre \<noteq> [] \<and> encodeCursor \<lparr>cp_k = key (last pre), cp_id = row_id (last pre), cp_d = d\<rparr> = Inr c \<and> cur = Some c)"
  shows "walk is_uuid fetch row_id key d limit fuel cur = Some rest"
  using assms(4-6)
proof (induction fuel arbitrary: pre rest cur c)
  case (Suc fuel)
  have args: "\<exists>after. buildPageArgs is_uuid \<lparr>pq_limit = limit, pq_cursor = cur, pq_sort = None\<rparr> = Inr (limit, after)
      \<and> fetch after (nat limit + 1) = take (nat limit + 1) rest"
  proof (cases "pre = []")
    case True
    with Suc.prems assms(1) show ?thesis by (auto simp: buildPageArgs_def keyset_fetch_def)
  next
    case False
    then have "last pre \<in> set rows" and split: "rows = butlast pre @ last pre # rest"
      using Suc.prems(1) by simp_all
    with assms(3) have k: "is_uuid (row_id (last pre))" "plain_elems (key (last pre))" by auto
    let ?p = "\<lparr>cp_k = key (last pre), cp_id = row_id (last pre), cp_d = d\<rparr>"
    from False Suc.prems(3) have c: "encodeCursor ?p = Inr c" "cur = Some c" by auto
    with k have "decodeCursor is_uuid c = Inr ?p" and "c \<noteq> []"
      using decode_encode [of ?p is_uuid c] encode_nonempty [of ?p c] by auto
    moreover have "fetch (Some ?p) (nat limit + 1) = take (nat limit + 1) rest"
      using assms(1) split unfolding keyset_fetch_def by blast
    ultimately show ?thesis using c(2) by (simp add: buildPageArgs_def)
  qed
  then obtain after where after: "buildPageArgs is_uuid \<lparr>pq_limit = limit, pq_cursor = cur, pq_sort = None\<rparr> = Inr (limit, after)"
      "fetch after (nat limit + 1) = take (nat limit + 1) rest" by blast
  have rest: "\<forall>r\<in>set rest. is_uuid (row_id r) \<and> plain_elems (key r)" using assms(3) Suc.prems(1) by simp
  note page = page_step [OF assms(2) rest]
  show ?case
  proof (cases "length rest \<le> nat limit")
    case True
    with after page show ?thesis by simp
  next
    case False
    let ?pre = "pre @ take (nat limit) rest" and ?rest = "drop (nat limit) rest"
    have ne: "take (nat limit) rest \<noteq> []" and l: "last ?pre = rest ! (nat limit - 1)"
      using False assms(2) last_take_nth [of "nat limit" rest] by (auto simp: last_append)
    have "rest ! (nat limit - 1) \<in> set rest" using False by simp
    then have "plain_elems (key (rest ! (nat limit - 1)))" using rest by blast
    then have "walk is_uuid fetch row_id key d limit fuel (Some (base64url (utf8 (tokens_text (tokens (payload_json
       \<lparr>cp_k = key (rest ! (nat limit - 1)), cp_id = row_id (rest ! (nat limit - 1)), cp_d = d\<rparr>)))))) = Some ?rest"
      using Suc.prems False assms(2) l ne
      by (intro Suc.IH [of ?pre]) (auto simp: encode_plain)
    with after page False show ?thesis by simp
  qed
qed simp

section \<open>Properties\<close>

text \<open>
  C8. A cursor survives its round trip through the client: what \<open>encodeCursor\<close> wrote, \<open>decodeCursor\<close>
  reads back unchanged, key values, id and direction, for every key of JSON values and every uuid.
\<close>

theorem cursor_round_trip:
  assumes "plain_elems (cp_k p)" and "is_uuid (cp_id p)"
  shows "\<exists>c. encodeCursor p = Inr c \<and> decodeCursor is_uuid c = Inr p"
  using assms encode_plain decode_encode by blast

theorem cursor_round_trip_witness:
  "\<exists>c. encodeCursor \<lparr>cp_k = [JStr ''Hanoi'', JNum (-3), JNull], cp_id = ''7f'', cp_d = Desc\<rparr> = Inr c \<and>
     decodeCursor (\<lambda>s. s = ''7f'') c = Inr \<lparr>cp_k = [JStr ''Hanoi'', JNum (-3), JNull], cp_id = ''7f'', cp_d = Desc\<rparr>"
  by (rule cursor_round_trip) simp_all

text \<open>
  C9. Following \<open>nextCursor\<close> visits every row once, in order, and ends: over a repository that answers
  the rows after a cursor in one order, a client that asks for page after page, with any accepted limit,
  receives exactly the rows, in at most one request per row and one more.
\<close>

theorem cursor_walk_complete:
  assumes "keyset_fetch row_id key d rows fetch"
    and "\<forall>r\<in>set rows. is_uuid (row_id r) \<and> plain_elems (key r)"
    and "PageQuerySchema num lim None None = Inr q"
  shows "walk is_uuid fetch row_id key d (pq_limit q) (Suc (length rows)) None = Some rows"
proof -
  have "1 \<le> pq_limit q"
    using assms(3) by (cases lim) (auto simp: PageQuerySchema_def parse_limit_def DEFAULT_LIMIT_def
        split: option.splits if_splits)
  with assms(1,2) show ?thesis by (intro walk_rest [where pre = "[]"]) auto
qed

definition example_rows :: "string list" where
  "example_rows = [''a'', ''b'', ''c'']"

definition example_fetch :: "cursor_payload option \<Rightarrow> nat \<Rightarrow> string list" where
  "example_fetch cur n = take n (case cur of None \<Rightarrow> example_rows
     | Some p \<Rightarrow> tl (dropWhile (\<lambda>r. r \<noteq> cp_id p) example_rows))"

lemma example_keyset: "keyset_fetch (\<lambda>r. r) (\<lambda>r. [JStr r]) Asc example_rows example_fetch"
  by (auto simp: keyset_fetch_def example_fetch_def example_rows_def Cons_eq_append_conv)

theorem cursor_walk_complete_witness:
  "walk (\<lambda>_. True) example_fetch (\<lambda>r. r) (\<lambda>r. [JStr r]) Asc 2 4 None = Some [''a'', ''b'', ''c'']"
proof -
  have "PageQuerySchema (\<lambda>_. Some 2) (Some ''2'') None None = Inr \<lparr>pq_limit = 2, pq_cursor = None, pq_sort = None\<rparr>"
    by (simp add: PageQuerySchema_def parse_limit_def MAX_LIMIT_def)
  from cursor_walk_complete [OF example_keyset _ this, of "\<lambda>_. True"] show ?thesis
    by (simp add: example_rows_def numeral_eq_Suc)
qed

end
