(* ===== verification/CacheRequirement.thy ===== *)
theory CacheRequirement
  imports EdgeClientIp Cache
begin

text \<open>
  \<open>platform-http/src/http/cache-requirement.ts\<close> and the startup hooks that use it: how the modes are
  read from the environment, and what stops an application that would quietly run without its cache.
\<close>

datatype rate_limit_mode = RLCache | RLEdgeOnly | RLDisabled

datatype idempotency_mode = IdemCache | IdemDisabled

datatype startup_error =
    InvalidMode string string
  | InvalidLease string
  | CacheMissing string
  | EdgeSecret edge_config_error

definition RATE_LIMIT_MODE_ENV :: string where "RATE_LIMIT_MODE_ENV = ''RATE_LIMIT_MODE''"
definition DISABLE_RATE_LIMIT_ENV :: string where "DISABLE_RATE_LIMIT_ENV = ''DISABLE_RATE_LIMIT''"
definition IDEMPOTENCY_MODE_ENV :: string where "IDEMPOTENCY_MODE_ENV = ''IDEMPOTENCY_MODE''"
definition IDEMPOTENCY_LEASE_SECONDS_ENV :: string where
  "IDEMPOTENCY_LEASE_SECONDS_ENV = ''IDEMPOTENCY_LEASE_SECONDS''"
definition IDEMPOTENCY_LEASE_DEFAULT_SECONDS :: nat where "IDEMPOTENCY_LEASE_DEFAULT_SECONDS = 60"

definition readIdempotencyLeaseSeconds :: "env \<Rightarrow> startup_error + nat" where
  "readIdempotencyLeaseSeconds env =
     (case map_option js_trim (env IDEMPOTENCY_LEASE_SECONDS_ENV) of
        None \<Rightarrow> Inr IDEMPOTENCY_LEASE_DEFAULT_SECONDS
      | Some raw \<Rightarrow>
          if raw = '''' then Inr IDEMPOTENCY_LEASE_DEFAULT_SECONDS
          else if 1 \<le> length raw \<and> length raw \<le> 4 \<and> list_all is_digit raw \<and> 5 \<le> undec raw \<and> undec raw \<le> 600
          then Inr (undec raw)
          else Inl (InvalidLease (take 20 raw)))"

text \<open>\<open>allowed\<close> pairs each accepted text with the mode it names.\<close>

definition readMode :: "env \<Rightarrow> string \<Rightarrow> (string \<times> 'm) list \<Rightarrow> 'm \<Rightarrow> startup_error + 'm" where
  "readMode env name allowed fallback =
     (case map_option js_trim (env name) of
        None \<Rightarrow> Inr fallback
      | Some raw \<Rightarrow> if raw = '''' then Inr fallback
          else (case map_of allowed raw of Some m \<Rightarrow> Inr m | None \<Rightarrow> Inl (InvalidMode name raw)))"

definition usesDeprecatedDisableAlias :: "env \<Rightarrow> bool" where
  "usesDeprecatedDisableAlias env \<longleftrightarrow> env DISABLE_RATE_LIMIT_ENV = Some ''true''"

definition rate_limit_modes :: "(string \<times> rate_limit_mode) list" where
  "rate_limit_modes = [(''cache'', RLCache), (''edge-only'', RLEdgeOnly), (''disabled'', RLDisabled)]"

definition readRateLimitMode :: "env \<Rightarrow> startup_error + rate_limit_mode" where
  "readRateLimitMode env =
     (let explicit = map_option js_trim (env RATE_LIMIT_MODE_ENV);
          fallback = (if usesDeprecatedDisableAlias env then RLDisabled else RLCache)
      in if explicit = None \<or> explicit = Some '''' then Inr fallback
         else readMode env RATE_LIMIT_MODE_ENV rate_limit_modes fallback)"

datatype alias_status = AliasUnset | AliasHonoured | AliasIgnored

definition disableAliasStatus :: "env \<Rightarrow> alias_status" where
  "disableAliasStatus env =
     (if \<not> usesDeprecatedDisableAlias env then AliasUnset
      else (let explicit = map_option js_trim (env RATE_LIMIT_MODE_ENV)
            in if explicit = None \<or> explicit = Some '''' then AliasHonoured else AliasIgnored))"

definition readIdempotencyMode :: "env \<Rightarrow> startup_error + idempotency_mode" where
  "readIdempotencyMode env =
     readMode env IDEMPOTENCY_MODE_ENV [(''cache'', IdemCache), (''disabled'', IdemDisabled)] IdemCache"

definition is_production :: "env \<Rightarrow> bool" where
  "is_production env \<longleftrightarrow> env ''NODE_ENV'' = Some ''production''"

text \<open>\<open>on\<close>: the cache service has a client.\<close>

definition assertCacheInProduction :: "bool \<Rightarrow> string \<Rightarrow> env \<Rightarrow> startup_error + unit" where
  "assertCacheInProduction on feature env =
     (if \<not> is_production env then Inr () else if on then Inr () else Inl (CacheMissing feature))"

definition assertEdgeClientIpEnv :: "env \<Rightarrow> startup_error + unit" where
  "assertEdgeClientIpEnv env = (case readEdgeConfig env of Inl e \<Rightarrow> Inl (EdgeSecret e) | Inr _ \<Rightarrow> Inr ())"

section \<open>The startup of the guard and of the interceptor\<close>

text \<open>
  Construction reads the modes, \<open>onApplicationBootstrap\<close> checks them; what the bootstrap says is a list
  of warnings, and whether it recorded a fail-open.
\<close>

datatype bootstrap_warning = AliasDeprecated | AliasIsIgnored rate_limit_mode | DisabledInProduction
  | EdgeOnlyNotice | IdempotencyOff

definition guard_bootstrap ::
  "env \<Rightarrow> bool \<Rightarrow> rate_limit_mode \<Rightarrow> startup_error + bootstrap_warning list \<times> bool" where
  "guard_bootstrap env on mode =
     and_then (assertEdgeClientIpEnv env) (\<lambda>_.
       (let alias = (case disableAliasStatus env of AliasHonoured \<Rightarrow> [AliasDeprecated]
                     | AliasIgnored \<Rightarrow> [AliasIsIgnored mode] | AliasUnset \<Rightarrow> [])
        in if mode = RLDisabled then
             (if is_production env then Inr (alias @ [DisabledInProduction], True) else Inr (alias, False))
           else if mode = RLEdgeOnly then Inr (alias @ [EdgeOnlyNotice], False)
           else and_then (assertCacheInProduction on ''RateLimitGuard'' env) (\<lambda>_. Inr (alias, False))))"

definition guard_start :: "env \<Rightarrow> bool \<Rightarrow> startup_error + rate_limit_mode \<times> bootstrap_warning list \<times> bool" where
  "guard_start env on = and_then (readRateLimitMode env)
     (\<lambda>mode. and_then (guard_bootstrap env on mode) (\<lambda>r. Inr (mode, r)))"

definition idempotency_bootstrap :: "env \<Rightarrow> bool \<Rightarrow> idempotency_mode \<Rightarrow> startup_error + bootstrap_warning list" where
  "idempotency_bootstrap env on mode =
     and_then (assertEdgeClientIpEnv env) (\<lambda>_.
       if mode = IdemDisabled then Inr [IdempotencyOff]
       else and_then (assertCacheInProduction on ''IdempotencyInterceptor'' env) (\<lambda>_. Inr []))"

definition idempotency_start ::
  "env \<Rightarrow> bool \<Rightarrow> startup_error + idempotency_mode \<times> nat \<times> bootstrap_warning list" where
  "idempotency_start env on = and_then (readIdempotencyMode env)
     (\<lambda>mode. and_then (readIdempotencyLeaseSeconds env)
       (\<lambda>lease. and_then (idempotency_bootstrap env on mode) (\<lambda>ws. Inr (mode, lease, ws))))"

lemma readMode_ok:
  "readMode env name allowed fallback = Inr m \<Longrightarrow>
     (\<exists>raw. env name = Some raw \<and> js_trim raw \<noteq> '''' \<and> map_of allowed (js_trim raw) = Some m) \<or>
     ((env name = None \<or> js_trim (the (env name)) = '''') \<and> m = fallback)"
  by (auto simp: readMode_def split: option.splits if_splits)

text \<open>
  An application that starts in production without a cache says so on purpose: the guard starts only
  if its mode was set to \<open>edge-only\<close> or \<open>disabled\<close> (the old alias included, and then the fail-open is
  recorded and warned about), the idempotency interceptor only if it was disabled. Unset or empty
  settings, and settings that are not one of the words, never get there.
\<close>

theorem no_quiet_start:
  assumes "is_production env"
  shows "(guard_start env False = Inr (rmode, said, fail_open) \<longrightarrow>
      (map_option js_trim (env RATE_LIMIT_MODE_ENV) = Some ''edge-only'' \<and> rmode = RLEdgeOnly \<and> EdgeOnlyNotice \<in> set said) \<or>
      (map_option js_trim (env RATE_LIMIT_MODE_ENV) = Some ''disabled'' \<or>
        (map_option js_trim (env RATE_LIMIT_MODE_ENV) \<in> {None, Some ''''} \<and> env DISABLE_RATE_LIMIT_ENV = Some ''true''))
       \<and> rmode = RLDisabled \<and> DisabledInProduction \<in> set said \<and> fail_open) \<and>
    (idempotency_start env False = Inr (imode, lease, ws) \<longrightarrow>
      map_option js_trim (env IDEMPOTENCY_MODE_ENV) = Some ''disabled'' \<and> imode = IdemDisabled \<and> 5 \<le> lease \<and> lease \<le> 600)"
proof (intro conjI impI)
  assume g: "guard_start env False = Inr (rmode, said, fail_open)"
  then have b: "guard_bootstrap env False rmode = Inr (said, fail_open)" and m: "readRateLimitMode env = Inr rmode"
    by (auto simp: guard_start_def and_then_Inr_iff)
  show "(map_option js_trim (env RATE_LIMIT_MODE_ENV) = Some ''edge-only'' \<and> rmode = RLEdgeOnly \<and> EdgeOnlyNotice \<in> set said) \<or>
      (map_option js_trim (env RATE_LIMIT_MODE_ENV) = Some ''disabled'' \<or>
        (map_option js_trim (env RATE_LIMIT_MODE_ENV) \<in> {None, Some ''''} \<and> env DISABLE_RATE_LIMIT_ENV = Some ''true''))
       \<and> rmode = RLDisabled \<and> DisabledInProduction \<in> set said \<and> fail_open"
    using b m assms
    by (cases rmode)
      (auto simp: guard_bootstrap_def and_then_Inr_iff assertCacheInProduction_def readRateLimitMode_def
        rate_limit_modes_def usesDeprecatedDisableAlias_def Let_def dest!: readMode_ok split: if_splits)
next
  assume "idempotency_start env False = Inr (imode, lease, ws)"
  then have b: "idempotency_bootstrap env False imode = Inr ws" and m: "readIdempotencyMode env = Inr imode"
    and l: "readIdempotencyLeaseSeconds env = Inr lease"
    by (auto simp: idempotency_start_def and_then_Inr_iff)
  show "imode = IdemDisabled"
    using b assms by (cases imode) (auto simp: idempotency_bootstrap_def and_then_Inr_iff assertCacheInProduction_def)
  then show "map_option js_trim (env IDEMPOTENCY_MODE_ENV) = Some ''disabled''"
    using m by (auto simp: readIdempotencyMode_def dest!: readMode_ok split: if_splits)
  show "5 \<le> lease" "lease \<le> 600"
    using l by (auto simp: readIdempotencyLeaseSeconds_def IDEMPOTENCY_LEASE_DEFAULT_SECONDS_def
        split: option.splits if_splits)
qed

definition production_env :: "string \<Rightarrow> env" where
  "production_env mode = [''NODE_ENV'' \<mapsto> ''production'', ''RATE_LIMIT_MODE'' \<mapsto> mode, ''IDEMPOTENCY_MODE'' \<mapsto> ''disabled'']"

theorem no_quiet_start_witness:
  "guard_start (production_env '' edge-only '') False = Inr (RLEdgeOnly, [EdgeOnlyNotice], False) \<and>
   idempotency_start (production_env ''cache'') False = Inr (IdemDisabled, 60, [IdempotencyOff]) \<and>
   guard_start (production_env ''edge_only'') False = Inl (InvalidMode ''RATE_LIMIT_MODE'' ''edge_only'')"
proof -
  have p: "is_production (production_env '' edge-only '')" by (simp add: is_production_def production_env_def)
  have g: "guard_start (production_env '' edge-only '') False = Inr (RLEdgeOnly, [EdgeOnlyNotice], False)"
    by code_simp
  from no_quiet_start [OF p, of RLEdgeOnly "[EdgeOnlyNotice]" False] g
  have "EdgeOnlyNotice \<in> set [EdgeOnlyNotice]" by blast
  moreover have "idempotency_start (production_env ''cache'') False = Inr (IdemDisabled, 60, [IdempotencyOff])"
    by code_simp
  moreover have "guard_start (production_env ''edge_only'') False = Inl (InvalidMode ''RATE_LIMIT_MODE'' ''edge_only'')"
    by code_simp
  ultimately show ?thesis using g by blast
qed

end
