(* ===== verification/RateLimitGuard.thy ===== *)
theory RateLimitGuard
  imports CacheRequirement ClientIp HttpErrors
begin

text \<open>
  \<open>platform-http/src/http/rate-limit.guard.ts\<close>, \<open>rate-limit.constants.ts\<close> and the parts of
  \<open>principal.ts\<close> it uses: the tiers, the key a caller is counted under, and the guard over the sliding
  window of \<open>Cache\<close>.

  \<open>sha\<close> is SHA-256 in hexadecimal, \<open>hmac\<close> and \<open>is_ip\<close> are as in \<open>EdgeClientIp\<close>; the user is what the
  request context holds. \<open>up\<close> says whether the cache answers at this request.
\<close>

section \<open>Tiers\<close>

datatype rate_limit_tier = DEFAULT | STRICT | AUTH_LOGIN | AUTH_REFRESH

fun tier_name :: "rate_limit_tier \<Rightarrow> string" where
  "tier_name DEFAULT = ''DEFAULT''"
| "tier_name STRICT = ''STRICT''"
| "tier_name AUTH_LOGIN = ''AUTH_LOGIN''"
| "tier_name AUTH_REFRESH = ''AUTH_REFRESH''"

fun RATE_LIMIT_TIERS :: "rate_limit_tier \<Rightarrow> int \<times> int \<times> bool" where
  "RATE_LIMIT_TIERS DEFAULT = (100, 60, False)"
| "RATE_LIMIT_TIERS STRICT = (20, 60, False)"
| "RATE_LIMIT_TIERS AUTH_LOGIN = (5, 15 * 60, False)"
| "RATE_LIMIT_TIERS AUTH_REFRESH = (30, 60, True)"

definition tier_limit :: "rate_limit_tier \<Rightarrow> int" where
  "tier_limit tier = fst (RATE_LIMIT_TIERS tier)"

definition tier_window :: "rate_limit_tier \<Rightarrow> int" where
  "tier_window tier = fst (snd (RATE_LIMIT_TIERS tier))"

definition key_by_refresh :: "rate_limit_tier \<Rightarrow> bool" where
  "key_by_refresh tier = snd (snd (RATE_LIMIT_TIERS tier))"

section \<open>The guard\<close>

record guard_request =
  gq_id :: nat
  gq_client :: client_request
  gq_config :: "string list option"
  gq_cookie :: "string option"
  gq_user :: "string option"
  gq_skip :: bool
  gq_tier :: "rate_limit_tier option"

record 's guard_state =
  gs_store :: 's
  gs_ips :: resolved_state
  gs_keyed_by_address :: "nat set"
  gs_fail_opens :: nat

datatype guard_outcome = Allowed "(string \<times> string) list" | Refused domain_exception "(string \<times> string) list"

definition present :: "string option \<Rightarrow> bool" where
  "present x \<longleftrightarrow> x \<noteq> None \<and> x \<noteq> Some ''''"

definition request_tier :: "guard_request \<Rightarrow> rate_limit_tier" where
  "request_tier q = (case gq_tier q of None \<Rightarrow> DEFAULT | Some tier \<Rightarrow> tier)"

definition guard_identifier :: "(string \<Rightarrow> string) \<Rightarrow> guard_request \<Rightarrow> string \<Rightarrow> string" where
  "guard_identifier sha q ip =
     (if key_by_refresh (request_tier q) then
        (if present (gq_cookie q) then ''session:'' @ take 32 (sha (the (gq_cookie q))) else ''ip:'' @ ip)
      else if present (gq_user q) then ''uid:'' @ the (gq_user q) else ''ip:'' @ ip)"

text \<open>The key, with the address memo and the mark on the request as they are afterwards.\<close>

definition guard_key ::
  "(string \<Rightarrow> string) \<Rightarrow> (string \<Rightarrow> string \<Rightarrow> nat list) \<Rightarrow> (string \<Rightarrow> bool) \<Rightarrow> msec \<Rightarrow> guard_request \<Rightarrow> 's guard_state
     \<Rightarrow> edge_error + string \<times> 's guard_state" where
  "guard_key sha hmac is_ip t q st =
     and_then (clientIp hmac is_ip True (gq_id q) (gq_client q) (gq_config q) (int t) (gs_ips st))
       (\<lambda>(ip, ips).
          Inr (tier_name (request_tier q) @ CHR '':'' # guard_identifier sha q ip,
               st\<lparr>gs_ips := ips,
                  gs_keyed_by_address :=
                    (if \<not> key_by_refresh (request_tier q) \<and> \<not> present (gq_user q)
                     then insert (gq_id q) (gs_keyed_by_address st) else gs_keyed_by_address st)\<rparr>))"

definition recordFailOpen :: "'s guard_state \<Rightarrow> 's guard_state" where
  "recordFailOpen st = st\<lparr>gs_fail_opens := Suc (gs_fail_opens st)\<rparr>"

definition limit_headers :: "rate_limit_tier \<Rightarrow> rate_result \<Rightarrow> (string \<times> string) list" where
  "limit_headers tier r = [(''RateLimit-Limit'', int_text (tier_limit tier)),
     (''RateLimit-Remaining'', int_text (rl_remaining r)), (''RateLimit-Reset'', int_text (rl_resetAt r))]"

text \<open>\<open>t\<close> is the time of the request and \<open>t2\<close> the time read again for \<open>Retry-After\<close>.\<close>

definition retry_after :: "rate_result \<Rightarrow> msec \<Rightarrow> int" where
  "retry_after r t2 = max (rl_resetAt r - int t2 div 1000) 1"

definition canActivate ::
  "(string \<Rightarrow> string) \<Rightarrow> (string \<Rightarrow> string \<Rightarrow> nat list) \<Rightarrow> (string \<Rightarrow> bool) \<Rightarrow> 's valkey \<Rightarrow> bool \<Rightarrow> bool \<Rightarrow>
    bool \<Rightarrow> rate_limit_mode \<Rightarrow> msec \<Rightarrow> msec \<Rightarrow> string \<Rightarrow> guard_request \<Rightarrow> 's guard_state
      \<Rightarrow> (edge_error + guard_outcome) \<times> 's guard_state" where
  "canActivate sha hmac is_ip vk on up production mode t t2 member q st =
     (if mode = RLDisabled then (Inr (Allowed []), if production then recordFailOpen st else st)
      else if mode = RLEdgeOnly then (Inr (Allowed []), st)
      else if gq_skip q then (Inr (Allowed []), st)
      else (case guard_key sha hmac is_ip t q st of
              Inl e \<Rightarrow> (Inl e, st)
            | Inr (key, st1) \<Rightarrow>
                (let tier = request_tier q
                 in if \<not> up then (Inr (Allowed []), recordFailOpen st1)
                    else (case consumeRateLimit vk on t key (tier_limit tier) (tier_window tier) member (gs_store st1) of
                            (Inl e, s) \<Rightarrow> (Inr (Allowed []), recordFailOpen (st1\<lparr>gs_store := s\<rparr>))
                          | (Inr r, s) \<Rightarrow>
                              (let st2 = st1\<lparr>gs_store := s\<rparr>
                               in if rl_allowed r then (Inr (Allowed (limit_headers tier r)), st2)
                                  else (Inr (Refused
                                     (RateLimitedException (''Rate limit exceeded ('' @ tier_name tier
                                        @ ''). Retry after '' @ int_text (retry_after r t2) @ ''s.''))
                                     (limit_headers tier r @ [(''Retry-After'', int_text (retry_after r t2))])), st2))))))"

section \<open>Lemmas\<close>

lemma tier_name_no_colon: "\<forall>c\<in>set (tier_name tier). c \<noteq> CHR '':''"
  by (cases tier) simp_all

lemma tier_name_inj: "tier_name a = tier_name b \<Longrightarrow> a = b"
  by (cases a; cases b) simp_all

lemma key_tier:
  "tier_name a @ CHR '':'' # x = tier_name b @ CHR '':'' # y \<Longrightarrow> a = b \<and> x = y"
  using split_at_sep [OF tier_name_no_colon tier_name_no_colon] tier_name_inj by blast

lemma tier_pos: "1 \<le> tier_limit tier" "0 \<le> tier_window tier"
  by (cases tier; simp add: tier_limit_def tier_window_def)+

lemma clientIp_total: "\<exists>ip ips. clientIp hmac is_ip True n req cfg now st = Inr (ip, ips)"
  using resolve_total [of hmac is_ip req cfg now]
  by (cases "resolved st n") (auto simp: clientIp_def Let_def)

lemma guard_key_total:
  "\<exists>ident st1. guard_key sha hmac is_ip t q st = Inr (tier_name (request_tier q) @ CHR '':'' # ident, st1) \<and>
     gs_store st1 = gs_store st \<and> gs_fail_opens st1 = gs_fail_opens st"
proof -
  obtain ip ips where "clientIp hmac is_ip True (gq_id q) (gq_client q) (gq_config q) (int t) (gs_ips st) = Inr (ip, ips)"
    using clientIp_total by blast
  then show ?thesis by (auto simp: guard_key_def)
qed

lemma consume_no_error:
  "1 \<le> limit \<Longrightarrow> \<exists>r s'. consumeRateLimit vk on t key limit ws m s = (Inr r, s')"
  by (auto simp: consumeRateLimit_def sliding_window_lua_def Let_def split: list.split)

section \<open>A process under load\<close>

text \<open>
  Requests as they reach the guard: time, second reading, member, whether the cache answers, and the
  request. The log keeps, for every request that was counted, its key, time, member and whether it was
  let through; \<open>skipped\<close> requests and those the cache could not count are not in it.
\<close>

type_synonym guard_call = "msec \<times> msec \<times> string \<times> bool \<times> guard_request"

type_synonym guard_log = "(string \<times> msec \<times> string \<times> bool) list"

fun guard_run ::
  "(string \<Rightarrow> string) \<Rightarrow> (string \<Rightarrow> string \<Rightarrow> nat list) \<Rightarrow> (string \<Rightarrow> bool) \<Rightarrow> 's valkey \<Rightarrow> bool \<Rightarrow>
    guard_call list \<Rightarrow> 's guard_state \<Rightarrow> guard_log \<times> guard_outcome list \<times> 's guard_state" where
  "guard_run sha hmac is_ip vk production [] st = ([], [], st)"
| "guard_run sha hmac is_ip vk production ((t, t2, m, up, q) # cs) st =
     (case canActivate sha hmac is_ip vk True up production RLCache t t2 m q st of
        (Inl e, st1) \<Rightarrow> ([], [], st1)
      | (Inr out, st1) \<Rightarrow>
          (case guard_run sha hmac is_ip vk production cs st1 of
             (log, outs, st2) \<Rightarrow>
               ((if gq_skip q \<or> \<not> up then log
                 else (case guard_key sha hmac is_ip t q st of Inl e \<Rightarrow> log
                       | Inr (key, _) \<Rightarrow> (key, t, m, (\<exists>hs. out = Allowed hs)) # log)), out # outs, st2)))"

definition log_of :: "string \<Rightarrow> guard_log \<Rightarrow> rl_log" where
  "log_of key log = map snd (filter (\<lambda>e. fst e = key) log)"

context valkey_zsets begin

lemma consume_other_key:
  "k' \<noteq> key \<Longrightarrow> vk_zmembers vk u (rl_key k') (snd (consumeRateLimit vk on t key limit ws m s))
     = vk_zmembers vk u (rl_key k') s"
  by (auto simp: consumeRateLimit_def sliding_window_lua_def Let_def zremupto_other zadd_other zexpire_other
      split: list.split)

lemma rl_inv_frame:
  assumes "rl_inv vk k limit w now log s" and "now \<le> t"
    and "\<forall>u. vk_zmembers vk u k s' = vk_zmembers vk u k s"
  shows "rl_inv vk k limit w t log s'"
proof -
  obtain Z D where zm: "\<forall>u\<ge>now. vk_zmembers vk u k s = (if int u < D then Z else [])"
    and lg: "\<forall>(t, m, a)\<in>set log. t \<le> now \<and> (a \<longrightarrow> int t + w \<le> D \<and> (int now - w < int t \<longrightarrow> (m, int t) \<in> set Z))"
    and fz: "fst ` set Z \<subseteq> (\<lambda>x. fst (snd x)) ` set log" and lz: "int (length Z) \<le> limit"
    and rest: "distinct (map (\<lambda>x. fst (snd x)) log)" "\<forall>e. int (length (admitted_in w e log)) \<le> limit"
    using assms(1) unfolding rl_inv_def by blast
  have "\<forall>u\<ge>t. vk_zmembers vk u k s' = (if int u < D then Z else [])"
    using zm assms(2,3) by auto
  moreover have "\<forall>(t', m, a)\<in>set log. t' \<le> t \<and> (a \<longrightarrow> int t' + w \<le> D \<and> (int t - w < int t' \<longrightarrow> (m, int t') \<in> set Z))"
  proof (intro ballI, clarify)
    fix t' m a assume "(t', m, a) \<in> set log"
    with lg have "t' \<le> now" "a \<longrightarrow> int t' + w \<le> D \<and> (int now - w < int t' \<longrightarrow> (m, int t') \<in> set Z)" by auto
    with assms(2) show "t' \<le> t \<and> (a \<longrightarrow> int t' + w \<le> D \<and> (int t - w < int t' \<longrightarrow> (m, int t') \<in> set Z))" by auto
  qed
  ultimately show ?thesis unfolding rl_inv_def using fz lz rest by blast
qed

end

lemma guard_step:
  fixes st :: "'s guard_state"
  assumes "canActivate sha hmac is_ip vk True up production RLCache t t2 m q st = (r, st1)"
  obtains (uncounted) hs where "gq_skip q \<or> \<not> up" and "r = Inr (Allowed hs)" and "gs_store st1 = gs_store st"
      and "gs_fail_opens st1 = gs_fail_opens st + (if gq_skip q then 0 else 1)"
  | (counted) ident out res st' where "\<not> gq_skip q" and "up" and "r = Inr out"
      and "guard_key sha hmac is_ip t q st = Inr (tier_name (request_tier q) @ CHR '':'' # ident, st')"
      and "consumeRateLimit vk True t (tier_name (request_tier q) @ CHR '':'' # ident)
        (tier_limit (request_tier q)) (tier_window (request_tier q)) m (gs_store st) = (Inr res, gs_store st1)"
      and "rl_allowed res \<longleftrightarrow> (\<exists>hs. out = Allowed hs)" and "gs_fail_opens st1 = gs_fail_opens st"
proof (cases "gq_skip q")
  case True
  with assms uncounted show ?thesis by (auto simp: canActivate_def)
next
  case False
  obtain ident st' where k: "guard_key sha hmac is_ip t q st = Inr (tier_name (request_tier q) @ CHR '':'' # ident, st')"
    and s': "gs_store st' = gs_store st" "gs_fail_opens st' = gs_fail_opens st"
    using guard_key_total by blast
  show ?thesis
  proof (cases up)
    case False
    with assms k s' \<open>\<not> gq_skip q\<close> uncounted show ?thesis
      by (auto simp: canActivate_def recordFailOpen_def)
  next
    case True
    obtain res s where c: "consumeRateLimit vk True t (tier_name (request_tier q) @ CHR '':'' # ident)
        (tier_limit (request_tier q)) (tier_window (request_tier q)) m (gs_store st) = (Inr res, s)"
      using consume_no_error tier_pos(1) by metis
    from assms k s' False True c
    have "(\<exists>hs. r = Inr (Allowed hs)) \<and> rl_allowed res \<or> (\<exists>ex hs. r = Inr (Refused ex hs)) \<and> \<not> rl_allowed res"
      and s: "gs_store st1 = s" "gs_fail_opens st1 = gs_fail_opens st"
      by (auto simp: canActivate_def Let_def split: if_splits)
    then obtain out where "r = Inr out" "rl_allowed res \<longleftrightarrow> (\<exists>hs. out = Allowed hs)" by auto
    with counted [OF False True _ k] c s show ?thesis by blast
  qed
qed

lemma log_of_simps [simp]:
  "log_of key [] = []"
  "log_of key (e # log) = (if fst e = key then snd e # log_of key log else log_of key log)"
  by (simp_all add: log_of_def)

context valkey_zsets begin

lemma guard_run_inv:
  fixes st :: "'s guard_state"
  assumes "rl_inv vk (rl_key key) (tier_limit T) (tier_window T * 1000) now L (gs_store st)"
    and "key = tier_name T @ CHR '':'' # ident"
    and "sorted (now # map fst cs)"
    and "distinct (map (\<lambda>x. fst (snd x)) L @ map (\<lambda>c. fst (snd (snd c))) cs)"
    and "guard_run sha hmac is_ip vk production cs st = (log, outs, st')"
  shows "(\<exists>now'. rl_inv vk (rl_key key) (tier_limit T) (tier_window T * 1000) now' (L @ log_of key log) (gs_store st')) \<and>
    length outs = length cs \<and>
    gs_fail_opens st' = gs_fail_opens st + length (filter (\<lambda>(t, t2, m, up, q). \<not> gq_skip q \<and> \<not> up) cs)"
  using assms(1,3-)
proof (induction cs arbitrary: now L st log outs)
  case (Cons c cs)
  obtain t t2 m up q where c: "c = (t, t2, m, up, q)" by (cases c) auto
  obtain r st1 where r: "canActivate sha hmac is_ip vk True up production RLCache t t2 m q st = (r, st1)" by fastforce
  from Cons.prems(2) have t: "now \<le> t" "sorted (t # map fst cs)" by (auto simp: c)
  from r show ?case
  proof (cases rule: guard_step)
    case (uncounted hs)
    obtain outs1 where l: "guard_run sha hmac is_ip vk production cs st1 = (log, outs1, st')" and o: "outs = Allowed hs # outs1"
      using Cons.prems(4) r uncounted by (auto simp: c split: prod.splits if_splits)
    have "rl_inv vk (rl_key key) (tier_limit T) (tier_window T * 1000) t L (gs_store st1)"
      using rl_inv_frame [OF Cons.prems(1) t(1)] uncounted by simp
    from Cons.IH [OF this t(2) _ l] Cons.prems(3) uncounted o show ?thesis by (auto simp: c)
  next
    case (counted ident' out res st2)
    let ?key = "tier_name (request_tier q) @ CHR '':'' # ident'"
    obtain log1 outs1 where l: "guard_run sha hmac is_ip vk production cs st1 = (log1, outs1, st')"
      and o: "outs = out # outs1" and lg: "log = (?key, t, m, \<exists>hs. out = Allowed hs) # log1"
      using Cons.prems(4) r counted by (auto simp: c split: prod.splits)
    let ?L = "if ?key = key then L @ [(t, m, \<exists>hs. out = Allowed hs)] else L"
    have fresh: "m \<notin> (\<lambda>x. fst (snd x)) ` set L" using Cons.prems(3) by (auto simp: c)
    have "rl_inv vk (rl_key key) (tier_limit T) (tier_window T * 1000) t ?L (gs_store st1)"
    proof (cases "?key = key")
      case True
      then have "request_tier q = T" using key_tier assms(2) by blast
      with rl_step [OF Cons.prems(1) t(1) tier_pos(2) fresh] counted True show ?thesis by fastforce
    next
      case False
      have "\<forall>u. vk_zmembers vk u (rl_key key) (gs_store st1) = vk_zmembers vk u (rl_key key) (gs_store st)"
        using consume_other_key [of key ?key] False counted(5) by (metis snd_conv)
      from rl_inv_frame [OF Cons.prems(1) t(1) this] False show ?thesis by simp
    qed
    from Cons.IH [OF this t(2) _ l] Cons.prems(3) counted o lg show ?thesis by (auto simp: c)
  qed
qed auto

end

text \<open>
  C11. The guard bounds what a caller gets, not what a process sees: over any load on one server, of any
  mix of callers and tiers, every key is let through at most its tier's limit of times in any window of
  its tier, however the requests are spaced (a login at most 5 times in any 15 minutes), and every
  request that was let through uncounted because the cache did not answer is recorded as a fail-open.
\<close>

theorem guard_bounds_callers:
  assumes "valkey_zsets vk" and "\<forall>k. vk_zmembers vk 0 k (gs_store st) = []"
    and "sorted (map fst cs)" and "distinct (map (\<lambda>c. fst (snd (snd c))) cs)"
    and "guard_run sha hmac is_ip vk production cs st = (log, outs, st')"
  shows "int (length (admitted_in (tier_window T * 1000) e (log_of (tier_name T @ CHR '':'' # ident) log))) \<le> tier_limit T \<and>
    length outs = length cs \<and>
    gs_fail_opens st' = gs_fail_opens st + length (filter (\<lambda>(t, t2, m, up, q). \<not> gq_skip q \<and> \<not> up) cs)"
proof -
  let ?key = "tier_name T @ CHR '':'' # ident"
  have "vk_zmembers vk u (rl_key ?key) (gs_store st) = []" for u
    using valkey_zsets.zmembers_later [OF assms(1), of 0 u "rl_key ?key" "gs_store st"] assms(2) by auto
  then have "rl_inv vk (rl_key ?key) (tier_limit T) (tier_window T * 1000) 0 [] (gs_store st)"
    using tier_pos [of T] by (auto simp: rl_inv_def admitted_in_def intro!: exI [of _ "[]"])
  from valkey_zsets.guard_run_inv [OF assms(1) this refl _ _ assms(5)] assms(3,4) show ?thesis
    by (auto simp: rl_inv_def)
qed

definition plain_request :: guard_request where
  "plain_request = \<lparr>gq_id = 0, gq_client = \<lparr>cr_headers = Map.empty, cr_ip = None, cr_remote = Some ''10.0.0.1'',
     cr_method = None, cr_url = None\<rparr>, gq_config = None, gq_cookie = None, gq_user = Some ''u'', gq_skip = False,
     gq_tier = Some AUTH_LOGIN\<rparr>"

definition guard_init :: "mem_store guard_state" where
  "guard_init = \<lparr>gs_store = mem_empty, gs_ips = \<lparr>resolved = Map.empty, reported = []\<rparr>,
     gs_keyed_by_address = {}, gs_fail_opens = 0\<rparr>"

definition login_burst :: "guard_call list" where
  "login_burst = [(0, 0, ''a'', True, plain_request), (1, 1, ''b'', True, plain_request),
     (2, 2, ''c'', False, plain_request)]"

theorem guard_bounds_callers_witness:
  "case guard_run id (\<lambda>_ _. []) (\<lambda>_. False) mem_valkey True login_burst guard_init of
     (log, outs, st') \<Rightarrow>
       int (length (admitted_in 900000 1 (log_of ''AUTH_LOGIN:uid:u'' log))) \<le> 5 \<and> length outs = 3 \<and> gs_fail_opens st' = 1"
proof -
  obtain log outs st' where r: "guard_run id (\<lambda>_ _. []) (\<lambda>_. False) mem_valkey True login_burst guard_init = (log, outs, st')"
    by (metis prod_cases3)
  have "\<forall>k. vk_zmembers mem_valkey 0 k (gs_store guard_init) = []" by (simp add: rl_eval guard_init_def)
  from guard_bounds_callers [OF mem.valkey_zsets_axioms this _ _ r, of AUTH_LOGIN 1 "''uid:u''"] r show ?thesis
    by (simp add: login_burst_def tier_window_def tier_limit_def guard_init_def plain_request_def)
qed

lemma guard_key_again:
  assumes "guard_key sha hmac is_ip t q st = Inr (key, st0)" and "gs_ips st1 = gs_ips st0"
  shows "\<exists>st2. guard_key sha hmac is_ip t' q st1 = Inr (key, st2) \<and> gs_store st2 = gs_store st1"
proof -
  obtain ip ips where i: "clientIp hmac is_ip True (gq_id q) (gq_client q) (gq_config q) (int t) (gs_ips st) = Inr (ip, ips)"
    using clientIp_total by blast
  then have "resolved ips (gq_id q) = Some ip" using clientIp_step [OF i] by simp
  moreover have "gs_ips st1 = ips" "key = tier_name (request_tier q) @ CHR '':'' # guard_identifier sha q ip"
    using assms i by (auto simp: guard_key_def)
  ultimately show ?thesis by (simp add: guard_key_def clientIp_def)
qed

lemma refused_remaining:
  "consumeRateLimit vk True t key limit ws m s = (Inr res, s') \<Longrightarrow> \<not> rl_allowed res \<Longrightarrow> rl_remaining res = 0"
  by (auto simp: consumeRateLimit_def sliding_window_lua_def Let_def split: if_splits list.splits)

lemma int_text_0: "int_text 0 = ''0''"
  by code_simp

text \<open>
  A refusal tells the caller when to come back: the answer to a refused request is 429 in the error
  envelope with code \<open>RATE_LIMITED\<close>, \<open>RateLimit-Remaining\<close> is 0, \<open>Retry-After\<close> is at least one second,
  and the same caller, waiting until \<open>RateLimit-Reset\<close> with nobody else on its key, is let through.
\<close>

theorem guard_refusal_honest:
  assumes "valkey_zsets vk"
    and "canActivate sha hmac is_ip vk True True production RLCache t t2 m q st = (Inr (Refused ex hs), st1)"
    and "guard_key sha hmac is_ip t q st = Inr (key, st0)"
    and "int (length (vk_zmembers vk t (rl_key key) (gs_store st))) \<le> tier_limit (request_tier q)"
  shows "\<exists>reset after. hs = [(''RateLimit-Limit'', int_text (tier_limit (request_tier q))), (''RateLimit-Remaining'', ''0''),
      (''RateLimit-Reset'', int_text reset), (''Retry-After'', int_text after)] \<and> 1 \<le> after \<and> reset - int t2 div 1000 \<le> after \<and>
    er_status (fst (exception_filter c u (Domain ex))) = 429 \<and> er_code (fst (exception_filter c u (Domain ex))) = ''RATE_LIMITED'' \<and>
    (\<forall>t' m'. t \<le> t' \<and> reset * 1000 \<le> int t' \<longrightarrow>
      (\<exists>hs'. fst (canActivate sha hmac is_ip vk True True production RLCache t' t' m' q st1) = Inr (Allowed hs')))"
proof -
  let ?T = "request_tier q"
  have ns: "\<not> gq_skip q" using assms(2) by (auto simp: canActivate_def)
  have s0: "gs_store st0 = gs_store st"
    using assms(3) guard_key_total [of sha hmac is_ip t q st] by auto
  obtain res s where c: "consumeRateLimit vk True t key (tier_limit ?T) (tier_window ?T) m (gs_store st) = (Inr res, s)"
    using consume_no_error tier_pos(1) by metis
  from assms(2,3) c ns s0 have na: "\<not> rl_allowed res" and st1: "st1 = st0\<lparr>gs_store := s\<rparr>"
    and ex: "ex = RateLimitedException (''Rate limit exceeded ('' @ tier_name ?T @ ''). Retry after '' @
      int_text (retry_after res t2) @ ''s.'')"
    and hs: "hs = limit_headers ?T res @ [(''Retry-After'', int_text (retry_after res t2))]"
    by (auto simp: canActivate_def Let_def split: if_splits)
  have again: "\<exists>hs'. fst (canActivate sha hmac is_ip vk True True production RLCache t' t' m' q st1) = Inr (Allowed hs')"
    if later: "t \<le> t'" "rl_resetAt res * 1000 \<le> int t'" for t' m'
  proof -
    obtain st2 where k: "guard_key sha hmac is_ip t' q st1 = Inr (key, st2)" "gs_store st2 = s"
      using guard_key_again [OF assms(3), of st1 t'] st1 by auto
    obtain res' where "fst (consumeRateLimit vk True t' key (tier_limit ?T) (tier_window ?T) m' s) = Inr res'" "rl_allowed res'"
      using valkey_zsets.rejected_then_wait [OF assms(1) c na assms(4) later] by blast
    then obtain s2 where "consumeRateLimit vk True t' key (tier_limit ?T) (tier_window ?T) m' s = (Inr res', s2)"
      by (metis prod.collapse)
    with k ns \<open>rl_allowed res'\<close> show ?thesis by (simp add: canActivate_def Let_def)
  qed
  have "er_status (fst (exception_filter c u (Domain ex))) = 429" "er_code (fst (exception_filter c u (Domain ex))) = ''RATE_LIMITED''"
    by (simp_all add: ex RateLimitedException_def DomainException_def)
  moreover have "1 \<le> retry_after res t2" "rl_resetAt res - int t2 div 1000 \<le> retry_after res t2"
    by (simp_all add: retry_after_def)
  moreover have "hs = [(''RateLimit-Limit'', int_text (tier_limit ?T)), (''RateLimit-Remaining'', ''0''),
      (''RateLimit-Reset'', int_text (rl_resetAt res)), (''Retry-After'', int_text (retry_after res t2))]"
    using hs refused_remaining [OF c na] by (simp add: limit_headers_def int_text_0)
  ultimately show ?thesis using again by blast
qed

definition full_guard :: "mem_store guard_state" where
  "full_guard = guard_init\<lparr>gs_store := mem_empty\<lparr>ms_zsets := (ms_zsets mem_empty)
     (''rl:AUTH_LOGIN:uid:u'' := ([(''a'', 0), (''b'', 0), (''c'', 0), (''d'', 0), (''e'', 0)], None))\<rparr>\<rparr>"

theorem guard_refusal_honest_witness:
  "\<exists>ex hs. fst (canActivate id (\<lambda>_ _. []) (\<lambda>_. False) mem_valkey True True True RLCache 1 1 ''f'' plain_request full_guard)
      = Inr (Refused ex hs) \<and> er_status (fst (exception_filter None None (Domain ex))) = 429"
proof -
  let ?r = "canActivate id (\<lambda>_ _. []) (\<lambda>_. False) mem_valkey True True True RLCache 1 1 ''f'' plain_request full_guard"
  obtain ident st0 where k: "guard_key id (\<lambda>_ _. []) (\<lambda>_. False) 1 plain_request full_guard = Inr (''AUTH_LOGIN:uid:u'', st0)"
      and "gs_store st0 = gs_store full_guard"
    using guard_key_total [of id "\<lambda>_ _. []" "\<lambda>_. False" 1 plain_request full_guard]
    by (auto simp: guard_key_def and_then_Inr_iff guard_identifier_def request_tier_def plain_request_def key_by_refresh_def present_def)
  then obtain ex hs st1 where r: "?r = (Inr (Refused ex hs), st1)"
    by (simp add: canActivate_def rl_eval full_guard_def guard_init_def plain_request_def request_tier_def
        tier_limit_def tier_window_def)
  have "int (length (vk_zmembers mem_valkey 1 (rl_key ''AUTH_LOGIN:uid:u'') (gs_store full_guard))) \<le> tier_limit (request_tier plain_request)"
    by (simp add: rl_eval full_guard_def guard_init_def plain_request_def request_tier_def tier_limit_def)
  from guard_refusal_honest [OF mem.valkey_zsets_axioms r k this, of None None] r show ?thesis by auto
qed

end
