(* ===== verification/Fingerprint.thy ===== *)
theory Fingerprint
  imports EdgeClientIp Json "HOL-Library.List_Lexorder" "HOL-Library.Char_ord"
begin

text \<open>
  \<open>platform-http/src/http/idempotency.fingerprint.ts\<close>: the canonical JSON of a body and the fingerprint
  an idempotency key is bound to. \<open>sha\<close> is SHA-256 in hexadecimal, over bytes; text is hashed as UTF-8.
\<close>

section \<open>Canonical JSON\<close>

definition norm_object :: "(string \<times> jsval) list \<Rightarrow> jsval" where
  "norm_object ps = JObj (from_entries (sort_key fst ps))"

fun normalise :: "(nat list \<Rightarrow> string) \<Rightarrow> jsval \<Rightarrow> jsval"
  and normalise_elems :: "(nat list \<Rightarrow> string) \<Rightarrow> jsval list \<Rightarrow> jsval list"
  and normalise_members :: "(nat list \<Rightarrow> string) \<Rightarrow> (string \<times> jsval) list \<Rightarrow> (string \<times> jsval) list" where
  "normalise sha (JBuf bs) = JObj [(''$buffer'', JStr (sha bs))]"
| "normalise sha (JArr vs) = JArr (normalise_elems sha vs)"
| "normalise sha (JObj ps) = norm_object (normalise_members sha ps)"
| "normalise sha (JStream ps) = norm_object (normalise_members sha ps)"
| "normalise sha v = v"
| "normalise_elems sha [] = []"
| "normalise_elems sha (v # vs) = normalise sha v # normalise_elems sha vs"
| "normalise_members sha [] = []"
| "normalise_members sha ((k, v) # ps) =
     (if v = JUndef then normalise_members sha ps else (k, normalise sha v) # normalise_members sha ps)"

definition canonicalJson :: "(nat list \<Rightarrow> string) \<Rightarrow> jsval \<Rightarrow> type_error + string" where
  "canonicalJson sha v = and_then (stringify (normalise sha v))
     (\<lambda>s. Inr (case s of None \<Rightarrow> ''null'' | Some t \<Rightarrow> t))"

section \<open>The fingerprint\<close>

record fingerprint_input =
  fi_method :: string
  fi_url :: string
  fi_body :: jsval
  fi_headers :: headers

definition header :: "headers \<Rightarrow> string \<Rightarrow> string" where
  "header h name = (case h name of None \<Rightarrow> '''' | Some (One v) \<Rightarrow> v
     | Some (Many vs) \<Rightarrow> (case vs of [] \<Rightarrow> '''' | v # _ \<Rightarrow> v))"

definition NL :: char where "NL = CHR 10"

definition unparsed_part :: "fingerprint_input \<Rightarrow> string" where
  "unparsed_part input =
     (if fi_body input \<noteq> JUndef \<and> fi_body input \<noteq> JNull then ''''
      else header (fi_headers input) ''content-type'' @ CHR ''|'' # header (fi_headers input) ''content-length'')"

definition fingerprint_text :: "(nat list \<Rightarrow> string) \<Rightarrow> fingerprint_input \<Rightarrow> type_error + string" where
  "fingerprint_text sha input =
     and_then (canonicalJson sha (if fi_body input = JUndef then JNull else fi_body input))
       (\<lambda>body. Inr (map to_upper (fi_method input) @ NL # fi_url input @ NL # body @ NL # unparsed_part input))"

definition requestFingerprint :: "(nat list \<Rightarrow> string) \<Rightarrow> fingerprint_input \<Rightarrow> type_error + string" where
  "requestFingerprint sha input = and_then (fingerprint_text sha input) (\<lambda>t. Inr (sha (utf8 t)))"

section \<open>Bodies that say the same\<close>

text \<open>Two values that differ only in the order of object properties, at any depth.\<close>

inductive same_json :: "jsval \<Rightarrow> jsval \<Rightarrow> bool" where
  same_atom: "same_json v v"
| same_arr: "list_all2 same_json vs ws \<Longrightarrow> same_json (JArr vs) (JArr ws)"
| same_obj: "fst ` set ps = fst ` set qs \<Longrightarrow>
    (\<And>k v w. (k, v) \<in> set ps \<Longrightarrow> (k, w) \<in> set qs \<Longrightarrow> same_json v w) \<Longrightarrow>
    same_json (JObj ps) (JObj qs)"
  monos list_all2_mono

lemma plain_elems_all: "plain_elems vs \<longleftrightarrow> (\<forall>v\<in>set vs. plain v)"
  by (induction vs) auto

lemma plain_members_all: "plain_members ps \<longleftrightarrow> (\<forall>p\<in>set ps. plain (snd p))"
  by (induction ps) auto

lemma plain_memberD: "plain_members ps \<Longrightarrow> (k, v) \<in> set ps \<Longrightarrow> plain v"
  by (auto simp: plain_members_all)

lemma normalise_elems_map: "normalise_elems sha vs = map (normalise sha) vs"
  by (induction vs) auto

lemma normalise_members_map:
  "plain_members ps \<Longrightarrow> normalise_members sha ps = map (\<lambda>p. (fst p, normalise sha (snd p))) ps"
  by (induction ps) auto

lemma distinct_sort_key: "distinct (map fst (sort_key fst ps)) = distinct (map fst ps)"
  by (metis mset_sort mset_map mset_eq_imp_distinct_iff)

lemma norm_object_plain:
  "distinct (map fst ps) \<Longrightarrow> plain_members ps \<Longrightarrow> plain (norm_object ps)"
  by (auto simp: norm_object_def from_entries_distinct distinct_sort_key plain_members_all)

lemma normalise_plain: "plain v \<Longrightarrow> plain (normalise sha v)"
proof (induction v)
  case (JArr vs)
  then show ?case by (auto simp: normalise_elems_map plain_elems_all)
next
  case (JObj ps)
  then have "plain_members ps" "distinct (map fst ps)" by auto
  moreover have "plain_members (map (\<lambda>p. (fst p, normalise sha (snd p))) ps)"
    using JObj by (auto simp: plain_members_all snds.simps)
  ultimately show ?case
    by (simp add: normalise_members_map norm_object_plain comp_def)
qed auto

text \<open>An object is determined by its properties once they are distinct and sorted.\<close>

lemma norm_object_eq_iff:
  assumes "distinct (map fst ps)" and "distinct (map fst qs)"
  shows "norm_object ps = norm_object qs \<longleftrightarrow> set ps = set qs"
proof
  assume "norm_object ps = norm_object qs"
  then have "own_order (sort_key fst ps) = own_order (sort_key fst qs)"
    using assms by (simp add: norm_object_def from_entries_distinct distinct_sort_key)
  then show "set ps = set qs" by (metis set_own_order set_sort)
next
  assume s: "set ps = set qs"
  have "sort_key fst ps = sort_key fst qs"
  proof (rule map_sorted_distinct_set_unique [where f = fst])
    show "inj_on fst (set (sort_key fst ps) \<union> set (sort_key fst qs))"
      using assms(1) s by (simp add: distinct_map)
  qed (use assms s in \<open>simp_all add: distinct_sort_key\<close>)
  then show "norm_object ps = norm_object qs" by (simp add: norm_object_def)
qed

lemma normalise_obj_form:
  "plain w \<Longrightarrow> normalise sha w = norm_object es \<Longrightarrow> \<exists>qs. w = JObj qs"
  by (cases w) (auto simp: norm_object_def)

lemma normalise_arr_form:
  "plain w \<Longrightarrow> normalise sha w = JArr ws \<Longrightarrow> \<exists>us. w = JArr us \<and> ws = map (normalise sha) us"
  by (cases w) (auto simp: norm_object_def normalise_elems_map)

lemma same_imp_normalise:
  "same_json v w \<Longrightarrow> plain v \<Longrightarrow> plain w \<Longrightarrow> normalise sha v = normalise sha w"
proof (induction rule: same_json.induct)
  case (same_arr vs ws)
  then have "map (normalise sha) vs = map (normalise sha) ws"
    by (auto simp: plain_elems_all list_all2_conv_all_nth intro!: nth_equalityI)
  then show ?case by (simp add: normalise_elems_map)
next
  case (same_obj ps qs)
  let ?n = "\<lambda>p. (fst p, normalise sha (snd p))"
  from same_obj.prems have p: "distinct (map fst ps)" "plain_members ps" "distinct (map fst qs)" "plain_members qs"
    by auto
  have "?n ` set ps \<subseteq> ?n ` set qs" if "fst ` set ps = fst ` set qs"
    "\<And>k v w. (k, v) \<in> set ps \<Longrightarrow> (k, w) \<in> set qs \<Longrightarrow> normalise sha v = normalise sha w" for ps qs
  proof
    fix x assume "x \<in> ?n ` set ps"
    then obtain k v where v: "(k, v) \<in> set ps" "x = (k, normalise sha v)" by auto
    then have "k \<in> fst ` set qs" using that(1) by force
    then obtain w where "(k, w) \<in> set qs" by auto
    with v that(2) show "x \<in> ?n ` set qs" by force
  qed
  note half = this
  have eq: "normalise sha v = normalise sha w" if "(k, v) \<in> set ps" "(k, w) \<in> set qs" for k v w
    by (rule same_obj.IH [OF that]) (rule plain_memberD; rule p that)+
  have "?n ` set ps = ?n ` set qs"
    using half [OF same_obj.hyps(1) eq] half [OF same_obj.hyps(1) [symmetric] eq [symmetric]]
    by (rule subset_antisym) assumption+
  with p show ?case
    by (simp add: normalise_members_map norm_object_eq_iff comp_def)
qed simp

lemma normalise_atom:
  "v = normalise sha w \<Longrightarrow> plain w \<Longrightarrow> (\<And>vs. v \<noteq> JArr vs) \<Longrightarrow> (\<And>ps. v \<noteq> JObj ps) \<Longrightarrow> w = v"
  by (cases w) (auto simp: norm_object_def)

lemma normalise_imp_same:
  "plain v \<Longrightarrow> plain w \<Longrightarrow> normalise sha v = normalise sha w \<Longrightarrow> same_json v w"
proof (induction v arbitrary: w)
  case (JArr vs)
  then obtain us where w: "w = JArr us" "map (normalise sha) vs = map (normalise sha) us"
    using normalise_arr_form [of w sha "map (normalise sha) vs"] by (auto simp: normalise_elems_map)
  then have "list_all2 same_json vs us"
    using JArr by (auto simp: plain_elems_all list_all2_conv_all_nth dest: map_eq_imp_length_eq)
      (metis length_map nth_map nth_mem)
  with w show ?case by (simp add: same_arr)
next
  case (JObj ps)
  let ?n = "\<lambda>p. (fst p, normalise sha (snd p))"
  from JObj.prems(1) have p: "distinct (map fst ps)" "plain_members ps" by auto
  from JObj.prems(3) p have n: "norm_object (map ?n ps) = normalise sha w" by (simp add: normalise_members_map)
  then obtain qs where w: "w = JObj qs" using JObj.prems(2) normalise_obj_form by metis
  with JObj.prems(2) have q: "distinct (map fst qs)" "plain_members qs" by auto
  from n w q have "norm_object (map ?n ps) = norm_object (map ?n qs)" by (simp add: normalise_members_map)
  with p q have s: "?n ` set ps = ?n ` set qs" by (simp add: norm_object_eq_iff comp_def)
  have "fst ` set ps = fst ` ?n ` set ps" by (simp add: image_image)
  also have "\<dots> = fst ` set qs" by (simp only: s) (simp add: image_image)
  finally have "fst ` set ps = fst ` set qs" .
  moreover have "same_json a b" if ab: "(k, a) \<in> set ps" "(k, b) \<in> set qs" for k a b
  proof -
    have "(k, normalise sha a) \<in> ?n ` set qs" using ab(1) s by force
    then obtain b' where b': "(k, b') \<in> set qs" "normalise sha a = normalise sha b'" by auto
    with ab q(1) have "b' = b" by (metis eq_key_imp_eq_value)
    moreover have "plain a" "plain b" using ab p q plain_memberD by blast+
    ultimately show ?thesis using b'(2) JObj.IH [OF ab(1), of a b] by (simp add: snds.simps)
  qed
  ultimately show ?case using w by (simp add: same_obj)
qed (auto dest!: normalise_atom intro: same_atom)

section \<open>What the fingerprint binds\<close>

lemma no_controls:
  "plain v \<Longrightarrow> \<forall>c\<in>set (tokens_text (tokens v)). 32 \<le> code_unit c"
  "plain_elems vs \<Longrightarrow> \<forall>c\<in>set (tokens_text (tokens_elems vs)). 32 \<le> code_unit c"
  "plain_members ps \<Longrightarrow> \<forall>c\<in>set (tokens_text (tokens_members ps)). 32 \<le> code_unit c"
proof -
  have n: "num_char c \<Longrightarrow> 32 \<le> code_unit c" for c by (auto simp: num_char_def is_digit_def)
  have e: "\<forall>d\<in>set (esc c). 32 \<le> code_unit d" for c
  proof -
    have h: "d < 16 \<Longrightarrow> 32 \<le> code_unit (hex_digit d)" for d by (auto simp: hex_digit_def of_char_of)
    have "code_unit c < 32 \<Longrightarrow> 32 \<le> code_unit (hex_digit (code_unit c div 16)) \<and> 32 \<le> code_unit (hex_digit (code_unit c mod 16))"
      by (intro conjI h) simp_all
    then show ?thesis by (auto simp: esc_def backslash_def quote_def)
  qed
  then have q: "\<forall>d\<in>set (quoted s). 32 \<le> code_unit d" for s
    by (auto simp: quoted_def quote_def)
  have i: "\<forall>d\<in>set (int_text i). 32 \<le> code_unit d" for i
    using int_text_token [of i] n by blast
  show "plain v \<Longrightarrow> \<forall>c\<in>set (tokens_text (tokens v)). 32 \<le> code_unit c"
    "plain_elems vs \<Longrightarrow> \<forall>c\<in>set (tokens_text (tokens_elems vs)). 32 \<le> code_unit c"
    "plain_members ps \<Longrightarrow> \<forall>c\<in>set (tokens_text (tokens_members ps)). 32 \<le> code_unit c"
    by (induction v and vs and ps rule: tokens_tokens_elems_tokens_members.induct)
      (use n q i in \<open>auto simp: dec_ok_def\<close>)
qed

lemma canonical_plain: "plain v \<Longrightarrow> canonicalJson sha v = Inr (tokens_text (tokens (normalise sha v)))"
  using normalise_plain [of v sha] by (simp add: canonicalJson_def stringify_plain)

definition sent_body :: "fingerprint_input \<Rightarrow> jsval" where
  "sent_body i = (if fi_body i = JUndef then JNull else fi_body i)"

text \<open>A request as Fastify gives it: one line of method and URL, and a body that is absent or was parsed.\<close>

definition wire_request :: "fingerprint_input \<Rightarrow> bool" where
  "wire_request i \<longleftrightarrow> NL \<notin> set (fi_method i) \<and> NL \<notin> set (fi_url i) \<and> plain (sent_body i)"

lemma to_upper_NL [simp]: "to_upper c = NL \<longleftrightarrow> c = NL"
proof -
  have "to_upper c = NL \<longleftrightarrow> code_unit (to_upper c) = 10" and "c = NL \<longleftrightarrow> code_unit c = 10"
    using of_char_eq_iff [where 'a = nat, of "to_upper c" NL] of_char_eq_iff [where 'a = nat, of c NL]
    by (simp_all add: NL_def)
  then show ?thesis by (auto simp: code_unit_to_upper is_lower_def)
qed

lemma fingerprint_text_eq:
  assumes "wire_request a" and "wire_request b"
  shows "fingerprint_text sha a = fingerprint_text sha b \<longleftrightarrow>
    map to_upper (fi_method a) = map to_upper (fi_method b) \<and> fi_url a = fi_url b \<and>
    same_json (sent_body a) (sent_body b) \<and> unparsed_part a = unparsed_part b" (is "?l \<longleftrightarrow> ?r")
proof -
  let ?j = "\<lambda>i. tokens_text (tokens (normalise sha (sent_body i)))"
  have p: "plain (sent_body i) \<and> plain (normalise sha (sent_body i)) \<and>
      (\<forall>c\<in>set (map to_upper (fi_method i)). c \<noteq> NL) \<and> (\<forall>c\<in>set (fi_url i). c \<noteq> NL)" if "wire_request i" for i
    using that normalise_plain by (auto simp: wire_request_def)
  note pa = p [OF assms(1)] and pb = p [OF assms(2)]
  have nl: "\<forall>c\<in>set (?j i). c \<noteq> NL" if "plain (normalise sha (sent_body i))" for i
    using no_controls(1) [OF that] by (auto simp: NL_def)
  have t: "fingerprint_text sha i = Inr (map to_upper (fi_method i) @ NL # fi_url i @ NL # ?j i @ NL # unparsed_part i)"
    if "wire_request i" for i
    using p [OF that] by (auto simp: fingerprint_text_def sent_body_def canonical_plain)
  have j: "?j a = ?j b \<longleftrightarrow> same_json (sent_body a) (sent_body b)"
    using pa pb stringify_inj same_imp_normalise normalise_imp_same by metis
  have "?l \<longleftrightarrow> map to_upper (fi_method a) = map to_upper (fi_method b) \<and> fi_url a = fi_url b \<and>
      ?j a = ?j b \<and> unparsed_part a = unparsed_part b"
  proof
    assume ?l
    then have e: "map to_upper (fi_method a) @ NL # fi_url a @ NL # ?j a @ NL # unparsed_part a =
        map to_upper (fi_method b) @ NL # fi_url b @ NL # ?j b @ NL # unparsed_part b"
      by (simp add: t assms)
    from split_at_sep [OF _ _ e] pa pb have "map to_upper (fi_method a) = map to_upper (fi_method b)"
      and e2: "fi_url a @ NL # ?j a @ NL # unparsed_part a = fi_url b @ NL # ?j b @ NL # unparsed_part b" by blast+
    moreover from split_at_sep [OF _ _ e2] pa pb have "fi_url a = fi_url b"
      and e3: "?j a @ NL # unparsed_part a = ?j b @ NL # unparsed_part b" by blast+
    moreover from split_at_sep [OF _ _ e3] nl pa pb have "?j a = ?j b" "unparsed_part a = unparsed_part b"
      by blast+
    ultimately show "map to_upper (fi_method a) = map to_upper (fi_method b) \<and> fi_url a = fi_url b \<and>
      ?j a = ?j b \<and> unparsed_part a = unparsed_part b" by blast
  qed (simp add: t assms)
  then show ?thesis using j by simp
qed

lemma fingerprint_defined: "wire_request a \<Longrightarrow> \<exists>t. fingerprint_text sha a = Inr t"
  by (auto simp: wire_request_def fingerprint_text_def sent_body_def canonical_plain)

text \<open>
  C10. A key is bound to the question it was sent with: two requests have the same fingerprint exactly
  when they agree on the method (letter case aside), on the URL, on the body up to the order of object
  properties at any depth, and, for a body that was not parsed, on its type and length. The one exception
  is a collision of SHA-256 between the two texts hashed.
\<close>

theorem fingerprint_binds_request:
  assumes "wire_request a" and "wire_request b"
    and "\<And>s t. fingerprint_text sha a = Inr s \<Longrightarrow> fingerprint_text sha b = Inr t \<Longrightarrow>
      sha (utf8 s) = sha (utf8 t) \<Longrightarrow> s = t"
  shows "requestFingerprint sha a = requestFingerprint sha b \<longleftrightarrow>
    map to_upper (fi_method a) = map to_upper (fi_method b) \<and> fi_url a = fi_url b \<and>
    same_json (sent_body a) (sent_body b) \<and> unparsed_part a = unparsed_part b"
proof -
  obtain s t where "fingerprint_text sha a = Inr s" "fingerprint_text sha b = Inr t"
    using fingerprint_defined assms(1,2) by metis
  with assms(3) have "requestFingerprint sha a = requestFingerprint sha b \<longleftrightarrow>
      fingerprint_text sha a = fingerprint_text sha b"
    by (auto simp: requestFingerprint_def)
  with fingerprint_text_eq [OF assms(1,2)] show ?thesis by simp
qed

definition fp_example :: "(string \<times> jsval) list \<Rightarrow> fingerprint_input" where
  "fp_example ps = \<lparr>fi_method = ''POST'', fi_url = ''/orders'', fi_body = JObj ps, fi_headers = Map.empty\<rparr>"

theorem fingerprint_binds_request_witness:
  "requestFingerprint (map char_of) (fp_example [(''a'', JNum 1), (''b'', JNum 2)]) =
   requestFingerprint (map char_of) (fp_example [(''b'', JNum 2), (''a'', JNum 1)])"
proof -
  have w: "wire_request (fp_example [(''a'', JNum 1), (''b'', JNum 2)])"
    "wire_request (fp_example [(''b'', JNum 2), (''a'', JNum 1)])"
    by (simp_all add: wire_request_def fp_example_def NL_def sent_body_def own_order_def is_index_def is_digit_def)
  have "map char_of (utf8 s) = map (char_of :: nat \<Rightarrow> char) (utf8 t) \<Longrightarrow> s = t" for s t
  proof -
    assume e: "map char_of (utf8 s) = map (char_of :: nat \<Rightarrow> char) (utf8 t)"
    have "map code_unit (map char_of (utf8 s)) = utf8 s" for s
      using utf8_bytes [of s] by (auto simp: of_char_of intro!: map_idI)
    with e show "s = t" by (metis utf8_inj)
  qed
  from fingerprint_binds_request [OF w this] show ?thesis
    by (auto simp: fp_example_def sent_body_def unparsed_part_def intro!: same_obj same_atom)
qed

end
