(* ===== verification/Idempotency.thy ===== *)
theory Idempotency
  imports CacheRequirement ClientIp Fingerprint HttpErrors
begin

text \<open>
  \<open>platform-http/src/http/idempotency.interceptor.ts\<close>: the record and the claim of an idempotency key,
  the decision taken for a request, what is kept of its outcome, and how the claim is renewed and given
  back.

  The cache is the Valkey of \<open>Valkey\<close>; \<open>up\<close> says whether a command reaches it (a service without a client
  is one that never does). \<open>sha\<close> is SHA-256 in hexadecimal over bytes. The handler is what it returns or
  throws.
\<close>

definition IDEMPOTENCY_TTL_SECONDS :: nat where "IDEMPOTENCY_TTL_SECONDS = 24 * 60 * 60"
definition IDEMPOTENCY_METHODS :: "string list" where "IDEMPOTENCY_METHODS = [''POST'', ''PUT'']"
definition IDEMPOTENCY_REPLAYED_HEADER :: string where "IDEMPOTENCY_REPLAYED_HEADER = ''x-idempotent-replayed''"
definition MAX_STORED_RESPONSE_BYTES :: nat where "MAX_STORED_RESPONSE_BYTES = 256 * 1024"
definition REPLAYED_RESPONSE_HEADERS :: "string list" where
  "REPLAYED_RESPONSE_HEADERS = [''location'', ''etag'', ''content-type'']"

section \<open>The scripts\<close>

datatype claim_answer = AnswerRecord string | AnswerClaimed | AnswerHeld

definition READ_OR_CLAIM ::
  "'s valkey \<Rightarrow> msec \<Rightarrow> string \<Rightarrow> string \<Rightarrow> string \<Rightarrow> nat \<Rightarrow> 's \<Rightarrow> claim_answer \<times> 's" where
  "READ_OR_CLAIM vk t recordKey claimKey token lease s =
     (case vk_get vk t recordKey s of
        Some r \<Rightarrow> (AnswerRecord r, s)
      | None \<Rightarrow> (case vk_setnx vk t claimKey token (lease * 1000) s of
                   (ok, s') \<Rightarrow> (if ok then AnswerClaimed else AnswerHeld, s')))"

definition RELEASE_IF_OURS :: "'s valkey \<Rightarrow> msec \<Rightarrow> string \<Rightarrow> string \<Rightarrow> 's \<Rightarrow> nat \<times> 's" where
  "RELEASE_IF_OURS vk t key token s =
     (if vk_get vk t key s = Some token then vk_del vk t key s else (0, s))"

definition RENEW_IF_OURS :: "'s valkey \<Rightarrow> msec \<Rightarrow> string \<Rightarrow> string \<Rightarrow> nat \<Rightarrow> 's \<Rightarrow> nat \<times> 's" where
  "RENEW_IF_OURS vk t key token lease s =
     (if vk_get vk t key s = Some token then vk_pexpire vk t key (lease * 1000) s else (0, s))"

section \<open>What is stored\<close>

record stored_response =
  sr_f :: string
  sr_s :: jsval
  sr_b :: jsval
  sr_h :: jsval
  sr_m :: jsval

text \<open>Falsy values: undefined, null, false, zero, NaN and the empty string.\<close>

definition truthy :: "jsval \<Rightarrow> bool" where
  "truthy v \<longleftrightarrow> v \<notin> {JUndef, JNull, JBool False, JNum 0, JNaN, JBig 0, JStr ''''}"

definition parseStored :: "string \<Rightarrow> stored_response option" where
  "parseStored raw =
     (case json_parse raw of
        Some (JObj ps) \<Rightarrow>
          (case (member_of ''v'' ps, member_of ''f'' ps, member_of ''s'' ps) of
             (JNum v, JStr f, st) \<Rightarrow>
               (if v = 1 \<and> (case st of JNum _ \<Rightarrow> True | JDec _ \<Rightarrow> True | _ \<Rightarrow> False)
                then Some \<lparr>sr_f = f, sr_s = st, sr_b = member_of ''b'' ps, sr_h = member_of ''h'' ps,
                  sr_m = member_of ''m'' ps\<rparr> else None)
           | _ \<Rightarrow> None)
      | _ \<Rightarrow> None)"

definition isSerializableBody :: "jsval \<Rightarrow> bool" where
  "isSerializableBody body =
     (case body of JFun \<Rightarrow> False | JStream _ \<Rightarrow> False | JBuf _ \<Rightarrow> False
      | JObj ps \<Rightarrow> member_of ''pipe'' ps \<noteq> JFun \<and> member_of ''getReader'' ps \<noteq> JFun
      | _ \<Rightarrow> True)"

text \<open>\<open>get_header\<close> is \<open>reply.getHeader\<close>, \<open>JUndef\<close> for a header that was not set.\<close>

definition replayable_value :: "jsval \<Rightarrow> bool" where
  "replayable_value v = (case v of
     JStr x \<Rightarrow> 0 < length x \<and> length x \<le> 2048 \<and> list_all (\<lambda>c. 32 \<le> code_unit c \<and> code_unit c \<noteq> 127) x
   | _ \<Rightarrow> False)"

definition replayableHeaders :: "(string \<Rightarrow> jsval) \<Rightarrow> jsval" where
  "replayableHeaders get_header =
     (let out = map (\<lambda>name. (name, get_header name))
        (filter (\<lambda>name. replayable_value (get_header name)) REPLAYED_RESPONSE_HEADERS)
      in if out = [] then JUndef else JObj out)"

definition marker :: "string \<Rightarrow> int \<Rightarrow> jsval" where
  "marker fingerprint status =
     JObj [(''v'', JNum 1), (''f'', JStr fingerprint), (''s'', JNum status), (''m'', JStr ''not-replayable'')]"

text \<open>\<open>None\<close> is the \<open>JSON.parse\<close> that throws.\<close>

definition recordFor :: "string \<Rightarrow> int \<Rightarrow> jsval \<Rightarrow> (string \<Rightarrow> jsval) \<Rightarrow> jsval option" where
  "recordFor fingerprint status body get_header =
     (if \<not> isSerializableBody body then Some (marker fingerprint status)
      else (case stringify (JObj [(''v'', JNum 1), (''f'', JStr fingerprint), (''s'', JNum status), (''b'', body),
                   (''h'', replayableHeaders get_header)]) of
              Inr (Some json) \<Rightarrow>
                (if MAX_STORED_RESPONSE_BYTES < length (utf8 json) then Some (marker fingerprint status)
                 else json_parse json)
            | _ \<Rightarrow> Some (marker fingerprint status)))"

section \<open>Decisions\<close>

record idem_request =
  iq_id :: nat
  iq_method :: string
  iq_url :: string
  iq_body :: jsval
  iq_client :: client_request
  iq_config :: "string list option"
  iq_user :: "string option"

definition iq_headers :: "idem_request \<Rightarrow> headers" where
  "iq_headers req = cr_headers (iq_client req)"

record run_decision =
  rd_recordKey :: string
  rd_claimKey :: string
  rd_claim :: string
  rd_fingerprint :: string

datatype decision = Pass | Replay stored_response | NotReplayable stored_response | Run run_decision

datatype idem_error = IdemRefused domain_exception | IdemType type_error | IdemEdge edge_error

definition tagSafe :: "(nat list \<Rightarrow> string) \<Rightarrow> string \<Rightarrow> string" where
  "tagSafe sha who = (if CHR ''{'' \<in> set who \<or> CHR ''}'' \<in> set who then take 32 (sha (utf8 who)) else who)"

definition keyReused :: domain_exception where
  "keyReused = DomainException ''IDEMPOTENCY_KEY_REUSED''
     ''This Idempotency-Key was already used for a different request.'' VALIDATION_FAILED None"

definition in_flight :: domain_exception where
  "in_flight = ConflictException ''IDEMPOTENCY_IN_FLIGHT''
     ''A request with this Idempotency-Key is still in progress. Retry shortly.''"

definition not_replayable :: "stored_response \<Rightarrow> domain_exception" where
  "not_replayable stored = DomainException ''IDEMPOTENCY_NOT_REPLAYABLE''
     ''This request already completed, but its response cannot be replayed. Do not send it again; read the result instead.''
     CONFLICT (Some [JObj [(''originalStatus'', sr_s stored)]])"

definition header_text :: "headers \<Rightarrow> string \<Rightarrow> string" where
  "header_text h name = (case h name of None \<Rightarrow> '''' | Some (One v) \<Rightarrow> v
     | Some (Many vs) \<Rightarrow> foldr (\<lambda>v acc. if acc = [] then v else v @ '','' @ acc) vs [])"

text \<open>Who is calling, with the address memo as it is afterwards.\<close>

definition idem_who ::
  "(nat list \<Rightarrow> string) \<Rightarrow> (string \<Rightarrow> string \<Rightarrow> nat list) \<Rightarrow> (string \<Rightarrow> bool) \<Rightarrow> msec \<Rightarrow> idem_request \<Rightarrow>
    resolved_state \<Rightarrow> edge_error + string \<times> resolved_state" where
  "idem_who sha hmac is_ip t req ips =
     (case iq_user req of
        Some u \<Rightarrow> Inr (u, ips)
      | None \<Rightarrow> and_then (clientIp hmac is_ip True (iq_id req) (iq_client req) (iq_config req) (int t) ips)
          (\<lambda>(ip, ips'). Inr (take 16 (sha (utf8 (ip @ CHR '':'' # header_text (iq_headers req) ''user-agent''))), ips')))"

definition record_key :: "(nat list \<Rightarrow> string) \<Rightarrow> string \<Rightarrow> idem_request \<Rightarrow> string \<Rightarrow> string" where
  "record_key sha who req key =
     ''idem:{'' @ tagSafe sha who @ CHR '':'' #
       take 32 (sha (utf8 (iq_method req @ NL # iq_url req @ NL # key))) @ ''}''"

definition claim_key :: "string \<Rightarrow> string" where
  "claim_key recordKey = recordKey @ '':claim''"

definition decide ::
  "nat \<Rightarrow> string \<Rightarrow> string \<Rightarrow> string \<Rightarrow> claim_answer \<Rightarrow> (domain_exception \<times> (string \<times> string) list) + decision" where
  "decide lease recordKey claim fingerprint ans =
     (case ans of
        AnswerRecord raw \<Rightarrow>
          (case parseStored raw of
             Some stored \<Rightarrow>
               (if sr_f stored \<noteq> fingerprint then Inl (keyReused, [])
                else if truthy (sr_m stored) then Inr (NotReplayable stored) else Inr (Replay stored))
           | None \<Rightarrow> Inr Pass)
      | AnswerHeld \<Rightarrow> Inl (in_flight, [(''Retry-After'', dec (min lease 5))])
      | AnswerClaimed \<Rightarrow> Inr (Run \<lparr>rd_recordKey = recordKey, rd_claimKey = claim_key recordKey,
            rd_claim = claim, rd_fingerprint = fingerprint\<rparr>))"

definition fingerprint_input_of :: "idem_request \<Rightarrow> fingerprint_input" where
  "fingerprint_input_of req = \<lparr>fi_method = iq_method req, fi_url = iq_url req, fi_body = iq_body req,
     fi_headers = iq_headers req\<rparr>"

definition idem_begin ::
  "(nat list \<Rightarrow> string) \<Rightarrow> (string \<Rightarrow> string \<Rightarrow> nat list) \<Rightarrow> (string \<Rightarrow> bool) \<Rightarrow> 's valkey \<Rightarrow> nat \<Rightarrow> bool \<Rightarrow>
    msec \<Rightarrow> string \<Rightarrow> idem_request \<Rightarrow> string \<Rightarrow> resolved_state \<times> 's
      \<Rightarrow> ((idem_error \<times> (string \<times> string) list) + decision) \<times> resolved_state \<times> 's" where
  "idem_begin sha hmac is_ip vk lease up t claim req key st =
     (case st of (ips, s) \<Rightarrow>
        (case idem_who sha hmac is_ip t req ips of
           Inl e \<Rightarrow> (Inl (IdemEdge e, []), ips, s)
         | Inr (who, ips') \<Rightarrow>
             (case requestFingerprint sha (fingerprint_input_of req) of
                Inl e \<Rightarrow> (Inl (IdemType e, []), ips', s)
              | Inr fp \<Rightarrow>
                  (if \<not> up then (Inr Pass, ips', s)
                   else (case READ_OR_CLAIM vk t (record_key sha who req key)
                                (claim_key (record_key sha who req key)) claim lease s of
                           (ans, s') \<Rightarrow>
                             ((case decide lease (record_key sha who req key) claim fp ans of
                                 Inl (e, hs) \<Rightarrow> Inl (IdemRefused e, hs)
                               | Inr d \<Rightarrow> Inr d), ips', s'))))))"

section \<open>Running under the claim\<close>

datatype handler_result = Threw thrown | Returned int jsval "string \<Rightarrow> jsval"

definition idem_store :: "'s valkey \<Rightarrow> bool \<Rightarrow> msec \<Rightarrow> run_decision \<Rightarrow> int \<Rightarrow> jsval \<Rightarrow> (string \<Rightarrow> jsval) \<Rightarrow> 's \<Rightarrow> 's" where
  "idem_store vk up t d status body get_header s =
     (if status < 200 \<or> 299 < status then s
      else (case recordFor (rd_fingerprint d) status body get_header of
              None \<Rightarrow> s
            | Some r \<Rightarrow>
                (case stringify r of
                   Inr (Some json) \<Rightarrow>
                     (if up then vk_set vk t (rd_recordKey d) json (Some (IDEMPOTENCY_TTL_SECONDS * 1000)) s else s)
                 | _ \<Rightarrow> s)))"

definition idem_renew :: "'s valkey \<Rightarrow> nat \<Rightarrow> bool \<Rightarrow> msec \<Rightarrow> run_decision \<Rightarrow> 's \<Rightarrow> bool \<times> 's" where
  "idem_renew vk lease up t d s =
     (if up then (case RENEW_IF_OURS vk t (rd_claimKey d) (rd_claim d) lease s of (n, s') \<Rightarrow> (n = 1, s'))
      else (False, s))"

definition idem_release :: "'s valkey \<Rightarrow> bool \<Rightarrow> msec \<Rightarrow> run_decision \<Rightarrow> 's \<Rightarrow> 's" where
  "idem_release vk up t d s =
     (if up then snd (RELEASE_IF_OURS vk t (rd_claimKey d) (rd_claim d) s) else s)"

definition renew_every_ms :: "nat \<Rightarrow> nat" where
  "renew_every_ms lease = max 1 (lease div 3) * 1000"

text \<open>The end of a run: the outcome is stored before the claim is released.\<close>

definition idem_finish :: "'s valkey \<Rightarrow> bool \<Rightarrow> msec \<Rightarrow> run_decision \<Rightarrow> handler_result \<Rightarrow> 's \<Rightarrow> 's" where
  "idem_finish vk up t d r s =
     idem_release vk up t d
       (case r of Threw _ \<Rightarrow> s | Returned status body get_header \<Rightarrow> idem_store vk up t d status body get_header s)"

section \<open>The interceptor\<close>

datatype idem_response =
    FromHandler handler_result
  | Replayed jsval jsval "(string \<times> jsval) list"
  | RefusedBy idem_error "(string \<times> string) list"

definition replayed_headers :: "stored_response \<Rightarrow> (string \<times> jsval) list" where
  "replayed_headers stored = (IDEMPOTENCY_REPLAYED_HEADER, JStr ''true'') #
     (case sr_h stored of JObj ps \<Rightarrow> filter (\<lambda>(name, v). name \<in> set REPLAYED_RESPONSE_HEADERS) ps | _ \<Rightarrow> [])"

definition first_value :: "header_val option \<Rightarrow> string option" where
  "first_value v = (case v of None \<Rightarrow> None | Some (One x) \<Rightarrow> Some x
     | Some (Many []) \<Rightarrow> None | Some (Many (x # _)) \<Rightarrow> Some x)"

text \<open>
  A request from its arrival at \<open>t\<close> to its end at \<open>t'\<close>; \<open>result\<close> is what the handler gives if it runs, and
  it runs exactly when the response is \<open>FromHandler\<close>.
\<close>

definition intercept ::
  "(nat list \<Rightarrow> string) \<Rightarrow> (string \<Rightarrow> string \<Rightarrow> nat list) \<Rightarrow> (string \<Rightarrow> bool) \<Rightarrow> 's valkey \<Rightarrow> idempotency_mode \<Rightarrow>
    bool \<Rightarrow> nat \<Rightarrow> bool \<Rightarrow> msec \<Rightarrow> msec \<Rightarrow> string \<Rightarrow> idem_request \<Rightarrow> handler_result \<Rightarrow> resolved_state \<times> 's
      \<Rightarrow> idem_response \<times> resolved_state \<times> 's" where
  "intercept sha hmac is_ip vk mode is_http lease up t t' claim req result st =
     (let idempotencyKey = first_value (iq_headers req ''idempotency-key'')
      in if mode = IdemDisabled \<or> \<not> is_http \<or> iq_method req \<notin> set IDEMPOTENCY_METHODS
            \<or> idempotencyKey = None \<or> idempotencyKey = Some ''''
         then (FromHandler result, st)
         else (case idem_begin sha hmac is_ip vk lease up t claim req (the idempotencyKey) st of
                 (Inl (e, hs), st1) \<Rightarrow> (RefusedBy e hs, st1)
               | (Inr Pass, st1) \<Rightarrow> (FromHandler result, st1)
               | (Inr (Replay stored), st1) \<Rightarrow> (Replayed (sr_s stored) (sr_b stored) (replayed_headers stored), st1)
               | (Inr (NotReplayable stored), st1) \<Rightarrow>
                   (RefusedBy (IdemRefused (not_replayable stored)) [(IDEMPOTENCY_REPLAYED_HEADER, ''true'')], st1)
               | (Inr (Run d), (ips1, s1)) \<Rightarrow> (FromHandler result, ips1, idem_finish vk up t' d result s1)))"

section \<open>What a record says\<close>

definition kept_record :: "string \<Rightarrow> int \<Rightarrow> jsval \<Rightarrow> (string \<Rightarrow> jsval) \<Rightarrow> jsval" where
  "kept_record fingerprint status body get_header =
     JObj ([(''v'', JNum 1), (''f'', JStr fingerprint), (''s'', JNum status)]
       @ (if body = JUndef then [] else [(''b'', body)])
       @ (if replayableHeaders get_header = JUndef then [] else [(''h'', replayableHeaders get_header)]))"

definition answer_body :: "jsval \<Rightarrow> bool" where
  "answer_body body \<longleftrightarrow> body = JUndef \<or> plain body"

definition json_size :: "jsval \<Rightarrow> nat" where
  "json_size v = length (utf8 (tokens_text (tokens v)))"

lemma own_order_names:
  "list_all (\<lambda>k. \<not> is_index k) (map fst ps) \<Longrightarrow> own_order ps = ps"
  by (auto simp: own_order_def list_all_iff filter_empty_conv filter_id_conv)

lemma headers_plain: "replayableHeaders g \<noteq> JUndef \<Longrightarrow> plain (replayableHeaders g)"
proof -
  let ?ns = "filter (\<lambda>name. replayable_value (g name)) REPLAYED_RESPONSE_HEADERS"
  let ?out = "map (\<lambda>name. (name, g name)) ?ns"
  have "distinct (map fst ?out)" by (simp add: comp_def REPLAYED_RESPONSE_HEADERS_def)
  moreover have "own_order ?out = ?out"
    by (rule own_order_names)
      (auto simp: list_all_iff REPLAYED_RESPONSE_HEADERS_def is_index_def is_digit_def)
  moreover have "plain_members ?out"
    by (auto simp: plain_members_all replayable_value_def split: jsval.splits)
  ultimately show "replayableHeaders g \<noteq> JUndef \<Longrightarrow> ?thesis"
    by (auto simp: replayableHeaders_def Let_def)
qed

lemma plain_serializable: "answer_body body \<Longrightarrow> isSerializableBody body"
proof (cases body)
  case (JObj ps)
  then show "answer_body body \<Longrightarrow> ?thesis"
    by (auto simp: answer_body_def isSerializableBody_def member_of_def plain_members_all
        dest!: map_of_SomeD split: option.splits)
qed (auto simp: answer_body_def isSerializableBody_def)

lemma kept_plain: "answer_body body \<Longrightarrow> plain (kept_record fp status body g)"
proof -
  assume "answer_body body"
  moreover have "\<not> is_index ''v''" "\<not> is_index ''f''" "\<not> is_index ''s''" "\<not> is_index ''b''" "\<not> is_index ''h''"
    by (simp_all add: is_index_def is_digit_def)
  ultimately show ?thesis
    using headers_plain [of g]
    by (auto simp: kept_record_def answer_body_def intro!: own_order_names)
qed

lemma marker_plain: "plain (marker fp status)"
proof -
  have "\<not> is_index ''v''" "\<not> is_index ''f''" "\<not> is_index ''s''" "\<not> is_index ''m''"
    by (simp_all add: is_index_def is_digit_def)
  then show ?thesis by (auto simp: marker_def intro!: own_order_names)
qed

lemma to_json_undef_headers:
  "to_json (replayableHeaders g) = Inr (if replayableHeaders g = JUndef then None else Some (replayableHeaders g))"
  using headers_plain [of g] to_json_plain(1) by auto

lemma to_json_answer: "answer_body body \<Longrightarrow> to_json body = Inr (if body = JUndef then None else Some body)"
  by (auto simp: answer_body_def to_json_plain)

lemma recordFor_kept:
  assumes "answer_body body"
  shows "recordFor fp status body g =
    Some (if MAX_STORED_RESPONSE_BYTES < json_size (kept_record fp status body g) then marker fp status
          else kept_record fp status body g)"
proof -
  have "to_json (JObj [(''v'', JNum 1), (''f'', JStr fp), (''s'', JNum status), (''b'', body),
      (''h'', replayableHeaders g)]) = Inr (Some (kept_record fp status body g))"
    using assms by (auto simp: to_json_answer to_json_undef_headers kept_record_def)
  then have "stringify (JObj [(''v'', JNum 1), (''f'', JStr fp), (''s'', JNum status), (''b'', body),
      (''h'', replayableHeaders g)]) = Inr (Some (tokens_text (tokens (kept_record fp status body g))))"
    by (simp add: stringify_def)
  then show ?thesis
    using assms plain_serializable json_round_trip [OF kept_plain [OF assms]]
    by (simp add: recordFor_def json_size_def del: to_json.simps)
qed

lemma parse_kept:
  "answer_body body \<Longrightarrow> parseStored (tokens_text (tokens (kept_record fp status body g))) =
     Some \<lparr>sr_f = fp, sr_s = JNum status, sr_b = body, sr_h = replayableHeaders g, sr_m = JUndef\<rparr>"
  by (simp add: parseStored_def json_round_trip kept_plain) (simp add: kept_record_def member_of_def)

lemma parse_marker:
  "parseStored (tokens_text (tokens (marker fp status))) =
     Some \<lparr>sr_f = fp, sr_s = JNum status, sr_b = JUndef, sr_h = JUndef, sr_m = JStr ''not-replayable''\<rparr>"
  by (simp add: parseStored_def json_round_trip marker_plain) (simp add: marker_def member_of_def)

lemma store_kept:
  assumes "200 \<le> status" and "status \<le> 299" and "recordFor (rd_fingerprint d) status body g = Some r" and "plain r"
  shows "idem_store vk True t d status body g s =
    vk_set vk t (rd_recordKey d) (tokens_text (tokens r)) (Some (IDEMPOTENCY_TTL_SECONDS * 1000)) s"
  using assms by (simp add: idem_store_def stringify_plain)

section \<open>A repeat\<close>

text \<open>A request the interceptor looks at, with the key, caller and fingerprint it comes to.\<close>

definition keyed_request ::
  "(nat list \<Rightarrow> string) \<Rightarrow> (string \<Rightarrow> string \<Rightarrow> nat list) \<Rightarrow> (string \<Rightarrow> bool) \<Rightarrow> msec \<Rightarrow> idem_request \<Rightarrow> resolved_state \<Rightarrow>
    string \<Rightarrow> string \<Rightarrow> bool" where
  "keyed_request sha hmac is_ip t req ips recordKey fp \<longleftrightarrow>
     iq_method req \<in> set IDEMPOTENCY_METHODS \<and>
     requestFingerprint sha (fingerprint_input_of req) = Inr fp \<and>
     (case (first_value (iq_headers req ''idempotency-key''), idem_who sha hmac is_ip t req ips) of
        (Some key, Inr (who, _)) \<Rightarrow> key \<noteq> '''' \<and> recordKey = record_key sha who req key
      | _ \<Rightarrow> False)"

lemma intercept_repeat:
  assumes "keyed_request sha hmac is_ip t req ips recordKey fp" and "vk_get vk t recordKey s = Some raw"
    and "parseStored raw = Some stored"
  shows "\<exists>ips'. intercept sha hmac is_ip vk IdemCache True lease True t t' claim req result (ips, s) =
    (if sr_f stored \<noteq> fp then RefusedBy (IdemRefused keyReused) []
     else if truthy (sr_m stored)
       then RefusedBy (IdemRefused (not_replayable stored)) [(IDEMPOTENCY_REPLAYED_HEADER, ''true'')]
     else Replayed (sr_s stored) (sr_b stored) (replayed_headers stored), ips', s)"
  using assms
  by (auto simp: keyed_request_def intercept_def idem_begin_def READ_OR_CLAIM_def decide_def Let_def
      split: option.splits sum.splits)

lemma replayed_kept:
  "replayed_headers \<lparr>sr_f = fp, sr_s = v, sr_b = b, sr_h = replayableHeaders g, sr_m = m\<rparr> =
     (IDEMPOTENCY_REPLAYED_HEADER, JStr ''true'') #
       map (\<lambda>name. (name, g name)) (filter (\<lambda>name. replayable_value (g name)) REPLAYED_RESPONSE_HEADERS)"
  by (auto simp: replayed_headers_def replayableHeaders_def Let_def filter_map comp_def
      intro!: arg_cong [where f = "map (\<lambda>name. (name, g name))"] filter_cong)

text \<open>
  C12. A repeat gets the answer the first request gave: once a 2xx response with a JSON body was stored,
  every request with the same key and caller within 24 hours, whenever it comes, is answered with that
  status and that body, unchanged, with \<open>x-idempotent-replayed\<close> and only the allow-listed headers (never a
  \<open>Set-Cookie\<close>), and the handler does not run; and one that asks a different question is refused with
  \<open>422 IDEMPOTENCY_KEY_REUSED\<close>.
\<close>

theorem replay_is_faithful:
  assumes "valkey_strings vk" and "200 \<le> status" and "status \<le> 299" and "answer_body body"
    and "json_size (kept_record (rd_fingerprint d) status body g) \<le> MAX_STORED_RESPONSE_BYTES"
    and "t \<le> t'" and "t' < t + IDEMPOTENCY_TTL_SECONDS * 1000"
    and "keyed_request sha hmac is_ip t' req ips (rd_recordKey d) fp"
  shows "fst (intercept sha hmac is_ip vk IdemCache True lease True t' t'' claim req result
      (ips, idem_store vk True t d status body g s)) =
    (if rd_fingerprint d = fp
     then Replayed (JNum status) body ((''x-idempotent-replayed'', JStr ''true'') #
       map (\<lambda>name. (name, g name)) (filter (\<lambda>name. replayable_value (g name)) [''location'', ''etag'', ''content-type'']))
     else RefusedBy (IdemRefused keyReused) []) \<and> de_httpStatus keyReused = 422"
proof -
  let ?r = "kept_record (rd_fingerprint d) status body g"
  have "recordFor (rd_fingerprint d) status body g = Some ?r" using recordFor_kept [OF assms(4)] assms(5) by simp
  then have "idem_store vk True t d status body g s =
      vk_set vk t (rd_recordKey d) (tokens_text (tokens ?r)) (Some (IDEMPOTENCY_TTL_SECONDS * 1000)) s"
    by (rule store_kept [OF assms(2,3) _ kept_plain [OF assms(4)]])
  then have "vk_get vk t' (rd_recordKey d) (idem_store vk True t d status body g s) = Some (tokens_text (tokens ?r))"
    using valkey_strings.get_set [OF assms(1,6)] assms(7) by simp
  from intercept_repeat [OF assms(8) this parse_kept [OF assms(4)], of lease t'' claim result]
  show ?thesis
    by (auto simp: replayed_kept REPLAYED_RESPONSE_HEADERS_def IDEMPOTENCY_REPLAYED_HEADER_def truthy_def
        keyReused_def DomainException_def)
qed

definition zero_sha :: "nat list \<Rightarrow> string" where
  "zero_sha bs = ''0''"

definition example_idem :: idem_request where
  "example_idem = \<lparr>iq_id = 0, iq_method = ''POST'', iq_url = ''/orders'', iq_body = JObj [(''n'', JNum 1)],
     iq_client = \<lparr>cr_headers = [''idempotency-key'' \<mapsto> One ''k''], cr_ip = None, cr_remote = Some ''10.0.0.1'',
       cr_method = None, cr_url = None\<rparr>, iq_config = None, iq_user = Some ''u''\<rparr>"

definition example_run :: run_decision where
  "example_run = \<lparr>rd_recordKey = ''idem:{u:0}'', rd_claimKey = ''idem:{u:0}:claim'', rd_claim = ''tok'', rd_fingerprint = ''0''\<rparr>"

definition location_only :: "string \<Rightarrow> jsval" where
  "location_only name = (if name = ''location'' then JStr ''/orders/7'' else if name = ''set-cookie'' then JStr ''s=1'' else JUndef)"

lemma example_keyed: "keyed_request zero_sha (\<lambda>_ _. []) (\<lambda>_. False) t example_idem ips ''idem:{u:0}'' ''0''"
  by (simp add: keyed_request_def example_idem_def IDEMPOTENCY_METHODS_def iq_headers_def first_value_def
      idem_who_def record_key_def tagSafe_def zero_sha_def requestFingerprint_def fingerprint_text_def
      fingerprint_input_of_def canonicalJson_def stringify_def norm_object_def from_entries_def own_order_def
      is_index_def is_digit_def)

theorem replay_is_faithful_witness:
  "fst (intercept zero_sha (\<lambda>_ _. []) (\<lambda>_. False) mem_valkey IdemCache True 60 True 5000 6000 ''t2'' example_idem
      (Returned 200 JNull location_only)
      (\<lparr>resolved = Map.empty, reported = []\<rparr>, idem_store mem_valkey True 0 example_run 201 (JObj [(''id'', JNum 7)]) location_only mem_empty)) =
    Replayed (JNum 201) (JObj [(''id'', JNum 7)]) [(''x-idempotent-replayed'', JStr ''true''), (''location'', JStr ''/orders/7'')]"
proof -
  let ?b = "JObj [(''id'', JNum 7)]"
  have h: "replayableHeaders location_only = JObj [(''location'', JStr ''/orders/7'')]"
    by (simp add: replayableHeaders_def REPLAYED_RESPONSE_HEADERS_def location_only_def replayable_value_def)
  have sz: "json_size (kept_record (rd_fingerprint example_run) 201 ?b location_only) \<le> MAX_STORED_RESPONSE_BYTES"
    by (simp add: MAX_STORED_RESPONSE_BYTES_def json_size_def kept_record_def h example_run_def int_text_def utf8_def quoted_def esc_def quote_def backslash_def
        dec.simps digit_char_def)
  have k: "keyed_request zero_sha (\<lambda>_ _. []) (\<lambda>_. False) 5000 example_idem \<lparr>resolved = Map.empty, reported = []\<rparr>
      (rd_recordKey example_run) ''0''" using example_keyed by (simp add: example_run_def)
  have b: "answer_body ?b" by (simp add: answer_body_def own_order_def is_index_def is_digit_def)
  from replay_is_faithful [OF mem.valkey_strings_axioms _ _ b sz _ _ k, of 0 60 6000 "''t2''" "Returned 200 JNull location_only" mem_empty]
  show ?thesis
    by (simp add: example_run_def IDEMPOTENCY_TTL_SECONDS_def location_only_def replayable_value_def)
qed

lemma unreplayable_record:
  assumes "\<not> isSerializableBody body \<or> answer_body body \<and> MAX_STORED_RESPONSE_BYTES < json_size (kept_record fp status body g)"
  shows "recordFor fp status body g = Some (marker fp status)"
proof (cases "isSerializableBody body")
  case False
  then show ?thesis by (simp add: recordFor_def)
next
  case True
  with assms recordFor_kept show ?thesis by auto
qed

text \<open>
  A response that cannot be replayed is still recorded as done: after a 2xx with a stream, a file, a
  buffer or a body over 256 KiB, what is stored holds nothing of the response but its status, and a
  repeat within 24 hours is refused with \<open>409 IDEMPOTENCY_NOT_REPLAYABLE\<close> carrying that status; the
  handler does not run again.
\<close>

theorem unreplayable_is_not_rerun:
  assumes "valkey_strings vk" and "200 \<le> status" and "status \<le> 299"
    and "\<not> isSerializableBody body \<or> answer_body body \<and>
      MAX_STORED_RESPONSE_BYTES < json_size (kept_record (rd_fingerprint d) status body g)"
    and "t \<le> t'" and "t' < t + IDEMPOTENCY_TTL_SECONDS * 1000"
    and "keyed_request sha hmac is_ip t' req ips (rd_recordKey d) (rd_fingerprint d)"
  shows "idem_store vk True t d status body g s = idem_store vk True t d status (JBuf []) (\<lambda>_. JUndef) s \<and>
    (\<exists>ex. fst (intercept sha hmac is_ip vk IdemCache True lease True t' t'' claim req result
        (ips, idem_store vk True t d status body g s)) = RefusedBy (IdemRefused ex) [(''x-idempotent-replayed'', ''true'')] \<and>
      de_httpStatus ex = 409 \<and> de_code ex = ''IDEMPOTENCY_NOT_REPLAYABLE'' \<and>
      de_details ex = Some [JObj [(''originalStatus'', JNum status)]])"
proof -
  let ?m = "marker (rd_fingerprint d) status"
  have st: "idem_store vk True t d status b h s =
      vk_set vk t (rd_recordKey d) (tokens_text (tokens ?m)) (Some (IDEMPOTENCY_TTL_SECONDS * 1000)) s"
    if "recordFor (rd_fingerprint d) status b h = Some ?m" for b h
    by (rule store_kept [OF assms(2,3) that marker_plain])
  note mine = st [OF unreplayable_record [OF assms(4)]]
  have buf: "recordFor (rd_fingerprint d) status (JBuf []) (\<lambda>_. JUndef) = Some ?m"
    by (rule unreplayable_record) (simp add: isSerializableBody_def)
  have "vk_get vk t' (rd_recordKey d) (idem_store vk True t d status body g s) = Some (tokens_text (tokens ?m))"
    using valkey_strings.get_set [OF assms(1,5)] assms(6) mine by simp
  from intercept_repeat [OF assms(7) this parse_marker, of lease t'' claim result] mine st [OF buf]
  show ?thesis
    by (auto simp: truthy_def IDEMPOTENCY_REPLAYED_HEADER_def not_replayable_def DomainException_def)
qed

theorem unreplayable_is_not_rerun_witness:
  "\<exists>ex. fst (intercept zero_sha (\<lambda>_ _. []) (\<lambda>_. False) mem_valkey IdemCache True 60 True 5000 6000 ''t2'' example_idem
      (Returned 200 JNull location_only)
      (\<lparr>resolved = Map.empty, reported = []\<rparr>,
       idem_store mem_valkey True 0 example_run 200 (JStream [(''path'', JStr ''/srv/secret'')]) location_only mem_empty)) =
    RefusedBy (IdemRefused ex) [(''x-idempotent-replayed'', ''true'')] \<and> de_httpStatus ex = 409"
proof -
  let ?b = "JStream [(''path'', JStr ''/srv/secret'')]"
  have k: "keyed_request zero_sha (\<lambda>_ _. []) (\<lambda>_. False) 5000 example_idem \<lparr>resolved = Map.empty, reported = []\<rparr>
      (rd_recordKey example_run) (rd_fingerprint example_run)" using example_keyed by (simp add: example_run_def)
  have "\<not> isSerializableBody ?b" by (simp add: isSerializableBody_def)
  then show ?thesis
    using unreplayable_is_not_rerun [OF mem.valkey_strings_axioms _ _ _ _ _ k, of 200 ?b location_only 0 mem_empty 60 6000 "''t2''"
        "Returned 200 JNull location_only"]
    by (auto simp: IDEMPOTENCY_TTL_SECONDS_def)
qed

section \<open>Many requests at once\<close>

text \<open>
  All the requests that carry one key, on any number of processes, told apart by the random tokens of
  their claims: which of them run the handler and until when their lease lasts, and until when the record
  of a success lasts. Time passes no further than the leases of those that run, which is what the renewal
  timer is for; a process may die at any point and its claim stays behind.
\<close>

record 's idem_sys =
  im_now :: msec
  im_store :: 's
  im_running :: "string \<Rightarrow> msec option"
  im_success :: "msec option"

definition run_of :: "string \<Rightarrow> string \<Rightarrow> string \<Rightarrow> run_decision" where
  "run_of rk tok fp = \<lparr>rd_recordKey = rk, rd_claimKey = claim_key rk, rd_claim = tok, rd_fingerprint = fp\<rparr>"

lemma run_of_simps [simp]:
  "rd_recordKey (run_of rk tok fp) = rk" "rd_claimKey (run_of rk tok fp) = claim_key rk"
  "rd_claim (run_of rk tok fp) = tok" "rd_fingerprint (run_of rk tok fp) = fp"
  by (simp_all add: run_of_def)

definition succeeds :: "handler_result \<Rightarrow> bool" where
  "succeeds r = (case r of Threw _ \<Rightarrow> False | Returned status _ _ \<Rightarrow> 200 \<le> status \<and> status \<le> 299)"

definition sent_body_ok :: "handler_result \<Rightarrow> bool" where
  "sent_body_ok r = (case r of Threw _ \<Rightarrow> True | Returned _ b _ \<Rightarrow> answer_body b \<or> \<not> isSerializableBody b)"

inductive idem_step :: "'s valkey \<Rightarrow> nat \<Rightarrow> string \<Rightarrow> 's idem_sys \<Rightarrow> 's idem_sys \<Rightarrow> bool"
  for vk :: "'s valkey" and lease :: nat and rk :: string where
  Elapse: "im_now x \<le> now' \<Longrightarrow> (\<And>tok e. im_running x tok = Some e \<Longrightarrow> now' < e) \<Longrightarrow>
    idem_step vk lease rk x (x\<lparr>im_now := now'\<rparr>)"
| Unrelated: "(\<And>u. vk_get vk u rk s' = vk_get vk u rk (im_store x)) \<Longrightarrow>
    (\<And>u. vk_get vk u (claim_key rk) s' = vk_get vk u (claim_key rk) (im_store x)) \<Longrightarrow>
    idem_step vk lease rk x (x\<lparr>im_store := s'\<rparr>)"
| Claimed: "READ_OR_CLAIM vk (im_now x) rk (claim_key rk) tok lease (im_store x) = (AnswerClaimed, s') \<Longrightarrow>
    im_running x tok = None \<Longrightarrow>
    idem_step vk lease rk x
      (x\<lparr>im_store := s', im_running := (im_running x)(tok \<mapsto> im_now x + lease * 1000)\<rparr>)"
| Turned_away: "READ_OR_CLAIM vk (im_now x) rk (claim_key rk) tok lease (im_store x) = (ans, s') \<Longrightarrow>
    ans \<noteq> AnswerClaimed \<Longrightarrow> idem_step vk lease rk x (x\<lparr>im_store := s'\<rparr>)"
| Renewed: "im_running x tok = Some e \<Longrightarrow>
    idem_renew vk lease True (im_now x) (run_of rk tok fp) (im_store x) = (True, s') \<Longrightarrow>
    idem_step vk lease rk x
      (x\<lparr>im_store := s', im_running := (im_running x)(tok \<mapsto> im_now x + lease * 1000)\<rparr>)"
| Finished: "im_running x tok = Some e \<Longrightarrow> sent_body_ok r \<Longrightarrow>
    idem_step vk lease rk x
      (x\<lparr>im_store := idem_finish vk True (im_now x) (run_of rk tok fp) r (im_store x),
         im_running := (im_running x)(tok := None),
         im_success := (if succeeds r then Some (im_now x + IDEMPOTENCY_TTL_SECONDS * 1000) else im_success x)\<rparr>)"
| Died: "im_running x tok = Some e \<Longrightarrow>
    idem_step vk lease rk x (x\<lparr>im_running := (im_running x)(tok := None)\<rparr>)"

definition idem_inv :: "'s valkey \<Rightarrow> string \<Rightarrow> 's idem_sys \<Rightarrow> bool" where
  "idem_inv vk rk x \<longleftrightarrow>
     (\<forall>tok e. im_running x tok = Some e \<longrightarrow> im_now x < e \<and>
        (\<forall>u. im_now x \<le> u \<and> u < e \<longrightarrow> vk_get vk u (claim_key rk) (im_store x) = Some tok)) \<and>
     (\<forall>e. im_success x = Some e \<and> im_now x < e \<longrightarrow>
        (\<forall>u. im_now x \<le> u \<and> u < e \<longrightarrow> vk_get vk u rk (im_store x) \<noteq> None) \<and> im_running x = Map.empty)"

lemma idem_inv_same:
  assumes "idem_inv vk rk x" and "im_now y = im_now x" and "im_running y = im_running x"
    and "im_success y = im_success x" and "\<And>u. vk_get vk u rk (im_store y) = vk_get vk u rk (im_store x)"
    and "\<And>u. vk_get vk u (claim_key rk) (im_store y) = vk_get vk u (claim_key rk) (im_store x)"
  shows "idem_inv vk rk y"
  using assms(1) unfolding idem_inv_def by (simp only: assms(2-))

lemma idem_inv_unique:
  "idem_inv vk rk x \<Longrightarrow> im_running x a = Some e \<Longrightarrow> im_running x b = Some e' \<Longrightarrow> a = b"
  unfolding idem_inv_def by (metis option.inject order_refl)

lemma idem_inv_only:
  "idem_inv vk rk x \<Longrightarrow> im_running x a = Some e \<Longrightarrow> (im_running x)(a := None) = Map.empty"
  using idem_inv_unique by (metis fun_upd_apply not_None_eq ext)

lemma idem_inv_expired:
  "idem_inv vk rk x \<Longrightarrow> im_running x a = Some e \<Longrightarrow> im_success x = Some f \<Longrightarrow> f \<le> im_now x"
  unfolding idem_inv_def by (metis not_le option.distinct(1))

lemma claim_key_other [simp]: "claim_key rk \<noteq> rk" "rk \<noteq> claim_key rk"
  by (simp_all add: claim_key_def)

lemma finish_stores:
  assumes "succeeds r" and "sent_body_ok r"
  shows "\<exists>json. idem_finish vk True t (run_of rk tok fp) r s =
    idem_release vk True t (run_of rk tok fp) (vk_set vk t rk json (Some (IDEMPOTENCY_TTL_SECONDS * 1000)) s)"
proof (cases r)
  case (Returned status body g)
  have "\<exists>j. recordFor fp status body g = Some j \<and> plain j"
  proof (cases "isSerializableBody body")
    case True
    with assms Returned have "answer_body body" by (auto simp: sent_body_ok_def)
    then show ?thesis using recordFor_kept kept_plain marker_plain by auto
  next
    case False
    then show ?thesis using marker_plain by (auto simp: recordFor_def)
  qed
  then obtain j where j: "recordFor (rd_fingerprint (run_of rk tok fp)) status body g = Some j" "plain j"
    by auto
  from assms Returned have "200 \<le> status" "status \<le> 299" by (auto simp: succeeds_def)
  from store_kept [OF this j, of vk t s] show ?thesis
    unfolding idem_finish_def Returned handler_result.case run_of_simps by metis
qed (use assms in \<open>simp add: succeeds_def\<close>)

lemma finish_fails:
  "\<not> succeeds r \<Longrightarrow> idem_finish vk True t d r s = idem_release vk True t d s"
  by (auto simp: idem_finish_def succeeds_def idem_store_def split: handler_result.splits)

context valkey_strings begin

lemma release_record:
  "vk_get vk u rk (idem_release vk True t (run_of rk tok fp) s) = vk_get vk u rk s"
  by (simp add: idem_release_def RELEASE_IF_OURS_def run_of_def get_del_other)

lemma claim_effect:
  assumes "READ_OR_CLAIM vk t rk (claim_key rk) tok lease s = (ans, s')"
  shows "vk_get vk u rk s' = vk_get vk u rk s \<and>
    (ans = AnswerClaimed \<longrightarrow> vk_get vk t rk s = None \<and> vk_get vk t (claim_key rk) s = None \<and>
       (\<forall>u\<ge>t. u < t + lease * 1000 \<longrightarrow> vk_get vk u (claim_key rk) s' = Some tok)) \<and>
    (ans \<noteq> AnswerClaimed \<longrightarrow> s' = s)"
proof (cases "vk_get vk t rk s")
  case (Some r)
  with assms show ?thesis by (auto simp: READ_OR_CLAIM_def)
next
  case None
  show ?thesis
  proof (cases "vk_get vk t (claim_key rk) s")
    case None
    with assms \<open>vk_get vk t rk s = None\<close> have "ans = AnswerClaimed" "s' = vk_set vk t (claim_key rk) tok (Some (lease * 1000)) s"
      by (auto simp: READ_OR_CLAIM_def setnx_free)
    then show ?thesis using None \<open>vk_get vk t rk s = None\<close> by (simp add: get_set get_set_other)
  next
    case (Some v)
    with assms \<open>vk_get vk t rk s = None\<close> show ?thesis by (auto simp: READ_OR_CLAIM_def setnx_taken)
  qed
qed

lemma renew_effect:
  assumes "idem_renew vk lease True t (run_of rk tok fp) s = (True, s')"
  shows "vk_get vk u rk s' = vk_get vk u rk s \<and> vk_get vk t (claim_key rk) s = Some tok \<and>
    (\<forall>u\<ge>t. u < t + lease * 1000 \<longrightarrow> vk_get vk u (claim_key rk) s' = Some tok)"
proof (cases "vk_get vk t (claim_key rk) s = Some tok")
  case True
  with assms have "s' = snd (vk_pexpire vk t (claim_key rk) (lease * 1000) s)"
    by (auto simp: idem_renew_def RENEW_IF_OURS_def run_of_def split: prod.splits)
  with True show ?thesis by (simp add: get_pexpire get_pexpire_other)
qed (use assms in \<open>simp add: idem_renew_def RENEW_IF_OURS_def run_of_def\<close>)

lemma idem_step_inv:
  assumes "idem_step vk lease rk x y" and "idem_inv vk rk x" and "0 < lease"
  shows "idem_inv vk rk y"
  using assms(1,2)
proof cases
  case (Elapse now')
  then show ?thesis using assms(2) unfolding idem_inv_def
    by (simp add: order.trans) (meson le_less_trans order.trans)
next
  case (Unrelated s')
  then show ?thesis by (intro idem_inv_same [OF assms(2)]) simp_all
next
  case (Claimed tok s')
  note eff = claim_effect [OF Claimed(2)]
  have none: "im_running x = Map.empty"
    using assms(2) eff unfolding idem_inv_def by (metis not_None_eq option.distinct(1) order_refl ext)
  have "\<And>e. im_success x = Some e \<Longrightarrow> \<not> im_now x < e"
    using assms(2) eff unfolding idem_inv_def by blast
  then show ?thesis using Claimed eff none assms(3) by (auto simp: idem_inv_def)
next
  case (Turned_away tok ans s')
  then have "s' = im_store x" using claim_effect by blast
  then show ?thesis using Turned_away(1) assms(2) by simp
next
  case (Renewed tok e fp s')
  note eff = renew_effect [OF Renewed(3)]
  have one: "im_running y = [tok \<mapsto> im_now x + lease * 1000]"
  proof -
    have "im_running x b = None" if "b \<noteq> tok" for b
      using idem_inv_unique [OF assms(2) _ Renewed(2)] that by (metis not_None_eq)
    then show ?thesis by (auto simp: fun_eq_iff Renewed(1))
  qed
  have old: "\<not> im_now x < f" if "im_success x = Some f" for f
    using idem_inv_expired [OF assms(2) Renewed(2) that] by simp
  have y: "im_now y = im_now x" "im_store y = s'" "im_success y = im_success x" by (simp_all add: Renewed(1))
  show ?thesis unfolding idem_inv_def one y using old eff assms(3) by (auto split: if_splits)
next
  case (Finished tok e r fp)
  note only = idem_inv_only [OF assms(2) Finished(2)] and old = idem_inv_expired [OF assms(2) Finished(2)]
  show ?thesis
  proof (cases "succeeds r")
    case True
    from finish_stores [OF True Finished(3), of vk "im_now x" rk tok fp "im_store x"] obtain json where
      j: "idem_finish vk True (im_now x) (run_of rk tok fp) r (im_store x) = idem_release vk True (im_now x)
        (run_of rk tok fp) (vk_set vk (im_now x) rk json (Some (IDEMPOTENCY_TTL_SECONDS * 1000)) (im_store x))" by blast
    then show ?thesis using Finished(1) only True by (simp add: idem_inv_def release_record get_set)
  next
    case False
    then show ?thesis using Finished(1) only old by (fastforce simp: idem_inv_def finish_fails)
  qed
next
  case (Died tok e)
  then show ?thesis
    using idem_inv_only [OF assms(2) Died(2)] idem_inv_expired [OF assms(2) Died(2)] by (fastforce simp: idem_inv_def)
qed

lemma idem_reachable_inv:
  "(idem_step vk lease rk)\<^sup>*\<^sup>* x y \<Longrightarrow> idem_inv vk rk x \<Longrightarrow> 0 < lease \<Longrightarrow> idem_inv vk rk y"
  by (induction rule: rtranclp_induct) (auto intro: idem_step_inv)

end



end
