(* ===== verification/RequestContext.thy ===== *)
theory RequestContext
  imports CacheRequirement Json ClientIp
begin

text \<open>
  The request context: \<open>observability/src/request-context-storage.ts\<close>, \<open>request-context.ts\<close>,
  \<open>job-context.ts\<close>, what \<open>logger.factory.ts\<close> puts of it on every log line, and
  \<open>platform-http/src/http/correlation-id.ts\<close>, which gives every request its context.

  The asynchronous storage is the context current code sees (\<open>None\<close> outside any); \<open>als_run\<close> runs code
  under one and restores the other. Generated ids are arguments.
\<close>

record request_context =
  cx_workspaceId :: "string option"
  cx_userId :: "string option"
  cx_sessionId :: "string option"
  cx_correlationId :: string
  cx_traceparent :: "string option"
  cx_principalFields :: "(string \<times> jsval) list option"

type_synonym als = "request_context option"

definition als_run :: "request_context \<Rightarrow> (als \<Rightarrow> 'a \<times> als) \<Rightarrow> als \<Rightarrow> 'a \<times> als" where
  "als_run ctx f outer = (fst (f (Some ctx)), outer)"

section \<open>Job contexts\<close>

record job_seed =
  js_correlationId :: "string option"
  js_workspaceId :: "string option"
  js_userId :: "string option"
  js_traceparent :: "string option"

definition withJobContext :: "string \<Rightarrow> string \<Rightarrow> (als \<Rightarrow> 'a \<times> als) \<Rightarrow> job_seed \<Rightarrow> als \<Rightarrow> 'a \<times> als" where
  "withJobContext uuid jobName f seed outer =
     als_run \<lparr>cx_workspaceId = js_workspaceId seed, cx_userId = js_userId seed, cx_sessionId = None,
       cx_correlationId = (case js_correlationId seed of Some c \<Rightarrow> c | None \<Rightarrow> jobName @ CHR '':'' # uuid),
       cx_traceparent = js_traceparent seed, cx_principalFields = None\<rparr> f outer"

section \<open>The principal\<close>

record request_principal =
  rp_userId :: jsval
  rp_sessionId :: jsval
  rp_workspaceId :: jsval
  rp_fields :: "(string \<times> jsval) list option"

definition MAX_PRINCIPAL_FIELDS :: nat where "MAX_PRINCIPAL_FIELDS = 8"
definition ID_MAX :: nat where "ID_MAX = 128"

definition RESERVED_FIELDS :: "string list" where
  "RESERVED_FIELDS = [''userId'', ''sessionId'', ''workspaceId'', ''correlationId'', ''traceparent'', ''time'',
     ''level'', ''msg'', ''message'', ''service'', ''env'', ''version'', ''err'', ''error'', ''req'', ''res'',
     ''pid'', ''hostname'', ''trace.id'', ''span.id'']"

definition field_key :: "string \<Rightarrow> bool" where
  "field_key k \<longleftrightarrow> (case k of [] \<Rightarrow> False
     | c # cs \<Rightarrow> is_lower c \<and> length cs \<le> 39 \<and>
         list_all (\<lambda>d. is_alnum d \<or> d = CHR ''_'' \<or> d = CHR ''.'') cs)"

definition no_controls_in :: "string \<Rightarrow> bool" where
  "no_controls_in s \<longleftrightarrow> list_all (\<lambda>c. 32 \<le> code_unit c \<and> code_unit c \<noteq> 127) s"

datatype principal_error = BadId string | ControlInId string | TooManyFields | FieldName string | FieldValue string

definition assertId :: "string \<Rightarrow> jsval \<Rightarrow> principal_error + string" where
  "assertId name v = (case v of
     JStr s \<Rightarrow> (if s = [] \<or> ID_MAX < length s then Inl (BadId name)
                 else if \<not> no_controls_in s then Inl (ControlInId name) else Inr s)
   | _ \<Rightarrow> Inl (BadId name))"

definition field_value_ok :: "jsval \<Rightarrow> bool" where
  "field_value_ok v = (case v of JStr s \<Rightarrow> length s \<le> ID_MAX \<and> no_controls_in s
     | JNum _ \<Rightarrow> True | JDec _ \<Rightarrow> True | JBool _ \<Rightarrow> True | _ \<Rightarrow> False)"

fun check_fields :: "(string \<times> jsval) list \<Rightarrow> (string \<times> jsval) list \<Rightarrow> principal_error + (string \<times> jsval) list" where
  "check_fields [] out = Inr out"
| "check_fields ((k, v) # es) out =
     (if \<not> field_key k \<or> k \<in> set RESERVED_FIELDS then Inl (FieldName (take 40 k))
      else if \<not> field_value_ok v then Inl (FieldValue k) else check_fields es (put k v out))"

definition validFields :: "(string \<times> jsval) list \<Rightarrow> principal_error + (string \<times> jsval) list" where
  "validFields fs =
     (if MAX_PRINCIPAL_FIELDS < length fs then Inl TooManyFields else check_fields fs [])"

definition setRequestPrincipal :: "request_principal \<Rightarrow> als \<Rightarrow> principal_error + bool \<times> als" where
  "setRequestPrincipal p ctx =
     and_then (assertId ''userId'' (rp_userId p)) (\<lambda>u.
     and_then (assertId ''sessionId'' (rp_sessionId p)) (\<lambda>s.
     and_then (if rp_workspaceId p = JUndef then Inr None
               else and_then (assertId ''workspaceId'' (rp_workspaceId p)) (\<lambda>w. Inr (Some w))) (\<lambda>w.
     and_then (case rp_fields p of None \<Rightarrow> Inr None
               | Some fs \<Rightarrow> and_then (validFields fs) (\<lambda>out. Inr (Some out))) (\<lambda>fields.
       Inr (case ctx of None \<Rightarrow> (False, None)
            | Some c \<Rightarrow> (True, Some (c\<lparr>cx_userId := Some u, cx_sessionId := Some s,
                cx_workspaceId := (case w of None \<Rightarrow> cx_workspaceId c | Some x \<Rightarrow> Some x),
                cx_principalFields := fields\<rparr>)))))))"

definition setAuthContext :: "string option \<Rightarrow> string \<Rightarrow> string \<Rightarrow> als \<Rightarrow> als" where
  "setAuthContext workspaceId userId sessionId ctx =
     map_option (\<lambda>c. c\<lparr>cx_workspaceId := workspaceId, cx_userId := Some userId, cx_sessionId := Some sessionId\<rparr>) ctx"

definition set_text :: "string option \<Rightarrow> bool" where
  "set_text x \<longleftrightarrow> x \<noteq> None \<and> x \<noteq> Some []"

definition getRequestPrincipal :: "als \<Rightarrow> (string \<times> string) option" where
  "getRequestPrincipal ctx = (case ctx of None \<Rightarrow> None
     | Some c \<Rightarrow> if set_text (cx_userId c) \<and> set_text (cx_sessionId c)
                then Some (the (cx_userId c), the (cx_sessionId c)) else None)"

definition currentUserId :: "als \<Rightarrow> string option" where
  "currentUserId ctx = Option.bind ctx cx_userId"

section \<open>What goes on every log line\<close>

text \<open>\<open>span\<close> is the trace and span id of a valid active span.\<close>

definition log_mixin :: "(string \<times> string) option \<Rightarrow> als \<Rightarrow> (string \<times> jsval) list" where
  "log_mixin span ctx =
     (let f1 = (case span of None \<Rightarrow> [] | Some (tr, sp) \<Rightarrow> put ''span.id'' (JStr sp) (put ''trace.id'' (JStr tr) []))
      in case ctx of None \<Rightarrow> f1
         | Some c \<Rightarrow>
             (let f2 = (if set_text (cx_workspaceId c) then put ''workspaceId'' (JStr (the (cx_workspaceId c))) f1 else f1);
                  f3 = (if set_text (cx_userId c) then put ''userId'' (JStr (the (cx_userId c))) f2 else f2);
                  f4 = (if cx_correlationId c \<noteq> [] then put ''correlationId'' (JStr (cx_correlationId c)) f3 else f3)
              in case cx_principalFields c of None \<Rightarrow> f4
                 | Some ps \<Rightarrow> foldl (\<lambda>fs (k, v). put k v fs) f4 ps))"

lemma map_of_put [simp]: "map_of (put k v ps) = (map_of ps)(k \<mapsto> v)"
  by (induction ps) auto

lemma map_of_puts: "map_of (foldl (\<lambda>fs (k, v). put k v fs) fs ps) = map_of fs ++ map_of (rev ps)"
  by (induction ps arbitrary: fs) (auto simp: map_add_assoc fun_eq_iff map_add_def split: option.splits)

lemma keys_put: "fst ` set (put k v ps) = insert k (fst ` set ps)"
  using map_of_put [of k v ps] by (simp add: dom_map_of_conv_image_fst [symmetric])

lemma check_fields_ok:
  "check_fields es out = Inr out' \<Longrightarrow>
     (\<forall>k\<in>fst ` set es. field_key k \<and> k \<notin> set RESERVED_FIELDS) \<and>
     fst ` set out' = fst ` set es \<union> fst ` set out \<and> length out' \<le> length es + length out"
proof (induction es out rule: check_fields.induct)
  case (2 k v es out)
  have "length (put k v out) \<le> Suc (length out)" for out by (induction out) auto
  with 2 show ?case by (auto simp: keys_put split: if_splits intro: le_trans)
qed simp

text \<open>
  C14. A product's fields never pass for the platform's: once a principal was accepted, every log line of
  the request carries that user and the context's own correlation id, the active span's ids if there is
  one, and of the product at most eight fields, none of which has a name the logger or the context owns.
\<close>

theorem principal_fields_never_shadow:
  assumes "setRequestPrincipal p (Some c) = Inr (True, Some c')" and "cx_correlationId c \<noteq> []"
  shows "map_of (log_mixin span (Some c')) ''userId'' = Some (rp_userId p) \<and>
    map_of (log_mixin span (Some c')) ''correlationId'' = Some (JStr (cx_correlationId c)) \<and>
    map_of (log_mixin span (Some c')) ''trace.id'' = map_option (\<lambda>s. JStr (fst s)) span \<and>
    map_of (log_mixin span (Some c')) ''span.id'' = map_option (\<lambda>s. JStr (snd s)) span \<and>
    (\<forall>ps. cx_principalFields c' = Some ps \<longrightarrow> length ps \<le> 8 \<and> fst ` set ps \<inter> set RESERVED_FIELDS = {}) \<and>
    currentUserId (Some c') = (case rp_userId p of JStr u \<Rightarrow> Some u | _ \<Rightarrow> None)"
proof -
  obtain u where u: "rp_userId p = JStr u" "u \<noteq> []" "cx_userId c' = Some u" "cx_correlationId c' = cx_correlationId c"
    using assms(1)
    by (auto simp: setRequestPrincipal_def and_then_Inr_iff assertId_def split: jsval.splits if_splits option.splits)
  have f: "\<exists>fs. validFields fs = Inr ps" if "cx_principalFields c' = Some ps" for ps
    using assms(1) that
    by (auto simp: setRequestPrincipal_def and_then_Inr_iff split: option.splits) blast+
  have ok: "length ps \<le> 8 \<and> fst ` set ps \<inter> set RESERVED_FIELDS = {}" if c': "cx_principalFields c' = Some ps" for ps
  proof -
    obtain fs where "validFields fs = Inr ps" using f [OF c'] by blast
    then have l: "length fs \<le> 8" and c: "check_fields fs [] = Inr ps"
      by (auto simp: validFields_def MAX_PRINCIPAL_FIELDS_def split: if_splits)
    have e: "fst ` set ps = fst ` set fs" and le: "length ps \<le> length fs" using check_fields_ok [OF c] by simp_all
    have "fst ` set ps \<inter> set RESERVED_FIELDS = {}"
      unfolding e using check_fields_ok [OF c, THEN conjunct1] by blast
    with l le show ?thesis by simp
  qed
  have no: "map_of (rev ps) k = None" if "cx_principalFields c' = Some ps" "k \<in> set RESERVED_FIELDS" for ps k
    using ok [OF that(1)] that(2) by (auto simp: map_of_eq_None_iff)
  have r: "''userId'' \<in> set RESERVED_FIELDS" "''correlationId'' \<in> set RESERVED_FIELDS"
    "''trace.id'' \<in> set RESERVED_FIELDS" "''span.id'' \<in> set RESERVED_FIELDS"
    by (simp_all add: RESERVED_FIELDS_def)
  let ?base = "log_mixin span (Some (c'\<lparr>cx_principalFields := None\<rparr>))"
  have base: "map_of ?base ''userId'' = Some (JStr u)" "map_of ?base ''correlationId'' = Some (JStr (cx_correlationId c))"
    "map_of ?base ''trace.id'' = map_option (\<lambda>s. JStr (fst s)) span" "map_of ?base ''span.id'' = map_option (\<lambda>s. JStr (snd s)) span"
    using u assms(2) by (cases span; auto simp: log_mixin_def set_text_def Let_def)+
  have "map_of (log_mixin span (Some c')) k = map_of ?base k" if "k \<in> set RESERVED_FIELDS" for k
  proof (cases "cx_principalFields c'")
    case None
    then have "c'\<lparr>cx_principalFields := None\<rparr> = c'" by (cases c') simp
    then show ?thesis by simp
  next
    case (Some ps)
    then have "log_mixin span (Some c') = foldl (\<lambda>fs (k, v). put k v fs) ?base ps"
      by (simp add: log_mixin_def Let_def)
    with no [OF Some that] show ?thesis by (simp add: map_of_puts map_add_def)
  qed
  then show ?thesis using base r ok u by (auto simp: currentUserId_def)
qed

definition example_context :: request_context where
  "example_context = \<lparr>cx_workspaceId = None, cx_userId = None, cx_sessionId = None, cx_correlationId = ''c-1'',
     cx_traceparent = None, cx_principalFields = None\<rparr>"

definition example_principal :: request_principal where
  "example_principal = \<lparr>rp_userId = JStr ''u-1'', rp_sessionId = JStr ''s-1'', rp_workspaceId = JUndef,
     rp_fields = Some [(''role'', JStr ''admin'')]\<rparr>"

theorem principal_fields_never_shadow_witness:
  "\<exists>c'. setRequestPrincipal example_principal (Some example_context) = Inr (True, Some c') \<and>
     map_of (log_mixin (Some (''t'', ''s'')) (Some c')) ''userId'' = Some (JStr ''u-1'') \<and>
     (\<exists>e. setRequestPrincipal (example_principal\<lparr>rp_fields := Some [(''userId'', JStr ''root'')]\<rparr>) (Some example_context) = Inl e)"
proof -
  obtain c' where c: "setRequestPrincipal example_principal (Some example_context) = Inr (True, Some c')"
    by (simp add: setRequestPrincipal_def example_principal_def assertId_def ID_MAX_def no_controls_in_def validFields_def
        MAX_PRINCIPAL_FIELDS_def field_key_def is_lower_def is_alnum_def is_alpha_def is_digit_def RESERVED_FIELDS_def
        field_value_ok_def)
  have "\<exists>e. setRequestPrincipal (example_principal\<lparr>rp_fields := Some [(''userId'', JStr ''root'')]\<rparr>) (Some example_context) = Inl e"
    by (simp add: setRequestPrincipal_def example_principal_def assertId_def ID_MAX_def no_controls_in_def validFields_def
        MAX_PRINCIPAL_FIELDS_def RESERVED_FIELDS_def)
  with c principal_fields_never_shadow [OF c, of "Some (''t'', ''s'')"] show ?thesis
    by (simp add: example_context_def example_principal_def)
qed

section \<open>The correlation id of a request\<close>

definition CORRELATION_ID_HEADER :: string where "CORRELATION_ID_HEADER = ''x-correlation-id''"
definition CORRELATION_ID_MODE_ENV :: string where "CORRELATION_ID_MODE_ENV = ''CORRELATION_ID_MODE''"

definition readCorrelationIdMode :: "env \<Rightarrow> startup_error + bool" where
  "readCorrelationIdMode env = readMode env CORRELATION_ID_MODE_ENV [(''enabled'', True), (''disabled'', False)] True"

definition SAFE_CORRELATION_ID :: "string \<Rightarrow> bool" where
  "SAFE_CORRELATION_ID s \<longleftrightarrow> 1 \<le> length s \<and> length s \<le> 128 \<and>
     list_all (\<lambda>c. is_alnum c \<or> c \<in> {CHR ''.'', CHR ''_'', CHR '':'', CHR ''-''}) s"

definition lower_hex :: "string \<Rightarrow> bool" where
  "lower_hex s \<longleftrightarrow> list_all (\<lambda>c. is_hex c \<and> \<not> is_upper c) s"

text \<open>Two, thirty-two, sixteen and two lower-case hex digits, joined by dashes.\<close>

definition W3C_TRACEPARENT :: "string \<Rightarrow> bool" where
  "W3C_TRACEPARENT s \<longleftrightarrow> length s = 55 \<and> s ! 2 = CHR ''-'' \<and> s ! 35 = CHR ''-'' \<and> s ! 52 = CHR ''-'' \<and>
     lower_hex (take 2 s) \<and> lower_hex (take 32 (drop 3 s)) \<and> lower_hex (take 16 (drop 36 s)) \<and> lower_hex (drop 53 s)"

text \<open>The id, and the length of the value it replaced, if one was supplied and refused.\<close>

definition resolveCorrelationId :: "header_val option \<Rightarrow> string \<Rightarrow> string \<times> nat option" where
  "resolveCorrelationId supplied generated =
     (case supplied of
        None \<Rightarrow> (generated, None)
      | Some (Many vs) \<Rightarrow> (generated, Some (case vs of [] \<Rightarrow> 0 | v # _ \<Rightarrow> length v))
      | Some (One v) \<Rightarrow> if SAFE_CORRELATION_ID v then (v, None) else (generated, Some (length v)))"

definition firstValid :: "header_val option \<Rightarrow> (string \<Rightarrow> bool) \<Rightarrow> string option" where
  "firstValid value pattern =
     (case (case value of Some (Many vs) \<Rightarrow> (case vs of [] \<Rightarrow> None | v # _ \<Rightarrow> Some v)
            | Some (One v) \<Rightarrow> Some v | None \<Rightarrow> None) of
        Some single \<Rightarrow> if pattern single then Some single else None
      | None \<Rightarrow> None)"

record correlation_outcome =
  co_logged :: "nat option"
  co_response_header :: string
  co_request_headers :: headers
  co_context :: request_context

definition correlation_middleware :: "headers \<Rightarrow> string \<Rightarrow> correlation_outcome" where
  "correlation_middleware hs generated =
     (case resolveCorrelationId (hs CORRELATION_ID_HEADER) generated of
        (cid, replaced) \<Rightarrow>
          (let hs' = hs(CORRELATION_ID_HEADER \<mapsto> One cid)
           in \<lparr>co_logged = replaced, co_response_header = cid, co_request_headers = hs',
               co_context = \<lparr>cx_workspaceId = None, cx_userId = None, cx_sessionId = None, cx_correlationId = cid,
                 cx_traceparent = firstValid (hs' ''traceparent'') W3C_TRACEPARENT, cx_principalFields = None\<rparr>\<rparr>))"

datatype enable_error = AlreadyEnabled | EnableMode startup_error

text \<open>Applications by number; the answer is the set of those enabled and whether the middleware is in use.\<close>

definition enableCorrelationId :: "nat \<Rightarrow> env \<Rightarrow> nat set \<Rightarrow> (enable_error + bool) \<times> nat set" where
  "enableCorrelationId app env enabledFor =
     (if app \<in> enabledFor then (Inl AlreadyEnabled, enabledFor)
      else (case readCorrelationIdMode env of
              Inl e \<Rightarrow> (Inl (EnableMode e), enabledFor)
            | Inr on \<Rightarrow> (Inr on, insert app enabledFor)))"

text \<open>
  One safe id everywhere: whatever a caller sends, the id in the request's context (and so on its log
  lines and in its error bodies), in the response header and in the header later code reads is the same,
  1 to 128 characters of \<open>[A-Za-z0-9._:-]\<close>; the caller's own value is kept when it is such an id, and
  otherwise nothing of it but its length is kept anywhere.
\<close>

theorem correlation_id_one_and_safe:
  assumes "SAFE_CORRELATION_ID generated"
  shows "let o1 = correlation_middleware hs generated; cid = cx_correlationId (co_context o1)
    in SAFE_CORRELATION_ID cid \<and> co_response_header o1 = cid \<and> co_request_headers o1 CORRELATION_ID_HEADER = Some (One cid) \<and>
       (case hs CORRELATION_ID_HEADER of
          Some (One v) \<Rightarrow> if SAFE_CORRELATION_ID v then cid = v \<and> co_logged o1 = None
            else correlation_middleware (hs(CORRELATION_ID_HEADER \<mapsto> One (replicate (length v) CHR '' ''))) generated = o1 \<and> cid = generated
        | Some (Many vs) \<Rightarrow> cid = generated
        | None \<Rightarrow> cid = generated \<and> co_logged o1 = None) \<and>
       (\<forall>tp. cx_traceparent (co_context o1) = Some tp \<longrightarrow> W3C_TRACEPARENT tp)"
proof -
  have bad: "\<not> SAFE_CORRELATION_ID (replicate n CHR '' '')" for n
    by (cases n) (auto simp: SAFE_CORRELATION_ID_def is_alnum_def is_alpha_def is_upper_def is_lower_def is_digit_def)
  have tp: "firstValid v p = Some t \<Longrightarrow> p t" for v p t
    by (auto simp: firstValid_def split: option.splits if_splits header_val.splits)
  show ?thesis
    using assms bad tp
    by (auto simp: correlation_middleware_def resolveCorrelationId_def Let_def
        split: option.splits header_val.splits prod.splits if_splits)
qed

theorem correlation_id_one_and_safe_witness:
  "cx_correlationId (co_context (correlation_middleware [''x-correlation-id'' \<mapsto> One [CHR ''a'', CHR 10, CHR ''b'']] ''g-1'')) = ''g-1'' \<and>
   cx_correlationId (co_context (correlation_middleware [''x-correlation-id'' \<mapsto> One ''svc:42''] ''g-1'')) = ''svc:42''"
proof -
  have g: "SAFE_CORRELATION_ID ''g-1''" and ok: "SAFE_CORRELATION_ID ''svc:42''" and bad: "\<not> SAFE_CORRELATION_ID [CHR ''a'', CHR 10, CHR ''b'']"
    by (simp_all add: SAFE_CORRELATION_ID_def is_alnum_def is_alpha_def is_upper_def is_lower_def is_digit_def)
  show ?thesis
    using correlation_id_one_and_safe [OF g, of "[''x-correlation-id'' \<mapsto> One [CHR ''a'', CHR 10, CHR ''b'']]"]
      correlation_id_one_and_safe [OF g, of "[''x-correlation-id'' \<mapsto> One ''svc:42'']"] ok bad
    by (simp add: Let_def CORRELATION_ID_HEADER_def)
qed

end
