(* ===== verification/Telemetry.thy ===== *)
theory Telemetry
  imports CacheRequirement Json
begin

text \<open>
  \<open>observability/src\<close>: metric labels and the cardinality guard (\<open>metrics.ts\<close>), trace context across
  processes (\<open>trace-context.ts\<close>), ignored paths, fail-open fields, the error serializer of
  \<open>logger.factory.ts\<close>, and how \<open>otel.bootstrap.ts\<close> reads its configuration.

  OpenTelemetry is not part of the repository: a recorder is the data points it emits.
\<close>

section \<open>Texts\<close>

text \<open>\<open>split_on c s\<close> is \<open>s.split(c)\<close> for one character, \<open>join_with\<close> its inverse \<open>join\<close>.\<close>

fun split_on :: "char \<Rightarrow> string \<Rightarrow> string list" where
  "split_on c [] = [[]]"
| "split_on c (x # xs) =
     (if x = c then [] # split_on c xs
      else (case split_on c xs of [] \<Rightarrow> [[x]] | s # ss \<Rightarrow> (x # s) # ss))"

fun join_with :: "char \<Rightarrow> string list \<Rightarrow> string" where
  "join_with c [] = []"
| "join_with c [s] = s"
| "join_with c (s # t # ss) = s @ c # join_with c (t # ss)"

section \<open>Labels\<close>

datatype status_class = S2xx | S3xx | S4xx | S5xx

definition statusClassOf :: "int \<Rightarrow> status_class" where
  "statusClassOf statusCode =
     (if 500 \<le> statusCode then S5xx else if 400 \<le> statusCode then S4xx
      else if 300 \<le> statusCode then S3xx else S2xx)"

definition KNOWN_METHODS :: "string list" where
  "KNOWN_METHODS = [''GET'', ''POST'', ''PUT'', ''PATCH'', ''DELETE'']"

definition methodLabelOf :: "string option \<Rightarrow> string" where
  "methodLabelOf meth =
     (let upper = map to_upper (case meth of None \<Rightarrow> [] | Some m \<Rightarrow> m)
      in if upper \<in> set KNOWN_METHODS then upper else ''OTHER'')"

definition UUID_SEGMENT :: "string \<Rightarrow> bool" where
  "UUID_SEGMENT s \<longleftrightarrow> map length (split_on CHR ''-'' s) = [8, 4, 4, 4, 12] \<and>
     list_all (\<lambda>c. is_hex c \<or> c = CHR ''-'') s"

definition NUMERIC_SEGMENT :: "string \<Rightarrow> bool" where
  "NUMERIC_SEGMENT s \<longleftrightarrow> s \<noteq> [] \<and> list_all is_digit s"

definition OPAQUE_ID_SEGMENT :: "string \<Rightarrow> bool" where
  "OPAQUE_ID_SEGMENT s \<longleftrightarrow> 16 \<le> length s \<and> list_all (\<lambda>c. is_alnum c \<or> c = CHR ''_'' \<or> c = CHR ''-'') s"

definition normalize_segment :: "string \<Rightarrow> string" where
  "normalize_segment s =
     (if s = [] then s else if UUID_SEGMENT s then '':id'' else if NUMERIC_SEGMENT s then '':id''
      else if OPAQUE_ID_SEGMENT s \<and> CHR ''-'' \<notin> set s then '':id'' else s)"

definition normalizeRoute :: "string \<Rightarrow> string" where
  "normalizeRoute path =
     (let normalized = join_with CHR ''/'' (map normalize_segment (split_on CHR ''/'' (hd (split_on CHR ''?'' path))))
      in if normalized = [] then ''/'' else normalized)"

section \<open>The cardinality guard\<close>

definition OVERFLOW_LABEL_VALUE :: string where "OVERFLOW_LABEL_VALUE = ''__other__''"
definition MAX_LABEL_VALUE_LENGTH :: nat where "MAX_LABEL_VALUE_LENGTH = 128"
definition DEFAULT_LABEL_LIMIT :: nat where "DEFAULT_LABEL_LIMIT = 100"

definition LABEL_LIMITS :: "(string \<times> nat) list" where
  "LABEL_LIMITS = [(''route'', 500), (''error_code'', 200), (''job_name'', DEFAULT_LABEL_LIMIT), (''queue'', DEFAULT_LABEL_LIMIT)]"

definition label_limit :: "string \<Rightarrow> nat" where
  "label_limit label = (case map_of LABEL_LIMITS label of Some n \<Rightarrow> n | None \<Rightarrow> DEFAULT_LABEL_LIMIT)"

record label_guard =
  lg_seen :: "string \<Rightarrow> string list"
  lg_warned :: "string list"

definition label_guard_init :: label_guard where
  "label_guard_init = \<lparr>lg_seen = (\<lambda>_. []), lg_warned = []\<rparr>"

text \<open>A value that is absent, that is text (or turns into it), or whose \<open>toString\<close> throws.\<close>

datatype label_value = Absent | Text_value string | Hostile

definition label_key :: "string \<Rightarrow> string \<Rightarrow> string" where
  "label_key scope label = scope @ CHR ''/'' # label"

definition bounded_text :: "string \<Rightarrow> string" where
  "bounded_text t = (if MAX_LABEL_VALUE_LENGTH < length t then take MAX_LABEL_VALUE_LENGTH t else t)"

definition bound :: "string \<Rightarrow> string \<Rightarrow> label_value \<Rightarrow> label_guard \<Rightarrow> string \<times> label_guard" where
  "bound scope label v g =
     (if v = Hostile then (OVERFLOW_LABEL_VALUE, g)
      else (let bounded = bounded_text (case v of Text_value t \<Rightarrow> t | _ \<Rightarrow> ''UNKNOWN'');
                key = label_key scope label; vals = lg_seen g key
            in if bounded \<in> set vals then (bounded, g)
               else if length vals < label_limit label
                 then (bounded, g\<lparr>lg_seen := (lg_seen g)(key := vals @ [bounded])\<rparr>)
               else (OVERFLOW_LABEL_VALUE,
                     if key \<in> set (lg_warned g) then g else g\<lparr>lg_warned := lg_warned g @ [key]\<rparr>)))"

type_synonym label_call = "string \<times> string \<times> label_value"

fun bound_calls :: "label_call list \<Rightarrow> label_guard \<Rightarrow> (string \<times> string) list \<times> label_guard" where
  "bound_calls [] g = ([], g)"
| "bound_calls ((scope, label, v) # cs) g =
     (case bound scope label v g of (r, g1) \<Rightarrow>
        (case bound_calls cs g1 of (rs, g2) \<Rightarrow> ((label_key scope label, r) # rs, g2)))"

section \<open>Recorders\<close>

type_synonym labels = "(string \<times> string) list"

datatype data_point = Duration int labels | Count string int labels

fun class_text :: "status_class \<Rightarrow> string" where
  "class_text S2xx = ''2xx''" | "class_text S3xx = ''3xx''" | "class_text S4xx = ''4xx''" | "class_text S5xx = ''5xx''"

definition HttpMetrics_record ::
  "label_value \<Rightarrow> string option \<Rightarrow> int \<Rightarrow> int \<Rightarrow> label_value \<Rightarrow> label_guard \<Rightarrow> data_point list \<times> label_guard" where
  "HttpMetrics_record route meth statusCode durationMs errorCode g =
     (case bound ''http.server'' ''route'' route g of (rt, g1) \<Rightarrow>
        (let ls = [(''route'', rt), (''method'', methodLabelOf meth), (''status_class'', class_text (statusClassOf statusCode))];
             base = [Duration durationMs ls, Count ''http.server.requests'' 1 ls]
         in if 400 \<le> statusCode
            then (case bound ''http.server'' ''error_code'' errorCode g1 of (ec, g2) \<Rightarrow>
                    (base @ [Count ''http.server.errors'' 1 [(''route'', rt), (''error_code'', ec)]], g2))
            else (base, g1)))"

definition JobMetrics_record :: "string \<Rightarrow> int \<Rightarrow> bool \<Rightarrow> label_guard \<Rightarrow> data_point list \<times> label_guard" where
  "JobMetrics_record job durationMs ok g =
     (case bound ''job'' ''job_name'' (Text_value job) g of (n, g1) \<Rightarrow>
        (let ls = [(''job_name'', n), (''outcome'', if ok then ''success'' else ''failure'')]
         in ([Duration durationMs ls, Count ''job.runs'' 1 ls]
               @ (if ok then [] else [Count ''job.failures'' 1 [(''job_name'', n)]]), g1)))"

text \<open>Timing a job: the failure series is created at zero first, the outcome is recorded, the error goes on.\<close>

definition JobMetrics_time :: "string \<Rightarrow> int \<Rightarrow> 'e + 'a \<Rightarrow> label_guard \<Rightarrow> ('e + 'a) \<times> data_point list \<times> label_guard" where
  "JobMetrics_time job durationMs result g =
     (case bound ''job'' ''job_name'' (Text_value job) g of (n, g1) \<Rightarrow>
        (case JobMetrics_record job durationMs (is_ok result) g1 of (ps, g2) \<Rightarrow>
           (result, Count ''job.failures'' 0 [(''job_name'', n)] # ps, g2)))"

definition recordProcessed :: "string \<Rightarrow> int \<Rightarrow> label_guard \<Rightarrow> data_point list \<times> label_guard" where
  "recordProcessed queue n g =
     (if 0 < n then (case bound ''queue'' ''queue'' (Text_value queue) g of (q, g1) \<Rightarrow>
        ([Count ''queue.processed'' n [(''queue'', q)]], g1)) else ([], g))"

definition recordFailure :: "string \<Rightarrow> int \<Rightarrow> label_guard \<Rightarrow> data_point list \<times> label_guard" where
  "recordFailure queue n g =
     (if 0 < n then (case bound ''queue'' ''queue'' (Text_value queue) g of (q, g1) \<Rightarrow>
        ([Count ''queue.failures'' n [(''queue'', q)]], g1)) else ([], g))"

text \<open>A lag that is no finite number is \<open>None\<close>.\<close>

definition recordLag :: "string \<Rightarrow> js_int \<Rightarrow> label_guard \<Rightarrow> data_point list \<times> label_guard" where
  "recordLag queue seconds g = (case seconds of None \<Rightarrow> ([], g)
     | Some n \<Rightarrow> if n < 0 then ([], g)
         else (case bound ''queue'' ''queue'' (Text_value queue) g of (q, g1) \<Rightarrow> ([Duration n [(''queue'', q)]], g1)))"

definition pool_register :: "bool \<Rightarrow> nat \<Rightarrow> bool \<times> nat" where
  "pool_register registered callbacks = (if registered then (True, callbacks) else (True, callbacks + 2))"

section \<open>Ignored paths and fail-open fields\<close>

definition PROBE_PATHS :: "string list" where
  "PROBE_PATHS = [''/livez'', ''/readyz'', ''/v1/readyz'', ''/healthz'', ''/v1/healthz'']"

definition BROWSER_CHROME_PATHS :: "string list" where
  "BROWSER_CHROME_PATHS = [''/favicon.ico'']"

definition IGNORED_REQUEST_PATHS :: "string list" where
  "IGNORED_REQUEST_PATHS = PROBE_PATHS @ BROWSER_CHROME_PATHS"

definition isIgnoredRequestPath :: "string option \<Rightarrow> bool" where
  "isIgnoredRequestPath url = (case url of None \<Rightarrow> False
     | Some u \<Rightarrow> u \<noteq> [] \<and> takeWhile (\<lambda>c. c \<noteq> CHR ''?'') u \<in> set IGNORED_REQUEST_PATHS)"

definition failOpenLog :: "string \<Rightarrow> (string \<times> jsval) list \<Rightarrow> (string \<times> jsval) list" where
  "failOpenLog control ctx = put ''securityFailOpen'' (JStr control) ctx"

section \<open>Trace context\<close>

text \<open>A span context: trace id, span id and the sampled flag.\<close>

type_synonym span_context = "string \<times> string \<times> bool"

definition INVALID_TRACE_ID :: string where "INVALID_TRACE_ID = replicate 32 CHR ''0''"
definition INVALID_SPAN_ID :: string where "INVALID_SPAN_ID = replicate 16 CHR ''0''"

definition currentTraceparent :: "span_context option \<Rightarrow> string option" where
  "currentTraceparent active =
     (case active of None \<Rightarrow> None
      | Some (traceId, spanId, sampled) \<Rightarrow>
          if traceId = INVALID_TRACE_ID \<or> spanId = INVALID_SPAN_ID then None
          else Some (''00-'' @ traceId @ CHR ''-'' # spanId @ CHR ''-'' # (if sampled then ''01'' else ''00'')))"

definition hex_id :: "nat \<Rightarrow> string \<Rightarrow> bool" where
  "hex_id n s \<longleftrightarrow> length s = n \<and> list_all (\<lambda>c. is_hex c \<and> \<not> is_upper c) s"

definition parseTraceparent :: "string \<Rightarrow> span_context option" where
  "parseTraceparent traceparent =
     (case split_on CHR ''-'' (map to_lower (js_trim traceparent)) of
        [v, traceId, spanId, flags] \<Rightarrow>
          (if v = ''00'' \<and> hex_id 32 traceId \<and> hex_id 16 spanId \<and> hex_id 2 flags
              \<and> traceId \<noteq> INVALID_TRACE_ID \<and> spanId \<noteq> INVALID_SPAN_ID
           then Some (traceId, spanId, odd (hex_val (flags ! 0) * 16 + hex_val (flags ! 1))) else None)
      | _ \<Rightarrow> None)"

text \<open>The context work runs in: the active one, unless a well-formed parent was stored with it.\<close>

definition withRestoredTrace :: "string option \<Rightarrow> (span_context option \<Rightarrow> 'a) \<Rightarrow> span_context option \<Rightarrow> 'a" where
  "withRestoredTrace traceparent f active =
     (case traceparent of None \<Rightarrow> f active
      | Some tp \<Rightarrow> if tp = [] then f active
          else (case parseTraceparent tp of None \<Rightarrow> f active | Some sc \<Rightarrow> f (Some sc)))"

section \<open>Errors in logs\<close>

text \<open>An error with its name, message, stack, own enumerable properties and cause; or any other value.\<close>

datatype errval = ErrObj string string string "(string \<times> jsval) list" "errval option" | NotErr jsval

definition DROPPED_ERROR_KEYS :: "string list" where
  "DROPPED_ERROR_KEYS = [''config'', ''request'', ''response'', ''headers'', ''req'', ''res'', ''options'', ''body'', ''data'']"

definition loggable_scalar :: "jsval \<Rightarrow> bool" where
  "loggable_scalar v = (case v of JNull \<Rightarrow> True | JStr _ \<Rightarrow> True | JNum _ \<Rightarrow> True | JDec _ \<Rightarrow> True | JNaN \<Rightarrow> True
     | JBool _ \<Rightarrow> True | _ \<Rightarrow> False)"

fun serializeError :: "errval \<Rightarrow> nat \<Rightarrow> jsval" where
  "serializeError (NotErr v) depth = v"
| "serializeError (ErrObj ty msg stk props cs) depth =
     (let own = [(''type'', JStr ty), (''message'', JStr msg), (''stack'', JStr stk)];
          kept = filter (\<lambda>(k, v). k \<notin> {''type'', ''message'', ''stack''} \<and> k \<notin> set DROPPED_ERROR_KEYS \<and> loggable_scalar v) props
      in JObj (own @ kept @
           (case cs of None \<Rightarrow> []
            | Some c \<Rightarrow> if depth < 5 then [(''cause'', serializeError c (Suc depth))] else [])))"

section \<open>OpenTelemetry's configuration\<close>

definition DEFAULT_METRIC_EXPORT_INTERVAL_MS :: nat where "DEFAULT_METRIC_EXPORT_INTERVAL_MS = 60000"
definition MIN_METRIC_EXPORT_INTERVAL_MS :: nat where "MIN_METRIC_EXPORT_INTERVAL_MS = 1000"

definition resolveMetricExportInterval :: "string option \<Rightarrow> nat" where
  "resolveMetricExportInterval raw = (case raw of None \<Rightarrow> DEFAULT_METRIC_EXPORT_INTERVAL_MS
     | Some s \<Rightarrow> if s \<noteq> [] \<and> list_all is_digit s \<and> MIN_METRIC_EXPORT_INTERVAL_MS \<le> undec s then undec s
                else DEFAULT_METRIC_EXPORT_INTERVAL_MS)"

datatype boundary_error = BoundariesEmpty | NotFinite nat | NegativeBoundary nat | NotAscending nat

text \<open>\<open>None\<close> is an entry that is not finite; \<open>prev\<close> the entry before.\<close>

fun check_boundaries :: "nat \<Rightarrow> js_int \<Rightarrow> js_int list \<Rightarrow> boundary_error + unit" where
  "check_boundaries i prev [] = Inr ()"
| "check_boundaries i prev (b # bs) =
     (case b of None \<Rightarrow> Inl (NotFinite i)
      | Some v \<Rightarrow>
          if v < 0 then Inl (NegativeBoundary i)
          else if (case prev of Some p \<Rightarrow> v \<le> p | None \<Rightarrow> False) then Inl (NotAscending i)
          else check_boundaries (Suc i) b bs)"

definition validateHttpDurationBoundaries :: "js_int list \<Rightarrow> boundary_error + unit" where
  "validateHttpDurationBoundaries bs = (if bs = [] then Inl BoundariesEmpty else check_boundaries 0 None bs)"

text \<open>\<open>parse\<close> is \<open>Number.parseFloat\<close>, \<open>None\<close> for NaN; the ratio is in thousandths.\<close>

definition resolveSamplingProbability :: "(string \<Rightarrow> int option) \<Rightarrow> string option \<Rightarrow> bool \<Rightarrow> int" where
  "resolveSamplingProbability parse raw isProd =
     (let fallback = (if isProd then 100 else 1000)
      in case raw of None \<Rightarrow> fallback | Some s \<Rightarrow> (case parse s of None \<Rightarrow> fallback | Some n \<Rightarrow> n))"

definition k8sResourceAttributes :: "env \<Rightarrow> (string \<times> string) list" where
  "k8sResourceAttributes env =
     List.map_filter (\<lambda>(attr, var). case map_option js_trim (env var) of
         Some v \<Rightarrow> if v = [] then None else Some (attr, v) | None \<Rightarrow> None)
       [(''k8s.pod.name'', ''K8S_POD_NAME''), (''k8s.namespace.name'', ''K8S_NAMESPACE''), (''k8s.node.name'', ''K8S_NODE_NAME'')]"

lemma split_on_ne [simp]: "split_on c s \<noteq> []"
  by (induction s) (auto split: list.splits)

lemma split_on_none: "c \<notin> set s \<Longrightarrow> split_on c s = [s]"
  by (induction s) auto

lemma split_on_app: "c \<notin> set s \<Longrightarrow> split_on c (s @ c # r) = s # split_on c r"
  by (induction s) auto

lemma bound_calls_inv:
  assumes "bound_calls cs g = (rs, g')" and "\<forall>(s, l, v)\<in>set cs. label_key s l = key \<longrightarrow> l = label"
    and "length (lg_seen g key) \<le> label_limit label" and "\<forall>v\<in>set (lg_seen g key). length v \<le> 128"
  shows "(\<forall>r\<in>set rs. fst r = key \<longrightarrow> snd r \<in> insert OVERFLOW_LABEL_VALUE (set (lg_seen g' key))) \<and>
    set (lg_seen g key) \<subseteq> set (lg_seen g' key) \<and> length (lg_seen g' key) \<le> label_limit label \<and>
    (\<forall>v\<in>set (lg_seen g' key). length v \<le> 128)"
  using assms
proof (induction cs arbitrary: g rs)
  case (Cons c cs)
  obtain s l v where c: "c = (s, l, v)" by (cases c)
  obtain r g1 where b: "bound s l v g = (r, g1)" by fastforce
  obtain rs1 where rs: "bound_calls cs g1 = (rs1, g')" "rs = (label_key s l, r) # rs1"
    using Cons.prems(1) b by (auto simp: c split: prod.splits)
  have len: "length (bounded_text t) \<le> 128" for t
    by (simp add: bounded_text_def MAX_LABEL_VALUE_LENGTH_def)
  have step: "(label_key s l = key \<longrightarrow> r \<in> insert OVERFLOW_LABEL_VALUE (set (lg_seen g1 key))) \<and>
      set (lg_seen g key) \<subseteq> set (lg_seen g1 key) \<and> length (lg_seen g1 key) \<le> label_limit label \<and>
      (\<forall>v\<in>set (lg_seen g1 key). length v \<le> 128)"
  proof (cases "label_key s l = key")
    case True
    then have "l = label" using Cons.prems(2) c by auto
    with b True Cons.prems(3,4) len show ?thesis
      by (auto simp: bound_def Let_def split: if_splits)
  next
    case False
    with b Cons.prems(3,4) show ?thesis by (auto simp: bound_def Let_def split: if_splits)
  qed
  have "\<forall>(s, l, v)\<in>set cs. label_key s l = key \<longrightarrow> l = label"
    using Cons.prems(2) by simp
  note ih = Cons.IH [OF rs(1) this conjunct1 [OF conjunct2 [OF conjunct2 [OF step]]] conjunct2 [OF conjunct2 [OF conjunct2 [OF step]]]]
  have "set (lg_seen g key) \<subseteq> set (lg_seen g' key)" using step ih by blast
  moreover have "label_key s l = key \<longrightarrow> r \<in> insert OVERFLOW_LABEL_VALUE (set (lg_seen g' key))" using step ih by blast
  ultimately show ?case unfolding rs(2) using ih by simp
qed auto

text \<open>
  C15. A label cannot blow up the metrics backend: whatever values the recorders are given for a label,
  over any sequence of them, at most its limit of distinct values and the overflow value are ever
  recorded, none longer than 128 characters.
\<close>

theorem label_cardinality_bounded:
  assumes "bound_calls cs label_guard_init = (rs, g)"
    and "\<And>s l v. (s, l, v) \<in> set cs \<Longrightarrow> label_key s l = label_key scope label \<Longrightarrow> l = label"
  shows "card {v. (label_key scope label, v) \<in> set rs} \<le> Suc (label_limit label) \<and>
    (\<forall>v. (label_key scope label, v) \<in> set rs \<longrightarrow> length v \<le> 128)"
proof -
  let ?k = "label_key scope label"
  have i: "(\<forall>r\<in>set rs. fst r = ?k \<longrightarrow> snd r \<in> insert OVERFLOW_LABEL_VALUE (set (lg_seen g ?k))) \<and>
    set (lg_seen label_guard_init ?k) \<subseteq> set (lg_seen g ?k) \<and> length (lg_seen g ?k) \<le> label_limit label \<and>
    (\<forall>v\<in>set (lg_seen g ?k). length v \<le> 128)"
    using assms(2) by (intro bound_calls_inv [OF assms(1)]) (auto simp: label_guard_init_def)
  then have sub: "{v. (?k, v) \<in> set rs} \<subseteq> insert OVERFLOW_LABEL_VALUE (set (lg_seen g ?k))" by force
  then have "card {v. (?k, v) \<in> set rs} \<le> card (insert OVERFLOW_LABEL_VALUE (set (lg_seen g ?k)))"
    by (rule card_mono [rotated]) simp
  also have "\<dots> \<le> Suc (card (set (lg_seen g ?k)))" by (simp add: card_insert_if)
  also have "\<dots> \<le> Suc (label_limit label)" using i card_length [of "lg_seen g ?k"] by simp
  finally show ?thesis using sub i by (auto simp: OVERFLOW_LABEL_VALUE_def)
qed

theorem label_cardinality_bounded_witness:
  "card {v. (label_key ''q'' ''queue'', v) \<in> set (fst (bound_calls [(''q'', ''queue'', Text_value ''a''), (''q'', ''queue'', Absent)] label_guard_init))}
     \<le> 101"
proof -
  obtain rs g where r: "bound_calls [(''q'', ''queue'', Text_value ''a''), (''q'', ''queue'', Absent)] label_guard_init = (rs, g)"
    by fastforce
  have "card {v. (label_key ''q'' ''queue'', v) \<in> set rs} \<le> Suc (label_limit ''queue'')"
    by (rule conjunct1 [OF label_cardinality_bounded [OF r]]) auto
  moreover have "Suc (label_limit ''queue'') = 101" by (simp add: label_limit_def LABEL_LIMITS_def DEFAULT_LABEL_LIMIT_def)
  ultimately show ?thesis unfolding r by simp
qed

lemma hex_lower: "hex_id n s \<Longrightarrow> map to_lower s = s \<and> CHR ''-'' \<notin> set s \<and> (\<forall>c\<in>set s. \<not> is_space c)"
  by (auto simp: hex_id_def list_all_iff to_lower_def is_hex_def is_digit_def is_space_def is_upper_def intro!: map_idI)

text \<open>
  A trace survives the queue: what \<open>currentTraceparent\<close> stored with a row for an active span is read
  back, by the process that relays it, as the same trace, the same parent span and the same sampling
  decision, so the work runs as its continuation; and a stored value that is not one never stops the work.
\<close>

theorem trace_link_survives:
  assumes "hex_id 32 traceId" and "hex_id 16 spanId" and "currentTraceparent (Some (traceId, spanId, sampled)) = Some tp"
  shows "withRestoredTrace (Some tp) f active = f (Some (traceId, spanId, sampled)) \<and>
    (parseTraceparent other = None \<longrightarrow> withRestoredTrace (Some other) f active = f active)"
proof -
  let ?fl = "if sampled then ''01'' else ''00''"
  have tp: "tp = ''00'' @ CHR ''-'' # (traceId @ CHR ''-'' # (spanId @ CHR ''-'' # ?fl))"
    and ne: "traceId \<noteq> INVALID_TRACE_ID" "spanId \<noteq> INVALID_SPAN_ID"
    using assms(3) by (auto simp: currentTraceparent_def split: if_splits)
  note l = hex_lower [OF assms(1)] hex_lower [OF assms(2)]
  have fl: "map to_lower ?fl = ?fl" "hex_id 2 ?fl" "CHR ''-'' \<notin> set ?fl" "odd (hex_val (?fl ! 0) * 16 + hex_val (?fl ! 1)) = sampled"
    by (simp_all add: to_lower_def is_upper_def hex_id_def is_hex_def is_digit_def hex_val_def)
  have "js_trim tp = tp" by (rule js_trim_id) (simp add: tp is_space_def)
  moreover have "map to_lower tp = tp" using l fl by (simp add: tp) (simp add: to_lower_def is_upper_def)
  moreover have "split_on CHR ''-'' tp = [''00'', traceId, spanId, ?fl]"
    unfolding tp using l fl by (simp add: split_on_app split_on_none)
  ultimately have "parseTraceparent tp = Some (traceId, spanId, sampled)"
    using assms(1,2) ne fl by (simp add: parseTraceparent_def)
  moreover have "tp \<noteq> []" by (simp add: tp)
  ultimately show ?thesis by (simp add: withRestoredTrace_def)
qed

theorem trace_link_survives_witness:
  "\<exists>tp. currentTraceparent (Some (replicate 32 CHR ''a'', replicate 16 CHR ''b'', True)) = Some tp \<and>
     withRestoredTrace (Some tp) id None = Some (replicate 32 CHR ''a'', replicate 16 CHR ''b'', True)"
proof -
  have h: "hex_id n (replicate n CHR ''a'')" "hex_id n (replicate n CHR ''b'')" for n
    by (simp_all add: hex_id_def list_all_iff is_hex_def is_digit_def is_upper_def)
  have "replicate 32 CHR ''a'' \<noteq> INVALID_TRACE_ID" "replicate 16 CHR ''b'' \<noteq> INVALID_SPAN_ID"
    by (simp_all add: INVALID_TRACE_ID_def INVALID_SPAN_ID_def replicate_eq_replicate)
  then obtain tp where tp: "currentTraceparent (Some (replicate 32 CHR ''a'', replicate 16 CHR ''b'', True)) = Some tp"
    by (simp add: currentTraceparent_def)
  with trace_link_survives [OF h(1) h(2) tp, of id None] show ?thesis by auto
qed

text \<open>What a logged error can carry: at every depth of causes, scalars under keys that hold no request.\<close>

fun harmless :: "nat \<Rightarrow> jsval \<Rightarrow> errval \<Rightarrow> bool" where
  "harmless depth v (NotErr w) = (v = w)"
| "harmless depth v (ErrObj ty msg stk props cs) =
     (case v of
        JObj ps \<Rightarrow> (\<forall>(k, u)\<in>set ps. k \<notin> set DROPPED_ERROR_KEYS \<and>
           (loggable_scalar u \<or> k = ''cause'' \<and> depth < 5 \<and> (case cs of Some c \<Rightarrow> harmless (Suc depth) u c | None \<Rightarrow> False)))
      | _ \<Rightarrow> False)"

lemma serialize_harmless: "harmless depth (serializeError e depth) e"
proof (induction e arbitrary: depth)
  case (ErrObj ty msg stk props cs)
  then show ?case
    by (auto simp: Let_def DROPPED_ERROR_KEYS_def loggable_scalar_def split: option.splits)
qed simp

text \<open>
  A logged error carries no request: of an error logged under \<open>err\<close>, \<open>error\<close> or \<open>reason\<close>, and of its
  chain of causes down to the fifth, only scalars are written, and nothing under the keys an HTTP client
  hangs its request, response, headers or bodies on.
\<close>

theorem logged_error_carries_no_request: "harmless 0 (serializeError e 0) e"
  by (rule serialize_harmless)

lemma boundaries_ok:
  "check_boundaries i prev bs = Inr () \<Longrightarrow>
     (\<forall>b\<in>set bs. b \<noteq> None \<and> 0 \<le> the b) \<and> sorted_wrt (<) (map the bs) \<and>
     (\<forall>p. prev = Some p \<longrightarrow> (\<forall>b\<in>set bs. p < the b))"
proof (induction i prev bs rule: check_boundaries.induct)
  case (2 i prev b bs)
  then obtain v where b: "b = Some v" "0 \<le> v" "\<forall>p. prev = Some p \<longrightarrow> p < v" "check_boundaries (Suc i) b bs = Inr ()"
    by (auto split: option.splits if_splits)
  with 2 show ?case by fastforce
qed simp

end
