(* ===== verification/HttpLogging.thy ===== *)
theory HttpLogging
  imports Telemetry HttpErrors ClientIp
begin

text \<open>
  \<open>platform-http/src/http/http-logging.interceptor.ts\<close> (one line per request, its level and what is
  redacted of a query and a body), \<open>sanitize.ts\<close> (the walk over an input; the pattern replacement of one
  string is an argument) and the warning of \<open>principal.ts\<close>.
\<close>

section \<open>Redaction\<close>

definition REDACTED_BODY_FIELDS :: "string list" where
  "REDACTED_BODY_FIELDS = [''password'', ''confirmPassword'', ''currentPassword'', ''newPassword'', ''token'',
     ''refreshToken'', ''secret'', ''privateKey'', ''creditCard'']"

definition MAX_COLLECTION_ITEMS :: nat where "MAX_COLLECTION_ITEMS = 20"
definition MAX_STRING_LENGTH :: nat where "MAX_STRING_LENGTH = 256"

definition ends_with :: "string \<Rightarrow> string \<Rightarrow> bool" where
  "ends_with x s \<longleftrightarrow> length x \<le> length s \<and> drop (length s - length x) s = x"

definition isSensitiveKey :: "string \<Rightarrow> bool" where
  "isSensitiveKey key \<longleftrightarrow> key \<in> set REDACTED_BODY_FIELDS \<or>
     (\<exists>x\<in>set [''token'', ''secret'', ''password'', ''cookie'', ''authorization'', ''key'']. ends_with x (map to_lower key))"

definition redacted :: jsval where "redacted = JStr ''[REDACTED]''"

definition truncate_text :: "string \<Rightarrow> string" where
  "truncate_text s = (if MAX_STRING_LENGTH < length s then take MAX_STRING_LENGTH s @ ''...[truncated]'' else s)"

text \<open>A buffer is walked like an array-like object: its indices and its bytes.\<close>

fun sanitizeValue :: "jsval \<Rightarrow> jsval"
  and sanitize_items :: "nat \<Rightarrow> jsval list \<Rightarrow> jsval list"
  and sanitize_members :: "(string \<times> jsval) list \<Rightarrow> (string \<times> jsval) list" where
  "sanitizeValue (JArr vs) = JArr (sanitize_items MAX_COLLECTION_ITEMS vs)"
| "sanitizeValue (JObj ps) = JObj (from_entries (sanitize_members ps))"
| "sanitizeValue (JStream ps) = JObj (from_entries (sanitize_members ps))"
| "sanitizeValue (JBuf bs) = JObj (map (\<lambda>i. (dec i, JNum (int (bs ! i)))) [0..<length bs])"
| "sanitizeValue (JStr s) = JStr (truncate_text s)"
| "sanitizeValue v = v"
| "sanitize_items n [] = []"
| "sanitize_items 0 (v # vs) = []"
| "sanitize_items (Suc n) (v # vs) = sanitizeValue v # sanitize_items n vs"
| "sanitize_members [] = []"
| "sanitize_members ((k, v) # ps) =
     (k, if k \<noteq> [] \<and> isSensitiveKey k then redacted else sanitizeValue v) # sanitize_members ps"

text \<open>What a line may show: nothing under a sensitive key, at any depth, no long text, no long list.\<close>

fun shown :: "jsval \<Rightarrow> bool"
  and shown_items :: "jsval list \<Rightarrow> bool"
  and shown_members :: "(string \<times> jsval) list \<Rightarrow> bool" where
  "shown (JArr vs) = (length vs \<le> MAX_COLLECTION_ITEMS \<and> shown_items vs)"
| "shown (JObj ps) = shown_members ps"
| "shown (JStr s) = (length s \<le> MAX_STRING_LENGTH + 14)"
| "shown (JStream ps) = False"
| "shown v = True"
| "shown_items [] = True"
| "shown_items (v # vs) = (shown v \<and> shown_items vs)"
| "shown_members [] = True"
| "shown_members ((k, v) # ps) =
     ((k \<noteq> [] \<and> isSensitiveKey k \<longrightarrow> v = redacted) \<and> shown v \<and> shown_members ps)"

lemma shown_members_all:
  "shown_members ps \<longleftrightarrow> (\<forall>(k, v)\<in>set ps. (k \<noteq> [] \<and> isSensitiveKey k \<longrightarrow> v = redacted) \<and> shown v)"
  by (induction ps) auto

lemma put_set: "set (put k v ps) \<subseteq> insert (k, v) (set ps)"
  by (induction k v ps rule: put.induct) (auto split: if_splits)

lemma puts_set: "set (foldl (\<lambda>ps (k, v). put k v ps) ps es) \<subseteq> set ps \<union> set es"
proof (induction es arbitrary: ps)
  case (Cons e es)
  obtain k v where e: "e = (k, v)" by (cases e)
  have "set (foldl (\<lambda>ps (k, v). put k v ps) (put k v ps) es) \<subseteq> set (put k v ps) \<union> set es" by (rule Cons.IH)
  with put_set [of k v ps] show ?case by (auto simp: e)
qed simp

lemma shown_from_entries: "shown_members ps \<Longrightarrow> shown_members (from_entries ps)"
  using puts_set [of "[]" ps] by (auto simp: shown_members_all from_entries_def)

lemma shown_redacted [simp]: "shown redacted"
  by (simp add: redacted_def MAX_STRING_LENGTH_def)

lemma ends_with_set: "ends_with x s \<Longrightarrow> set x \<subseteq> set s"
  unfolding ends_with_def by (metis set_drop_subset)

lemma digits_not_sensitive:
  assumes "\<forall>c\<in>set k. is_digit c" shows "\<not> isSensitiveKey k"
proof
  assume "isSensitiveKey k"
  then obtain x where x: "x \<in> set REDACTED_BODY_FIELDS \<union> set [''token'', ''secret'', ''password'', ''cookie'', ''authorization'', ''key'']"
      and "k = x \<or> ends_with x (map to_lower k)"
    unfolding isSensitiveKey_def by blast
  then have "set x \<subseteq> set k \<union> to_lower ` set k"
    using ends_with_set [of x "map to_lower k"] by auto
  moreover have "to_lower c = c" if "is_digit c" for c
    using that by (auto simp: to_lower_def is_digit_def is_upper_def)
  ultimately have "\<forall>c\<in>set x. is_digit c" using assms by force
  with x show False by (auto simp: REDACTED_BODY_FIELDS_def is_digit_def)
qed

lemma sanitize_shown:
  "shown (sanitizeValue v)"
  "length (sanitize_items n vs) \<le> n \<and> shown_items (sanitize_items n vs)"
  "shown_members (sanitize_members ps)"
proof (induction v and n vs and ps rule: sanitizeValue_sanitize_items_sanitize_members.induct)
  case (4 bs)
  have "\<not> isSensitiveKey (dec i)" for i using digits_not_sensitive dec_digits by blast
  then show ?case by (auto simp: shown_members_all)
qed (auto simp: shown_from_entries truncate_text_def)


section \<open>The line of a request\<close>

datatype log_level = LogError | LogWarn | LogInfo

definition log_level_of :: "int \<Rightarrow> log_level" where
  "log_level_of statusCode = (if 500 \<le> statusCode then LogError else if 400 \<le> statusCode then LogWarn else LogInfo)"

record logged_request =
  lr_method :: string
  lr_originalUrl :: "string option"
  lr_url :: string
  lr_query :: jsval
  lr_body :: jsval
  lr_user :: bool
  lr_session :: bool

record log_line =
  ll_level :: log_level
  ll_url :: string
  ll_status :: int
  ll_errorCode :: "string option"
  ll_userId :: "string option"
  ll_correlationId :: "string option"
  ll_ip :: string
  ll_query :: "jsval option"
  ll_body :: "jsval option"

definition extractQuery :: "jsval \<Rightarrow> jsval option" where
  "extractQuery q = (case q of JObj ps \<Rightarrow> if ps = [] then None else Some (sanitizeValue q) | _ \<Rightarrow> None)"

definition extractBody :: "bool \<Rightarrow> string \<Rightarrow> jsval \<Rightarrow> jsval option" where
  "extractBody logBodies meth body =
     (if \<not> logBodies \<or> meth \<notin> {''POST'', ''PUT'', ''PATCH''} then None
      else (case body of JObj _ \<Rightarrow> Some (sanitizeValue body) | JArr _ \<Rightarrow> Some (sanitizeValue body)
            | JBuf _ \<Rightarrow> Some (sanitizeValue body) | JStream _ \<Rightarrow> Some (sanitizeValue body) | _ \<Rightarrow> None))"

text \<open>
  The status and code an error is logged with: what its \<open>getStatus\<close> and \<open>getResponse\<close> say, which only a
  framework exception has.
\<close>

definition logged_error :: "thrown \<Rightarrow> int \<times> string" where
  "logged_error e =
     (case e of
        HttpExc status res \<Rightarrow> (int status, case res of JObj ps \<Rightarrow> (case member_of ''code'' ps of JStr c \<Rightarrow> c | _ \<Rightarrow> ''INTERNAL'') | _ \<Rightarrow> ''INTERNAL'')
      | ZodInvalid issues \<Rightarrow> (400, ''INTERNAL'')
      | _ \<Rightarrow> (500, ''INTERNAL''))"

definition warnOnce :: "bool \<Rightarrow> string option \<Rightarrow> logged_request \<Rightarrow> bool \<times> nat" where
  "warnOnce warned user req =
     (if warned \<or> user \<noteq> None \<or> (\<not> lr_user req \<and> \<not> lr_session req) then (warned, 0) else (True, 1))"

datatype handled = Answered int | Failed thrown

definition http_log ::
  "bool \<Rightarrow> string list option \<Rightarrow> bool \<Rightarrow> logged_request \<Rightarrow> string option \<Rightarrow> string option \<Rightarrow> string \<Rightarrow> handled \<Rightarrow> bool
     \<Rightarrow> log_line option \<times> bool \<times> nat" where
  "http_log logBodies skipPaths is_http req correlationId user ip result warned =
     (let url = (case lr_originalUrl req of Some u \<Rightarrow> u | None \<Rightarrow> lr_url req)
      in if \<not> is_http \<or> (case skipPaths of Some ps \<Rightarrow> url \<in> set ps | None \<Rightarrow> isIgnoredRequestPath (Some url))
         then (None, warned, 0)
         else (case result of
             Answered status \<Rightarrow>
               (Some \<lparr>ll_level = log_level_of status, ll_url = url, ll_status = status, ll_errorCode = None,
                  ll_userId = user, ll_correlationId = correlationId, ll_ip = ip,
                  ll_query = extractQuery (lr_query req), ll_body = None\<rparr>, warnOnce warned user req)
           | Failed e \<Rightarrow>
               (Some \<lparr>ll_level = log_level_of (fst (logged_error e)), ll_url = url, ll_status = fst (logged_error e),
                  ll_errorCode = Some (snd (logged_error e)), ll_userId = user, ll_correlationId = correlationId, ll_ip = ip,
                  ll_query = extractQuery (lr_query req), ll_body = extractBody logBodies (lr_method req) (lr_body req)\<rparr>,
                warnOnce warned user req)))"

text \<open>
  A domain error the caller gets as a 4xx is logged at error level, as status 500 with code \<open>INTERNAL\<close>,
  since a \<open>DomainException\<close> has an \<open>httpStatus\<close> and no \<open>getStatus\<close>.
\<close>

lemma domain_error_logged_as_500:
  assumes "\<not> isIgnoredRequestPath (Some (lr_url req))" and "lr_originalUrl req = None"
  shows "\<exists>line w. http_log b None True req cid user ip (Failed (Domain (NotFoundException code msg))) warned = (Some line, w) \<and>
    ll_level line = LogError \<and> ll_status line = 500 \<and> ll_errorCode line = Some ''INTERNAL'' \<and>
    er_status (fst (exception_filter cid user (Domain (NotFoundException code msg)))) = 404"
  using assms by (simp add: http_log_def logged_error_def log_level_of_def NotFoundException_def DomainException_def)

section \<open>Sanitizing input\<close>

text \<open>\<open>JStream\<close> and \<open>JBuf\<close> are class instances and pass unchanged, like every value that is no text, list or plain object.\<close>

fun sanitizeObject :: "(string \<Rightarrow> string) \<Rightarrow> jsval \<Rightarrow> jsval"
  and sanitize_props :: "(string \<Rightarrow> string) \<Rightarrow> (string \<times> jsval) list \<Rightarrow> (string \<times> jsval) list"
  and sanitize_elems :: "(string \<Rightarrow> string) \<Rightarrow> jsval list \<Rightarrow> jsval list" where
  "sanitizeObject strip (JObj ps) = JObj (from_entries (sanitize_props strip ps))"
| "sanitizeObject strip v = v"
| "sanitize_props strip [] = []"
| "sanitize_props strip ((k, v) # ps) =
     (k, (case v of JStr s \<Rightarrow> JStr (strip s) | JArr vs \<Rightarrow> JArr (sanitize_elems strip vs) | _ \<Rightarrow> sanitizeObject strip v))
       # sanitize_props strip ps"
| "sanitize_elems strip [] = []"
| "sanitize_elems strip (v # vs) =
     (case v of JStr s \<Rightarrow> JStr (strip s) | _ \<Rightarrow> sanitizeObject strip v) # sanitize_elems strip vs"

end
