(* ===== verification/JobsConfig.thy ===== *)
theory JobsConfig
  imports Cache Json
begin

text \<open>
  The configuration of a queue and of its handler (\<open>platform-jobs/src/config.ts\<close>): the defaults, the checks,
  and what a configuration comes to in pg-boss terms. A number is a \<open>js_int\<close>, with \<open>None\<close> for a value that is not
  an integer; an optional member of the configuration is one more \<open>option\<close>. The polling interval, the only
  fractional number, is in thousandths of a second.
\<close>

definition MINUTE :: int where "MINUTE = 60"
definition DAY :: int where "DAY = 24 * 60 * MINUTE"

record job_defaults =
  df_concurrency :: int
  df_pollingMillis :: int
  df_minPollingMillis :: int
  df_expireInSeconds :: int
  df_heartbeatAboveExpireSeconds :: int
  df_heartbeatSeconds :: int
  df_minHeartbeatSeconds :: int
  df_retryLimit :: int
  df_minRetryLimit :: int
  df_retryDelaySeconds :: int
  df_retryDelayMaxSeconds :: int
  df_completed :: int
  df_deadLetter :: int
  df_pending :: int
  df_minPendingSeconds :: int
  df_expiryDetectionSeconds :: int
  df_superviseIntervalSeconds :: int
  df_maintenanceIntervalSeconds :: int
  df_poolMax :: int
  df_onceRetentionDays :: int

definition DEFAULTS :: job_defaults where
  "DEFAULTS =
     \<lparr>df_concurrency = 4, df_pollingMillis = 1000, df_minPollingMillis = 500, df_expireInSeconds = 900,
      df_heartbeatAboveExpireSeconds = 300, df_heartbeatSeconds = 30, df_minHeartbeatSeconds = 10,
      df_retryLimit = 3, df_minRetryLimit = 1, df_retryDelaySeconds = 5, df_retryDelayMaxSeconds = 300,
      df_completed = 7 * DAY, df_deadLetter = 30 * DAY, df_pending = 14 * DAY, df_minPendingSeconds = 60,
      df_expiryDetectionSeconds = 75, df_superviseIntervalSeconds = 15, df_maintenanceIntervalSeconds = 900,
      df_poolMax = 5, df_onceRetentionDays = 30\<rparr>"

lemmas defaults = DEFAULTS_def DAY_def MINUTE_def

text \<open>What can be wrong with a configuration, a field by its name.\<close>

datatype jobs_config_error =
    BadQueueName string | BadInteger string string | ClocksDiffer int int | NoRetryLeft int
  | DefaultDeadLetterTooLong string | SelfDeadLetter string | PendingTooShort int int | RedriveNotFunction
  | BadPolling | AlreadyHandled string | DefinedTwice string | DataNotObject | BadPriority | EmptyKey
  | NotCron string | BadTimeZone string | AlreadyScheduled string | BadRedriveLimit | NotAJobId string
  | NotADeadLetterQueue string

definition queue_char :: "char \<Rightarrow> bool" where
  "queue_char c \<longleftrightarrow> is_alnum c \<or> c \<in> {CHR ''_'', CHR ''.'', CHR ''-'', CHR ''/''}"

definition QUEUE_NAME :: "string \<Rightarrow> bool" where
  "QUEUE_NAME s \<longleftrightarrow> s \<noteq> [] \<and> is_alnum (hd s) \<and> length (tl s) \<le> 99 \<and> list_all queue_char (tl s)"

definition assertQueueName :: "string \<Rightarrow> jobs_config_error + unit" where
  "assertQueueName name = require (QUEUE_NAME name) (BadQueueName name)"

definition integer :: "string \<Rightarrow> string \<Rightarrow> js_int \<Rightarrow> int \<Rightarrow> int \<Rightarrow> jobs_config_error + int" where
  "integer q field v lo hi =
     (case v of None \<Rightarrow> Inl (BadInteger q field)
      | Some n \<Rightarrow> if n < lo \<or> hi < n then Inl (BadInteger q field) else Inr n)"

text \<open>The configuration as given.\<close>

datatype completed_opt = Immediate | Keep js_int

record retention_options =
  rt_completed :: "completed_opt option"
  rt_failed :: "js_int option"
  rt_deadLetter :: "js_int option"
  rt_pending :: "js_int option"

text \<open>A redrive rule answers a value or throws (\<open>None\<close>).\<close>

type_synonym redrive_rule = "jsval \<Rightarrow> jsval option"
datatype rule_given = Rule redrive_rule | NotAFunction

definition not_callable :: "rule_given option \<Rightarrow> bool" where
  "not_callable r \<longleftrightarrow> (case r of Some NotAFunction \<Rightarrow> True | _ \<Rightarrow> False)"

definition given :: "'a option \<Rightarrow> bool" where
  "given v \<longleftrightarrow> (case v of None \<Rightarrow> False | Some _ \<Rightarrow> True)"

lemma given_iff: "given v \<longleftrightarrow> v \<noteq> None"
  by (cases v) (simp_all add: given_def)

record queue_config =
  qc_expireInSeconds :: "js_int option"
  qc_heartbeatSeconds :: "js_int option"
  qc_retryLimit :: "js_int option"
  qc_acceptDeadLetterOnDrain :: bool
  qc_retryDelaySeconds :: "js_int option"
  qc_retryDelayMaxSeconds :: "js_int option"
  qc_deadLetter :: "string option"
  qc_retention :: retention_options
  qc_canRedrive :: "rule_given option"

record handle_options =
  ho_queue :: queue_config
  ho_concurrency :: "js_int option"
  ho_pollingMillis :: "js_int option"

text \<open>What it comes to.\<close>

record queue_options =
  qo_expireInSeconds :: int
  qo_heartbeatSeconds :: "int option"
  qo_retryLimit :: int
  qo_retryDelay :: int
  qo_retryDelayMax :: int
  qo_deleteAfterSeconds :: int
  qo_retentionSeconds :: int

record resolved_queue =
  rq_name :: string
  rq_deadLetter :: string
  rq_queue :: queue_options
  rq_dlRetentionSeconds :: int
  rq_dlDeleteAfterSeconds :: int
  rq_deleteOnSuccess :: bool
  rq_guarded :: bool
  rq_canRedrive :: "redrive_rule option"
  rq_pendingWatch :: bool
  rq_fingerprint :: string

record resolved_handler =
  rh_concurrency :: int
  rh_pollingMillis :: int

record resolved_retention =
  rr_deleteOnSuccess :: bool
  rr_finishedSeconds :: int
  rr_deadLetterSeconds :: int
  rr_pendingSeconds :: int
  rr_pendingExplicit :: bool

definition opt_integer :: "string \<Rightarrow> string \<Rightarrow> js_int option \<Rightarrow> int \<Rightarrow> int \<Rightarrow> int \<Rightarrow> jobs_config_error + int" where
  "opt_integer q field v fallback lo hi =
     (case v of None \<Rightarrow> Inr fallback | Some n \<Rightarrow> integer q field n lo hi)"

definition resolveRetention :: "string \<Rightarrow> retention_options \<Rightarrow> jobs_config_error + resolved_retention" where
  "resolveRetention q r =
     and_then (opt_integer q ''retention.pending'' (rt_pending r) (df_pending DEFAULTS) (df_minPendingSeconds DEFAULTS) (3650 * DAY)) (\<lambda>pending.
     and_then (case rt_completed r of Some (Keep n) \<Rightarrow> integer q ''retention.completed'' n 1 (3650 * DAY) | _ \<Rightarrow> Inr 0) (\<lambda>_.
     and_then (case rt_failed r of Some n \<Rightarrow> integer q ''retention.failed'' n 1 (3650 * DAY) | None \<Rightarrow> Inr 0) (\<lambda>_.
     and_then (opt_integer q ''retention.deadLetter'' (rt_deadLetter r) (df_deadLetter DEFAULTS) 1 (3650 * DAY)) (\<lambda>dead.
       let failed = map_option the (rt_failed r);
           out = (\<lambda>now finished. \<lparr>rr_deleteOnSuccess = now, rr_finishedSeconds = finished, rr_deadLetterSeconds = dead,
                                rr_pendingSeconds = pending, rr_pendingExplicit = rt_pending r \<noteq> None\<rparr>)
       in case rt_completed r of
            Some Immediate \<Rightarrow> Inr (out True (case failed of Some f \<Rightarrow> f | None \<Rightarrow> df_completed DEFAULTS))
          | Some (Keep n) \<Rightarrow>
              (case failed of
                 Some f \<Rightarrow> if f \<noteq> the n then Inl (ClocksDiffer (the n) f) else Inr (out False (the n))
               | None \<Rightarrow> Inr (out False (the n)))
          | None \<Rightarrow> Inr (out False (case failed of Some f \<Rightarrow> f | None \<Rightarrow> df_completed DEFAULTS))))))"

text \<open>The text two definitions of one queue are compared by: the JSON of everything but the redrive rule itself.\<close>

definition queue_json :: "string \<Rightarrow> string \<Rightarrow> queue_options \<Rightarrow> int \<Rightarrow> int \<Rightarrow> bool \<Rightarrow> bool \<Rightarrow> bool \<Rightarrow> jsval" where
  "queue_json name dlq qo dl_keep dl_delete now guarded watch = JObj
     [(''name'', JStr name), (''deadLetter'', JStr dlq),
      (''queue'', JObj
         [(''expireInSeconds'', JNum (qo_expireInSeconds qo)),
          (''heartbeatSeconds'', case qo_heartbeatSeconds qo of None \<Rightarrow> JNull | Some h \<Rightarrow> JNum h),
          (''retryLimit'', JNum (qo_retryLimit qo)), (''retryDelay'', JNum (qo_retryDelay qo)),
          (''retryBackoff'', JBool True), (''retryDelayMax'', JNum (qo_retryDelayMax qo)),
          (''deleteAfterSeconds'', JNum (qo_deleteAfterSeconds qo)),
          (''retentionSeconds'', JNum (qo_retentionSeconds qo)), (''deadLetter'', JStr dlq)]),
      (''deadLetterQueue'', JObj [(''retentionSeconds'', JNum dl_keep), (''deleteAfterSeconds'', JNum dl_delete)]),
      (''deleteOnSuccess'', JBool now), (''guarded'', JBool guarded), (''pendingWatch'', JBool watch)]"

definition queue_fingerprint :: "string \<Rightarrow> string \<Rightarrow> queue_options \<Rightarrow> int \<Rightarrow> int \<Rightarrow> bool \<Rightarrow> bool \<Rightarrow> bool \<Rightarrow> string" where
  "queue_fingerprint name dlq qo dl_keep dl_delete now guarded watch =
     tokens_text (tokens (queue_json name dlq qo dl_keep dl_delete now guarded watch))"

definition least_window :: "int \<Rightarrow> int \<Rightarrow> int \<Rightarrow> int" where
  "least_window limit expire delay_max =
     (limit + 1) * (expire + df_expiryDetectionSeconds DEFAULTS) + limit * delay_max"

definition or_default :: "js_int option \<Rightarrow> int \<Rightarrow> js_int" where
  "or_default v fallback = (case v of None \<Rightarrow> Some fallback | Some n \<Rightarrow> n)"

definition resolveQueue :: "string \<Rightarrow> queue_config \<Rightarrow> jobs_config_error + resolved_queue" where
  "resolveQueue name c =
     and_then (assertQueueName name) (\<lambda>_.
     and_then (integer name ''expireInSeconds'' (or_default (qc_expireInSeconds c) (df_expireInSeconds DEFAULTS)) 1 (7 * DAY)) (\<lambda>expire.
     and_then (case qc_heartbeatSeconds c of
                 Some h \<Rightarrow> and_then (integer name ''heartbeatSeconds'' h (df_minHeartbeatSeconds DEFAULTS) DAY) (\<lambda>n. Inr (Some n))
               | None \<Rightarrow> Inr (if df_heartbeatAboveExpireSeconds DEFAULTS < expire then Some (df_heartbeatSeconds DEFAULTS) else None)) (\<lambda>heartbeat.
     and_then (integer name ''retryLimit'' (or_default (qc_retryLimit c) (df_retryLimit DEFAULTS)) 0 100) (\<lambda>limit.
     and_then (require (\<not> (limit < df_minRetryLimit DEFAULTS \<and> \<not> qc_acceptDeadLetterOnDrain c)) (NoRetryLeft limit)) (\<lambda>_.
     and_then (integer name ''retryDelaySeconds'' (or_default (qc_retryDelaySeconds c) (df_retryDelaySeconds DEFAULTS)) 1 DAY) (\<lambda>delay.
     and_then (integer name ''retryDelayMaxSeconds'' (or_default (qc_retryDelayMaxSeconds c) (df_retryDelayMaxSeconds DEFAULTS)) delay (7 * DAY)) (\<lambda>delay_max.
       let dlq = (case qc_deadLetter c of Some d \<Rightarrow> d | None \<Rightarrow> name @ ''.dlq'') in
     and_then (require (\<not> (qc_deadLetter c = None \<and> \<not> QUEUE_NAME dlq)) (DefaultDeadLetterTooLong dlq)) (\<lambda>_.
     and_then (assertQueueName dlq) (\<lambda>_.
     and_then (require (dlq \<noteq> name) (SelfDeadLetter name)) (\<lambda>_.
     and_then (resolveRetention name (qc_retention c)) (\<lambda>r.
     and_then (require (\<not> (rr_pendingExplicit r \<and> rr_pendingSeconds r < least_window limit expire delay_max))
                 (PendingTooShort (rr_pendingSeconds r) (least_window limit expire delay_max))) (\<lambda>_.
     and_then (require (\<not> not_callable (qc_canRedrive c)) RedriveNotFunction) (\<lambda>_.
       let qo = \<lparr>qo_expireInSeconds = expire, qo_heartbeatSeconds = heartbeat, qo_retryLimit = limit, qo_retryDelay = delay,
                qo_retryDelayMax = delay_max, qo_deleteAfterSeconds = rr_finishedSeconds r,
                qo_retentionSeconds = rr_pendingSeconds r\<rparr>
       in Inr \<lparr>rq_name = name, rq_deadLetter = dlq, rq_queue = qo, rq_dlRetentionSeconds = rr_deadLetterSeconds r,
               rq_dlDeleteAfterSeconds = rr_finishedSeconds r, rq_deleteOnSuccess = rr_deleteOnSuccess r,
               rq_guarded = given (qc_canRedrive c),
               rq_canRedrive = (case qc_canRedrive c of Some (Rule f) \<Rightarrow> Some f | _ \<Rightarrow> None),
               rq_pendingWatch = rr_pendingExplicit r,
               rq_fingerprint = queue_fingerprint name dlq qo (rr_deadLetterSeconds r) (rr_finishedSeconds r)
                 (rr_deleteOnSuccess r) (given (qc_canRedrive c)) (rr_pendingExplicit r)\<rparr>)))))))))))))"

definition resolveHandler :: "string \<Rightarrow> handle_options \<Rightarrow> jobs_config_error + resolved_handler" where
  "resolveHandler q ho =
     and_then (integer q ''concurrency'' (or_default (ho_concurrency ho) (df_concurrency DEFAULTS)) 1 1000) (\<lambda>n.
       case or_default (ho_pollingMillis ho) (df_pollingMillis DEFAULTS) of
         None \<Rightarrow> Inl BadPolling
       | Some p \<Rightarrow> if p < df_minPollingMillis DEFAULTS \<or> 3600 * 1000 < p then Inl BadPolling
                  else Inr \<lparr>rh_concurrency = n, rh_pollingMillis = p\<rparr>)"

section \<open>What a resolved queue satisfies\<close>

lemma integer_Inr [res_simps]: "integer q f v lo hi = Inr n \<longleftrightarrow> v = Some n \<and> lo \<le> n \<and> n \<le> hi"
  by (auto simp: integer_def split: option.splits)

lemma opt_integer_Inr [res_simps]:
  "opt_integer q f v d lo hi = Inr n \<longleftrightarrow> (case v of None \<Rightarrow> n = d | Some w \<Rightarrow> w = Some n \<and> lo \<le> n \<and> n \<le> hi)"
  by (auto simp: opt_integer_def integer_Inr split: option.splits)

lemma assertQueueName_Inr [res_simps]: "assertQueueName n = Inr u \<longleftrightarrow> QUEUE_NAME n"
  by (simp add: assertQueueName_def require_Inr_iff)

text \<open>The invariant every resolved queue satisfies.\<close>

definition queue_ok :: "resolved_queue \<Rightarrow> bool" where
  "queue_ok r \<longleftrightarrow>
     QUEUE_NAME (rq_name r) \<and> QUEUE_NAME (rq_deadLetter r) \<and> rq_deadLetter r \<noteq> rq_name r \<and>
     1 \<le> qo_expireInSeconds (rq_queue r) \<and> 0 \<le> qo_retryLimit (rq_queue r) \<and>
     1 \<le> qo_retryDelay (rq_queue r) \<and> qo_retryDelay (rq_queue r) \<le> qo_retryDelayMax (rq_queue r) \<and>
     (case qo_heartbeatSeconds (rq_queue r) of
        None \<Rightarrow> qo_expireInSeconds (rq_queue r) \<le> df_heartbeatAboveExpireSeconds DEFAULTS
      | Some h \<Rightarrow> df_minHeartbeatSeconds DEFAULTS \<le> h) \<and>
     1 \<le> qo_deleteAfterSeconds (rq_queue r) \<and> 1 \<le> rq_dlRetentionSeconds r \<and>
     rq_dlDeleteAfterSeconds r = qo_deleteAfterSeconds (rq_queue r) \<and>
     df_minPendingSeconds DEFAULTS \<le> qo_retentionSeconds (rq_queue r) \<and>
     (rq_canRedrive r \<noteq> None \<longleftrightarrow> rq_guarded r) \<and>
     (rq_pendingWatch r \<longrightarrow>
        least_window (qo_retryLimit (rq_queue r)) (qo_expireInSeconds (rq_queue r)) (qo_retryDelayMax (rq_queue r))
          \<le> qo_retentionSeconds (rq_queue r))"

lemma resolveRetention_ok:
  assumes "resolveRetention q r = Inr s"
  shows "1 \<le> rr_finishedSeconds s \<and> 1 \<le> rr_deadLetterSeconds s \<and> df_minPendingSeconds DEFAULTS \<le> rr_pendingSeconds s
    \<and> (rr_deleteOnSuccess s \<longleftrightarrow> rt_completed r = Some Immediate) \<and> (rr_pendingExplicit s \<longleftrightarrow> rt_pending r \<noteq> None)"
  using assms
  by (cases "rt_completed r" rule: option.exhaust; cases "rt_failed r"; cases "rt_pending r"; cases "rt_deadLetter r")
     (auto simp: resolveRetention_def res_simps Let_def defaults split: completed_opt.splits if_splits option.splits)

text \<open>What each check of \<open>resolveQueue\<close> established, and the queue it built.\<close>

lemma resolveQueue_Inr:
  assumes "resolveQueue name c = Inr r"
  obtains limit expire heartbeat delay delay_max dlq s where
    "QUEUE_NAME name" "1 \<le> expire" "expire \<le> 7 * DAY"
    "case heartbeat of None \<Rightarrow> expire \<le> df_heartbeatAboveExpireSeconds DEFAULTS | Some h \<Rightarrow> df_minHeartbeatSeconds DEFAULTS \<le> h"
    "0 \<le> limit" "df_minRetryLimit DEFAULTS \<le> limit \<or> qc_acceptDeadLetterOnDrain c"
    "1 \<le> delay" "delay \<le> delay_max" "QUEUE_NAME dlq" "dlq \<noteq> name" "resolveRetention name (qc_retention c) = Inr s"
    "rr_pendingExplicit s \<longrightarrow> least_window limit expire delay_max \<le> rr_pendingSeconds s"
    "\<not> not_callable (qc_canRedrive c)"
    "r = (let qo = \<lparr>qo_expireInSeconds = expire, qo_heartbeatSeconds = heartbeat, qo_retryLimit = limit, qo_retryDelay = delay,
                qo_retryDelayMax = delay_max, qo_deleteAfterSeconds = rr_finishedSeconds s, qo_retentionSeconds = rr_pendingSeconds s\<rparr>
       in \<lparr>rq_name = name, rq_deadLetter = dlq, rq_queue = qo, rq_dlRetentionSeconds = rr_deadLetterSeconds s,
               rq_dlDeleteAfterSeconds = rr_finishedSeconds s, rq_deleteOnSuccess = rr_deleteOnSuccess s,
               rq_guarded = given (qc_canRedrive c),
               rq_canRedrive = (case qc_canRedrive c of Some (Rule f) \<Rightarrow> Some f | _ \<Rightarrow> None),
               rq_pendingWatch = rr_pendingExplicit s,
               rq_fingerprint = queue_fingerprint name dlq qo (rr_deadLetterSeconds s) (rr_finishedSeconds s)
                 (rr_deleteOnSuccess s) (given (qc_canRedrive c)) (rr_pendingExplicit s)\<rparr>)"
proof -
  let ?dlq = "case qc_deadLetter c of Some d \<Rightarrow> d | None \<Rightarrow> name @ ''.dlq''"
  from assms obtain expire heartbeat limit delay delay_max s where
    1: "QUEUE_NAME name" "1 \<le> expire" "expire \<le> 7 * DAY" and
    2: "(case qc_heartbeatSeconds c of
          Some h \<Rightarrow> and_then (integer name ''heartbeatSeconds'' h (df_minHeartbeatSeconds DEFAULTS) DAY) (\<lambda>n. Inr (Some n))
        | None \<Rightarrow> Inr (if df_heartbeatAboveExpireSeconds DEFAULTS < expire then Some (df_heartbeatSeconds DEFAULTS) else None))
       = Inr heartbeat" and
    3: "0 \<le> limit" "\<not> (limit < df_minRetryLimit DEFAULTS \<and> \<not> qc_acceptDeadLetterOnDrain c)"
    "1 \<le> delay" "delay \<le> delay_max" "QUEUE_NAME ?dlq" "?dlq \<noteq> name" "resolveRetention name (qc_retention c) = Inr s"
    "\<not> (rr_pendingExplicit s \<and> rr_pendingSeconds s < least_window limit expire delay_max)"
    "\<not> not_callable (qc_canRedrive c)" and
    4: "r = (let qo = \<lparr>qo_expireInSeconds = expire, qo_heartbeatSeconds = heartbeat, qo_retryLimit = limit, qo_retryDelay = delay,
                qo_retryDelayMax = delay_max, qo_deleteAfterSeconds = rr_finishedSeconds s, qo_retentionSeconds = rr_pendingSeconds s\<rparr>
       in \<lparr>rq_name = name, rq_deadLetter = ?dlq, rq_queue = qo, rq_dlRetentionSeconds = rr_deadLetterSeconds s,
               rq_dlDeleteAfterSeconds = rr_finishedSeconds s, rq_deleteOnSuccess = rr_deleteOnSuccess s,
               rq_guarded = given (qc_canRedrive c),
               rq_canRedrive = (case qc_canRedrive c of Some (Rule f) \<Rightarrow> Some f | _ \<Rightarrow> None),
               rq_pendingWatch = rr_pendingExplicit s,
               rq_fingerprint = queue_fingerprint name ?dlq qo (rr_deadLetterSeconds s) (rr_finishedSeconds s)
                 (rr_deleteOnSuccess s) (given (qc_canRedrive c)) (rr_pendingExplicit s)\<rparr>)"
    unfolding resolveQueue_def by (clarsimp simp only: res_simps Let_def sum.inject) blast
  have 5: "case heartbeat of None \<Rightarrow> expire \<le> df_heartbeatAboveExpireSeconds DEFAULTS | Some h \<Rightarrow> df_minHeartbeatSeconds DEFAULTS \<le> h"
    using 2 by (cases "qc_heartbeatSeconds c") (auto simp: res_simps DEFAULTS_def split: if_splits)
  show thesis
    by (rule that [OF 1 5 3(1) _ 3(3-7) _ 3(9) 4]) (use 3 in auto)
qed

lemma resolveQueue_ok:
  assumes "resolveQueue name c = Inr r"
  shows "queue_ok r" "rq_name r = name" "df_minRetryLimit DEFAULTS \<le> qo_retryLimit (rq_queue r) \<or> qc_acceptDeadLetterOnDrain c"
    "rq_guarded r \<longleftrightarrow> qc_canRedrive c \<noteq> None"
    "rq_deleteOnSuccess r \<longleftrightarrow> rt_completed (qc_retention c) = Some Immediate"
    "rq_pendingWatch r \<longleftrightarrow> rt_pending (qc_retention c) \<noteq> None"
  using assms
  by (elim resolveQueue_Inr; use resolveRetention_ok [of name "qc_retention c"] in
      \<open>auto simp: queue_ok_def Let_def given_iff not_callable_def split: option.splits rule_given.splits\<close>)+

text \<open>A list of at most \<open>n\<close> numbers, each at most \<open>b\<close>, adds up to at most \<open>n * b\<close>.\<close>

lemma sum_list_le:
  fixes b :: int
  assumes "int (length xs) \<le> n" "\<forall>x\<in>set xs. x \<le> b" "0 \<le> b"
  shows "sum_list xs \<le> n * b"
proof -
  have "sum_list xs \<le> int (length xs) * b"
    using assms(2) by (induction xs) (auto simp: algebra_simps)
  also have "\<dots> \<le> n * b"
    by (rule mult_right_mono [OF assms(1) assms(3)])
  finally show ?thesis .
qed

lemma least_window_covers:
  assumes "int (length runs) \<le> limit + 1" "\<forall>x\<in>set runs. x \<le> expire + df_expiryDetectionSeconds DEFAULTS" "0 \<le> expire"
    and "int (length waits) \<le> limit" "\<forall>x\<in>set waits. x \<le> delay_max" "0 \<le> delay_max"
  shows "sum_list runs + sum_list waits \<le> least_window limit expire delay_max"
proof -
  have "0 \<le> expire + df_expiryDetectionSeconds DEFAULTS"
    using assms(3) by (simp add: DEFAULTS_def)
  then show ?thesis
    using sum_list_le [OF assms(1,2)] sum_list_le [OF assms(4-6)] by (simp add: least_window_def)
qed

text \<open>
  A queue configuration that is accepted comes to a queue whose names are valid, whose dead-letter queue is
  another queue, whose backoff bounds are ordered, whose long jobs have a heartbeat, and which keeps a retry in hand
  unless it says otherwise. If it sets \<open>retention.pending\<close>, that window covers every possible course of the job's
  retries: however its attempts (each noticed at most 75 s late) and the waits between them turn out, their sum does
  not pass the deadline pg-boss deletes the waiting job at.
\<close>

theorem accepted_queue_covers_retries:
  assumes "resolveQueue name c = Inr r"
  shows "queue_ok r \<and> rq_name r = name
    \<and> (1 \<le> qo_retryLimit (rq_queue r) \<or> qc_acceptDeadLetterOnDrain c)
    \<and> (rt_pending (qc_retention c) \<noteq> None \<longrightarrow>
        (\<forall>runs waits. int (length runs) \<le> qo_retryLimit (rq_queue r) + 1 \<longrightarrow>
           (\<forall>x\<in>set runs. x \<le> qo_expireInSeconds (rq_queue r) + 75) \<longrightarrow>
           int (length waits) \<le> qo_retryLimit (rq_queue r) \<longrightarrow>
           (\<forall>x\<in>set waits. x \<le> qo_retryDelayMax (rq_queue r)) \<longrightarrow>
           sum_list runs + sum_list waits \<le> qo_retentionSeconds (rq_queue r)))"
proof -
  note ok = resolveQueue_ok [OF assms]
  have "sum_list runs + sum_list waits \<le> qo_retentionSeconds (rq_queue r)"
    if "rt_pending (qc_retention c) \<noteq> None" "int (length runs) \<le> qo_retryLimit (rq_queue r) + 1"
      "\<forall>x\<in>set runs. x \<le> qo_expireInSeconds (rq_queue r) + 75" "int (length waits) \<le> qo_retryLimit (rq_queue r)"
      "\<forall>x\<in>set waits. x \<le> qo_retryDelayMax (rq_queue r)" for runs waits :: "int list"
  proof -
    have "sum_list runs + sum_list waits
        \<le> least_window (qo_retryLimit (rq_queue r)) (qo_expireInSeconds (rq_queue r)) (qo_retryDelayMax (rq_queue r))"
      by (rule least_window_covers) (use that ok(1) in \<open>auto simp: queue_ok_def DEFAULTS_def\<close>)
    also have "\<dots> \<le> qo_retentionSeconds (rq_queue r)"
      using ok(1,6) that(1) by (auto simp: queue_ok_def)
    finally show ?thesis .
  qed
  then show ?thesis
    using ok(1,2,3) by (auto simp: DEFAULTS_def)
qed

definition no_retention :: retention_options where
  "no_retention = \<lparr>rt_completed = None, rt_failed = None, rt_deadLetter = None, rt_pending = None\<rparr>"

definition plain_queue :: queue_config where
  "plain_queue = \<lparr>qc_expireInSeconds = None, qc_heartbeatSeconds = None, qc_retryLimit = None,
     qc_acceptDeadLetterOnDrain = False, qc_retryDelaySeconds = None, qc_retryDelayMaxSeconds = None,
     qc_deadLetter = None, qc_retention = no_retention, qc_canRedrive = None\<rparr>"

text \<open>The queue mail is sent on: one minute per attempt, five retries, a day to be processed.\<close>

definition mail_queue_config :: queue_config where
  "mail_queue_config = plain_queue\<lparr>qc_expireInSeconds := Some (Some 60), qc_retryLimit := Some (Some 5),
     qc_retention := no_retention\<lparr>rt_completed := Some Immediate, rt_pending := Some (Some 86400)\<rparr>\<rparr>"

lemma mail_queue_retention:
  "resolveRetention q (no_retention\<lparr>rt_completed := Some Immediate, rt_pending := Some (Some 86400)\<rparr>) =
     Inr \<lparr>rr_deleteOnSuccess = True, rr_finishedSeconds = 604800, rr_deadLetterSeconds = 2592000,
          rr_pendingSeconds = 86400, rr_pendingExplicit = True\<rparr>"
  by (simp add: resolveRetention_def no_retention_def opt_integer_def integer_def defaults)

lemma mail_queue_names: "QUEUE_NAME ''mail.send''" "QUEUE_NAME ''mail.send.dlq''"
  by code_simp+

lemma mail_queue_resolves: "is_ok (resolveQueue ''mail.send'' mail_queue_config)"
  by (simp add: resolveQueue_def mail_queue_config_def plain_queue_def mail_queue_retention assertQueueName_def
      mail_queue_names integer_def or_default_def defaults least_window_def not_callable_def Let_def)

theorem accepted_queue_covers_retries_witness:
  "\<exists>r. resolveQueue ''mail.send'' mail_queue_config = Inr r \<and> queue_ok r \<and> rq_pendingWatch r"
proof -
  obtain r where r: "resolveQueue ''mail.send'' mail_queue_config = Inr r"
    using mail_queue_resolves by (cases "resolveQueue ''mail.send'' mail_queue_config") auto
  have "rq_pendingWatch r"
    using resolveQueue_ok(6) [OF r] by (simp add: mail_queue_config_def)
  then show ?thesis
    using accepted_queue_covers_retries [OF r] r by blast
qed

section \<open>Two definitions of one queue\<close>

lemma queue_json_plain: "plain (queue_json name dlq qo a b n g w)"
proof -
  have 1: "own_order [(''expireInSeconds'', v1), (''heartbeatSeconds'', v2), (''retryLimit'', v3), (''retryDelay'', v4),
      (''retryBackoff'', v5), (''retryDelayMax'', v6), (''deleteAfterSeconds'', v7), (''retentionSeconds'', v8),
      (''deadLetter'', v9)] = [(''expireInSeconds'', v1), (''heartbeatSeconds'', v2), (''retryLimit'', v3), (''retryDelay'', v4),
      (''retryBackoff'', v5), (''retryDelayMax'', v6), (''deleteAfterSeconds'', v7), (''retentionSeconds'', v8),
      (''deadLetter'', v9)]" for v1 v2 v3 v4 v5 v6 v7 v8 v9 :: jsval
    by code_simp
  have 2: "own_order [(''retentionSeconds'', v1), (''deleteAfterSeconds'', v2)]
      = [(''retentionSeconds'', v1), (''deleteAfterSeconds'', v2)]" for v1 v2 :: jsval
    by code_simp
  have 3: "own_order [(''name'', v1), (''deadLetter'', v2), (''queue'', v3), (''deadLetterQueue'', v4),
      (''deleteOnSuccess'', v5), (''guarded'', v6), (''pendingWatch'', v7)]
      = [(''name'', v1), (''deadLetter'', v2), (''queue'', v3), (''deadLetterQueue'', v4),
      (''deleteOnSuccess'', v5), (''guarded'', v6), (''pendingWatch'', v7)]" for v1 v2 v3 v4 v5 v6 v7 :: jsval
    by code_simp
  show ?thesis
    by (simp add: queue_json_def 1 2 3 split: option.splits)
qed

text \<open>
  Two definitions agree in their fingerprint exactly when they agree in everything but the redrive rule itself, and
  in whether there is one.
\<close>

lemma queue_fingerprint_iff:
  "queue_fingerprint name dlq qo a b n g w = queue_fingerprint name' dlq' qo' a' b' n' g' w' \<longleftrightarrow>
     name = name' \<and> dlq = dlq' \<and> qo = qo' \<and> a = a' \<and> b = b' \<and> n = n' \<and> g = g' \<and> w = w'"
proof -
  have "queue_fingerprint name dlq qo a b n g w = queue_fingerprint name' dlq' qo' a' b' n' g' w' \<longleftrightarrow>
      queue_json name dlq qo a b n g w = queue_json name' dlq' qo' a' b' n' g' w'"
    unfolding queue_fingerprint_def by (rule stringify_inj [OF queue_json_plain queue_json_plain])
  also have "\<dots> \<longleftrightarrow> name = name' \<and> dlq = dlq' \<and> qo = qo' \<and> a = a' \<and> b = b' \<and> n = n' \<and> g = g' \<and> w = w'"
    by (cases qo; cases qo') (auto simp: queue_json_def split: option.splits)
  finally show ?thesis .
qed

definition same_definition :: "resolved_queue \<Rightarrow> resolved_queue \<Rightarrow> bool" where
  "same_definition r s \<longleftrightarrow> r\<lparr>rq_canRedrive := None\<rparr> = s\<lparr>rq_canRedrive := None\<rparr>"

lemma resolved_fingerprint:
  assumes "resolveQueue name c = Inr r"
  shows "rq_fingerprint r = queue_fingerprint (rq_name r) (rq_deadLetter r) (rq_queue r) (rq_dlRetentionSeconds r)
           (rq_dlDeleteAfterSeconds r) (rq_deleteOnSuccess r) (rq_guarded r) (rq_pendingWatch r)"
  using assms by (elim resolveQueue_Inr) (simp add: Let_def)

lemma fingerprint_same_definition:
  assumes "resolveQueue name c = Inr r" "resolveQueue name' c' = Inr s"
  shows "rq_fingerprint r = rq_fingerprint s \<longleftrightarrow> same_definition r s"
  using resolved_fingerprint [OF assms(1)] resolved_fingerprint [OF assms(2)]
  by (cases r; cases s) (auto simp: same_definition_def queue_fingerprint_iff)

end
