(* ===== verification/PgBoss.thy ===== *)
theory PgBoss
  imports JobsConfig
begin

text \<open>
  What the jobs package uses of its database. The tables are pg-boss's \<open>queue\<close> and \<open>job\<close>, with the columns the
  package's own SQL reads; the statements are translated where they are issued. \<open>send\<close> is pg-boss's own operation
  and is not part of the repository: the locale \<open>boss_send\<close> states what the package relies on of it (the primary
  key \<open>(name, id)\<close> makes a second insert answer \<open>null\<close>, a new row waits with a fresh budget), and says nothing of a
  call that fails. It is interpreted on a table kept as a list.
\<close>

datatype job_state = Created | Retry | Active | Completed | Cancelled | Failed

record job =
  job_name :: string
  job_id :: string
  job_data :: jsval
  job_priority :: int
  job_state :: job_state
  job_retry :: nat
  job_source_name :: "string option"
  job_source_id :: "string option"
  job_created :: nat
  job_start :: nat
  job_keep :: nat
  job_blocked :: bool

record pg =
  pg_queues :: "(string \<times> string option) list"
  pg_jobs :: "job list"

text \<open>The order of the state type: \<open>state < 'active'\<close> are the waiting ones.\<close>

definition waiting :: "job \<Rightarrow> bool" where
  "waiting j \<longleftrightarrow> job_state j \<in> {Created, Retry}"

definition job_key :: "job \<Rightarrow> string \<times> string" where
  "job_key j = (job_name j, job_id j)"

definition has_key :: "string \<Rightarrow> string \<Rightarrow> job \<Rightarrow> bool" where
  "has_key q i j \<longleftrightarrow> job_name j = q \<and> job_id j = i"

definition has_job :: "string \<Rightarrow> string \<Rightarrow> pg \<Rightarrow> bool" where
  "has_job q i d \<longleftrightarrow> list_ex (has_key q i) (pg_jobs d)"

definition queue_exists :: "string \<Rightarrow> pg \<Rightarrow> bool" where
  "queue_exists q d \<longleftrightarrow> list_ex (\<lambda>(n, _). n = q) (pg_queues d)"

text \<open>The primary key of the job table.\<close>

definition pk :: "pg \<Rightarrow> bool" where
  "pk d \<longleftrightarrow> distinct (map job_key (pg_jobs d))"

definition fresh_job :: "string \<Rightarrow> string \<Rightarrow> jsval \<Rightarrow> int \<Rightarrow> job \<Rightarrow> bool" where
  "fresh_job q i data prio j \<longleftrightarrow> job_name j = q \<and> job_id j = i \<and> job_data j = data \<and> job_priority j = prio \<and>
     job_state j = Created \<and> job_retry j = 0 \<and> job_source_name j = None \<and> job_source_id j = None"

type_synonym pg_send = "string \<Rightarrow> jsval \<Rightarrow> string \<Rightarrow> int \<Rightarrow> pg \<Rightarrow> (string + string option) \<times> pg"

locale boss_send =
  fixes send :: pg_send
  assumes send_conflict: "send q data i prio d = (Inr r, d') \<Longrightarrow> has_job q i d \<Longrightarrow> r = None \<and> d' = d"
    and send_new: "send q data i prio d = (Inr r, d') \<Longrightarrow> \<not> has_job q i d \<Longrightarrow>
      r = Some i \<and> (\<exists>j. fresh_job q i data prio j \<and> d' = d\<lparr>pg_jobs := pg_jobs d @ [j]\<rparr>)"

lemma has_job_iff: "has_job q i d \<longleftrightarrow> (\<exists>j\<in>set (pg_jobs d). job_key j = (q, i))"
  by (auto simp: has_job_def has_key_def job_key_def list_ex_iff)

lemma pk_unique: "pk d \<Longrightarrow> j \<in> set (pg_jobs d) \<Longrightarrow> k \<in> set (pg_jobs d) \<Longrightarrow> job_key j = job_key k \<Longrightarrow> j = k"
  by (auto simp: pk_def distinct_map dest: inj_onD)

lemma pk_filter: "pk d \<Longrightarrow> pk (d\<lparr>pg_jobs := filter P (pg_jobs d)\<rparr>)"
  by (simp add: pk_def distinct_map_filter)

context boss_send begin

text \<open>A send keeps the primary key and every row there is.\<close>

lemma send_pk:
  assumes "send q data i prio d = (Inr r, d')" "pk d"
  shows "pk d'"
proof (cases "has_job q i d")
  case True
  with send_conflict [OF assms(1)] assms(2) show ?thesis by simp
next
  case False
  then obtain j where j: "fresh_job q i data prio j" "d' = d\<lparr>pg_jobs := pg_jobs d @ [j]\<rparr>"
    using send_new [OF assms(1)] by blast
  have "job_key j \<notin> job_key ` set (pg_jobs d)"
    using False j(1) by (auto simp: has_job_iff fresh_job_def job_key_def)
  then show ?thesis
    using assms(2) by (simp add: pk_def j(2))
qed

lemma send_keeps: "send q data i prio d = (Inr r, d') \<Longrightarrow> set (pg_jobs d) \<subseteq> set (pg_jobs d')"
  using send_conflict [of q data i prio d r d'] send_new [of q data i prio d r d']
  by (cases "has_job q i d") auto

lemma send_queues: "send q data i prio d = (Inr r, d') \<Longrightarrow> pg_queues d' = pg_queues d"
  using send_conflict [of q data i prio d r d'] send_new [of q data i prio d r d']
  by (cases "has_job q i d") auto

lemma send_once:
  "send q data i prio d = (Inr r, d') \<Longrightarrow> send q data2 i prio2 d' = (Inr r2, d2) \<Longrightarrow> r2 = None \<and> d2 = d'"
  using send_conflict [of q data i prio d r d'] send_new [of q data i prio d r d'] send_conflict [of q data2 i prio2 d' r2 d2]
  by (cases "has_job q i d") (auto simp: has_job_iff fresh_job_def job_key_def)

end

section \<open>A table kept as a list\<close>

definition mem_job :: "string \<Rightarrow> string \<Rightarrow> jsval \<Rightarrow> int \<Rightarrow> job" where
  "mem_job q i data prio = \<lparr>job_name = q, job_id = i, job_data = data, job_priority = prio, job_state = Created,
     job_retry = 0, job_source_name = None, job_source_id = None, job_created = 0, job_start = 0, job_keep = 1209600,
     job_blocked = False\<rparr>"

definition mem_send :: pg_send where
  "mem_send q data i prio d =
     (if \<not> queue_exists q d then (Inl (''Queue '' @ q @ '' not found''), d)
      else if has_job q i d then (Inr None, d)
      else (Inr (Some i), d\<lparr>pg_jobs := pg_jobs d @ [mem_job q i data prio]\<rparr>))"

lemma mem_job_fresh [simp]: "fresh_job q i data prio (mem_job q i data prio)"
  by (simp add: fresh_job_def mem_job_def)

interpretation mem_boss: boss_send mem_send
proof unfold_locales
  fix q data i prio d r d'
  assume "mem_send q data i prio d = (Inr r, d')" "has_job q i d"
  then show "r = None \<and> d' = d"
    by (auto simp: mem_send_def split: if_splits)
next
  fix q data i prio d r d'
  assume "mem_send q data i prio d = (Inr r, d')" "\<not> has_job q i d"
  then have "r = Some i \<and> d' = d\<lparr>pg_jobs := pg_jobs d @ [mem_job q i data prio]\<rparr>"
    by (auto simp: mem_send_def split: if_splits)
  then show "r = Some i \<and> (\<exists>j. fresh_job q i data prio j \<and> d' = d\<lparr>pg_jobs := pg_jobs d @ [j]\<rparr>)"
    using mem_job_fresh by blast
qed

end
