(* ===== verification/Redrive.thy ===== *)
theory Redrive
  imports PgBoss Telemetry "HOL-Library.List_Lexorder" "HOL-Library.Product_Lexorder" "HOL-Library.Char_ord"
begin

text \<open>
  Putting dead letters back (\<open>platform-jobs/src/redrive.ts\<close>): the candidates, the move of one copy in its own
  transaction, and the loop that stops at the limit. A transaction that is not committed leaves the tables as they
  were. \<open>locked\<close> says which copies another transaction holds while this redrive looks at them, \<open>contains\<close> is the
  containment of JSON values of Postgres, \<open>now\<close> the clock of the database.
\<close>

definition REDRIVE_DEFAULT_LIMIT :: int where "REDRIVE_DEFAULT_LIMIT = 100"
definition REDRIVE_MAX_LIMIT :: int where "REDRIVE_MAX_LIMIT = 10000"

definition UUID :: "string \<Rightarrow> bool" where "UUID s = UUID_SEGMENT s"

datatype outcome = Moved | Taken | LeftInPlace | RejectedByPolicy

datatype redrive_warning =
    NoOrigin string | OriginGone string string | IdExists string string string | RuleThrew string
  | LeftByPolicy string nat

text \<open>\<open>None\<close>: not defined in this process; \<open>Some None\<close>: defined without a rule.\<close>

type_synonym policies = "string \<Rightarrow> redrive_rule option option"

record redrive_filter =
  rf_ids :: "string list option"
  rf_createdBefore :: "nat option"
  rf_origin :: "string option"
  rf_data :: "jsval option"

record redrive_deps =
  rd_send :: pg_send
  rd_policyFor :: policies
  rd_now :: nat
  rd_locked :: "string \<Rightarrow> bool"
  rd_contains :: "jsval \<Rightarrow> jsval \<Rightarrow> bool"

definition nonempty :: "string option \<Rightarrow> bool" where
  "nonempty s \<longleftrightarrow> (case s of Some t \<Rightarrow> t \<noteq> [] | None \<Rightarrow> False)"

definition allowed :: "redrive_rule option \<Rightarrow> string \<Rightarrow> jsval \<Rightarrow> bool \<times> redrive_warning list" where
  "allowed rule origin data =
     (case rule of
        None \<Rightarrow> (True, [])
      | Some f \<Rightarrow> (case f data of Some v \<Rightarrow> (v = JBool True, []) | None \<Rightarrow> (False, [RuleThrew origin])))"

text \<open>The outcome, the warnings, and the origin queue whose count of rejected copies goes up.\<close>

type_synonym move_result = "string + outcome \<times> redrive_warning list \<times> string option"

definition live_copy :: "nat \<Rightarrow> job \<Rightarrow> bool" where
  "live_copy now j \<longleftrightarrow> waiting j \<and> now < job_keep j"

definition move :: "redrive_deps \<Rightarrow> string \<Rightarrow> string \<Rightarrow> pg \<Rightarrow> move_result \<times> pg" where
  "move deps dlq jid d =
     (case (if rd_locked deps jid then None
            else List.find (\<lambda>j. has_key dlq jid j \<and> live_copy (rd_now deps) j) (pg_jobs d)) of
        None \<Rightarrow> (Inr (Taken, [], None), d)
      | Some copy \<Rightarrow>
          if \<not> nonempty (job_source_name copy) \<or> \<not> nonempty (job_source_id copy)
          then (Inr (LeftInPlace, [NoOrigin jid], None), d)
          else
            let q = the (job_source_name copy); i = the (job_source_id copy) in
            if \<not> queue_exists q d then (Inr (LeftInPlace, [OriginGone jid q], None), d)
            else
              (case rd_policyFor deps q of
                 None \<Rightarrow> (Inr (RejectedByPolicy, [], Some q), d)
               | Some rule \<Rightarrow>
                   let (ok, ws) = allowed rule q (job_data copy) in
                   if \<not> ok then (Inr (RejectedByPolicy, ws, Some q), d)
                   else
                     let d1 = d\<lparr>pg_jobs := filter (\<lambda>j. \<not> (has_key q i j \<and> job_state j = Failed)) (pg_jobs d)\<rparr>
                     in case rd_send deps q (job_data copy) i (job_priority copy) d1 of
                          (Inl e, d2) \<Rightarrow> (Inl e, d2)
                        | (Inr None, d2) \<Rightarrow> (Inr (LeftInPlace, [IdExists jid i q], None), d2)
                        | (Inr (Some _), d2) \<Rightarrow>
                            (Inr (Moved, [], None), d2\<lparr>pg_jobs := filter (\<lambda>j. \<not> has_key dlq jid j) (pg_jobs d2)\<rparr>)))"

text \<open>Only a moved copy is committed; every other outcome, an error included, is rolled back.\<close>

definition moveOne :: "redrive_deps \<Rightarrow> string \<Rightarrow> string \<Rightarrow> pg \<Rightarrow> move_result \<times> pg" where
  "moveOne deps dlq jid d =
     (case move deps dlq jid d of
        (Inr (out, ws, rej), d') \<Rightarrow> (Inr (out, ws, rej), if out = Moved then d' else d)
      | (Inl e, _) \<Rightarrow> (Inl e, d))"

definition candidate :: "redrive_deps \<Rightarrow> string \<Rightarrow> redrive_filter \<Rightarrow> string list \<Rightarrow> job \<Rightarrow> bool" where
  "candidate deps dlq rf exclude j \<longleftrightarrow>
     job_name j = dlq \<and> live_copy (rd_now deps) j \<and> job_id j \<notin> set exclude \<and>
     (case rf_ids rf of None \<Rightarrow> True | Some jids \<Rightarrow> job_id j \<in> set (map (map to_lower) jids)) \<and>
     (case rf_createdBefore rf of None \<Rightarrow> True | Some t \<Rightarrow> job_created j < t) \<and>
     (nonempty (rf_origin rf) \<longrightarrow> job_source_name j = rf_origin rf) \<and>
     (case rf_data rf of None \<Rightarrow> True | Some v \<Rightarrow> rd_contains deps (job_data j) v)"

definition candidateIds :: "redrive_deps \<Rightarrow> string \<Rightarrow> redrive_filter \<Rightarrow> nat \<Rightarrow> string list \<Rightarrow> pg \<Rightarrow> string list" where
  "candidateIds deps dlq rf n exclude d =
     take n (map job_id (sort_key (\<lambda>j. (job_created j, job_id j)) (filter (candidate deps dlq rf exclude) (pg_jobs d))))"

record redrive_state =
  rs_tried :: "string list"
  rs_rejected :: "(string \<times> nat) list"
  rs_moved :: nat
  rs_skipped :: nat
  rs_warnings :: "redrive_warning list"
  rs_db :: pg

definition count_origin :: "string option \<Rightarrow> (string \<times> nat) list \<Rightarrow> (string \<times> nat) list" where
  "count_origin rej m =
     (case rej of None \<Rightarrow> m
      | Some q \<Rightarrow> (case map_of m q of None \<Rightarrow> m @ [(q, 1)]
                   | Some _ \<Rightarrow> map (\<lambda>(k, c). (k, if k = q then c + 1 else c)) m))"

definition note_outcome :: "string \<Rightarrow> outcome \<Rightarrow> redrive_warning list \<Rightarrow> string option \<Rightarrow> pg \<Rightarrow> redrive_state \<Rightarrow> redrive_state" where
  "note_outcome jid out ws rej d' st =
     st\<lparr>rs_tried := jid # rs_tried st, rs_rejected := count_origin rej (rs_rejected st),
        rs_moved := rs_moved st + (if out = Moved then 1 else 0),
        rs_skipped := rs_skipped st + (if out = RejectedByPolicy then 1 else 0),
        rs_warnings := rs_warnings st @ ws, rs_db := d'\<rparr>"

text \<open>One pass over the candidates: an error ends it.\<close>

fun redrive_batch :: "redrive_deps \<Rightarrow> string \<Rightarrow> nat \<Rightarrow> string list \<Rightarrow> redrive_state \<Rightarrow> string option \<times> redrive_state" where
  "redrive_batch deps dlq limit [] st = (None, st)"
| "redrive_batch deps dlq limit (jid # jids) st =
     (case moveOne deps dlq jid (rs_db st) of
        (Inl e, d') \<Rightarrow> (Some e, st\<lparr>rs_tried := jid # rs_tried st, rs_db := d'\<rparr>)
      | (Inr (out, ws, rej), d') \<Rightarrow>
          let st' = note_outcome jid out ws rej d' st in
          if limit \<le> rs_moved st' then (None, st') else redrive_batch deps dlq limit jids st')"

text \<open>The loop, with the number of rounds it may take.\<close>

fun redrive_loop :: "nat \<Rightarrow> redrive_deps \<Rightarrow> string \<Rightarrow> redrive_filter \<Rightarrow> nat \<Rightarrow> redrive_state \<Rightarrow> (string option \<times> redrive_state) option" where
  "redrive_loop 0 deps dlq rf limit st = None"
| "redrive_loop (Suc fuel) deps dlq rf limit st =
     (if limit \<le> rs_moved st then Some (None, st)
      else case candidateIds deps dlq rf (limit - rs_moved st) (rs_tried st) (rs_db st) of
             [] \<Rightarrow> Some (None, st)
           | cs \<Rightarrow> (case redrive_batch deps dlq limit cs st of
                      (Some e, st') \<Rightarrow> Some (Some e, st')
                    | (None, st') \<Rightarrow> redrive_loop fuel deps dlq rf limit st'))"

datatype redrive_error = RedriveConfig jobs_config_error | RedriveDatabase string

definition redrive_start :: "pg \<Rightarrow> redrive_state" where
  "redrive_start d = \<lparr>rs_tried = [], rs_rejected = [], rs_moved = 0, rs_skipped = 0, rs_warnings = [], rs_db = d\<rparr>"

text \<open>More rounds than the loop can need: one per row of the table and one per job it may move.\<close>

definition redrive_fuel :: "nat \<Rightarrow> pg \<Rightarrow> nat" where
  "redrive_fuel limit d = length (pg_jobs d) + limit + 1"

definition redrive_checks :: "string \<Rightarrow> js_int \<Rightarrow> redrive_filter \<Rightarrow> pg \<Rightarrow> jobs_config_error + nat" where
  "redrive_checks dlq limit rf d =
     (case limit of
        None \<Rightarrow> Inl BadRedriveLimit
      | Some n \<Rightarrow>
          and_then (require (1 \<le> n \<and> n \<le> REDRIVE_MAX_LIMIT) BadRedriveLimit) (\<lambda>_.
          and_then (case find (\<lambda>i. \<not> UUID i) (case rf_ids rf of None \<Rightarrow> [] | Some jids \<Rightarrow> jids) of
                      None \<Rightarrow> Inr () | Some i \<Rightarrow> Inl (NotAJobId i)) (\<lambda>_.
          and_then (require (list_ex (\<lambda>(_, dl). dl = Some dlq) (pg_queues d)) (NotADeadLetterQueue dlq)) (\<lambda>_.
            Inr (nat n)))))"

text \<open>How many moved and were skipped, with the state the redrive leaves; \<open>None\<close> would be out of rounds.\<close>

definition redriveDeadLetters ::
  "redrive_deps \<Rightarrow> string \<Rightarrow> js_int option \<Rightarrow> redrive_filter \<Rightarrow> pg
     \<Rightarrow> ((redrive_error + nat \<times> nat) \<times> redrive_state) option" where
  "redriveDeadLetters deps dlq limit rf d =
     (case redrive_checks dlq (case limit of None \<Rightarrow> Some REDRIVE_DEFAULT_LIMIT | Some n \<Rightarrow> n) rf d of
        Inl e \<Rightarrow> Some (Inl (RedriveConfig e), redrive_start d)
      | Inr n \<Rightarrow>
          (case redrive_loop (redrive_fuel n d) deps dlq rf n (redrive_start d) of
             None \<Rightarrow> None
           | Some (Some e, st) \<Rightarrow> Some (Inl (RedriveDatabase e), st)
           | Some (None, st) \<Rightarrow>
               Some (Inr (rs_moved st, rs_skipped st),
                     st\<lparr>rs_warnings := rs_warnings st @ map (\<lambda>(q, c). LeftByPolicy q c) (rs_rejected st)\<rparr>)))"

section \<open>One move\<close>

definition permits :: "policies \<Rightarrow> string \<Rightarrow> jsval \<Rightarrow> bool" where
  "permits pol q data \<longleftrightarrow> (case pol q of None \<Rightarrow> False | Some rule \<Rightarrow> fst (allowed rule q data))"

text \<open>A rule was applied and answered \<open>true\<close>, or the queue is defined here without one.\<close>

lemma permits_iff:
  "permits pol q data \<longleftrightarrow> pol q = Some None \<or> (\<exists>f. pol q = Some (Some f) \<and> f data = Some (JBool True))"
  by (auto simp: permits_def allowed_def split: option.splits)

definition redriven :: "policies \<Rightarrow> job \<Rightarrow> job \<Rightarrow> bool" where
  "redriven pol j k \<longleftrightarrow> (\<exists>q i. job_source_name j = Some q \<and> job_source_id j = Some i \<and>
     permits pol q (job_data j) \<and> fresh_job q i (job_data j) (job_priority j) k)"

lemma redriven_fresh: "redriven pol j k \<Longrightarrow> job_source_name k = None \<and> job_state k = Created"
  by (auto simp: redriven_def fresh_job_def)

lemma find_mem: "List.find P xs = Some x \<Longrightarrow> x \<in> set xs \<and> P x"
  by (auto simp: find_Some_iff)

lemma move_moved:
  assumes "move deps dlq jid d = (Inr (Moved, ws, rej), d')"
  obtains copy q i d1 d2 r where "copy \<in> set (pg_jobs d)" "has_key dlq jid copy" "live_copy (rd_now deps) copy"
    "job_source_name copy = Some q" "job_source_id copy = Some i" "permits (rd_policyFor deps) q (job_data copy)"
    "d1 = d\<lparr>pg_jobs := filter (\<lambda>j. \<not> (has_key q i j \<and> job_state j = Failed)) (pg_jobs d)\<rparr>"
    "rd_send deps q (job_data copy) i (job_priority copy) d1 = (Inr (Some r), d2)"
    "d' = d2\<lparr>pg_jobs := filter (\<lambda>j. \<not> has_key dlq jid j) (pg_jobs d2)\<rparr>"
  using assms
  by (auto simp: move_def permits_def nonempty_def Let_def dest!: find_mem
      split: option.splits if_splits prod.splits sum.splits intro!: that)

text \<open>The copy that died holds an id of its own: the redriven job never takes its place in the table.\<close>

lemma moveOne_moved:
  assumes "boss_send (rd_send deps)" "moveOne deps dlq jid d = (Inr (Moved, ws, rej), d')" "pk d"
  obtains copy j where "copy \<in> set (pg_jobs d)" "has_key dlq jid copy" "live_copy (rd_now deps) copy"
    "redriven (rd_policyFor deps) copy j" "\<not> has_key dlq jid j"
    "\<forall>k\<in>set (pg_jobs d). job_key k = job_key j \<longrightarrow> job_state k = Failed"
    "set (pg_jobs d') = {k \<in> set (pg_jobs d). \<not> has_key dlq jid k \<and> job_key k \<noteq> job_key j} \<union> {j}" "pk d'"
proof -
  have "move deps dlq jid d = (Inr (Moved, ws, rej), d')"
    using assms(2) by (auto simp: moveOne_def split: prod.splits sum.splits if_splits)
  then obtain copy q i d1 d2 r where c: "copy \<in> set (pg_jobs d)" "has_key dlq jid copy" "live_copy (rd_now deps) copy"
      and s: "job_source_name copy = Some q" "job_source_id copy = Some i" "permits (rd_policyFor deps) q (job_data copy)"
      and d1: "d1 = d\<lparr>pg_jobs := filter (\<lambda>j. \<not> (has_key q i j \<and> job_state j = Failed)) (pg_jobs d)\<rparr>"
      and snd: "rd_send deps q (job_data copy) i (job_priority copy) d1 = (Inr (Some r), d2)"
      and d': "d' = d2\<lparr>pg_jobs := filter (\<lambda>j. \<not> has_key dlq jid j) (pg_jobs d2)\<rparr>"
    by (rule move_moved)
  have fresh: "\<not> has_job q i d1"
    using boss_send.send_conflict [OF assms(1) snd] by auto
  then obtain j where j: "fresh_job q i (job_data copy) (job_priority copy) j" "d2 = d1\<lparr>pg_jobs := pg_jobs d1 @ [j]\<rparr>"
    using boss_send.send_new [OF assms(1) snd] by auto
  have pk1: "pk d1"
    unfolding d1 using assms(3) by (rule pk_filter)
  have key_j: "job_name j = q" "job_id j = i"
    using j(1) by (simp_all add: fresh_job_def)
  have "copy \<in> set (pg_jobs d1)"
    using c by (auto simp: d1 live_copy_def waiting_def)
  then have other: "\<not> has_key dlq jid j"
    using fresh c(2) j(1) by (auto simp: has_job_iff has_key_def fresh_job_def job_key_def)
  have dead: "\<forall>k\<in>set (pg_jobs d). job_key k = job_key j \<longrightarrow> job_state k = Failed"
    using fresh j(1) by (auto simp: has_job_iff d1 has_key_def job_key_def fresh_job_def)
  then have "set (pg_jobs d') = {k \<in> set (pg_jobs d). \<not> has_key dlq jid k \<and> job_key k \<noteq> job_key j} \<union> {j}"
    using other key_j by (auto simp: d' j(2) d1 has_key_def job_key_def)
  moreover have "pk d'"
    unfolding d' by (rule pk_filter) (rule boss_send.send_pk [OF assms(1) snd pk1])
  moreover have "redriven (rd_policyFor deps) copy j"
    using s j(1) by (auto simp: redriven_def)
  ultimately show thesis
    using that c other dead by blast
qed

lemma moveOne_not_moved:
  "moveOne deps dlq jid d = (r, d') \<Longrightarrow> (\<And>ws rej. r \<noteq> Inr (Moved, ws, rej)) \<Longrightarrow> d' = d"
  by (auto simp: moveOne_def split: prod.splits sum.splits if_splits)

section \<open>What a run of moves keeps\<close>

text \<open>
  A row of the tables before a redrive is there after it, unless it is the failed original of a job that was put
  back (and the job with its id is there), or a waiting, unexpired dead letter that its queue's rule permits to move
  (and the job made from it is there, with its data, its priority, its id and a fresh budget).
\<close>

definition kept :: "redrive_deps \<Rightarrow> string \<Rightarrow> pg \<Rightarrow> job \<Rightarrow> bool" where
  "kept deps dlq d' j \<longleftrightarrow> j \<in> set (pg_jobs d')
     \<or> (job_state j = Failed \<and> (\<exists>k\<in>set (pg_jobs d'). job_key k = job_key j \<and> job_state k = Created \<and> job_source_name k = None))
     \<or> (job_name j = dlq \<and> live_copy (rd_now deps) j \<and> (\<exists>k\<in>set (pg_jobs d'). redriven (rd_policyFor deps) j k))"

text \<open>A row after it was there before, or was made from a dead letter that was.\<close>

definition accounted :: "redrive_deps \<Rightarrow> string \<Rightarrow> pg \<Rightarrow> job \<Rightarrow> bool" where
  "accounted deps dlq d k \<longleftrightarrow> k \<in> set (pg_jobs d)
     \<or> (\<exists>j\<in>set (pg_jobs d). job_name j = dlq \<and> redriven (rd_policyFor deps) j k)"

definition conserves :: "redrive_deps \<Rightarrow> string \<Rightarrow> pg \<Rightarrow> pg \<Rightarrow> bool" where
  "conserves deps dlq d d' \<longleftrightarrow> (\<forall>j\<in>set (pg_jobs d). kept deps dlq d' j) \<and> (\<forall>k\<in>set (pg_jobs d'). accounted deps dlq d k)"

lemma conserves_refl: "conserves deps dlq d d"
  by (auto simp: conserves_def kept_def accounted_def)

text \<open>A job that was put back has no origin of its own and waits, so a later move neither takes nor replaces it.\<close>

lemma kept_fresh: "kept deps dlq d' k \<Longrightarrow> job_source_name k = None \<Longrightarrow> job_state k = Created \<Longrightarrow> k \<in> set (pg_jobs d')"
  by (auto simp: kept_def redriven_def)

lemma conserves_trans:
  assumes "conserves deps dlq d d1" "conserves deps dlq d1 d2"
  shows "conserves deps dlq d d2"
proof -
  have stay: "k \<in> set (pg_jobs d2)" if "k \<in> set (pg_jobs d1)" "job_source_name k = None" "job_state k = Created" for k
    using assms(2) that by (auto simp: conserves_def intro: kept_fresh)
  have "kept deps dlq d2 j" if j: "j \<in> set (pg_jobs d)" for j
  proof -
    have "kept deps dlq d1 j"
      using assms(1) j by (simp add: conserves_def)
    then consider "j \<in> set (pg_jobs d1)"
      | k where "job_state j = Failed" "k \<in> set (pg_jobs d1)" "job_key k = job_key j" "job_state k = Created" "job_source_name k = None"
      | k where "job_name j = dlq" "live_copy (rd_now deps) j" "k \<in> set (pg_jobs d1)" "redriven (rd_policyFor deps) j k"
      by (auto simp: kept_def)
    then show ?thesis
    proof cases
      case 1
      then show ?thesis using assms(2) by (simp add: conserves_def)
    next
      case 2
      then show ?thesis using stay [of k] by (auto simp: kept_def)
    next
      case 3
      then show ?thesis using stay [of k] redriven_fresh [OF 3(4)] by (auto simp: kept_def)
    qed
  qed
  moreover have "accounted deps dlq d k" if k: "k \<in> set (pg_jobs d2)" for k
  proof -
    have "accounted deps dlq d1 k"
      using assms(2) k by (simp add: conserves_def)
    then consider "k \<in> set (pg_jobs d1)" | j where "j \<in> set (pg_jobs d1)" "job_name j = dlq" "redriven (rd_policyFor deps) j k"
      by (auto simp: accounted_def)
    then show ?thesis
    proof cases
      case 1
      then show ?thesis using assms(1) by (simp add: conserves_def)
    next
      case 2
      then have "accounted deps dlq d j"
        using assms(1) by (simp add: conserves_def)
      then have "j \<in> set (pg_jobs d)"
        using 2(3) by (auto simp: accounted_def redriven_def fresh_job_def)
      then show ?thesis using 2 by (auto simp: accounted_def)
    qed
  qed
  ultimately show ?thesis by (simp add: conserves_def)
qed

lemma moveOne_conserves:
  assumes "boss_send (rd_send deps)" "moveOne deps dlq jid d = (r, d')" "pk d"
  shows "conserves deps dlq d d'" "pk d'"
proof -
  have "conserves deps dlq d d' \<and> pk d'"
  proof (cases "\<exists>ws rej. r = Inr (Moved, ws, rej)")
    case False
    then show ?thesis using moveOne_not_moved [OF assms(2)] assms(3) conserves_refl by auto
  next
    case True
    then obtain ws rej where "moveOne deps dlq jid d = (Inr (Moved, ws, rej), d')"
      using assms(2) by auto
    then obtain copy j where c: "copy \<in> set (pg_jobs d)" "has_key dlq jid copy" "live_copy (rd_now deps) copy"
        "redriven (rd_policyFor deps) copy j" "\<not> has_key dlq jid j"
        "\<forall>k\<in>set (pg_jobs d). job_key k = job_key j \<longrightarrow> job_state k = Failed"
        "set (pg_jobs d') = {k \<in> set (pg_jobs d). \<not> has_key dlq jid k \<and> job_key k \<noteq> job_key j} \<union> {j}" "pk d'"
      by (rule moveOne_moved [OF assms(1) _ assms(3)])
    have same: "k = copy" if "k \<in> set (pg_jobs d)" "has_key dlq jid k" for k
      using pk_unique [OF assms(3) that(1) c(1)] that(2) c(2) by (simp add: has_key_def job_key_def)
    have "kept deps dlq d' k" if k: "k \<in> set (pg_jobs d)" for k
    proof (cases "has_key dlq jid k \<or> job_key k = job_key j")
      case False
      then show ?thesis using k c(7) by (simp add: kept_def)
    next
      case True
      then show ?thesis
        using same [OF k] k c(2-4,6,7) redriven_fresh [OF c(4)] by (auto simp: kept_def has_key_def)
    qed
    then show ?thesis
      using c(1,2,4,7,8) by (auto simp: conserves_def accounted_def has_key_def)
  qed
  then show "conserves deps dlq d d'" "pk d'" by simp_all
qed

section \<open>The loop\<close>

text \<open>The dead letters of the queue, and those the redrive has not looked at.\<close>

definition dead_letters :: "string \<Rightarrow> pg \<Rightarrow> job set" where
  "dead_letters dlq d = {j \<in> set (pg_jobs d). job_name j = dlq}"

definition untried :: "string \<Rightarrow> pg \<Rightarrow> string list \<Rightarrow> string set" where
  "untried dlq d tried = job_id ` dead_letters dlq d - set tried"

lemma finite_dead [simp]: "finite (dead_letters dlq d)" "finite (untried dlq d tried)"
  by (simp_all add: dead_letters_def untried_def)

definition was_moved :: "move_result \<Rightarrow> bool" where
  "was_moved r \<longleftrightarrow> (case r of Inr (Moved, _) \<Rightarrow> True | _ \<Rightarrow> False)"

lemma was_moved_simps [simp]: "was_moved (Inl e) = False" "was_moved (Inr (out, ws, rej)) = (out = Moved)"
  by (auto simp: was_moved_def split: outcome.splits)

lemma moveOne_dead_letters:
  assumes "boss_send (rd_send deps)" "moveOne deps dlq jid d = (r, d')" "pk d"
  obtains new where "job_id ` dead_letters dlq d' \<subseteq> job_id ` dead_letters dlq d \<union> new"
    "card new \<le> (if was_moved r then 1 else 0)" "finite new"
proof (cases "was_moved r")
  case False
  then have "d' = d"
    by (intro moveOne_not_moved [OF assms(2)]) auto
  then show thesis using that [of "{}"] by simp
next
  case True
  then obtain ws rej where r: "r = Inr (Moved, ws, rej)"
    by (auto simp: was_moved_def split: sum.splits outcome.splits)
  obtain copy j where "set (pg_jobs d') = {k \<in> set (pg_jobs d). \<not> has_key dlq jid k \<and> job_key k \<noteq> job_key j} \<union> {j}"
    using assms(2) r by (auto intro: moveOne_moved [OF assms(1) _ assms(3)])
  then have "job_id ` dead_letters dlq d' \<subseteq> job_id ` dead_letters dlq d \<union> {job_id j}"
    by (auto simp: dead_letters_def)
  then show thesis using that [of "{job_id j}"] True by simp
qed

lemma untried_step:
  assumes "boss_send (rd_send deps)" "moveOne deps dlq jid d = (r, d')" "pk d"
  shows "card (untried dlq d' (jid # tried)) + (if jid \<in> untried dlq d tried then 1 else 0)
    \<le> card (untried dlq d tried) + (if was_moved r then 1 else 0)"
proof -
  obtain new where new: "job_id ` dead_letters dlq d' \<subseteq> job_id ` dead_letters dlq d \<union> new"
      "card new \<le> (if was_moved r then 1 else 0)" "finite new"
    by (rule moveOne_dead_letters [OF assms])
  let ?u = "untried dlq d tried"
  have "untried dlq d' (jid # tried) \<subseteq> (?u - {jid}) \<union> new"
    using new(1) by (auto simp: untried_def)
  then have "card (untried dlq d' (jid # tried)) \<le> card ((?u - {jid}) \<union> new)"
    by (rule card_mono [rotated]) (simp add: new(3))
  also have "\<dots> \<le> card (?u - {jid}) + card new"
    by (rule card_Un_le)
  finally have 1: "card (untried dlq d' (jid # tried)) \<le> card (?u - {jid}) + card new" .
  show ?thesis
  proof (cases "jid \<in> ?u")
    case True
    then have "card (?u - {jid}) = card ?u - 1" "0 < card ?u"
      by (simp_all add: card_gt_0_iff) auto
    then show ?thesis using 1 new(2) True by simp
  next
    case False
    then show ?thesis using 1 new(2) by simp
  qed
qed

text \<open>What every state of a redrive that began with the tables \<open>d\<close> satisfies.\<close>

definition redrive_inv :: "redrive_deps \<Rightarrow> string \<Rightarrow> nat \<Rightarrow> pg \<Rightarrow> redrive_state \<Rightarrow> bool" where
  "redrive_inv deps dlq limit d st \<longleftrightarrow>
     conserves deps dlq d (rs_db st) \<and> pk (rs_db st) \<and> rs_moved st \<le> limit \<and>
     ((\<forall>j\<in>dead_letters dlq d. job_source_name j \<noteq> Some dlq) \<longrightarrow>
        (\<forall>j\<in>dead_letters dlq (rs_db st). job_source_name j \<noteq> Some dlq) \<and>
        card (dead_letters dlq d) = rs_moved st + card (dead_letters dlq (rs_db st)))"

definition redrive_measure :: "string \<Rightarrow> nat \<Rightarrow> redrive_state \<Rightarrow> nat" where
  "redrive_measure dlq limit st = card (untried dlq (rs_db st) (rs_tried st)) + (limit - rs_moved st)"

lemma moveOne_count:
  assumes "boss_send (rd_send deps)" "moveOne deps dlq jid d = (r, d')" "pk d"
    and "\<forall>j\<in>dead_letters dlq d. job_source_name j \<noteq> Some dlq"
  shows "dead_letters dlq d' \<subseteq> dead_letters dlq d
    \<and> card (dead_letters dlq d) = (if was_moved r then 1 else 0) + card (dead_letters dlq d')"
proof (cases "was_moved r")
  case False
  then have "d' = d"
    by (intro moveOne_not_moved [OF assms(2)]) auto
  then show ?thesis using False by simp
next
  case True
  then obtain ws rej where r: "r = Inr (Moved, ws, rej)"
    by (auto simp: was_moved_def split: sum.splits outcome.splits)
  obtain copy j where c: "copy \<in> set (pg_jobs d)" "has_key dlq jid copy" "redriven (rd_policyFor deps) copy j"
      "set (pg_jobs d') = {k \<in> set (pg_jobs d). \<not> has_key dlq jid k \<and> job_key k \<noteq> job_key j} \<union> {j}"
    using assms(2) r by (auto intro: moveOne_moved [OF assms(1) _ assms(3)])
  have copy: "copy \<in> dead_letters dlq d"
    using c(1,2) by (simp add: dead_letters_def has_key_def)
  then have j: "job_name j \<noteq> dlq"
    using assms(4) c(3) by (auto simp: redriven_def fresh_job_def)
  have uniq: "has_key dlq jid k \<longleftrightarrow> k = copy" if "k \<in> set (pg_jobs d)" for k
    using pk_unique [OF assms(3) that c(1)] c(2) by (auto simp: has_key_def job_key_def)
  have keys: "job_key k \<noteq> job_key j" if "job_name k = dlq" for k
    using j that by (simp add: job_key_def)
  have "dead_letters dlq d' = {k \<in> set (pg_jobs d). job_name k = dlq \<and> k \<noteq> copy}"
    unfolding dead_letters_def c(4) using j keys uniq by blast
  then have "dead_letters dlq d' = dead_letters dlq d - {copy}"
    by (auto simp: dead_letters_def)
  moreover have "0 < card (dead_letters dlq d)"
    using copy by (auto simp: card_gt_0_iff)
  ultimately show ?thesis using copy True by auto
qed

lemma note_outcome_simps [simp]:
  "rs_db (note_outcome jid out ws rej d' st) = d'"
  "rs_tried (note_outcome jid out ws rej d' st) = jid # rs_tried st"
  "rs_moved (note_outcome jid out ws rej d' st) = rs_moved st + (if out = Moved then 1 else 0)"
  by (simp_all add: note_outcome_def)

lemma redrive_step:
  assumes "boss_send (rd_send deps)" "redrive_inv deps dlq limit d st" "rs_moved st < limit"
    and "moveOne deps dlq jid (rs_db st) = (r, d')"
    and "rs_db st' = d'" "rs_tried st' = jid # rs_tried st" "rs_moved st' = rs_moved st + (if was_moved r then 1 else 0)"
  shows "redrive_inv deps dlq limit d st'"
    and "redrive_measure dlq limit st' + (if jid \<in> untried dlq (rs_db st) (rs_tried st) then 1 else 0) \<le> redrive_measure dlq limit st"
proof -
  have pk: "pk (rs_db st)" and cons: "conserves deps dlq d (rs_db st)"
    using assms(2) by (simp_all add: redrive_inv_def)
  note one = moveOne_conserves [OF assms(1,4) pk]
  show "redrive_inv deps dlq limit d st'"
  proof -
    have "rs_moved st' \<le> limit"
      using assms(3,7) by simp
    moreover have "(\<forall>j\<in>dead_letters dlq d'. job_source_name j \<noteq> Some dlq) \<and>
        card (dead_letters dlq d) = rs_moved st' + card (dead_letters dlq d')"
      if own: "\<forall>j\<in>dead_letters dlq d. job_source_name j \<noteq> Some dlq"
    proof -
      have 1: "\<forall>j\<in>dead_letters dlq (rs_db st). job_source_name j \<noteq> Some dlq"
          "card (dead_letters dlq d) = rs_moved st + card (dead_letters dlq (rs_db st))"
        using assms(2) own by (simp_all add: redrive_inv_def)
      have 2: "dead_letters dlq d' \<subseteq> dead_letters dlq (rs_db st)"
          "card (dead_letters dlq (rs_db st)) = (if was_moved r then 1 else 0) + card (dead_letters dlq d')"
        using moveOne_count [OF assms(1,4) pk 1(1)] by simp_all
      show ?thesis
        using 1(1) 2(1) by (simp add: 1(2) 2(2) assms(7)) blast
    qed
    ultimately show ?thesis
      using conserves_trans [OF cons one(1)] one(2) by (simp add: redrive_inv_def assms(5))
  qed
  show "redrive_measure dlq limit st' + (if jid \<in> untried dlq (rs_db st) (rs_tried st) then 1 else 0) \<le> redrive_measure dlq limit st"
    using untried_step [OF assms(1,4) pk, of "rs_tried st"] assms(3)
    by (cases "was_moved r"; cases "jid \<in> untried dlq (rs_db st) (rs_tried st)")
       (simp_all add: redrive_measure_def assms(5-7))
qed

text \<open>A pass keeps the invariant and does not raise the measure; if its first candidate was untried, it lowers it.\<close>

lemma redrive_batch_inv:
  assumes "boss_send (rd_send deps)" "redrive_inv deps dlq limit d st" "rs_moved st < limit"
    and "redrive_batch deps dlq limit cs st = (e, st')"
  shows "redrive_inv deps dlq limit d st'
    \<and> redrive_measure dlq limit st' + (if cs \<noteq> [] \<and> e = None \<and> hd cs \<in> untried dlq (rs_db st) (rs_tried st) then 1 else 0)
      \<le> redrive_measure dlq limit st"
  using assms(2-4)
proof (induction cs arbitrary: st)
  case Nil
  then show ?case by simp
next
  case (Cons jid cs)
  obtain r d' where m: "moveOne deps dlq jid (rs_db st) = (r, d')"
    by fastforce
  show ?case
  proof (cases r)
    case (Inl err)
    let ?st = "st\<lparr>rs_tried := jid # rs_tried st, rs_db := d'\<rparr>"
    have "st' = ?st" "e = Some err"
      using Cons.prems(3) m Inl by simp_all
    then show ?thesis
      using redrive_step [OF assms(1) Cons.prems(1,2) m, of ?st] Inl by (auto split: if_splits)
  next
    case (Inr x)
    obtain out ws rej where x: "x = (out, ws, rej)"
      by (cases x)
    let ?st = "note_outcome jid out ws rej d' st"
    note one = redrive_step [OF assms(1) Cons.prems(1,2) m, of ?st, unfolded Inr x, simplified]
    show ?thesis
    proof (cases "limit \<le> rs_moved ?st")
      case True
      then have "st' = ?st"
        using Cons.prems(3) m Inr x by (simp add: Let_def del: note_outcome_simps)
      then show ?thesis using one by (auto split: if_splits)
    next
      case False
      then have rest: "redrive_batch deps dlq limit cs ?st = (e, st')"
        using Cons.prems(3) m Inr x by (simp add: Let_def del: note_outcome_simps)
      have "redrive_inv deps dlq limit d st' \<and> redrive_measure dlq limit st' \<le> redrive_measure dlq limit ?st"
        using Cons.IH [OF one(1) _ rest] False by (auto split: if_splits)
      then show ?thesis using one(2) by (auto split: if_splits)
    qed
  qed
qed

lemma redrive_batch_stop:
  "redrive_batch deps dlq limit cs st = (None, st') \<Longrightarrow> rs_moved st < limit \<Longrightarrow> rs_moved st' \<le> limit"
  by (induction cs arbitrary: st) (auto simp: Let_def split: prod.splits sum.splits if_splits)

lemma candidate_untried:
  "jid \<in> set (candidateIds deps dlq rf n tried d) \<Longrightarrow> jid \<in> untried dlq d tried"
  by (auto simp: candidateIds_def candidate_def untried_def dead_letters_def dest!: in_set_takeD)

lemma redrive_loop_inv:
  assumes "boss_send (rd_send deps)" "redrive_inv deps dlq limit d st" "redrive_loop fuel deps dlq rf limit st = Some (e, st')"
  shows "redrive_inv deps dlq limit d st'"
  using assms(2,3)
proof (induction fuel arbitrary: st)
  case (Suc fuel)
  let ?cs = "candidateIds deps dlq rf (limit - rs_moved st) (rs_tried st) (rs_db st)"
  obtain b st1 where b: "redrive_batch deps dlq limit ?cs st = (b, st1)"
    by fastforce
  show ?case
  proof (cases "limit \<le> rs_moved st \<or> ?cs = []")
    case True
    then show ?thesis using Suc.prems by (auto split: list.splits)
  next
    case False
    then have "redrive_inv deps dlq limit d st1"
      using redrive_batch_inv [OF assms(1) Suc.prems(1) _ b] by simp
    then show ?thesis
      using Suc.prems(2) False b Suc.IH [of st1] by (cases b) (auto split: list.splits)
  qed
qed simp

lemma redrive_loop_returns:
  assumes "boss_send (rd_send deps)" "redrive_inv deps dlq limit d st" "redrive_measure dlq limit st < fuel"
  shows "redrive_loop fuel deps dlq rf limit st \<noteq> None"
  using assms(2,3)
proof (induction fuel arbitrary: st)
  case (Suc fuel)
  let ?cs = "candidateIds deps dlq rf (limit - rs_moved st) (rs_tried st) (rs_db st)"
  obtain b st1 where b: "redrive_batch deps dlq limit ?cs st = (b, st1)"
    by fastforce
  show ?case
  proof (cases "limit \<le> rs_moved st \<or> ?cs = []")
    case True
    then show ?thesis by (auto split: list.splits)
  next
    case False
    then have lim: "rs_moved st < limit"
      by simp
    have first: "hd ?cs \<in> untried dlq (rs_db st) (rs_tried st)"
      using False by (intro candidate_untried [of _ deps dlq rf "limit - rs_moved st"]) simp
    note one = redrive_batch_inv [OF assms(1) Suc.prems(1) lim b]
    have "redrive_loop fuel deps dlq rf limit st1 \<noteq> None" if "b = None"
      using Suc.IH [of st1] one that first False Suc.prems(2) by auto
    then show ?thesis
      using False b by (cases b) (auto split: list.splits)
  qed
qed simp

lemma redrive_start_inv: "pk d \<Longrightarrow> redrive_inv deps dlq limit d (redrive_start d)"
  by (simp add: redrive_inv_def redrive_start_def conserves_refl)

lemma redrive_start_measure: "redrive_measure dlq limit (redrive_start d) < redrive_fuel limit d"
proof -
  have "card (untried dlq d []) \<le> card (job_id ` set (pg_jobs d))"
    by (rule card_mono) (auto simp: untried_def dead_letters_def)
  also have "\<dots> \<le> length (pg_jobs d)"
    by (metis card_length image_set length_map)
  finally show ?thesis
    by (simp add: redrive_measure_def redrive_start_def redrive_fuel_def)
qed

lemma redrive_checks_Inr: "redrive_checks dlq limit rf d = Inr n \<Longrightarrow> 1 \<le> n \<and> int n \<le> REDRIVE_MAX_LIMIT \<and> limit = Some (int n)"
  by (auto simp: redrive_checks_def res_simps split: option.splits)

lemma redrive_conserves_lemma:
  assumes "boss_send (rd_send deps)" "pk d" "redriveDeadLetters deps dlq limit rf d = Some (res, st)"
  shows "conserves deps dlq d (rs_db st) \<and> pk (rs_db st)
    \<and> (\<forall>m s. res = Inr (m, s) \<longrightarrow> int m \<le> (case limit of None \<Rightarrow> 100 | Some n \<Rightarrow> the n) \<and>
         ((\<forall>j\<in>dead_letters dlq d. job_source_name j \<noteq> Some dlq) \<longrightarrow>
            card (dead_letters dlq d) = m + card (dead_letters dlq (rs_db st))))"
proof (cases "redrive_checks dlq (case limit of None \<Rightarrow> Some REDRIVE_DEFAULT_LIMIT | Some n \<Rightarrow> n) rf d")
  case (Inl e)
  then show ?thesis
    using assms(2,3) by (auto simp: redriveDeadLetters_def redrive_start_def conserves_refl)
next
  case (Inr n)
  note n = redrive_checks_Inr [OF Inr]
  obtain e st1 where loop: "redrive_loop (redrive_fuel n d) deps dlq rf n (redrive_start d) = Some (e, st1)"
    using assms(3) Inr by (auto simp: redriveDeadLetters_def split: option.splits)
  have inv: "redrive_inv deps dlq n d st1"
    by (rule redrive_loop_inv [OF assms(1) redrive_start_inv loop]) (rule assms(2))
  have st: "rs_db st = rs_db st1" "res = Inr (m, s) \<Longrightarrow> m = rs_moved st1" for m s
    using assms(3) Inr loop by (auto simp: redriveDeadLetters_def split: option.splits)
  have "int (rs_moved st1) \<le> (case limit of None \<Rightarrow> 100 | Some n \<Rightarrow> the n)"
    using inv n by (auto simp: redrive_inv_def REDRIVE_DEFAULT_LIMIT_def split: option.splits)
  then show ?thesis
    using inv st by (auto simp: redrive_inv_def)
qed

text \<open>
  C18. A redrive loses no payload, whatever it returns, an error of the database included. Every row of the job table
  is there afterwards, unless it is the failed original of a job that is back under its id, or a waiting dead letter
  of this queue, not past its deadline, whose origin queue is defined here and permits it; and then the job made from
  it is in its origin queue, with the same id, data and priority and a fresh retry budget. Every row afterwards was
  there or was made so, and ids stay unique. At most \<open>limit\<close> jobs move, and when no queue is its own origin the number
  reported as moved is exactly the number of dead letters gone.
\<close>

theorem redrive_conserves:
  assumes "boss_send (rd_send deps)" "pk d" "redriveDeadLetters deps dlq limit rf d = Some (res, st)"
  shows "conserves deps dlq d (rs_db st) \<and> pk (rs_db st)
    \<and> (\<forall>m s. res = Inr (m, s) \<longrightarrow> int m \<le> (case limit of None \<Rightarrow> 100 | Some n \<Rightarrow> the n) \<and>
         ((\<forall>j\<in>dead_letters dlq d. job_source_name j \<noteq> Some dlq) \<longrightarrow>
            card (dead_letters dlq d) = m + card (dead_letters dlq (rs_db st))))"
  by (rule redrive_conserves_lemma [OF assms])

text \<open>
  C21. A redrive always ends: however many copies its rules reject or cannot be moved, no copy is tried twice, and a
  row a move may add to the same queue is paid for by the limit.
\<close>

theorem redrive_returns:
  assumes "boss_send (rd_send deps)" "pk d"
  shows "redriveDeadLetters deps dlq limit rf d \<noteq> None"
proof (cases "redrive_checks dlq (case limit of None \<Rightarrow> Some REDRIVE_DEFAULT_LIMIT | Some n \<Rightarrow> n) rf d")
  case (Inr n)
  have "redrive_loop (redrive_fuel n d) deps dlq rf n (redrive_start d) \<noteq> None"
    by (rule redrive_loop_returns [OF assms(1) redrive_start_inv redrive_start_measure]) (rule assms(2))
  then show ?thesis using Inr by (auto simp: redriveDeadLetters_def split: option.splits)
qed (simp add: redriveDeadLetters_def)

section \<open>An example: one dead letter that its rule permits\<close>

definition dead_letter :: "string \<Rightarrow> string \<Rightarrow> jsval \<Rightarrow> job" where
  "dead_letter i source data = \<lparr>job_name = ''d'', job_id = i, job_data = data, job_priority = 0,
     job_state = Created, job_retry = 0, job_source_name = Some ''m'', job_source_id = Some source,
     job_created = 5, job_start = 5, job_keep = 900, job_blocked = False\<rparr>"

definition example_pg :: pg where
  "example_pg = \<lparr>pg_queues = [(''m'', Some ''d''), (''d'', None)], pg_jobs = [dead_letter ''a'' ''u'' (JNum 7)]\<rparr>"

definition example_deps :: redrive_deps where
  "example_deps = \<lparr>rd_send = mem_send,
     rd_policyFor = (\<lambda>q. if q = ''m'' then Some (Some (\<lambda>v. Some (JBool (v \<noteq> JNum 8)))) else None),
     rd_now = 10, rd_locked = (\<lambda>_. False), rd_contains = (\<lambda>_ _. True)\<rparr>"

definition no_filter :: redrive_filter where
  "no_filter = \<lparr>rf_ids = None, rf_createdBefore = None, rf_origin = None, rf_data = None\<rparr>"

lemma example_laws: "boss_send (rd_send example_deps)" "pk example_pg"
  by (simp add: example_deps_def mem_boss.boss_send_axioms) (simp add: pk_def example_pg_def dead_letter_def job_key_def)

definition redriven_pg :: pg where
  "redriven_pg = \<lparr>pg_queues = [(''m'', Some ''d''), (''d'', None)], pg_jobs = [mem_job ''m'' ''u'' (JNum 7) 0]\<rparr>"

lemma example_candidates:
  "candidateIds example_deps ''d'' no_filter (Suc n) [] example_pg = [''a'']"
  "candidateIds example_deps ''d'' no_filter (Suc n) tried redriven_pg = []"
  by (simp_all add: candidateIds_def candidate_def example_deps_def no_filter_def example_pg_def redriven_pg_def
      dead_letter_def live_copy_def waiting_def nonempty_def mem_job_def)

lemma example_move: "moveOne example_deps ''d'' ''a'' example_pg = (Inr (Moved, [], None), redriven_pg)"
  by (simp add: moveOne_def move_def example_deps_def example_pg_def redriven_pg_def dead_letter_def live_copy_def
      waiting_def nonempty_def has_key_def queue_exists_def allowed_def mem_send_def has_job_def mem_job_def Let_def)

definition redriven_state :: redrive_state where
  "redriven_state = \<lparr>rs_tried = [''a''], rs_rejected = [], rs_moved = 1, rs_skipped = 0, rs_warnings = [], rs_db = redriven_pg\<rparr>"

lemma example_redrive:
  "redriveDeadLetters example_deps ''d'' None no_filter example_pg = Some (Inr (1, 0), redriven_state)"
proof -
  have checks: "redrive_checks ''d'' (Some REDRIVE_DEFAULT_LIMIT) no_filter example_pg = Inr 100"
    by (simp add: redrive_checks_def REDRIVE_DEFAULT_LIMIT_def REDRIVE_MAX_LIMIT_def no_filter_def example_pg_def)
  have n: "redrive_fuel 100 example_pg = Suc (Suc 100)" "100 = Suc 99"
    by (simp_all add: redrive_fuel_def example_pg_def)
  have start: "rs_db (redrive_start example_pg) = example_pg" "rs_moved (redrive_start example_pg) = 0"
      "rs_tried (redrive_start example_pg) = []"
    by (simp_all add: redrive_start_def)
  have batch: "redrive_batch example_deps ''d'' 100 [''a''] (redrive_start example_pg) = (None, redriven_state)"
    by (simp add: start example_move) (simp add: note_outcome_def redrive_start_def redriven_state_def count_origin_def)
  have state: "rs_moved redriven_state = 1" "rs_db redriven_state = redriven_pg" "rs_skipped redriven_state = 0"
      "rs_rejected redriven_state = []" "rs_warnings redriven_state = []"
    by (simp_all add: redriven_state_def)
  have c: "candidateIds example_deps ''d'' no_filter 100 [] example_pg = [''a'']"
      "candidateIds example_deps ''d'' no_filter 99 (rs_tried redriven_state) redriven_pg = []"
    using example_candidates(1) [of 99] example_candidates(2) [of 98] by simp_all
  have loop: "redrive_loop (Suc (Suc k)) example_deps ''d'' no_filter 100 (redrive_start example_pg) = Some (None, redriven_state)" for k
    by (simp add: start c batch state del: redrive_batch.simps)
  show ?thesis
    by (simp only: redriveDeadLetters_def checks n(1) loop option.case sum.case prod.case) (simp add: state redriven_state_def)
qed

theorem redrive_conserves_witness:
  "conserves example_deps ''d'' example_pg redriven_pg \<and> card (dead_letters ''d'' redriven_pg) = 0"
proof -
  have dead: "dead_letters ''d'' example_pg = {dead_letter ''a'' ''u'' (JNum 7)}"
    by (auto simp: dead_letters_def example_pg_def dead_letter_def)
  have "\<forall>j\<in>dead_letters ''d'' example_pg. job_source_name j \<noteq> Some ''d''"
    by (simp add: dead) (simp add: dead_letter_def)
  then show ?thesis
    using redrive_conserves [OF example_laws example_redrive] by (simp add: dead redriven_state_def)
qed

theorem redrive_returns_witness:
  "redriveDeadLetters example_deps ''d'' (Some (Some 1)) no_filter example_pg \<noteq> None"
  by (rule redrive_returns [OF example_laws])

end
