(* ===== verification/JobsCore.thy ===== *)
theory JobsCore
  imports Redrive RequestContext "HOL-Library.Word"
begin

text \<open>
  The small parts the jobs engine is made of (\<open>platform-jobs/src\<close>): the role of a process and the options pg-boss is
  built with (\<open>boss-options.ts\<close>), how long stopping may take (\<open>budget.ts\<close>), the correlation id of a job
  (\<open>correlation.ts\<close>), the job id of an idempotency key (\<open>idempotency.ts\<close>), and the grants of the migration
  (\<open>install.ts\<close>). \<open>Number(text)\<close> is a parameter (\<open>None\<close> when it is not an integer), and so is SHA-1.
\<close>

section \<open>The role of a process and the options of pg-boss\<close>

datatype role = Worker | Api

definition roleFrom :: "env \<Rightarrow> role" where
  "roleFrom env =
     (case env ''ROLE'' of Some v \<Rightarrow> if map to_lower (js_trim v) = ''worker'' then Worker else Api | None \<Rightarrow> Api)"

record boss_options =
  bo_schema :: string
  bo_migrate :: bool
  bo_createSchema :: bool
  bo_persistQueueStats :: bool
  bo_supervise :: bool
  bo_schedule :: bool
  bo_superviseIntervalSeconds :: int
  bo_maintenanceIntervalSeconds :: int
  bo_monitorIntervalSeconds :: "int option"
  bo_instanceName :: "string option"

definition bossOptions :: "role \<Rightarrow> string option \<Rightarrow> int option \<Rightarrow> int option \<Rightarrow> int option \<Rightarrow> boss_options" where
  "bossOptions r instanceName supervise monitor maintenance =
     \<lparr>bo_schema = ''pgboss'', bo_migrate = False, bo_createSchema = False, bo_persistQueueStats = False,
      bo_supervise = (r = Worker), bo_schedule = (r = Worker),
      bo_superviseIntervalSeconds = (case supervise of Some n \<Rightarrow> n | None \<Rightarrow> df_superviseIntervalSeconds DEFAULTS),
      bo_maintenanceIntervalSeconds = (case maintenance of Some n \<Rightarrow> n | None \<Rightarrow> df_maintenanceIntervalSeconds DEFAULTS),
      bo_monitorIntervalSeconds = monitor,
      bo_instanceName = (if nonempty instanceName then instanceName else None)\<rparr>"

lemma only_a_worker_supervises:
  "bo_supervise (bossOptions r n s m t) \<longleftrightarrow> r = Worker" "bo_schedule (bossOptions r n s m t) \<longleftrightarrow> r = Worker"
  "\<not> bo_migrate (bossOptions r n s m t)"
  by (simp_all add: bossOptions_def)

section \<open>How long stopping may take\<close>

definition DEFAULT_TIMEOUT_MS :: int where "DEFAULT_TIMEOUT_MS = 25000"
definition DEFAULT_ENDPOINT_DELAY_MS :: int where "DEFAULT_ENDPOINT_DELAY_MS = 5000"
definition RESERVE_MS :: int where "RESERVE_MS = 3000"
definition MIN_BUDGET_MS :: int where "MIN_BUDGET_MS = 1000"

definition env_ms :: "(string \<Rightarrow> js_int) \<Rightarrow> env \<Rightarrow> string \<Rightarrow> int \<Rightarrow> int" where
  "env_ms number env name fallback =
     (case map_option js_trim (env name) of
        None \<Rightarrow> fallback
      | Some raw \<Rightarrow> if raw = [] then fallback
                   else (case number raw of Some v \<Rightarrow> if 0 \<le> v then v else fallback | None \<Rightarrow> fallback))"

definition stopBudgetMs :: "(string \<Rightarrow> js_int) \<Rightarrow> env \<Rightarrow> bool \<Rightarrow> int" where
  "stopBudgetMs number env hasHttpServer =
     (let timeout = env_ms number env ''SHUTDOWN_TIMEOUT_MS'' DEFAULT_TIMEOUT_MS;
          delay = (if \<not> hasHttpServer then 0
                   else env_ms number env ''SHUTDOWN_ENDPOINT_DELAY_MS''
                          (if nonempty (env ''KUBERNETES_SERVICE_HOST'') then DEFAULT_ENDPOINT_DELAY_MS else 0))
      in max MIN_BUDGET_MS (timeout - delay - RESERVE_MS))"

text \<open>The budget and the delay fit inside the deadline, unless the deadline is too short for either.\<close>

lemma stop_budget_fits:
  fixes number env
  defines "timeout \<equiv> env_ms number env ''SHUTDOWN_TIMEOUT_MS'' DEFAULT_TIMEOUT_MS"
    and "delay \<equiv> env_ms number env ''SHUTDOWN_ENDPOINT_DELAY_MS''
      (if nonempty (env ''KUBERNETES_SERVICE_HOST'') then DEFAULT_ENDPOINT_DELAY_MS else 0)"
  assumes "delay + RESERVE_MS + MIN_BUDGET_MS \<le> timeout"
  shows "delay + stopBudgetMs number env True + RESERVE_MS = timeout"
    and "stopBudgetMs number env True \<le> stopBudgetMs number env False"
proof -
  have "0 \<le> delay"
    by (auto simp: delay_def env_ms_def DEFAULT_ENDPOINT_DELAY_MS_def split: option.splits)
  then show "delay + stopBudgetMs number env True + RESERVE_MS = timeout"
      "stopBudgetMs number env True \<le> stopBudgetMs number env False"
    using assms(3) by (simp_all add: stopBudgetMs_def Let_def flip: timeout_def delay_def)
qed

section \<open>The correlation id of a job\<close>

definition currentCorrelationId :: "als \<Rightarrow> string option" where
  "currentCorrelationId st =
     (case st of None \<Rightarrow> None
      | Some cx \<Rightarrow> if SAFE_CORRELATION_ID (cx_correlationId cx) then Some (cx_correlationId cx) else None)"

definition CORRELATION_MAX_LENGTH :: nat where "CORRELATION_MAX_LENGTH = 128"

definition safe_char :: "char \<Rightarrow> bool" where
  "safe_char c \<longleftrightarrow> is_alnum c \<or> c \<in> {CHR ''.'', CHR ''_'', CHR '':'', CHR ''-''}"

definition replace_unsafe :: "string \<Rightarrow> string" where
  "replace_unsafe = map (\<lambda>c. if safe_char c then c else CHR ''.'')"

definition fallbackCorrelationId :: "string \<Rightarrow> string \<Rightarrow> string" where
  "fallbackCorrelationId q jobId =
     (let i = take 64 (replace_unsafe jobId);
          room = int CORRELATION_MAX_LENGTH - 1 - int (length i)
      in take (nat (max 1 room)) (replace_unsafe q) @ CHR '':'' # i)"

definition correlationIdFor :: "string \<Rightarrow> string \<Rightarrow> jsval \<Rightarrow> string" where
  "correlationIdFor q jobId data =
     (case (case data of JObj ps \<Rightarrow> member_of ''correlationId'' ps
            | JStream ps \<Rightarrow> member_of ''correlationId'' ps | _ \<Rightarrow> JUndef) of
        JStr given_id \<Rightarrow> if SAFE_CORRELATION_ID given_id then given_id else fallbackCorrelationId q jobId
      | _ \<Rightarrow> fallbackCorrelationId q jobId)"

lemma replace_unsafe_safe: "list_all safe_char (replace_unsafe s)"
  by (auto simp: replace_unsafe_def list_all_iff) (simp add: safe_char_def)

lemma list_all_take: "list_all P xs \<Longrightarrow> list_all P (take n xs)"
  by (auto simp: list_all_iff dest: in_set_takeD)

lemma fallback_safe: "SAFE_CORRELATION_ID (fallbackCorrelationId q i)"
proof -
  have all: "list_all safe_char (fallbackCorrelationId q i)"
    by (simp add: fallbackCorrelationId_def Let_def list_all_take replace_unsafe_safe) (simp add: safe_char_def)
  have "length (fallbackCorrelationId q i) \<le> 128" "1 \<le> length (fallbackCorrelationId q i)"
    by (auto simp: fallbackCorrelationId_def Let_def CORRELATION_MAX_LENGTH_def)
  then show ?thesis
    using all by (simp add: SAFE_CORRELATION_ID_def safe_char_def [abs_def])
qed

text \<open>Every handler runs under a valid id, so the next job can continue it.\<close>

lemma job_correlation_safe: "SAFE_CORRELATION_ID (correlationIdFor q i data)"
  by (auto simp: correlationIdFor_def fallback_safe split: jsval.splits)

section \<open>The job id of an idempotency key\<close>

type_synonym byte = "8 word"

definition NAMESPACE :: "byte list" where
  "NAMESPACE = [0x4c, 0x9d, 0x0f, 0x3e, 0xa6, 0xb2, 0x4f, 0x6d, 0x9a, 0x5e, 0x1b, 0x7c, 0x2d, 0x8f, 0x3a, 0x60]"

definition hex_byte :: "byte \<Rightarrow> string" where
  "hex_byte b = [hex_digit (unat b div 16), hex_digit (unat b mod 16)]"

definition hashed_key :: "string \<Rightarrow> string \<Rightarrow> byte list" where
  "hashed_key q key = NAMESPACE @ map word_of_nat (utf8 (q @ char_of (0::nat) # key))"

unbundle bit_operations_syntax

definition uuid_bytes :: "byte list \<Rightarrow> byte list" where
  "uuid_bytes hash = (let h = hash[6 := (hash ! 6 AND 0x0f) OR 0x50] in take 16 (h[8 := (h ! 8 AND 0x3f) OR 0x80]))"

definition slice_text :: "nat \<Rightarrow> nat \<Rightarrow> string \<Rightarrow> string" where
  "slice_text a b s = take (b - a) (drop a s)"

definition idempotencyId :: "(byte list \<Rightarrow> byte list) \<Rightarrow> string \<Rightarrow> string \<Rightarrow> string" where
  "idempotencyId sha1 q key =
     (let hex = concat (map hex_byte (uuid_bytes (sha1 (hashed_key q key))))
      in slice_text 0 8 hex @ CHR ''-'' # slice_text 8 12 hex @ CHR ''-'' # slice_text 12 16 hex @
         CHR ''-'' # slice_text 16 20 hex @ CHR ''-'' # drop 20 hex)"

lemma hex_byte_length [simp]: "length (hex_byte b) = 2"
  by (simp add: hex_byte_def)

lemma hex_length [simp]: "length (concat (map hex_byte bs)) = 2 * length bs"
  by (induction bs) simp_all

lemma hex_byte_hex: "list_all is_hex (hex_byte b)"
proof -
  have "unat b < 256"
    using unsigned_less [of b] by simp
  then show ?thesis
    by (simp add: hex_byte_def is_hex_digit)
qed

lemma hex_text_hex: "list_all is_hex (concat (map hex_byte bs))"
  by (induction bs) (simp_all add: hex_byte_hex)

lemma hex_no_dash: "list_all is_hex s \<Longrightarrow> CHR ''-'' \<notin> set s"
  by (auto simp: list_all_iff is_hex_def is_digit_def)

text \<open>The id is a UUID, whatever the digest, so a redrive may name it.\<close>

lemma idempotency_id_uuid:
  assumes "\<And>x. length (sha1 x) = 20"
  shows "UUID (idempotencyId sha1 q key)"
proof -
  define hex where "hex = concat (map hex_byte (uuid_bytes (sha1 (hashed_key q key))))"
  have len: "length hex = 32"
    by (simp add: hex_def uuid_bytes_def Let_def assms)
  have all: "list_all is_hex (take n (drop m hex))" for n m
    using hex_text_hex by (auto simp: hex_def list_all_iff dest!: in_set_takeD in_set_dropD)
  have nd: "CHR ''-'' \<notin> set (take n (drop m hex))" "CHR ''-'' \<notin> set (drop m hex)" for n m
    using hex_no_dash [OF all] hex_no_dash [OF all [of "length hex" m]] by simp_all
  have id: "idempotencyId sha1 q key = take 8 (drop 0 hex) @ CHR ''-'' # take 4 (drop 8 hex) @ CHR ''-'' #
      take 4 (drop 12 hex) @ CHR ''-'' # take 4 (drop 16 hex) @ CHR ''-'' # drop 20 hex"
    by (simp add: idempotencyId_def Let_def slice_text_def flip: hex_def)
  have "list_all is_hex (drop 20 hex)"
    using all [of "length hex" 20] by simp
  then have "list_all (\<lambda>c. is_hex c \<or> c = CHR ''-'') (idempotencyId sha1 q key)"
    using all [of 8 0] all [of 4 8] all [of 4 12] all [of 4 16] unfolding id by (auto simp: list_all_iff)
  moreover have "map length (split_on CHR ''-'' (idempotencyId sha1 q key)) = [8, 4, 4, 4, 12]"
    unfolding id by (simp only: split_on_app nd not_False_eq_True split_on_none) (simp add: len)
  ultimately show ?thesis
    by (simp add: UUID_def UUID_SEGMENT_def)
qed

text \<open>The version nibble is 5 and the variant is the one of RFC 9562.\<close>

lemma uuid_version: "unat ((b AND 0x0f) OR 0x50 :: byte) div 16 = 5"
proof -
  let ?w = "(b AND 0x0f) OR 0x50 :: byte"
  have "unat ?w div 2 ^ 4 = unat (drop_bit 4 ?w)"
    by (rule trans [OF drop_bit_eq_div [symmetric] unat_drop_bit_eq [symmetric]])
  also have "drop_bit 4 ?w = 5"
    by (simp only: drop_bit_or drop_bit_and) simp
  finally show ?thesis by simp
qed

text \<open>The hashed text tells the queue from the key, since a queue's name has no NUL.\<close>

lemma queue_name_no_nul: "QUEUE_NAME q \<Longrightarrow> \<forall>c\<in>set q. c \<noteq> char_of (0::nat)"
proof
  fix c
  assume q: "QUEUE_NAME q" and c: "c \<in> set q"
  have "\<not> queue_char (char_of (0::nat))"
    by code_simp
  moreover have "queue_char c"
    using q c by (cases q) (auto simp: QUEUE_NAME_def queue_char_def list_all_iff)
  ultimately show "c \<noteq> char_of (0::nat)" by auto
qed

lemma bytes_inj: "map (word_of_nat :: nat \<Rightarrow> byte) (utf8 s) = map word_of_nat (utf8 t) \<longleftrightarrow> s = t"
proof
  assume eq: "map (word_of_nat :: nat \<Rightarrow> byte) (utf8 s) = map word_of_nat (utf8 t)"
  have "map unat (map (word_of_nat :: nat \<Rightarrow> byte) (utf8 u)) = utf8 u" for u
    using utf8_bytes [of u] by (auto simp: unat_of_nat intro!: map_idI)
  then have "utf8 s = utf8 t"
    using arg_cong [OF eq, of "map unat"] by simp
  then show "s = t" by simp
qed simp

lemma hashed_key_inj:
  assumes "QUEUE_NAME q" "QUEUE_NAME q'" "hashed_key q key = hashed_key q' key'"
  shows "q = q' \<and> key = key'"
proof -
  have "q @ char_of (0::nat) # key = q' @ char_of (0::nat) # key'"
    using assms(3) by (simp add: hashed_key_def bytes_inj)
  then show ?thesis
    by (rule split_at_sep [OF queue_name_no_nul [OF assms(1)] queue_name_no_nul [OF assms(2)]])
qed

section \<open>The grants of the migration\<close>

definition dquote :: char where "dquote = CHR 34"

definition quoteIdent :: "string \<Rightarrow> string" where
  "quoteIdent name = dquote # concat (map (\<lambda>c. if c = dquote then [dquote, dquote] else [c]) name) @ [dquote]"

definition jobsGrantsSql :: "string \<Rightarrow> string \<Rightarrow> string list" where
  "jobsGrantsSql appRole migratorRole =
     (let app = quoteIdent appRole; migrator = quoteIdent migratorRole in
      [''GRANT USAGE ON SCHEMA pgboss TO '' @ app,
       ''GRANT SELECT, INSERT, UPDATE, DELETE ON ALL TABLES IN SCHEMA pgboss TO '' @ app,
       ''GRANT USAGE, SELECT ON ALL SEQUENCES IN SCHEMA pgboss TO '' @ app,
       ''ALTER DEFAULT PRIVILEGES FOR ROLE '' @ migrator @
         '' IN SCHEMA pgboss GRANT SELECT, INSERT, UPDATE, DELETE ON TABLES TO '' @ app,
       ''ALTER DEFAULT PRIVILEGES FOR ROLE '' @ migrator @
         '' IN SCHEMA pgboss GRANT USAGE, SELECT ON SEQUENCES TO '' @ app])"

text \<open>How SQL reads a quoted identifier: the name, and the text after its closing quote.\<close>

fun read_ident :: "string \<Rightarrow> (string \<times> string) option" where
  "read_ident [] = None"
| "read_ident [c] = (if c = dquote then Some ([], []) else None)"
| "read_ident (c # d # s) =
     (if c \<noteq> dquote then map_option (\<lambda>(n, r). (c # n, r)) (read_ident (d # s))
      else if d = dquote then map_option (\<lambda>(n, r). (dquote # n, r)) (read_ident s)
      else Some ([], d # s))"

text \<open>A role's name, whatever it holds, is read back as exactly that name: it cannot end the identifier early.\<close>

lemma quoted_ident_read:
  assumes "rest = [] \<or> hd rest \<noteq> dquote"
  shows "read_ident (tl (quoteIdent name) @ rest) = Some (name, rest)"
proof (induction name)
  case Nil
  then show ?case using assms by (cases rest) (simp_all add: quoteIdent_def)
next
  case (Cons c name)
  let ?t = "concat (map (\<lambda>c. if c = dquote then [dquote, dquote] else [c]) name) @ dquote # rest"
  have t: "read_ident ?t = Some (name, rest)"
    using Cons by (simp add: quoteIdent_def)
  then obtain x xs where "?t = x # xs"
    by (cases ?t) auto
  with t show ?case
    by (auto simp: quoteIdent_def)
qed

end
