(* ===== verification/JobsEngine.thy ===== *)
theory JobsEngine
  imports JobsCore "HOL-Library.Sublist"
begin

text \<open>
  The jobs engine (\<open>platform-jobs/src/engine.ts\<close>): its lifecycle, the queues, handlers and schedules registered
  with it, and \<open>send\<close>. pg-boss is the log of the calls made to it: \<open>fails n c\<close> says whether call number \<open>n\<close>,
  which is \<open>c\<close>, throws. An \<open>await\<close> that throws ends the operation with the state reached.
\<close>

section \<open>State\<close>

datatype engine_life = New | Started | Stopped

record work_options =
  wo_pollingMillis :: int
  wo_batchSize :: int
  wo_localConcurrency :: int
  wo_burstWhenBatchFull :: bool
  wo_perJobResults :: bool

datatype boss_call =
    BossStart | BossStop int | CreateQueue string "string option" | UpdateDeadLetter string int int
  | UpdateQueue string queue_options | Work string work_options | BossSchedule string string jsval string

text \<open>What a handler throws: its name, its message, and whether it carries the permanent mark.\<close>

record thrown_error =
  te_name :: string
  te_message :: string
  te_permanent :: bool

type_synonym handler_fn = "job \<Rightarrow> als \<Rightarrow> (thrown_error + unit) \<times> als"

record registered =
  rg_queue :: resolved_queue
  rg_options :: resolved_handler
  rg_fn :: handler_fn

record scheduled =
  sd_cron :: string
  sd_data :: jsval
  sd_tz :: string

record engine =
  en_role :: role
  en_life :: engine_life
  en_queues :: "(string \<times> resolved_queue) list"
  en_handlers :: "(string \<times> registered) list"
  en_schedules :: "(string \<times> scheduled) list"
  en_timers :: bool
  en_calls :: "boss_call list"

datatype start_hint = NoGrants | SchemaMissing | SeeCause

datatype jobs_error =
    JobsConfig jobs_config_error | WasStopped | NotStarted | StartRefused start_hint string | BossFailed string
  | QueueUndefined string

type_synonym 'a engine_op = "engine \<Rightarrow> (jobs_error + 'a) \<times> engine"

definition createJobs :: "env \<Rightarrow> engine" where
  "createJobs env = \<lparr>en_role = roleFrom env, en_life = New, en_queues = [], en_handlers = [], en_schedules = [],
     en_timers = False, en_calls = []\<rparr>"

section \<open>Sequencing\<close>

definition op_then :: "'a engine_op \<Rightarrow> ('a \<Rightarrow> 'b engine_op) \<Rightarrow> 'b engine_op" where
  "op_then m f e = (case m e of (Inl x, e') \<Rightarrow> (Inl x, e') | (Inr a, e') \<Rightarrow> f a e')"

definition op_return :: "'a \<Rightarrow> 'a engine_op" where "op_return a e = (Inr a, e)"
definition op_throw :: "jobs_error \<Rightarrow> 'a engine_op" where "op_throw x e = (Inl x, e)"

definition op_check :: "jobs_config_error + 'a \<Rightarrow> 'a engine_op" where
  "op_check r e = (case r of Inl x \<Rightarrow> (Inl (JobsConfig x), e) | Inr a \<Rightarrow> (Inr a, e))"

definition op_modify :: "(engine \<Rightarrow> engine) \<Rightarrow> unit engine_op" where "op_modify f e = (Inr (), f e)"

definition boss :: "(nat \<Rightarrow> boss_call \<Rightarrow> string option) \<Rightarrow> boss_call \<Rightarrow> unit engine_op" where
  "boss fails c e =
     (let e' = e\<lparr>en_calls := en_calls e @ [c]\<rparr>
      in case fails (length (en_calls e)) c of None \<Rightarrow> (Inr (), e') | Some m \<Rightarrow> (Inl (BossFailed m), e'))"

fun op_each :: "('a \<Rightarrow> unit engine_op) \<Rightarrow> 'a list \<Rightarrow> unit engine_op" where
  "op_each f [] = op_return ()"
| "op_each f (x # xs) = op_then (f x) (\<lambda>_. op_each f xs)"

section \<open>The lifecycle\<close>

definition has_text :: "string \<Rightarrow> string \<Rightarrow> bool" where
  "has_text pat s = sublist pat (map to_lower s)"

definition has_both :: "string \<Rightarrow> string \<Rightarrow> string \<Rightarrow> bool" where
  "has_both a b s = list_ex (\<lambda>r. prefix a r \<and> sublist b (takeWhile (\<lambda>c. c \<noteq> CHR 10) (drop (length a) r))) (suffixes (map to_lower s))"

definition explainStartFailure :: "string \<Rightarrow> jobs_error" where
  "explainStartFailure message =
     StartRefused
       (if has_text ''permission denied'' message then NoGrants
        else if has_text ''is not installed'' message \<or> has_text ''requires migrations'' message
               \<or> has_both ''schema '' ''does not exist'' message \<or> has_both ''relation '' '' does not exist'' message
        then SchemaMissing else SeeCause) message"

definition ensureQueue :: "(nat \<Rightarrow> boss_call \<Rightarrow> string option) \<Rightarrow> resolved_queue \<Rightarrow> unit engine_op" where
  "ensureQueue fails q =
     op_then (boss fails (CreateQueue (rq_deadLetter q) None)) (\<lambda>_.
     op_then (boss fails (UpdateDeadLetter (rq_deadLetter q) (rq_dlRetentionSeconds q) (rq_dlDeleteAfterSeconds q))) (\<lambda>_.
     op_then (boss fails (CreateQueue (rq_name q) (Some (rq_deadLetter q)))) (\<lambda>_.
       boss fails (UpdateQueue (rq_name q) (rq_queue q)))))"

definition workOptions :: "registered \<Rightarrow> work_options" where
  "workOptions h = \<lparr>wo_pollingMillis = rh_pollingMillis (rg_options h), wo_batchSize = rh_concurrency (rg_options h),
     wo_localConcurrency = 1, wo_burstWhenBatchFull = True, wo_perJobResults = True\<rparr>"

definition startWorker :: "(nat \<Rightarrow> boss_call \<Rightarrow> string option) \<Rightarrow> registered \<Rightarrow> unit engine_op" where
  "startWorker fails h = boss fails (Work (rq_name (rg_queue h)) (workOptions h))"

definition applySchedule :: "(nat \<Rightarrow> boss_call \<Rightarrow> string option) \<Rightarrow> string \<times> scheduled \<Rightarrow> unit engine_op" where
  "applySchedule fails = (\<lambda>(n, s). boss fails (BossSchedule n (sd_cron s) (sd_data s) (sd_tz s)))"

definition start :: "(nat \<Rightarrow> boss_call \<Rightarrow> string option) \<Rightarrow> unit engine_op" where
  "start fails e =
     (case en_life e of
        Started \<Rightarrow> (Inr (), e)
      | Stopped \<Rightarrow> (Inl WasStopped, e)
      | New \<Rightarrow>
          (case boss fails BossStart e of
             (Inl (BossFailed m), e1) \<Rightarrow> (Inl (explainStartFailure m), e1)
           | (Inl x, e1) \<Rightarrow> (Inl x, e1)
           | (Inr _, e1) \<Rightarrow>
               (let e2 = e1\<lparr>en_life := Started\<rparr> in
                op_then (op_each (ensureQueue fails) (map snd (en_queues e2))) (\<lambda>_.
                  if en_role e2 \<noteq> Worker then op_return ()
                  else op_then (op_each (startWorker fails) (map snd (en_handlers e2))) (\<lambda>_.
                       op_then (op_each (applySchedule fails) (en_schedules e2)) (\<lambda>_.
                         op_modify (\<lambda>e. e\<lparr>en_timers := True\<rparr>)))) e2)))"

definition stop :: "(nat \<Rightarrow> boss_call \<Rightarrow> string option) \<Rightarrow> int \<Rightarrow> unit engine_op" where
  "stop fails timeoutMs e =
     (if en_life e \<noteq> Started then (Inr (), e\<lparr>en_life := Stopped\<rparr>)
      else boss fails (BossStop timeoutMs) (e\<lparr>en_life := Stopped, en_timers := False\<rparr>))"

section \<open>Queues, handlers, schedules\<close>

definition defineQueue :: "(nat \<Rightarrow> boss_call \<Rightarrow> string option) \<Rightarrow> string \<Rightarrow> queue_config \<Rightarrow> unit engine_op" where
  "defineQueue fails q config =
     op_then (op_check (resolveQueue q config)) (\<lambda>rq e.
       case map_of (en_queues e) q of
         Some existing \<Rightarrow>
           if rq_fingerprint existing \<noteq> rq_fingerprint rq then op_throw (JobsConfig (DefinedTwice q)) e
           else (Inr (), e)
       | None \<Rightarrow>
           (let e' = e\<lparr>en_queues := en_queues e @ [(q, rq)]\<rparr>
            in if en_life e' = Started then ensureQueue fails rq e' else (Inr (), e')))"

definition defineResolved :: "resolved_queue \<Rightarrow> unit engine_op" where
  "defineResolved rq e =
     (case map_of (en_queues e) (rq_name rq) of
        Some existing \<Rightarrow>
          if rq_fingerprint existing \<noteq> rq_fingerprint rq then op_throw (JobsConfig (DefinedTwice (rq_name rq))) e
          else (Inr (), e\<lparr>en_queues := AList.update (rq_name rq) rq (en_queues e)\<rparr>)
      | None \<Rightarrow> (Inr (), e\<lparr>en_queues := AList.update (rq_name rq) rq (en_queues e)\<rparr>))"

definition handle :: "(nat \<Rightarrow> boss_call \<Rightarrow> string option) \<Rightarrow> string \<Rightarrow> handler_fn \<Rightarrow> handle_options \<Rightarrow> unit engine_op" where
  "handle fails q fn opts e =
     (if map_of (en_handlers e) q \<noteq> None then op_throw (JobsConfig (AlreadyHandled q)) e
      else op_then (op_check (resolveQueue q (ho_queue opts))) (\<lambda>rq.
           op_then (op_check (resolveHandler q opts)) (\<lambda>options.
           op_then (defineResolved rq) (\<lambda>_ e1.
             let h = \<lparr>rg_queue = rq, rg_options = options, rg_fn = fn\<rparr>;
                 e2 = e1\<lparr>en_handlers := en_handlers e1 @ [(q, h)]\<rparr>
             in if en_life e2 \<noteq> Started then (Inr (), e2)
                else op_then (ensureQueue fails rq) (\<lambda>_.
                       if en_role e2 = Worker then startWorker fails h else op_return ()) e2))) e)"

text \<open>The number of fields of a trimmed text, as \<open>split(/\\s+/)\<close> counts them: an empty text has one.\<close>

fun word_count :: "bool \<Rightarrow> string \<Rightarrow> nat" where
  "word_count inside [] = 0"
| "word_count inside (c # cs) =
     (if is_space c then word_count False cs else (if inside then 0 else 1) + word_count True cs)"

definition cron_fields :: "string \<Rightarrow> nat" where
  "cron_fields cron = max 1 (word_count False (js_trim cron))"

definition DEFAULT_TIME_ZONE :: string where "DEFAULT_TIME_ZONE = ''Asia/Ho_Chi_Minh''"

definition plain_config :: queue_config where
  "plain_config = \<lparr>qc_expireInSeconds = None, qc_heartbeatSeconds = None, qc_retryLimit = None,
     qc_acceptDeadLetterOnDrain = False, qc_retryDelaySeconds = None, qc_retryDelayMaxSeconds = None,
     qc_deadLetter = None, qc_retention = no_retention, qc_canRedrive = None\<rparr>"

text \<open>\<open>zone\<close> is whether \<open>Intl\<close> resolves a time zone.\<close>

definition schedule ::
  "(string \<Rightarrow> bool) \<Rightarrow> (nat \<Rightarrow> boss_call \<Rightarrow> string option) \<Rightarrow> string \<Rightarrow> string \<Rightarrow> jsval \<Rightarrow> string option \<Rightarrow> unit engine_op" where
  "schedule zone fails name cron data tz_opt =
     op_then (op_check (assertQueueName name)) (\<lambda>_.
     op_then (op_check (require (5 \<le> cron_fields cron) (NotCron name))) (\<lambda>_.
       let tz = (case tz_opt of Some t \<Rightarrow> t | None \<Rightarrow> DEFAULT_TIME_ZONE) in
     op_then (op_check (require (zone tz) (BadTimeZone tz))) (\<lambda>_ e0.
     op_then (op_check (require (map_of (en_schedules e0) name = None) (AlreadyScheduled name))) (\<lambda>_.
     op_then (if map_of (en_queues e0) name = None
              then op_then (op_check (resolveQueue name plain_config)) defineResolved else op_return ()) (\<lambda>_ e1.
       let s = \<lparr>sd_cron = cron, sd_data = data, sd_tz = tz\<rparr>;
           e2 = e1\<lparr>en_schedules := en_schedules e1 @ [(name, s)]\<rparr>
       in if en_life e2 = Started \<and> en_role e2 = Worker
          then op_then (ensureQueue fails (the (map_of (en_queues e2) name))) (\<lambda>_. applySchedule fails (name, s)) e2
          else (Inr (), e2))) e0)))"

section \<open>Sending\<close>

record send_options =
  so_idempotencyKey :: "string option"
  so_startAfter :: "int option"
  so_priority :: "js_int option"

text \<open>What \<open>boss.send\<close> is called with; pg-boss's default priority is 0.\<close>

record send_args =
  sa_queue :: string
  sa_data :: jsval
  sa_id :: "string option"
  sa_startAfter :: "int option"
  sa_priority :: int

definition is_object :: "jsval \<Rightarrow> bool" where
  "is_object v \<longleftrightarrow> (case v of JBuf _ \<Rightarrow> True | JStream _ \<Rightarrow> True | JArr _ \<Rightarrow> True | JObj _ \<Rightarrow> True | _ \<Rightarrow> False)"

definition send_args_of ::
  "(byte list \<Rightarrow> byte list) \<Rightarrow> engine_life \<Rightarrow> string \<Rightarrow> jsval \<Rightarrow> send_options \<Rightarrow> jobs_error + send_args" where
  "send_args_of sha1 life q data opts =
     (if \<not> QUEUE_NAME q then Inl (JobsConfig (BadQueueName q))
      else if \<not> is_object data then Inl (JobsConfig DataNotObject)
      else if so_priority opts = Some None then Inl (JobsConfig BadPriority)
      else if so_idempotencyKey opts = Some [] then Inl (JobsConfig EmptyKey)
      else if life = New then Inl NotStarted
      else Inr \<lparr>sa_queue = q, sa_data = data,
                sa_id = map_option (idempotencyId sha1 q) (so_idempotencyKey opts),
                sa_startAfter = so_startAfter opts,
                sa_priority = (case so_priority opts of Some (Some p) \<Rightarrow> p | _ \<Rightarrow> 0)\<rparr>)"

definition send ::
  "(send_args \<Rightarrow> pg \<Rightarrow> (string + string option) \<times> pg) \<Rightarrow> (byte list \<Rightarrow> byte list) \<Rightarrow> engine_life \<Rightarrow> string \<Rightarrow> jsval \<Rightarrow>
    send_options \<Rightarrow> pg \<Rightarrow> (jobs_error + string option) \<times> pg" where
  "send bsend sha1 life q data opts d =
     (case send_args_of sha1 life q data opts of
        Inl e \<Rightarrow> (Inl e, d)
      | Inr a \<Rightarrow>
          (case bsend a d of
             (Inr r, d') \<Rightarrow> (Inr r, d')
           | (Inl m, d') \<Rightarrow>
               (Inl (if has_text ''does not exist'' m \<or> has_text ''not found'' m then QueueUndefined m else BossFailed m), d')))"


section \<open>What the engine makes of pg-boss\<close>

datatype engine_request =
    OpStart | OpStop int | OpDefine string queue_config | OpHandle string handler_fn handle_options
  | OpSchedule string string jsval "string option"

fun perform :: "(string \<Rightarrow> bool) \<Rightarrow> (nat \<Rightarrow> boss_call \<Rightarrow> string option) \<Rightarrow> engine_request \<Rightarrow> unit engine_op" where
  "perform zone fails OpStart = start fails"
| "perform zone fails (OpStop t) = stop fails t"
| "perform zone fails (OpDefine q c) = defineQueue fails q c"
| "perform zone fails (OpHandle q fn opts) = handle fails q fn opts"
| "perform zone fails (OpSchedule n cron data tz) = schedule zone fails n cron data tz"

fun perform_all :: "(string \<Rightarrow> bool) \<Rightarrow> (nat \<Rightarrow> boss_call \<Rightarrow> string option) \<Rightarrow> engine_request list \<Rightarrow> engine \<Rightarrow> engine" where
  "perform_all zone fails [] e = e"
| "perform_all zone fails (r # rs) e = perform_all zone fails rs (snd (perform zone fails r e))"

definition quiet :: "boss_call \<Rightarrow> bool" where
  "quiet c \<longleftrightarrow> (case c of Work _ _ \<Rightarrow> False | BossSchedule _ _ _ _ \<Rightarrow> False | _ \<Rightarrow> True)"

fun works :: "boss_call list \<Rightarrow> string list" where
  "works [] = []"
| "works (Work q _ # cs) = q # works cs"
| "works (_ # cs) = works cs"

text \<open>The queue, its dead-letter queue and its options are in the database.\<close>

definition ensured :: "string \<Rightarrow> boss_call list \<Rightarrow> bool" where
  "ensured q cs \<longleftrightarrow> (\<exists>dlq qo. {CreateQueue dlq None, CreateQueue q (Some dlq), UpdateQueue q qo} \<subseteq> set cs)"

definition calls_ok :: "role \<Rightarrow> boss_call list \<Rightarrow> bool" where
  "calls_ok r cs \<longleftrightarrow> (r \<noteq> Worker \<longrightarrow> list_all quiet cs) \<and> distinct (works cs) \<and>
     (\<forall>xs q wo ys. cs = xs @ Work q wo # ys \<longrightarrow> ensured q xs)"

lemma quiet_simps [simp]:
  "quiet BossStart" "quiet (BossStop t)" "quiet (CreateQueue q d)" "quiet (UpdateDeadLetter q a b)"
  "quiet (UpdateQueue q qo)" "\<not> quiet (Work q wo)" "\<not> quiet (BossSchedule n c v z)"
  by (simp_all add: quiet_def)

lemma works_append [simp]: "works (xs @ ys) = works xs @ works ys"
  by (induction xs rule: works.induct) simp_all

lemma works_quiet: "list_all quiet cs \<Longrightarrow> works cs = []"
  by (induction cs rule: works.induct) simp_all

lemma ensured_mono: "ensured q cs \<Longrightarrow> set cs \<subseteq> set cs' \<Longrightarrow> ensured q cs'"
  unfolding ensured_def by blast

lemma calls_ok_snoc:
  "calls_ok r (cs @ [c]) \<longleftrightarrow> calls_ok r cs \<and> (quiet c \<or> r = Worker) \<and>
     (\<forall>q wo. c = Work q wo \<longrightarrow> q \<notin> set (works cs) \<and> ensured q cs)"
proof -
  have "cs @ [c] = xs @ Work q wo # ys \<longleftrightarrow> (ys = [] \<and> cs = xs \<and> c = Work q wo) \<or> (\<exists>zs. ys = zs @ [c] \<and> cs = xs @ Work q wo # zs)"
    for xs q wo ys
    by (cases ys rule: rev_exhaust) auto
  then show ?thesis
    by (cases c) (auto simp: calls_ok_def)
qed

lemma calls_ok_quiet: "list_all quiet cs \<Longrightarrow> calls_ok r (xs @ cs) \<longleftrightarrow> calls_ok r xs"
proof (induction cs rule: rev_induct)
  case (snoc c cs)
  then show ?case
    by (simp flip: append_assoc add: calls_ok_snoc) (metis quiet_simps(6))
qed simp

text \<open>An operation that does nothing but make the calls \<open>cs\<close>.\<close>

definition makes :: "boss_call list \<Rightarrow> engine \<Rightarrow> engine \<Rightarrow> bool" where
  "makes cs e e' \<longleftrightarrow> e' = e\<lparr>en_calls := en_calls e @ cs\<rparr>"

lemma makes_refl: "makes [] e e" and makes_trans: "makes xs e e1 \<Longrightarrow> makes ys e1 e2 \<Longrightarrow> makes (xs @ ys) e e2"
  by (simp_all add: makes_def)

lemma boss_makes: "boss fails c e = (r, e') \<Longrightarrow> makes [c] e e'"
  by (auto simp: boss_def Let_def makes_def split: option.splits)

lemma op_then_return [simp]: "op_then m op_return = m"
  by (auto simp: op_then_def op_return_def fun_eq_iff split: prod.splits sum.splits)

lemma return_op_then [simp]: "op_then (op_return a) f = f a"
  by (simp add: op_then_def op_return_def fun_eq_iff)

lemma op_then_assoc: "op_then (op_then m f) g = op_then m (\<lambda>x. op_then (f x) g)"
  by (auto simp: op_then_def fun_eq_iff split: prod.splits sum.splits)

lemma op_each_append: "op_each f (xs @ ys) = op_then (op_each f xs) (\<lambda>_. op_each f ys)"
  by (induction xs) (simp_all add: op_then_assoc)

lemma op_each_map: "op_each f (map g xs) = op_each (\<lambda>x. f (g x)) xs"
  by (induction xs) simp_all

lemma op_each_concat: "op_each f (concat (map g xs)) = op_each (\<lambda>x. op_each f (g x)) xs"
  by (induction xs) (simp_all add: op_each_append)

text \<open>Every operation's calls are a prefix of a list it determines, and all of it when it succeeds.\<close>

definition ensure_calls :: "resolved_queue \<Rightarrow> boss_call list" where
  "ensure_calls q =
     [CreateQueue (rq_deadLetter q) None,
      UpdateDeadLetter (rq_deadLetter q) (rq_dlRetentionSeconds q) (rq_dlDeleteAfterSeconds q),
      CreateQueue (rq_name q) (Some (rq_deadLetter q)), UpdateQueue (rq_name q) (rq_queue q)]"

definition work_call :: "registered \<Rightarrow> boss_call" where
  "work_call h = Work (rq_name (rg_queue h)) (workOptions h)"

definition schedule_call :: "string \<times> scheduled \<Rightarrow> boss_call" where
  "schedule_call = (\<lambda>(n, s). BossSchedule n (sd_cron s) (sd_data s) (sd_tz s))"

lemma ensureQueue_calls: "ensureQueue fails q = op_each (boss fails) (ensure_calls q)"
  by (simp add: ensureQueue_def ensure_calls_def)

lemma startWorker_calls: "startWorker fails h = op_each (boss fails) [work_call h]"
  by (simp add: startWorker_def work_call_def)

lemma applySchedule_calls: "applySchedule fails s = op_each (boss fails) [schedule_call s]"
  by (cases s) (simp add: applySchedule_def schedule_call_def)

lemma boss_calls:
  assumes "op_each (boss fails) cs e = (r, e')"
  obtains n where "makes (take n cs) e e'" "r = Inr () \<Longrightarrow> n = length cs"
proof -
  have "\<exists>n. makes (take n cs) e e' \<and> (r = Inr () \<longrightarrow> n = length cs)"
    using assms
  proof (induction cs arbitrary: e)
    case Nil
    then show ?case by (auto simp: op_return_def makes_refl)
  next
    case (Cons c cs)
    obtain b e1 where b: "boss fails c e = (b, e1)"
      by fastforce
    note m = boss_makes [OF b]
    show ?case
    proof (cases b)
      case (Inl x)
      then have "r = Inl x" "e' = e1"
        using Cons.prems b by (simp_all add: op_then_def)
      then show ?thesis using m by (intro exI [of _ 1]) simp
    next
      case (Inr u)
      then have "op_each (boss fails) cs e1 = (r, e')"
        using Cons.prems b by (simp add: op_then_def)
      then obtain n where "makes (take n cs) e1 e'" "r = Inr () \<longrightarrow> n = length cs"
        using Cons.IH by blast
      then show ?thesis
        using makes_trans [OF m] by (intro exI [of _ "Suc n"]) auto
    qed
  qed
  then show thesis using that by blast
qed

lemma ensure_calls_quiet: "list_all quiet (ensure_calls q)" "ensured (rq_name q) (ensure_calls q)"
  by (auto simp: ensure_calls_def ensured_def)

lemma ensure_all_calls:
  "list_all quiet (concat (map ensure_calls qs))"
  "q \<in> set qs \<Longrightarrow> ensured (rq_name q) (concat (map ensure_calls qs))"
proof -
  show "list_all quiet (concat (map ensure_calls qs))"
    using ensure_calls_quiet by (auto simp: list_all_iff)
  show "q \<in> set qs \<Longrightarrow> ensured (rq_name q) (concat (map ensure_calls qs))"
    by (rule ensured_mono [OF ensure_calls_quiet(2)]) auto
qed

text \<open>Workers for queues that exist, one each, and then the schedules.\<close>

lemma calls_ok_workers:
  assumes "calls_ok Worker cs" "\<forall>h\<in>set hs. ensured (rq_name (rg_queue h)) cs"
    and "distinct (works cs @ map (\<lambda>h. rq_name (rg_queue h)) hs)"
  shows "calls_ok Worker (cs @ map work_call hs)"
  using assms
proof (induction hs arbitrary: cs)
  case (Cons h hs)
  let ?q = "rq_name (rg_queue h)"
  have "calls_ok Worker (cs @ [work_call h])"
    using Cons.prems by (auto simp: calls_ok_snoc work_call_def)
  moreover have "\<forall>k\<in>set hs. ensured (rq_name (rg_queue k)) (cs @ [work_call h])"
    using Cons.prems(2) ensured_mono by (metis list.set_intros(2) set_append sup_ge1)
  moreover have "distinct (works (cs @ [work_call h]) @ map (\<lambda>h. rq_name (rg_queue h)) hs)"
    using Cons.prems(3) by (auto simp: work_call_def)
  ultimately show ?case
    using Cons.IH [of "cs @ [work_call h]"] by simp
qed simp

lemma calls_ok_schedules: "calls_ok Worker cs \<Longrightarrow> calls_ok Worker (cs @ map schedule_call ss)"
proof (induction ss rule: rev_induct)
  case (snoc s ss)
  then show ?case
    by (cases s) (simp flip: append_assoc add: calls_ok_snoc schedule_call_def)
qed simp

lemma works_calls: "works (map work_call hs) = map (\<lambda>h. rq_name (rg_queue h)) hs" "works (map schedule_call ss) = []"
proof -
  show "works (map work_call hs) = map (\<lambda>h. rq_name (rg_queue h)) hs"
    by (induction hs) (simp_all add: work_call_def)
  show "works (map schedule_call ss) = []"
    by (induction ss) (auto simp: schedule_call_def)
qed

text \<open>A prefix of good calls is good.\<close>

lemma calls_ok_append: "calls_ok r (cs @ ds) \<Longrightarrow> calls_ok r cs"
  by (induction ds rule: rev_induct) (simp_all flip: append_assoc add: calls_ok_snoc)

lemma calls_ok_prefix: "calls_ok r (xs @ ys) \<Longrightarrow> calls_ok r (xs @ take n ys)"
  by (rule calls_ok_append [of r "xs @ take n ys" "drop n ys"]) simp

lemma set_works_prefix: "set (works (take n cs)) \<subseteq> set (works cs)"
  by (metis append_take_drop_id set_append sup_ge1 works_append)

section \<open>The invariant of the engine\<close>

text \<open>
  Names are keys, a handler's queue is defined with the same configuration, only registered handlers have workers, and
  there is none before the engine started; the calls to pg-boss are in order.
\<close>

definition engine_inv :: "engine \<Rightarrow> bool" where
  "engine_inv e \<longleftrightarrow>
     distinct (map fst (en_queues e)) \<and> (\<forall>(q, r)\<in>set (en_queues e). rq_name r = q) \<and>
     distinct (map fst (en_handlers e)) \<and>
     (\<forall>(q, h)\<in>set (en_handlers e). rq_name (rg_queue h) = q \<and>
        (\<exists>r. map_of (en_queues e) q = Some r \<and> rq_fingerprint r = rq_fingerprint (rg_queue h))) \<and>
     calls_ok (en_role e) (en_calls e) \<and> set (works (en_calls e)) \<subseteq> fst ` set (en_handlers e) \<and>
     (en_life e = New \<longrightarrow> works (en_calls e) = []) \<and>
     (en_timers e \<longrightarrow> en_life e = Started \<and> en_role e = Worker)"

lemma engine_inv_makes:
  assumes "engine_inv e" "makes cs e e'" "calls_ok (en_role e) (en_calls e @ cs)"
    and "set (works cs) \<subseteq> fst ` set (en_handlers e)" "en_life e = New \<longrightarrow> works cs = []"
  shows "engine_inv e'"
  using assms by (auto simp: engine_inv_def makes_def)

lemma engine_inv_quiet:
  assumes "engine_inv e" "makes cs e e'" "list_all quiet cs"
  shows "engine_inv e'"
  using assms by (intro engine_inv_makes [OF assms(1,2)]) (auto simp: calls_ok_quiet works_quiet engine_inv_def)

lemma list_all_takeI: "list_all P xs \<Longrightarrow> list_all P (take n xs)"
  by (rule list_all_take)

text \<open>The calls of a start that went through, in order.\<close>

definition start_calls :: "engine \<Rightarrow> boss_call list" where
  "start_calls e = concat (map ensure_calls (map snd (en_queues e))) @
     (if en_role e = Worker then map work_call (map snd (en_handlers e)) @ map schedule_call (en_schedules e) else [])"

lemma start_body:
  "op_then (op_each (ensureQueue fails) qs) (\<lambda>_. if w \<noteq> Worker then op_return ()
     else op_then (op_each (startWorker fails) hs) (\<lambda>_. op_then (op_each (applySchedule fails) ss) (\<lambda>_. fin))) =
   op_then (op_each (boss fails) (concat (map ensure_calls qs) @ (if w = Worker then map work_call hs @ map schedule_call ss else [])))
     (\<lambda>_. if w = Worker then fin else op_return ())"
proof -
  have "ensureQueue fails = (\<lambda>q. op_each (boss fails) (ensure_calls q))"
      "startWorker fails = (\<lambda>h. boss fails (work_call h))" "applySchedule fails = (\<lambda>s. boss fails (schedule_call s))"
    by (simp_all add: fun_eq_iff ensureQueue_calls startWorker_calls applySchedule_calls)
  then show ?thesis
    by (simp add: op_each_append op_each_map op_each_concat op_then_assoc)
qed

lemma start_new:
  assumes "en_life e = New" "boss fails BossStart e = (Inr (), e1)" "start fails e = (r, e')"
  obtains n b where "e' = e\<lparr>en_life := Started, en_calls := en_calls e @ BossStart # take n (start_calls e), en_timers := b\<rparr>"
    "b \<Longrightarrow> en_timers e \<or> en_role e = Worker"
proof -
  have e1: "e1 = e\<lparr>en_calls := en_calls e @ [BossStart]\<rparr>"
    using boss_makes [OF assms(2)] by (simp add: makes_def)
  define e2 where "e2 = e1\<lparr>en_life := Started\<rparr>"
  have same: "en_queues e1 = en_queues e" "en_handlers e1 = en_handlers e" "en_schedules e1 = en_schedules e" "en_role e1 = en_role e"
    by (simp_all add: e1)
  have run: "op_then (op_each (boss fails) (start_calls e))
      (\<lambda>_. if en_role e = Worker then op_modify (\<lambda>e. e\<lparr>en_timers := True\<rparr>) else op_return ()) e2 = (r, e')"
    using assms by (simp add: start_def start_body start_calls_def same Let_def cong: if_cong flip: e2_def)
  obtain r1 e3 where b: "op_each (boss fails) (start_calls e) e2 = (r1, e3)"
    by fastforce
  then obtain n where n: "makes (take n (start_calls e)) e2 e3"
    by (rule boss_calls)
  then have e3: "e3 = e\<lparr>en_life := Started, en_calls := en_calls e @ BossStart # take n (start_calls e)\<rparr>"
    by (simp add: makes_def e2_def e1)
  show thesis
  proof (cases r1)
    case (Inl x)
    then have "e' = e3"
      using run b by (simp add: op_then_def)
    then show thesis using that [of "en_timers e" n] e3 by simp
  next
    case (Inr u)
    then have "(if en_role e = Worker then op_modify (\<lambda>e. e\<lparr>en_timers := True\<rparr>) else op_return ()) e3 = (r, e')"
      using run b by (simp add: op_then_def)
    note run1 = this
    show thesis
    proof (cases "en_role e = Worker")
      case True
      then show thesis using run1 that [of True n] e3 by (simp add: op_modify_def)
    next
      case False
      then have "e' = e3"
        using run1 by (simp add: op_return_def)
      then show thesis using that [of "en_timers e" n] e3 by simp
    qed
  qed
qed

lemma handler_queue_ensured:
  assumes "engine_inv e" "h \<in> set (map snd (en_handlers e))"
  shows "ensured (rq_name (rg_queue h)) (concat (map ensure_calls (map snd (en_queues e))))"
proof -
  from assms(2) obtain q where "(q, h) \<in> set (en_handlers e)"
    by auto
  then obtain r where r: "map_of (en_queues e) q = Some r" "rq_name (rg_queue h) = q"
    using assms(1) by (auto simp: engine_inv_def)
  have "(q, r) \<in> set (en_queues e)"
    by (rule map_of_SomeD [OF r(1)])
  then have "rq_name r = q" "r \<in> set (map snd (en_queues e))"
    using assms(1) by (auto simp: engine_inv_def intro: rev_image_eqI)
  then show ?thesis
    using ensure_all_calls(2) [of r "map snd (en_queues e)"] r(2) by simp
qed

lemma handler_names:
  "engine_inv e \<Longrightarrow> map (\<lambda>h. rq_name (rg_queue h)) (map snd (en_handlers e)) = map fst (en_handlers e)"
  by (auto simp: engine_inv_def intro!: map_cong)

lemma start_calls_ok:
  assumes "engine_inv e" "en_life e = New"
  shows "calls_ok (en_role e) (en_calls e @ BossStart # start_calls e)"
    and "set (works (start_calls e)) \<subseteq> fst ` set (en_handlers e)"
proof -
  let ?ens = "concat (map ensure_calls (map snd (en_queues e)))"
  let ?cs = "en_calls e @ BossStart # ?ens"
  have quiet: "list_all quiet (BossStart # ?ens)"
    using ensure_all_calls(1) [of "map snd (en_queues e)"] by simp
  have base: "calls_ok (en_role e) ?cs"
    using assms(1) calls_ok_quiet [OF quiet] by (simp add: engine_inv_def)
  have none: "works ?cs = []" "works ?ens = []"
    using assms works_quiet [OF quiet] by (simp_all add: engine_inv_def)
  show "set (works (start_calls e)) \<subseteq> fst ` set (en_handlers e)"
  proof -
    have "works (start_calls e) = (if en_role e = Worker then map fst (en_handlers e) else [])"
      by (simp only: start_calls_def works_append none(2) works_calls handler_names [OF assms(1)] append_Nil append_Nil2
          works.simps split: if_split) simp
    then show ?thesis by auto
  qed
  show "calls_ok (en_role e) (en_calls e @ BossStart # start_calls e)"
  proof (cases "en_role e = Worker")
    case False
    then show ?thesis using base by (simp add: start_calls_def)
  next
    case True
    have "\<forall>h\<in>set (map snd (en_handlers e)). ensured (rq_name (rg_queue h)) ?cs"
      by (intro ballI ensured_mono [OF handler_queue_ensured [OF assms(1)]]) auto
    moreover have "distinct (works ?cs @ map (\<lambda>h. rq_name (rg_queue h)) (map snd (en_handlers e)))"
      using assms(1) by (simp only: none(1) handler_names [OF assms(1)]) (simp add: engine_inv_def)
    ultimately have "calls_ok Worker (?cs @ map work_call (map snd (en_handlers e)))"
      using base True by (intro calls_ok_workers) simp_all
    from calls_ok_schedules [OF this, of "en_schedules e"] show ?thesis
      using True by (simp add: start_calls_def)
  qed
qed

lemma start_inv:
  assumes "engine_inv e"
  shows "engine_inv (snd (start fails e))"
proof (cases "en_life e")
  case New
  obtain b e1 where b: "boss fails BossStart e = (b, e1)"
    by fastforce
  note one = engine_inv_quiet [OF assms boss_makes [OF b]]
  show ?thesis
  proof (cases b)
    case (Inl x)
    then have "snd (start fails e) = e1"
      using New b by (cases x) (simp_all add: start_def)
    then show ?thesis using one by simp
  next
    case (Inr u)
    obtain r e' where st: "start fails e = (r, e')"
      by fastforce
    obtain n t where e': "e' = e\<lparr>en_life := Started, en_calls := en_calls e @ BossStart # take n (start_calls e), en_timers := t\<rparr>"
        and t: "t \<Longrightarrow> en_timers e \<or> en_role e = Worker"
      using b Inr by (auto intro: start_new [OF New _ st])
    have "calls_ok (en_role e) ((en_calls e @ [BossStart]) @ take n (start_calls e))"
      using start_calls_ok(1) [OF assms New] by (intro calls_ok_prefix) simp
    moreover have "set (works (take n (start_calls e))) \<subseteq> fst ` set (en_handlers e)"
      using start_calls_ok(2) [OF assms New] set_works_prefix by (rule order_trans [rotated])
    ultimately show ?thesis
      using assms t New by (auto simp: st e' engine_inv_def)
  qed
qed (use assms in \<open>simp_all add: start_def\<close>)

lemma stop_inv:
  assumes "engine_inv e"
  shows "engine_inv (snd (stop fails t e))"
proof -
  have stopped: "engine_inv (e\<lparr>en_life := Stopped, en_timers := False\<rparr>)" "en_life e \<noteq> Started \<Longrightarrow> engine_inv (e\<lparr>en_life := Stopped\<rparr>)"
    using assms by (auto simp: engine_inv_def)
  obtain b e1 where b: "boss fails (BossStop t) (e\<lparr>en_life := Stopped, en_timers := False\<rparr>) = (b, e1)"
    by fastforce
  show ?thesis
    using stopped engine_inv_quiet [OF stopped(1) boss_makes [OF b]] b by (simp add: stop_def)
qed

lemma engine_inv_handler:
  assumes "engine_inv e" "(q, h) \<in> set (en_handlers e)"
  shows "rq_name (rg_queue h) = q \<and> (\<exists>r. map_of (en_queues e) q = Some r \<and> rq_fingerprint r = rq_fingerprint (rg_queue h))"
proof -
  have "\<forall>(q, h)\<in>set (en_handlers e). rq_name (rg_queue h) = q \<and>
      (\<exists>r. map_of (en_queues e) q = Some r \<and> rq_fingerprint r = rq_fingerprint (rg_queue h))"
    using assms(1) unfolding engine_inv_def by (elim conjE)
  from bspec [OF this assms(2)] show ?thesis by (simp only: prod.case)
qed

text \<open>Defining a queue, or defining it again with the same configuration.\<close>

lemma update_queues:
  assumes "engine_inv e" "rq_name r = q" "\<forall>s. map_of (en_queues e) q = Some s \<longrightarrow> rq_fingerprint s = rq_fingerprint r"
  shows "engine_inv (e\<lparr>en_queues := AList.update q r (en_queues e)\<rparr>)"
proof -
  have d: "distinct (map fst (AList.update q r (en_queues e)))"
    using assms(1) by (simp add: engine_inv_def distinct_update)
  moreover have "rq_name s = k" if "(k, s) \<in> set (AList.update q r (en_queues e))" for k s
  proof -
    have "map_of (AList.update q r (en_queues e)) k = Some s"
      using d that by (simp add: map_of_eq_Some_iff)
    then have "(k = q \<and> s = r) \<or> map_of (en_queues e) k = Some s"
      by (simp add: update_conv' split: if_splits)
    then show ?thesis
      using assms(1,2) map_of_SomeD by (fastforce simp: engine_inv_def)
  qed
  moreover have "\<exists>s. map_of (AList.update q r (en_queues e)) k = Some s \<and> rq_fingerprint s = rq_fingerprint (rg_queue h)"
    if "(k, h) \<in> set (en_handlers e)" for k h
  proof -
    note handler = engine_inv_handler [OF assms(1) that]
    then obtain s where "map_of (en_queues e) k = Some s" "rq_fingerprint s = rq_fingerprint (rg_queue h)"
      by blast
    then show ?thesis
      using assms(3) by (auto simp: update_conv')
  qed
  ultimately show ?thesis
    using assms(1) by (auto simp: engine_inv_def)
qed

lemma append_is_update: "map_of xs q = None \<Longrightarrow> xs @ [(q, r)] = AList.update q r xs"
  by (induction xs) (auto split: if_splits)

lemma ensure_inv: "engine_inv e \<Longrightarrow> ensureQueue fails q e = (r, e') \<Longrightarrow> engine_inv e'"
  unfolding ensureQueue_calls
  by (erule boss_calls) (rule engine_inv_quiet, assumption, assumption, simp add: list_all_take ensure_calls_quiet)

lemma defineQueue_inv:
  assumes "engine_inv e"
  shows "engine_inv (snd (defineQueue fails q c e))"
proof (cases "resolveQueue q c")
  case (Inl x)
  then show ?thesis using assms by (simp add: defineQueue_def op_then_def op_check_def)
next
  case (Inr r)
  let ?e = "e\<lparr>en_queues := en_queues e @ [(q, r)]\<rparr>"
  obtain b e1 where b: "ensureQueue fails r ?e = (b, e1)"
    by fastforce
  show ?thesis
  proof (cases "map_of (en_queues e) q")
    case None
    then have "engine_inv ?e"
      using update_queues [OF assms resolveQueue_ok(2) [OF Inr]] by (simp add: append_is_update)
    then show ?thesis
      using Inr None b ensure_inv [OF _ b] by (simp add: defineQueue_def op_then_def op_check_def Let_def)
  next
    case (Some s)
    then show ?thesis
      using Inr assms by (simp add: defineQueue_def op_then_def op_check_def op_throw_def)
  qed
qed

lemma defineResolved_inv:
  assumes "engine_inv e" "defineResolved r e = (b, e')"
  shows "engine_inv e'"
    and "b = Inr u \<Longrightarrow> map_of (en_queues e') (rq_name r) = Some r \<and> e' = e\<lparr>en_queues := en_queues e'\<rparr>"
  using assms update_queues [OF assms(1) refl, of r]
  by (auto simp: defineResolved_def op_throw_def update_conv' split: option.splits if_splits)

text \<open>A handler is registered once, for a queue defined with its configuration.\<close>

lemma register_inv:
  assumes "engine_inv e" "map_of (en_handlers e) q = None" "rq_name (rg_queue h) = q"
    and "map_of (en_queues e) q = Some r" "rq_fingerprint r = rq_fingerprint (rg_queue h)"
  shows "engine_inv (e\<lparr>en_handlers := en_handlers e @ [(q, h)]\<rparr>)"
  using assms by (auto simp: engine_inv_def map_of_eq_None_iff)

lemma handle_inv:
  assumes "engine_inv e"
  shows "engine_inv (snd (handle fails q fn opts e))"
proof (cases "map_of (en_handlers e) q \<noteq> None \<or> \<not> is_ok (resolveQueue q (ho_queue opts)) \<or> \<not> is_ok (resolveHandler q opts)")
  case True
  then show ?thesis
    using assms by (auto simp: handle_def op_throw_def op_then_def op_check_def is_ok_def split: sum.splits)
next
  case False
  then obtain r hr where ok: "map_of (en_handlers e) q = None" "resolveQueue q (ho_queue opts) = Inr r"
      "resolveHandler q opts = Inr hr"
    by (auto simp: is_ok_def split: sum.splits)
  obtain b e1 where b: "defineResolved r e = (b, e1)"
    by fastforce
  note name = resolveQueue_ok(2) [OF ok(2)]
  note def_inv = defineResolved_inv [OF assms b]
  let ?h = "\<lparr>rg_queue = r, rg_options = hr, rg_fn = fn\<rparr>"
  let ?e = "e1\<lparr>en_handlers := en_handlers e1 @ [(q, ?h)]\<rparr>"
  let ?go = "op_then (ensureQueue fails r) (\<lambda>_. if en_role ?e = Worker then startWorker fails ?h else op_return ())"
  show ?thesis
  proof (cases b)
    case (Inl x)
    then show ?thesis using ok b def_inv(1) by (simp add: handle_def op_then_def op_check_def)
  next
    case (Inr u)
    have e1: "map_of (en_queues e1) q = Some r" "e1 = e\<lparr>en_queues := en_queues e1\<rparr>"
      using def_inv(2) [OF Inr] name by simp_all
    have same: "en_handlers e1 = en_handlers e" "en_life e1 = en_life e" "en_role e1 = en_role e" "en_calls e1 = en_calls e"
      by (subst e1(2), simp)+
    have inv: "engine_inv ?e"
      by (rule register_inv [OF def_inv(1) _ _ e1(1)]) (simp_all add: ok(1) name same(1))
    have res: "handle fails q fn opts e = (if en_life ?e \<noteq> Started then (Inr (), ?e) else ?go ?e)"
      using ok b Inr by (simp add: handle_def op_then_def op_check_def Let_def)
    have "engine_inv (snd (?go ?e))" if started: "en_life ?e = Started"
    proof -
      have go: "?go = op_each (boss fails) (ensure_calls r @ (if en_role ?e = Worker then [work_call ?h] else []))"
        by (simp add: ensureQueue_calls startWorker_calls op_each_append)
      obtain c e2 where c: "?go ?e = (c, e2)"
        by fastforce
      let ?calls = "ensure_calls r @ (if en_role ?e = Worker then [work_call ?h] else [])"
      obtain n where n: "makes (take n ?calls) ?e e2"
        using c unfolding go by (rule boss_calls)
      have fresh: "q \<notin> set (works (en_calls ?e))"
        using assms ok(1) by (auto simp: engine_inv_def same map_of_eq_None_iff)
      have "calls_ok (en_role ?e) (en_calls ?e @ ?calls)"
      proof -
        have q1: "calls_ok (en_role ?e) (en_calls ?e @ ensure_calls r)"
          using inv calls_ok_quiet [OF ensure_calls_quiet(1)] by (simp add: engine_inv_def)
        have "ensured q (en_calls ?e @ ensure_calls r)"
          using ensure_calls_quiet(2) [of r] name by (auto elim: ensured_mono)
        then show ?thesis
          using q1 fresh works_quiet [OF ensure_calls_quiet(1), of r] name
          by (auto simp flip: append_assoc simp: calls_ok_snoc work_call_def)
      qed
      then have "calls_ok (en_role ?e) (en_calls ?e @ take n ?calls)"
        by (rule calls_ok_prefix)
      moreover have "set (works (take n ?calls)) \<subseteq> fst ` set (en_handlers ?e)"
        using set_works_prefix [of n ?calls] works_quiet [OF ensure_calls_quiet(1), of r] name
        by (auto simp: work_call_def split: if_splits)
      ultimately have "engine_inv e2"
        using engine_inv_makes [OF inv n] started by simp
      then show ?thesis using c by simp
    qed
    then show ?thesis using inv unfolding res by simp
  qed
qed

lemma schedule_inv:
  assumes "engine_inv e"
  shows "engine_inv (snd (schedule zone fails name cron data tz_opt e))"
proof -
  let ?tz = "case tz_opt of Some t \<Rightarrow> t | None \<Rightarrow> DEFAULT_TIME_ZONE"
  let ?s = "\<lparr>sd_cron = cron, sd_data = data, sd_tz = ?tz\<rparr>"
  let ?def = "if map_of (en_queues e) name = None
              then op_then (op_check (resolveQueue name plain_config)) defineResolved else op_return ()"
  obtain b e1 where b: "?def e = (b, e1)"
    by fastforce
  have inv1: "engine_inv e1"
  proof (cases "map_of (en_queues e) name = None \<and> is_ok (resolveQueue name plain_config)")
    case True
    then obtain r where "resolveQueue name plain_config = Inr r"
      by (auto simp: is_ok_def split: sum.splits)
    then have "defineResolved r e = (b, e1)"
      using b True by (simp add: op_then_def op_check_def)
    then show ?thesis by (rule defineResolved_inv(1) [OF assms])
  next
    case False
    then show ?thesis
      using b assms by (auto simp: op_then_def op_check_def op_return_def is_ok_def split: if_splits sum.splits)
  qed
  let ?e = "e1\<lparr>en_schedules := en_schedules e1 @ [(name, ?s)]\<rparr>"
  have inv: "engine_inv ?e"
    using inv1 by (simp add: engine_inv_def del: map_of_eq_Some_iff)
  let ?r = "the (map_of (en_queues ?e) name)"
  let ?go = "op_then (ensureQueue fails ?r) (\<lambda>_. applySchedule fails (name, ?s))"
  obtain c e2 where c: "?go ?e = (c, e2)"
    by fastforce
  have go: "engine_inv e2" if w: "en_life ?e = Started \<and> en_role ?e = Worker"
  proof -
    let ?calls = "ensure_calls ?r @ [schedule_call (name, ?s)]"
    have seq: "?go = op_each (boss fails) ?calls"
      by (simp only: ensureQueue_calls applySchedule_calls op_each_append)
    obtain n where n: "makes (take n ?calls) ?e e2"
      using c unfolding seq by (rule boss_calls)
    have "calls_ok Worker (en_calls ?e @ ensure_calls ?r)"
      using inv w calls_ok_quiet [OF ensure_calls_quiet(1)] by (simp add: engine_inv_def)
    then have "calls_ok Worker (en_calls ?e @ ?calls)"
      by (simp flip: append_assoc add: calls_ok_snoc schedule_call_def)
    then have "calls_ok (en_role ?e) (en_calls ?e @ take n ?calls)"
      using w by (intro calls_ok_prefix) simp
    moreover have "works (take n ?calls) = []"
    proof -
      have "works ?calls = []"
        by (simp add: works_quiet ensure_calls_quiet schedule_call_def)
      then show ?thesis using set_works_prefix [of n ?calls] by simp
    qed
    ultimately show ?thesis
      using engine_inv_makes [OF inv n] by simp
  qed
  have "snd (schedule zone fails name cron data tz_opt e) \<in> {e, e1, ?e} \<or>
      (en_life ?e = Started \<and> en_role ?e = Worker \<and> snd (schedule zone fails name cron data tz_opt e) = e2)"
    using b c
    by (cases b)
       (auto simp: schedule_def op_then_def [of "op_check _"] op_then_def [of "if _ then _ else _"] op_check_def
         assertQueueName_def require_def Let_def)
  then show ?thesis
    using assms inv1 inv go by auto
qed

lemma perform_inv: "engine_inv e \<Longrightarrow> engine_inv (snd (perform zone fails r e))"
  by (cases r) (simp_all add: start_inv stop_inv defineQueue_inv handle_inv schedule_inv)

lemma perform_all_inv: "engine_inv e \<Longrightarrow> engine_inv (perform_all zone fails rs e)"
  by (induction rs arbitrary: e) (simp_all add: perform_inv)

lemma createJobs_inv: "engine_inv (createJobs env)"
  by (simp add: engine_inv_def createJobs_def calls_ok_def)

section \<open>The role of a process, and stopping, are for good\<close>

definition keeps_role :: "'a engine_op \<Rightarrow> bool" where
  "keeps_role m \<longleftrightarrow> (\<forall>e. en_role (snd (m e)) = en_role e)"

lemma keeps_roleD: "keeps_role m \<Longrightarrow> m e = (r, e') \<Longrightarrow> en_role e' = en_role e"
  by (metis keeps_role_def snd_conv)

lemma keeps_role_then: "keeps_role m \<Longrightarrow> (\<And>a. keeps_role (f a)) \<Longrightarrow> keeps_role (op_then m f)"
  unfolding keeps_role_def op_then_def by (auto split: prod.splits sum.splits) (metis snd_conv)+

lemma keeps_role_basic: "keeps_role (op_return a)" "keeps_role (op_throw x)" "keeps_role (op_check r)" "keeps_role (boss fails c)"
  by (auto simp: keeps_role_def op_return_def op_throw_def op_check_def boss_def Let_def split: sum.splits option.splits)

lemma keeps_role_each: "(\<And>x. keeps_role (f x)) \<Longrightarrow> keeps_role (op_each f xs)"
  by (induction xs) (simp_all add: keeps_role_then keeps_role_basic)

lemma keeps_role_ops: "keeps_role (ensureQueue fails q)" "keeps_role (startWorker fails h)" "keeps_role (applySchedule fails s)"
    "keeps_role (defineResolved r)"
proof -
  show "keeps_role (ensureQueue fails q)" "keeps_role (startWorker fails h)" "keeps_role (applySchedule fails s)"
    by (simp_all only: ensureQueue_calls startWorker_calls applySchedule_calls keeps_role_each keeps_role_basic)
  show "keeps_role (defineResolved r)"
    by (auto simp: keeps_role_def defineResolved_def op_throw_def split: option.splits)
qed

lemma start_role: "en_role (snd (start fails e)) = en_role e"
proof (cases "en_life e")
  case New
  obtain b e1 where b: "boss fails BossStart e = (b, e1)"
    by fastforce
  show ?thesis
  proof (cases b)
    case (Inl x)
    then show ?thesis
      using New b keeps_roleD [OF keeps_role_basic(4) b] by (cases x) (simp_all add: start_def)
  next
    case (Inr u)
    obtain s e' where st: "start fails e = (s, e')"
      by fastforce
    have "boss fails BossStart e = (Inr (), e1)"
      using b Inr by simp
    from start_new [OF New this st] show ?thesis
      using st by fastforce
  qed
qed (simp_all add: start_def)


lemma defineQueue_role: "keeps_role (defineQueue fails q c)"
proof -
  have "keeps_role (\<lambda>e'. case map_of (en_queues e') q of
         Some existing \<Rightarrow>
           if rq_fingerprint existing \<noteq> rq_fingerprint rq then op_throw (JobsConfig (DefinedTwice q)) e'
           else (Inr (), e')
       | None \<Rightarrow>
           (let e'' = e'\<lparr>en_queues := en_queues e' @ [(q, rq)]\<rparr>
            in if en_life e'' = Started then ensureQueue fails rq e'' else (Inr (), e'')))" for rq
    using keeps_role_ops(1) by (auto simp: keeps_role_def op_throw_def Let_def split: option.splits)
  then show ?thesis
    unfolding defineQueue_def by (intro keeps_role_then keeps_role_basic)
qed

lemma handle_role: "en_role (snd (handle fails q fn opts e)) = en_role e"
proof -
  have "keeps_role (\<lambda>e1.
             let h = \<lparr>rg_queue = rq, rg_options = options, rg_fn = fn\<rparr>;
                 e2 = e1\<lparr>en_handlers := en_handlers e1 @ [(q, h)]\<rparr>
             in if en_life e2 \<noteq> Started then (Inr (), e2)
                else op_then (ensureQueue fails rq) (\<lambda>_.
                       if en_role e2 = Worker then startWorker fails h else op_return ()) e2)" for rq options
  proof -
    have "keeps_role (op_then (ensureQueue fails rq) (\<lambda>_. if w = Worker then startWorker fails h else op_return ()))" for h w
      by (intro keeps_role_then) (auto intro: keeps_role_ops keeps_role_basic)
    then show ?thesis by (simp add: keeps_role_def Let_def)
  qed
  then have "keeps_role (op_then (op_check (resolveQueue q (ho_queue opts))) (\<lambda>rq.
           op_then (op_check (resolveHandler q opts)) (\<lambda>options.
           op_then (defineResolved rq) (\<lambda>_ e1.
             let h = \<lparr>rg_queue = rq, rg_options = options, rg_fn = fn\<rparr>;
                 e2 = e1\<lparr>en_handlers := en_handlers e1 @ [(q, h)]\<rparr>
             in if en_life e2 \<noteq> Started then (Inr (), e2)
                else op_then (ensureQueue fails rq) (\<lambda>_.
                       if en_role e2 = Worker then startWorker fails h else op_return ()) e2))))"
    by (intro keeps_role_then keeps_role_basic keeps_role_ops)
  then show ?thesis
    by (simp add: handle_def op_throw_def keeps_role_def)
qed

lemma schedule_last_role:
  "keeps_role (\<lambda>e1. let e2 = e1\<lparr>en_schedules := en_schedules e1 @ [(n, s)]\<rparr>
       in if en_life e2 = Started \<and> en_role e2 = Worker
          then op_then (ensureQueue fails (the (map_of (en_queues e2) n))) (\<lambda>_. applySchedule fails (n, s)) e2
          else (Inr (), e2))"
proof -
  have "keeps_role (op_then (ensureQueue fails q) (\<lambda>_. applySchedule fails (n, s)))" for q
    by (intro keeps_role_then keeps_role_ops)
  then show ?thesis by (simp add: keeps_role_def Let_def)
qed

lemma schedule_role: "keeps_role (schedule zone fails n cron data tz)"
proof -
  have define_first: "keeps_role (if b then op_then (op_check (resolveQueue n plain_config)) defineResolved else op_return ())" for b
    by (auto intro: keeps_role_then keeps_role_basic keeps_role_ops)
  have "keeps_role (\<lambda>e0. op_then (op_check (require (map_of (en_schedules e0) n = None) (AlreadyScheduled n))) (\<lambda>_.
     op_then (if map_of (en_queues e0) n = None
              then op_then (op_check (resolveQueue n plain_config)) defineResolved else op_return ()) (\<lambda>_ e1.
       let s = \<lparr>sd_cron = cron, sd_data = data, sd_tz = z\<rparr>;
           e2 = e1\<lparr>en_schedules := en_schedules e1 @ [(n, s)]\<rparr>
       in if en_life e2 = Started \<and> en_role e2 = Worker
          then op_then (ensureQueue fails (the (map_of (en_queues e2) n))) (\<lambda>_. applySchedule fails (n, s)) e2
          else (Inr (), e2))) e0)" for z
  proof -
    have "keeps_role (op_then (op_check (require a (AlreadyScheduled n))) (\<lambda>_.
     op_then (if b
              then op_then (op_check (resolveQueue n plain_config)) defineResolved else op_return ()) (\<lambda>_ e1.
       let s = \<lparr>sd_cron = cron, sd_data = data, sd_tz = z\<rparr>;
           e2 = e1\<lparr>en_schedules := en_schedules e1 @ [(n, s)]\<rparr>
       in if en_life e2 = Started \<and> en_role e2 = Worker
          then op_then (ensureQueue fails (the (map_of (en_queues e2) n))) (\<lambda>_. applySchedule fails (n, s)) e2
          else (Inr (), e2))))" for a b
      using schedule_last_role by (intro keeps_role_then keeps_role_basic define_first) (simp add: Let_def)
    then show ?thesis by (simp add: keeps_role_def)
  qed
  then show ?thesis
    unfolding schedule_def Let_def by (intro keeps_role_then keeps_role_basic)
qed

lemma perform_role: "en_role (snd (perform zone fails r e)) = en_role e"
  using start_role keeps_role_basic(4) defineQueue_role handle_role schedule_role
  by (cases r) (auto simp: stop_def keeps_role_def)

lemma perform_all_role: "en_role (perform_all zone fails rs e) = en_role e"
  by (induction rs arbitrary: e) (simp_all add: perform_role)

text \<open>A stopped engine makes no call and does not start again.\<close>

lemma defineResolved_same:
  "defineResolved r e = (b, e') \<Longrightarrow> en_life e' = en_life e \<and> en_calls e' = en_calls e"
  by (auto simp: defineResolved_def op_throw_def split: option.splits if_splits)

lemma perform_stopped:
  assumes "en_life e = Stopped"
  shows "en_life (snd (perform zone fails r e)) = Stopped \<and> en_calls (snd (perform zone fails r e)) = en_calls e"
proof (cases r)
  case (OpHandle q fn opts)
  then show ?thesis
    using assms by (auto simp: handle_def op_then_def op_check_def op_throw_def Let_def
        dest!: defineResolved_same split: sum.splits prod.splits)
next
  case (OpSchedule n cron data tz)
  then show ?thesis
    using assms by (auto simp: schedule_def op_then_def op_check_def op_return_def Let_def
        dest!: defineResolved_same split: sum.splits prod.splits if_splits)
qed (use assms in \<open>auto simp: start_def stop_def defineQueue_def op_then_def op_check_def op_throw_def Let_def
       split: sum.splits option.splits\<close>)

lemma perform_all_stopped:
  "en_life e = Stopped \<Longrightarrow>
     en_life (perform_all zone fails rs e) = Stopped \<and> en_calls (perform_all zone fails rs e) = en_calls e"
  by (induction rs arbitrary: e) (use perform_stopped in \<open>simp_all\<close>)



lemma plain_config_resolves:
  assumes "QUEUE_NAME q" "QUEUE_NAME (q @ ''.dlq'')"
  shows "is_ok (resolveQueue q plain_config)"
  using assms
  by (simp add: resolveQueue_def plain_config_def no_retention_def resolveRetention_def opt_integer_def assertQueueName_def
      integer_def or_default_def defaults not_callable_def Let_def)

definition worker_env :: env where
  "worker_env n = (if n = ''ROLE'' then Some ''Worker'' else None)"

definition plain_handle :: handle_options where
  "plain_handle = \<lparr>ho_queue = plain_config, ho_concurrency = None, ho_pollingMillis = None\<rparr>"

definition quiet_handler :: handler_fn where "quiet_handler j st = (Inr (), st)"

definition worker_session :: "engine_request list" where
  "worker_session = [OpHandle ''m'' quiet_handler plain_handle, OpStart, OpStop 5, OpStart]"

lemma worker_session_runs:
  "works (en_calls (perform_all zone (\<lambda>_ _. None) worker_session (createJobs worker_env))) = [''m'']"
  "en_life (perform_all zone (\<lambda>_ _. None) worker_session (createJobs worker_env)) = Stopped"
proof -
  have names: "QUEUE_NAME ''m''" "QUEUE_NAME (''m'' @ ''.dlq'')"
    by code_simp+
  obtain r where r: "resolveQueue ''m'' plain_config = Inr r"
    using plain_config_resolves [OF names] by (auto simp: is_ok_def split: sum.splits)
  have role: "roleFrom worker_env = Worker"
    by code_simp
  have rh: "resolveHandler ''m'' plain_handle = Inr \<lparr>rh_concurrency = 4, rh_pollingMillis = 1000\<rparr>"
    by (simp add: resolveHandler_def plain_handle_def or_default_def integer_def defaults)
  note ops = handle_def op_then_def op_check_def op_return_def defineResolved_def start_def stop_def boss_def ensureQueue_def
    startWorker_def op_modify_def
  have "works (en_calls (perform_all zone (\<lambda>_ _. None) worker_session (createJobs worker_env))) = [''m''] \<and>
      en_life (perform_all zone (\<lambda>_ _. None) worker_session (createJobs worker_env)) = Stopped"
    using resolveQueue_ok(2) [OF r] r rh role
    by (simp add: worker_session_def createJobs_def ops Let_def plain_handle_def)
  then show "works (en_calls (perform_all zone (\<lambda>_ _. None) worker_session (createJobs worker_env))) = [''m'']"
      "en_life (perform_all zone (\<lambda>_ _. None) worker_session (createJobs worker_env)) = Stopped"
    by simp_all
qed


text \<open>
  A start that fails after pg-boss connected leaves the engine started, so a second \<open>start()\<close> answers without an error
  while no worker runs.
\<close>

lemma failed_start_not_retried:
  assumes "en_life e = New" "en_queues e \<noteq> []" "works (en_calls e) = []"
    and "fails (length (en_calls e)) BossStart = None" "\<And>c. fails (length (en_calls e) + 1) c = Some m"
  shows "\<exists>e2. start fails e = (Inl (BossFailed m), e2) \<and> start fails e2 = (Inr (), e2) \<and> works (en_calls e2) = []"
proof -
  obtain q qs where "en_queues e = q # qs"
    using assms(2) by (cases "en_queues e") auto
  then have "start fails e = (Inl (BossFailed m),
      e\<lparr>en_calls := en_calls e @ [BossStart, CreateQueue (rq_deadLetter (snd q)) None], en_life := Started\<rparr>)"
    using assms by (simp add: start_def boss_def op_then_def ensureQueue_def Let_def)
  then show ?thesis
    using assms(3) by (simp add: start_def)
qed

section \<open>Sending twice under one key\<close>

lemma send_ok:
  assumes "send bsend sha1 life q data opts d = (Inr r, d')" "so_idempotencyKey opts = Some key"
  shows "bsend \<lparr>sa_queue = q, sa_data = data, sa_id = Some (idempotencyId sha1 q key), sa_startAfter = so_startAfter opts,
      sa_priority = (case so_priority opts of Some (Some p) \<Rightarrow> p | _ \<Rightarrow> 0)\<rparr> d = (Inr r, d')"
  using assms by (auto simp: send_def send_args_of_def split: if_splits prod.splits sum.splits)

lemma send_deduplicates:
  assumes laws: "\<And>sa. boss_send (\<lambda>q data i p. bsend \<lparr>sa_queue = q, sa_data = data, sa_id = Some i, sa_startAfter = sa, sa_priority = p\<rparr>)"
    and "so_idempotencyKey o1 = Some key" "so_idempotencyKey o2 = Some key"
    and "send bsend sha1 life q data1 o1 d = (Inr r1, d1)" "send bsend sha1 life2 q data2 o2 d1 = (Inr r2, d2)"
  shows "r2 = None \<and> d2 = d1"
proof -
  note s1 = send_ok [OF assms(4,2)] and s2 = send_ok [OF assms(5,3)]
  have "has_job q (idempotencyId sha1 q key) d1"
    using boss_send.send_conflict [OF laws s1] boss_send.send_new [OF laws s1]
    by (cases "has_job q (idempotencyId sha1 q key) d") (auto simp: has_job_iff fresh_job_def job_key_def)
  then show ?thesis
    by (rule boss_send.send_conflict [OF laws s2])
qed

section \<open>Redriving through the engine\<close>

text \<open>A queue's rule is the one of its definition in this process.\<close>

definition policyFor :: "engine \<Rightarrow> policies" where
  "policyFor e origin = map_option rq_canRedrive (map_of (en_queues e) origin)"

datatype engine_redrive_error = RedriveQueueName string | RedriveNotStarted | RedriveFailed redrive_error

definition redrive ::
  "redrive_deps \<Rightarrow> engine \<Rightarrow> string \<Rightarrow> js_int option \<Rightarrow> redrive_filter \<Rightarrow> pg \<Rightarrow> ((engine_redrive_error + nat \<times> nat) \<times> pg) option" where
  "redrive deps e dlq limit rf d =
     (if \<not> QUEUE_NAME dlq then Some (Inl (RedriveQueueName dlq), d)
      else if en_life e \<noteq> Started then Some (Inl RedriveNotStarted, d)
      else (case redriveDeadLetters (deps\<lparr>rd_policyFor := policyFor e\<rparr>) dlq limit rf d of
              None \<Rightarrow> None
            | Some (Inl x, st) \<Rightarrow> Some (Inl (RedriveFailed x), rs_db st)
            | Some (Inr ms, st) \<Rightarrow> Some (Inr ms, rs_db st)))"

text \<open>A dead letter that left its queue came from a queue this process defines.\<close>

lemma redrive_only_defined:
  assumes "boss_send (rd_send deps)" "pk d" "redrive deps e dlq limit rf d = Some (res, d')"
    and "j \<in> set (pg_jobs d)" "j \<notin> set (pg_jobs d')" "job_state j \<noteq> Failed"
  shows "\<exists>q r. job_source_name j = Some q \<and> map_of (en_queues e) q = Some r \<and>
    (case rq_canRedrive r of None \<Rightarrow> True | Some f \<Rightarrow> f (job_data j) = Some (JBool True))"
proof -
  let ?deps = "deps\<lparr>rd_policyFor := policyFor e\<rparr>"
  obtain x st where r: "redriveDeadLetters ?deps dlq limit rf d = Some (x, st)" "rs_db st = d'"
    using assms(3-5) by (auto simp: redrive_def split: if_splits option.splits sum.splits)
  have "conserves ?deps dlq d d'"
    using redrive_conserves_lemma [OF _ assms(2) r(1)] assms(1) r(2) by simp
  then have "kept ?deps dlq d' j"
    using assms(4) by (simp add: conserves_def)
  then obtain q where "job_source_name j = Some q" "permits (policyFor e) q (job_data j)"
    using assms(5,6) by (auto simp: kept_def redriven_def)
  then show ?thesis
    by (auto simp: permits_iff policyFor_def split: option.splits)
qed

end
