(* ===== verification/JobsRun.thy ===== *)
theory JobsRun
  imports JobsEngine
begin

text \<open>
  Running a batch of jobs (\<open>runOne\<close>, \<open>processBatch\<close>, \<open>countFailures\<close> of \<open>platform-jobs/src/engine.ts\<close>), the query
  of \<open>claims.ts\<close>, the sweep of \<open>pending.ts\<close>, the ages of \<open>metrics.ts\<close>, and \<open>once\<close>.

  pg-boss's \<open>complete\<close> and \<open>deleteJob\<close> are a parameter: the locale \<open>boss_settle\<close> says that they are fenced to the
  attempt that was fetched and answer the number of rows they settled. The handlers of a batch run concurrently; each
  settles its own job in one statement, and here they settle in the order of the batch.
\<close>

section \<open>Settling\<close>

definition claim :: "string \<Rightarrow> string \<Rightarrow> nat \<Rightarrow> job \<Rightarrow> bool" where
  "claim q i attempt j \<longleftrightarrow> has_key q i j \<and> job_state j = Active \<and> job_retry j = attempt"

text \<open>\<open>settle delete queue id attempt\<close>: \<open>deleteJob\<close> or \<open>complete\<close>.\<close>

type_synonym pg_settle = "bool \<Rightarrow> string \<Rightarrow> string \<Rightarrow> nat \<Rightarrow> pg \<Rightarrow> (string + nat) \<times> pg"

definition settled :: "bool \<Rightarrow> string \<Rightarrow> string \<Rightarrow> nat \<Rightarrow> pg \<Rightarrow> pg" where
  "settled del q i attempt d = d\<lparr>pg_jobs :=
     (if del then filter (\<lambda>j. \<not> claim q i attempt j) (pg_jobs d)
      else map (\<lambda>j. if claim q i attempt j then j\<lparr>job_state := Completed\<rparr> else j) (pg_jobs d))\<rparr>"

locale boss_settle =
  fixes settle :: pg_settle
  assumes settle_fenced: "settle del q i attempt d = (Inr n, d') \<Longrightarrow>
      n = length (filter (claim q i attempt) (pg_jobs d)) \<and> d' = settled del q i attempt d"

definition mem_settle :: pg_settle where
  "mem_settle del q i attempt d = (Inr (length (filter (claim q i attempt) (pg_jobs d))), settled del q i attempt d)"

interpretation mem_settling: boss_settle mem_settle
  by unfold_locales (simp_all add: mem_settle_def)

section \<open>One job\<close>

definition MAX_ERROR_CHARS :: nat where "MAX_ERROR_CHARS = 500"

datatype job_outcome =
    JobCompleted string | JobFailed string string string nat | JobDeadLettered string string string nat

fun outcome_id :: "job_outcome \<Rightarrow> string" where
  "outcome_id (JobCompleted i) = i"
| "outcome_id (JobFailed i _ _ _) = i"
| "outcome_id (JobDeadLettered i _ _ _) = i"

datatype run_warning =
    FailedPermanently string string string | AttemptFailed string nat string string | ClaimLost string
  | NotSettledEarly string | ClaimsUnknown | NotCounted string

record run_state =
  rn_db :: pg
  rn_processed :: nat
  rn_failures :: nat
  rn_warnings :: "run_warning list"

definition warn :: "run_warning \<Rightarrow> run_state \<Rightarrow> run_state" where
  "warn w st = st\<lparr>rn_warnings := rn_warnings st @ [w]\<rparr>"

definition recordProcessedJob :: "run_state \<Rightarrow> run_state" where
  "recordProcessedJob st = st\<lparr>rn_processed := rn_processed st + 1\<rparr>"

text \<open>The handler under its context; \<open>uuid\<close> is the id the context would make up, and the store is the caller's.\<close>

definition handler_result :: "registered \<Rightarrow> string \<Rightarrow> als \<Rightarrow> job \<Rightarrow> thrown_error + unit" where
  "handler_result h uuid st j =
     fst (withJobContext uuid (rq_name (rg_queue h)) (rg_fn h j)
       \<lparr>js_correlationId = Some (correlationIdFor (rq_name (rg_queue h)) (job_id j) (job_data j)), js_workspaceId = None,
        js_userId = None, js_traceparent = None\<rparr> st)"

definition runOne :: "pg_settle \<Rightarrow> registered \<Rightarrow> string \<Rightarrow> als \<Rightarrow> job \<Rightarrow> run_state \<Rightarrow> job_outcome \<times> run_state" where
  "runOne settle h uuid outer j st =
     (let q = rq_name (rg_queue h) in
      case handler_result h uuid outer j of
        Inl err \<Rightarrow>
          (let name = te_name err; message = take MAX_ERROR_CHARS (te_message err) in
           if te_permanent err
           then (JobDeadLettered (job_id j) name message (job_retry j), warn (FailedPermanently (job_id j) name message) st)
           else (JobFailed (job_id j) name message (job_retry j),
                 warn (AttemptFailed (job_id j) (job_retry j + 1) name message) st))
      | Inr _ \<Rightarrow>
          (case settle (rq_deleteOnSuccess (rg_queue h)) q (job_id j) (job_retry j) (rn_db st) of
             (Inl m, d') \<Rightarrow> (JobCompleted (job_id j), warn (NotSettledEarly (job_id j)) (recordProcessedJob (st\<lparr>rn_db := d'\<rparr>)))
           | (Inr n, d') \<Rightarrow>
               (JobCompleted (job_id j),
                if n = 0 then warn (ClaimLost (job_id j)) (st\<lparr>rn_db := d'\<rparr>) else recordProcessedJob (st\<lparr>rn_db := d'\<rparr>))))"

section \<open>A batch\<close>

fun run_all :: "pg_settle \<Rightarrow> registered \<Rightarrow> string \<Rightarrow> als \<Rightarrow> job list \<Rightarrow> run_state \<Rightarrow> job_outcome list \<times> run_state" where
  "run_all settle h uuid outer [] st = ([], st)"
| "run_all settle h uuid outer (j # js) st =
     (let (o1, st1) = runOne settle h uuid outer j st; (os, st2) = run_all settle h uuid outer js st1 in (o1 # os, st2))"

text \<open>The pairs (id, attempt) of the failed outcomes.\<close>

fun failed_claim :: "job_outcome \<Rightarrow> (string \<times> nat) option" where
  "failed_claim (JobCompleted i) = None"
| "failed_claim (JobFailed i _ _ n) = Some (i, n)"
| "failed_claim (JobDeadLettered i _ _ n) = Some (i, n)"

definition HELD_CLAIMS_SQL :: "string \<Rightarrow> (string \<times> nat) list \<Rightarrow> pg \<Rightarrow> string list" where
  "HELD_CLAIMS_SQL q pairs d =
     [job_id j. (i, rc) \<leftarrow> pairs, j \<leftarrow> pg_jobs d, job_id j = i \<and> job_retry j = rc \<and> job_name j = q \<and> job_state j = Active]"

text \<open>\<open>answers\<close>: whether the query for the claims got an answer.\<close>

definition countFailures :: "bool \<Rightarrow> string \<Rightarrow> job_outcome list \<Rightarrow> run_state \<Rightarrow> run_state" where
  "countFailures answers q outcomes st =
     (let failed = List.map_filter failed_claim outcomes in
      if failed = [] then st
      else if answers then
        (let held = HELD_CLAIMS_SQL q failed (rn_db st) in
         foldl (\<lambda>s (i, _). if i \<notin> set held then warn (NotCounted i) s else s\<lparr>rn_failures := rn_failures s + 1\<rparr>) st failed)
      else foldl (\<lambda>s _. s\<lparr>rn_failures := rn_failures s + 1\<rparr>) (warn ClaimsUnknown st) failed)"

text \<open>What pg-boss is told: the attempt stays here.\<close>

datatype batch_result = ResultCompleted string | ResultFailed string string string | ResultDeadLetter string string string

fun batch_result_of :: "job_outcome \<Rightarrow> batch_result" where
  "batch_result_of (JobCompleted i) = ResultCompleted i"
| "batch_result_of (JobFailed i n m _) = ResultFailed i n m"
| "batch_result_of (JobDeadLettered i n m _) = ResultDeadLetter i n m"

definition processBatch ::
  "pg_settle \<Rightarrow> bool \<Rightarrow> registered \<Rightarrow> string \<Rightarrow> als \<Rightarrow> job list \<Rightarrow> run_state \<Rightarrow> batch_result list \<times> run_state" where
  "processBatch settle answers h uuid outer jobs st =
     (let (outcomes, st1) = run_all settle h uuid outer jobs st
      in (map batch_result_of outcomes, countFailures answers (rq_name (rg_queue h)) outcomes st1))"

section \<open>What a batch settles and counts\<close>

definition returned :: "registered \<Rightarrow> string \<Rightarrow> als \<Rightarrow> job \<Rightarrow> bool" where
  "returned h uuid outer j \<longleftrightarrow> is_ok (handler_result h uuid outer j)"

definition claim_held :: "string \<Rightarrow> pg \<Rightarrow> job \<Rightarrow> bool" where
  "claim_held q d j \<longleftrightarrow> (\<exists>row\<in>set (pg_jobs d). claim q (job_id j) (job_retry j) row)"

lemma claim_held_filter: "claim_held q d j \<longleftrightarrow> filter (claim q (job_id j) (job_retry j)) (pg_jobs d) \<noteq> []"
  by (auto simp: claim_held_def filter_empty_conv)

lemma claim_completed [simp]: "\<not> claim q i n (j\<lparr>job_state := Completed\<rparr>)"
  by (simp add: claim_def)

text \<open>A job that is settled is no longer claimed; every other claim stands.\<close>

lemma claim_held_settled:
  "claim_held q (settled del q' i' n' d) j \<longleftrightarrow>
     (\<exists>row\<in>set (pg_jobs d). claim q (job_id j) (job_retry j) row \<and> \<not> claim q' i' n' row)"
  by (auto simp: claim_held_def settled_def split: if_splits)

lemma claim_held_other:
  assumes "job_id j \<noteq> i"
  shows "claim_held q (settled del q' i n d) j \<longleftrightarrow> claim_held q d j"
proof -
  have "\<not> claim q' i n row" if "claim q (job_id j) (job_retry j) row" for row
    using assms that by (simp add: claim_def has_key_def)
  then show ?thesis
    unfolding claim_held_settled unfolding claim_held_def by blast
qed

lemma claim_held_own: "\<not> claim_held q (settled del q (job_id j) (job_retry j) d) j"
  by (auto simp: claim_held_settled)

text \<open>The database after one job: settled if its handler returned, untouched otherwise.\<close>

definition settle_if :: "registered \<Rightarrow> string \<Rightarrow> als \<Rightarrow> job \<Rightarrow> pg \<Rightarrow> pg" where
  "settle_if h uuid outer j d =
     (if returned h uuid outer j then settled (rq_deleteOnSuccess (rg_queue h)) (rq_name (rg_queue h)) (job_id j) (job_retry j) d
      else d)"

lemma runOne_spec:
  assumes "boss_settle settle" "\<And>del q i n d. is_ok (fst (settle del q i n d))" "runOne settle h uuid outer j st = (out, st')"
  shows "rn_db st' = settle_if h uuid outer j (rn_db st)"
    and "rn_failures st' = rn_failures st"
    and "rn_processed st' = rn_processed st +
      (if returned h uuid outer j \<and> claim_held (rq_name (rg_queue h)) (rn_db st) j then 1 else 0)"
    and "failed_claim out = (if returned h uuid outer j then None else Some (job_id j, job_retry j))"
    and "outcome_id out = job_id j"
proof -
  let ?q = "rq_name (rg_queue h)"
  obtain n d' where s: "settle (rq_deleteOnSuccess (rg_queue h)) ?q (job_id j) (job_retry j) (rn_db st) = (Inr n, d')"
    using assms(2) [of "rq_deleteOnSuccess (rg_queue h)" ?q "job_id j" "job_retry j" "rn_db st"]
    by (cases "settle (rq_deleteOnSuccess (rg_queue h)) ?q (job_id j) (job_retry j) (rn_db st)")
       (auto simp: is_ok_def split: sum.splits)
  note fenced = boss_settle.settle_fenced [OF assms(1) s]
  have all: "rn_db st' = settle_if h uuid outer j (rn_db st) \<and> rn_failures st' = rn_failures st \<and>
    rn_processed st' = rn_processed st + (if returned h uuid outer j \<and> claim_held ?q (rn_db st) j then 1 else 0) \<and>
    failed_claim out = (if returned h uuid outer j then None else Some (job_id j, job_retry j)) \<and> outcome_id out = job_id j"
  proof (cases "handler_result h uuid outer j")
    case (Inl err)
    then show ?thesis
      using assms(3) by (auto simp: runOne_def returned_def settle_if_def warn_def Let_def split: if_splits)
  next
    case (Inr u)
    then have r: "returned h uuid outer j"
      by (simp add: returned_def)
    have "out = JobCompleted (job_id j)"
      "st' = (if n = 0 then warn (ClaimLost (job_id j)) (st\<lparr>rn_db := d'\<rparr>) else recordProcessedJob (st\<lparr>rn_db := d'\<rparr>))"
      using assms(3) Inr s by (simp_all add: runOne_def Let_def)
    then show ?thesis
      using fenced r by (auto simp: settle_if_def claim_held_filter warn_def recordProcessedJob_def)
  qed
  then show "rn_db st' = settle_if h uuid outer j (rn_db st)" "rn_failures st' = rn_failures st"
    "rn_processed st' = rn_processed st + (if returned h uuid outer j \<and> claim_held ?q (rn_db st) j then 1 else 0)"
    "failed_claim out = (if returned h uuid outer j then None else Some (job_id j, job_retry j))" "outcome_id out = job_id j"
    by simp_all
qed

text \<open>The database after the batch, and who is counted.\<close>

lemma claim_held_settle_if:
  "job_id j \<noteq> job_id k \<Longrightarrow> claim_held q (settle_if h uuid outer k d) j \<longleftrightarrow> claim_held q d j"
  by (simp add: settle_if_def claim_held_other)

lemma run_all_spec:
  assumes "boss_settle settle" "\<And>del q i n d. is_ok (fst (settle del q i n d))"
    and "run_all settle h uuid outer jobs st = (outs, st')" "distinct (map job_id jobs)"
  defines "q \<equiv> rq_name (rg_queue h)"
  shows "(\<forall>j\<in>set jobs. claim_held q (rn_db st') j \<longleftrightarrow> \<not> returned h uuid outer j \<and> claim_held q (rn_db st) j)
    \<and> (\<forall>k. job_id k \<notin> job_id ` set jobs \<longrightarrow> (claim_held q (rn_db st') k \<longleftrightarrow> claim_held q (rn_db st) k))
    \<and> rn_processed st' = rn_processed st + length (filter (\<lambda>j. returned h uuid outer j \<and> claim_held q (rn_db st) j) jobs)
    \<and> rn_failures st' = rn_failures st
    \<and> List.map_filter failed_claim outs = map (\<lambda>j. (job_id j, job_retry j)) (filter (\<lambda>j. \<not> returned h uuid outer j) jobs)
    \<and> map outcome_id outs = map job_id jobs"
  using assms(3,4)
proof (induction jobs arbitrary: st outs)
  case Nil
  then show ?case by (simp add: map_filter_simps)
next
  case (Cons j jobs)
  obtain o1 st1 where one: "runOne settle h uuid outer j st = (o1, st1)"
    by fastforce
  obtain os where rest: "run_all settle h uuid outer jobs st1 = (os, st')" "outs = o1 # os"
    using Cons.prems(1) one by (auto split: prod.splits)
  note spec = runOne_spec [OF assms(1,2) one, folded q_def]
  have d: "distinct (map job_id jobs)" "\<forall>k\<in>set jobs. job_id k \<noteq> job_id j" "job_id j \<notin> job_id ` set jobs"
    using Cons.prems(2) by (auto intro: rev_image_eqI)
  note IH = Cons.IH [OF rest(1) d(1)]
  have same: "claim_held q (rn_db st1) k \<longleftrightarrow> claim_held q (rn_db st) k" if "job_id k \<noteq> job_id j" for k
    using that by (simp add: spec(1) claim_held_settle_if)
  have own: "claim_held q (rn_db st1) j \<longleftrightarrow> \<not> returned h uuid outer j \<and> claim_held q (rn_db st) j"
    by (simp add: spec(1) settle_if_def q_def claim_held_own)
  have "filter (\<lambda>k. returned h uuid outer k \<and> claim_held q (rn_db st1) k) jobs =
      filter (\<lambda>k. returned h uuid outer k \<and> claim_held q (rn_db st) k) jobs"
    using d(2) same by (intro filter_cong) auto
  then show ?case
    using IH spec(2-5) d same own rest(2) by (auto simp: map_filter_simps)
qed

lemma foldl_count:
  "rn_failures (foldl (\<lambda>s (i, _). if P i then warn (NotCounted i) s else s\<lparr>rn_failures := rn_failures s + 1\<rparr>) st xs) =
     rn_failures st + length (filter (\<lambda>(i, _). \<not> P i) xs)"
  "rn_db (foldl (\<lambda>s (i, _). if P i then warn (NotCounted i) s else s\<lparr>rn_failures := rn_failures s + 1\<rparr>) st xs) = rn_db st"
  "rn_processed (foldl (\<lambda>s (i, _). if P i then warn (NotCounted i) s else s\<lparr>rn_failures := rn_failures s + 1\<rparr>) st xs) = rn_processed st"
  by (induction xs arbitrary: st) (auto simp: warn_def)

lemma held_claims:
  assumes "distinct (map fst pairs)" "(i, n) \<in> set pairs"
  shows "i \<in> set (HELD_CLAIMS_SQL q pairs d) \<longleftrightarrow> (\<exists>row\<in>set (pg_jobs d). claim q i n row)"
proof -
  have "i \<in> set (HELD_CLAIMS_SQL q pairs d) \<longleftrightarrow>
      (\<exists>m. (i, m) \<in> set pairs \<and> (\<exists>row\<in>set (pg_jobs d). claim q i m row))"
    unfolding HELD_CLAIMS_SQL_def claim_def has_key_def by auto
  also have "\<dots> \<longleftrightarrow> (\<exists>row\<in>set (pg_jobs d). claim q i n row)"
    using eq_key_imp_eq_value [OF assms(1) assms(2)] assms(2) by blast
  finally show ?thesis .
qed



definition example_fn :: handler_fn where
  "example_fn j cx = (if job_data j = JNum 0 then Inr () else Inl \<lparr>te_name = ''Error'', te_message = ''down'', te_permanent = False\<rparr>, cx)"

definition example_queue :: resolved_queue where
  "example_queue = \<lparr>rq_name = ''m'', rq_deadLetter = ''m.dlq'',
     rq_queue = \<lparr>qo_expireInSeconds = 900, qo_heartbeatSeconds = Some 30, qo_retryLimit = 3, qo_retryDelay = 5,
       qo_retryDelayMax = 300, qo_deleteAfterSeconds = 604800, qo_retentionSeconds = 1209600\<rparr>,
     rq_dlRetentionSeconds = 2592000, rq_dlDeleteAfterSeconds = 604800, rq_deleteOnSuccess = True, rq_guarded = False,
     rq_canRedrive = None, rq_pendingWatch = False, rq_fingerprint = []\<rparr>"

definition example_handler :: registered where
  "example_handler = \<lparr>rg_queue = example_queue, rg_options = \<lparr>rh_concurrency = 4, rh_pollingMillis = 1000\<rparr>, rg_fn = example_fn\<rparr>"

definition active_job :: "string \<Rightarrow> int \<Rightarrow> nat \<Rightarrow> job" where
  "active_job i v n = (mem_job ''m'' i (JNum v) 0)\<lparr>job_state := Active, job_retry := n\<rparr>"

text \<open>Three jobs were fetched; the third has since been taken by another worker, at a later attempt.\<close>

definition example_batch :: "job list" where
  "example_batch = [active_job ''a'' 0 0, active_job ''b'' 1 1, active_job ''c'' 0 0]"

definition example_run_state :: run_state where
  "example_run_state = \<lparr>rn_db = \<lparr>pg_queues = [], pg_jobs = [active_job ''a'' 0 0, active_job ''b'' 1 1, active_job ''c'' 0 1]\<rparr>,
     rn_processed = 0, rn_failures = 0, rn_warnings = []\<rparr>"


section \<open>Jobs that waited too long\<close>

text \<open>The deletion and the count per queue; \<open>now\<close> is pg-boss's clock.\<close>

definition expired :: "nat \<Rightarrow> string list \<Rightarrow> job \<Rightarrow> bool" where
  "expired now queues j \<longleftrightarrow> job_name j \<in> set queues \<and> waiting j \<and> \<not> job_blocked j \<and> job_keep j < now"

definition SWEEP_SQL :: "nat \<Rightarrow> string list \<Rightarrow> pg \<Rightarrow> (string \<times> nat) list \<times> pg" where
  "SWEEP_SQL now queues d =
     (let gone = filter (expired now queues) (pg_jobs d)
      in (map (\<lambda>q. (q, length (filter (\<lambda>j. job_name j = q) gone))) (remdups (map job_name gone)),
          d\<lparr>pg_jobs := filter (\<lambda>j. \<not> expired now queues j) (pg_jobs d)\<rparr>))"

definition sweepPending :: "nat \<Rightarrow> string list \<Rightarrow> pg \<Rightarrow> (string \<times> nat) list \<times> pg" where
  "sweepPending now queues d = (if queues = [] then ([], d) else SWEEP_SQL now queues d)"

text \<open>Only the queues that asked for it are watched.\<close>

definition watched_queues :: "engine \<Rightarrow> string list" where
  "watched_queues e = map rq_name (filter rq_pendingWatch (map snd (en_queues e)))"

lemma sweep_spares:
  assumes "sweepPending now queues d = (counts, d')" "j \<in> set (pg_jobs d)"
    and "job_state j = Active \<or> job_name j \<notin> set queues \<or> now \<le> job_keep j"
  shows "j \<in> set (pg_jobs d')"
  using assms by (auto simp: sweepPending_def SWEEP_SQL_def expired_def waiting_def Let_def split: if_splits)

lemma sum_list_one:
  "distinct qs \<Longrightarrow> sum_list (map (\<lambda>q. if q = a then 1 else 0) qs) = (if a \<in> set qs then 1 else (0 :: nat))"
  by (induction qs) auto

text \<open>The report is exact: what was deleted is what was counted, and only on the queues asked about.\<close>

lemma sweep_counts:
  assumes "sweepPending now queues d = (counts, d')"
  shows "length (pg_jobs d) = length (pg_jobs d') + sum_list (map snd counts)"
    and "fst ` set counts \<subseteq> set queues"
proof -
  have part: "sum_list (map (\<lambda>q. length (filter (\<lambda>j. job_name j = q) js)) qs) = length js"
    if "set (map job_name js) \<subseteq> set qs" "distinct qs" for js :: "job list" and qs
    using that
  proof (induction js)
    case (Cons j js)
    have "sum_list (map (\<lambda>q. length (filter (\<lambda>k. job_name k = q) (j # js))) qs) =
        sum_list (map (\<lambda>q. (if q = job_name j then 1 else 0) + length (filter (\<lambda>k. job_name k = q) js)) qs)"
      by (rule arg_cong [of _ _ sum_list]) simp
    also have "\<dots> = sum_list (map (\<lambda>q. if q = job_name j then 1 else 0) qs) + length js"
      using Cons by (simp add: sum_list_addf)
    also have "sum_list (map (\<lambda>q. if q = job_name j then 1 else 0) qs) = (1 :: nat)"
      using Cons.prems by (simp add: sum_list_one)
    finally show ?case by simp
  qed (simp add: sum_list_triv)
  let ?gone = "filter (expired now queues) (pg_jobs d)"
  show "length (pg_jobs d) = length (pg_jobs d') + sum_list (map snd counts)"
    using assms part [of ?gone "remdups (map job_name ?gone)"] sum_length_filter_compl [of "expired now queues" "pg_jobs d"]
    by (auto simp: sweepPending_def SWEEP_SQL_def Let_def comp_def split: if_splits)
  show "fst ` set counts \<subseteq> set queues"
    using assms by (auto simp: sweepPending_def SWEEP_SQL_def expired_def Let_def split: if_splits)
qed
end
