(* ===== verification/JobsOnce.thy ===== *)
theory JobsOnce
  imports JobsRun
begin

text \<open>
  An effect at most once per key (\<open>once\<close> and its purge, \<open>platform-jobs/src/engine.ts\<close>, over the table of
  \<open>install.ts\<close>), and the age of the oldest ready job (\<open>metrics.ts\<close>). The marker and the effect share a savepoint: an
  effect that throws leaves the state it started from. Times are in seconds.
\<close>

section \<open>The oldest ready job\<close>

definition ready :: "nat \<Rightarrow> job \<Rightarrow> bool" where
  "ready now j \<longleftrightarrow> waiting j \<and> \<not> job_blocked j \<and> job_start j \<le> now"

text \<open>A queue with nothing ready is absent.\<close>

definition readOldestReadyAge :: "nat \<Rightarrow> string list \<Rightarrow> pg \<Rightarrow> (string \<times> nat) list" where
  "readOldestReadyAge now queues d =
     (if queues = [] then []
      else map (\<lambda>q. (q, now - Min (set (map job_start (filter (\<lambda>j. job_name j = q \<and> ready now j) (pg_jobs d))))))
             (filter (\<lambda>q. list_ex (\<lambda>j. job_name j = q \<and> ready now j) (pg_jobs d)) (remdups queues)))"

definition GAUGE_CACHE_MS :: nat where "GAUGE_CACHE_MS = 10000"

record gauge_state =
  ga_cached :: "(nat \<times> (string \<times> nat) list) option"
  ga_lags :: "(string \<times> nat) list"

definition age_of :: "(string \<times> nat) list \<Rightarrow> string \<Rightarrow> nat" where
  "age_of ages q = (case map_of ages q of Some a \<Rightarrow> a | None \<Rightarrow> 0)"

text \<open>One collection: what is observed, or \<open>None\<close> when the query failed and the error is reported instead.\<close>

definition gauge_collect :: "nat \<Rightarrow> string list \<Rightarrow> (string \<times> nat) list option \<Rightarrow> gauge_state \<Rightarrow> (string \<times> nat) list option \<times> gauge_state" where
  "gauge_collect nowMs queues answer st =
     (case ga_cached st of
        Some (at, ages) \<Rightarrow>
          if nowMs \<le> at + GAUGE_CACHE_MS then (Some (map (\<lambda>q. (q, age_of ages q)) (remdups queues)), st)
          else (case answer of
                  None \<Rightarrow> (None, st)
                | Some fresh \<Rightarrow> (Some (map (\<lambda>q. (q, age_of fresh q)) (remdups queues)),
                     st\<lparr>ga_cached := Some (nowMs, fresh), ga_lags := ga_lags st @ map (\<lambda>q. (q, age_of fresh q)) queues\<rparr>))
      | None \<Rightarrow>
          (case answer of
             None \<Rightarrow> (None, st)
           | Some fresh \<Rightarrow> (Some (map (\<lambda>q. (q, age_of fresh q)) (remdups queues)),
                st\<lparr>ga_cached := Some (nowMs, fresh), ga_lags := ga_lags st @ map (\<lambda>q. (q, age_of fresh q)) queues\<rparr>)))"

text \<open>A job that is ready makes its queue's age at least its own wait, and an idle queue reads 0.\<close>

lemma oldest_ready_age:
  assumes "j \<in> set (pg_jobs d)" "ready now j" "job_name j \<in> set queues"
  shows "now - job_start j \<le> age_of (readOldestReadyAge now queues d) (job_name j)"
proof -
  let ?q = "job_name j"
  let ?starts = "\<lambda>q. set (map job_start (filter (\<lambda>j. job_name j = q \<and> ready now j) (pg_jobs d)))"
  have "list_ex (\<lambda>k. job_name k = ?q \<and> ready now k) (pg_jobs d)"
    using assms(1,2) by (auto simp: list_ex_iff)
  then have "map_of (readOldestReadyAge now queues d) ?q = Some (now - Min (?starts ?q))"
  proof -
    assume any: "list_ex (\<lambda>k. job_name k = ?q \<and> ready now k) (pg_jobs d)"
    have "queues \<noteq> []"
      using assms(3) by auto
    moreover have "?q \<in> set (filter (\<lambda>q. list_ex (\<lambda>j. job_name j = q \<and> ready now j) (pg_jobs d)) (remdups queues))"
      using any assms(3) by simp
    ultimately show ?thesis
      by (simp only: readOldestReadyAge_def if_False map_of_map_restrict restrict_map_def if_True comp_apply)
  qed
  moreover have "Min (?starts ?q) \<le> job_start j"
    using assms(1,2) by (intro Min_le) auto
  ultimately show ?thesis by (simp add: age_of_def)
qed

section \<open>Once\<close>

record 'd once_state =
  on_markers :: "(string \<times> nat) list"
  on_data :: 'd

datatype 'a once_result = Ran 'a | Skipped

datatype 'e once_error = OnceConfig jobs_config_error | EffectThrew 'e

definition ONCE_RETENTION :: nat where "ONCE_RETENTION = nat (df_onceRetentionDays DEFAULTS * DAY)"

definition once ::
  "nat \<Rightarrow> string \<Rightarrow> ('d \<Rightarrow> ('e + 'a) \<times> 'd) \<Rightarrow> 'd once_state \<Rightarrow> ('e once_error + 'a once_result) \<times> 'd once_state" where
  "once now key effect st =
     (if key = [] then (Inl (OnceConfig EmptyKey), st)
      else if map_of (on_markers st) key \<noteq> None then (Inr Skipped, st)
      else (case effect (on_data st) of
              (Inl x, _) \<Rightarrow> (Inl (EffectThrew x), st)
            | (Inr v, d) \<Rightarrow> (Inr (Ran v), st\<lparr>on_markers := on_markers st @ [(key, now)], on_data := d\<rparr>)))"

definition purge :: "nat \<Rightarrow> 'd once_state \<Rightarrow> 'd once_state" where
  "purge now st = st\<lparr>on_markers := filter (\<lambda>(k, done_at). \<not> done_at + ONCE_RETENTION < now) (on_markers st)\<rparr>"

text \<open>Deliveries and purges, with the time of each.\<close>

datatype ('d, 'e, 'a) once_event = Deliver nat string "'d \<Rightarrow> ('e + 'a) \<times> 'd" | Purge nat

fun event_time :: "('d, 'e, 'a) once_event \<Rightarrow> nat" where
  "event_time (Deliver t _ _) = t"
| "event_time (Purge t) = t"

text \<open>The effects that ran to their end, with their keys and times.\<close>

fun once_run :: "('d, 'e, 'a) once_event list \<Rightarrow> 'd once_state \<Rightarrow> (nat \<times> string) list \<times> 'd once_state" where
  "once_run [] st = ([], st)"
| "once_run (Deliver t key effect # es) st =
     (case once t key effect st of
        (Inr (Ran _), st1) \<Rightarrow> (let (rs, st2) = once_run es st1 in ((t, key) # rs, st2))
      | (_, st1) \<Rightarrow> once_run es st1)"
| "once_run (Purge t # es) st = once_run es (purge t st)"

text \<open>A marker keeps its key from running again until a purge more than the retention later.\<close>

lemma once_blocked:
  assumes "(key, t0) \<in> set (on_markers st)" "sorted (map event_time es)" "once_run es st = (rs, st')" "(t, key) \<in> set rs"
  shows "t0 + ONCE_RETENTION < t"
  using assms
proof (induction es arbitrary: st rs)
  case (Cons e es)
  show ?case
  proof (cases e)
    case (Purge u)
    have run: "once_run es (purge u st) = (rs, st')" and later: "\<forall>e\<in>set es. u \<le> event_time e"
      using Cons.prems(2,3) Purge by auto
    show ?thesis
    proof (cases "t0 + ONCE_RETENTION < u")
      case False
      then have "(key, t0) \<in> set (on_markers (purge u st))"
        using Cons.prems(1) by (simp add: purge_def)
      then show ?thesis
        using Cons.IH [OF _ _ run] Cons.prems(2,4) by simp
    next
      case True
      have "u \<le> t'" if "(t', k) \<in> set rs'" "once_run es' st1 = (rs', st2)" "\<forall>e\<in>set es'. u \<le> event_time e" for t' k rs' es' st1 st2
        using that
      proof (induction es' st1 arbitrary: rs' rule: once_run.induct)
        case (2 t2 key2 effect es2 st3)
        then show ?case by (auto split: prod.splits sum.splits once_result.splits)
      qed auto
      then have "u \<le> t"
        using Cons.prems(4) run later by blast
      then show ?thesis using True by simp
    qed
  next
    case (Deliver u k eff)
    obtain r st1 where o: "once u k eff st = (r, st1)"
      by fastforce
    have keep: "(key, t0) \<in> set (on_markers st1)"
      using o Cons.prems(1) by (auto simp: once_def split: if_splits prod.splits sum.splits)
    have not: "k \<noteq> key" if "r = Inr (Ran v)" for v
      using o that Cons.prems(1) by (auto simp: once_def map_of_eq_None_iff split: if_splits prod.splits sum.splits) (force intro: rev_image_eqI)
    obtain rs1 where run: "once_run es st1 = (rs1, st')" "rs = rs1 \<or> (\<exists>v. r = Inr (Ran v) \<and> rs = (u, k) # rs1)"
      using Cons.prems(3) o Deliver by (auto split: sum.splits once_result.splits prod.splits)
    have "(t, key) \<in> set rs1"
      using run(2) not Cons.prems(4) by auto
    then show ?thesis
      using Cons.IH [OF keep _ run(1)] Cons.prems(2) by simp
  qed
qed simp


lemma once_failure_leaves_nothing: "once now key effect st = (Inl x, st') \<Longrightarrow> st' = st"
  by (auto simp: once_def split: if_splits prod.splits sum.splits)

definition bump :: "nat \<Rightarrow> (string + nat) \<times> nat" where "bump n = (Inr n, n + 1)"

definition once_session :: "(nat, string, nat) once_event list" where
  "once_session = [Deliver 10 ''k'' bump, Deliver 20 ''k'' bump, Purge 2592011, Deliver 2592011 ''k'' bump]"


end
