(* ===== verification/MailMessage.thy ===== *)
theory MailMessage
  imports RequestContext
begin

text \<open>
  The email message and its validation (\<open>platform-mail/src/message.ts\<close>, \<open>errors.ts\<close>). A message is a JSON value: it
  comes from a caller or from a job's payload. A list that is neither absent, a text nor an array has no \<open>map\<close>, and
  reading it is a \<open>TypeError\<close>.
\<close>

section \<open>Failures to send\<close>

datatype mail_error_code =
    Invalid_message | Unauthenticated | Forbidden | Mailbox_not_found | Too_large | Throttled | Unavailable
  | Network | Timeout | Config

definition RETRYABLE :: "mail_error_code \<Rightarrow> bool" where
  "RETRYABLE c \<longleftrightarrow> c \<in> {Unauthenticated, Throttled, Unavailable, Network, Timeout}"

record mail_send_error =
  me_code :: mail_error_code
  me_message :: string
  me_retryAfterSeconds :: "nat option"

definition mail_error :: "mail_error_code \<Rightarrow> string \<Rightarrow> mail_send_error" where
  "mail_error c m = \<lparr>me_code = c, me_message = m, me_retryAfterSeconds = None\<rparr>"

text \<open>What validating can throw: the error of the package, or a \<open>TypeError\<close> of the language.\<close>

datatype validation_error = InvalidMessage mail_send_error | MapOfNonArray

definition invalid :: "string \<Rightarrow> validation_error + 'a" where
  "invalid reason = Inl (InvalidMessage (mail_error Invalid_message (''Invalid email message: '' @ reason)))"

section \<open>Limits and shapes\<close>

record message_limits =
  ml_maxRecipients :: nat
  ml_maxAddressLength :: nat
  ml_maxSubjectLength :: nat
  ml_maxBodyBytes :: nat
  ml_maxHeaders :: nat
  ml_maxHeaderValueLength :: nat
  ml_maxCategoryLength :: nat
  ml_maxIdempotencyKeyLength :: nat

definition MESSAGE_LIMITS :: message_limits where
  "MESSAGE_LIMITS = \<lparr>ml_maxRecipients = 500, ml_maxAddressLength = 254, ml_maxSubjectLength = 998,
     ml_maxBodyBytes = 2 * 1024 * 1024, ml_maxHeaders = 10, ml_maxHeaderValueLength = 998, ml_maxCategoryLength = 64,
     ml_maxIdempotencyKeyLength = 512\<rparr>"

definition CONTROL :: "string \<Rightarrow> bool" where
  "CONTROL s \<longleftrightarrow> list_ex (\<lambda>c. code_unit c < 32 \<or> code_unit c = 127) s"

text \<open>A character of an address: no space, and none of \<open>@ < > ( ) [ ] , ; : " \\<close> and the backslash.\<close>

definition addr_char :: "char \<Rightarrow> bool" where
  "addr_char c \<longleftrightarrow> \<not> is_space c \<and> code_unit c \<notin> {64, 60, 62, 40, 41, 91, 93, 44, 59, 58, 34, 92}"

text \<open>One \<open>@\<close>, and in the domain a dot with something on either side.\<close>

definition ADDRESS :: "string \<Rightarrow> bool" where
  "ADDRESS s \<longleftrightarrow>
     (let mailbox = takeWhile addr_char s; rest = dropWhile addr_char s in
      mailbox \<noteq> [] \<and> rest \<noteq> [] \<and> code_unit (hd rest) = 64 \<and> list_all addr_char (tl rest) \<and>
      CHR ''.'' \<in> set (butlast (tl (tl rest))))"

fun category_rest :: "bool \<Rightarrow> string \<Rightarrow> bool" where
  "category_rest after_mark [] = (\<not> after_mark)"
| "category_rest after_mark (c # cs) =
     (if is_lower c \<or> is_digit c then category_rest False cs
      else c \<in> {CHR ''.'', CHR ''_'', CHR ''-''} \<and> \<not> after_mark \<and> category_rest True cs)"

definition CATEGORY :: "string \<Rightarrow> bool" where
  "CATEGORY s \<longleftrightarrow> (case s of [] \<Rightarrow> False | c # cs \<Rightarrow> is_lower c \<and> category_rest False cs)"

definition HEADER_NAME :: "string \<Rightarrow> bool" where
  "HEADER_NAME s \<longleftrightarrow> take 2 (map to_lower s) = ''x-'' \<and> drop 2 s \<noteq> [] \<and>
     list_all (\<lambda>c. is_alnum c \<or> c = CHR ''-'') (drop 2 s)"

definition starts :: "string \<Rightarrow> string \<Rightarrow> bool" where
  "starts p s \<longleftrightarrow> take (length p) s = p"

definition RESERVED_HEADER :: "string \<Rightarrow> bool" where
  "RESERVED_HEADER s \<longleftrightarrow> starts ''x-ms-exchange-'' (map to_lower s) \<or> starts ''x-microsoft-'' (map to_lower s)"

definition isCorrelationId :: "jsval \<Rightarrow> bool" where
  "isCorrelationId v \<longleftrightarrow> (case v of JStr s \<Rightarrow> SAFE_CORRELATION_ID s | _ \<Rightarrow> False)"

text \<open>\<open>toLowerCase\<close> on 8-bit code units: the letters of ASCII and of Latin-1.\<close>

definition latin_lower :: "char \<Rightarrow> char" where
  "latin_lower c =
     (if is_upper c \<or> 192 \<le> code_unit c \<and> code_unit c \<le> 222 \<and> code_unit c \<noteq> 215 then char_of (code_unit c + 32) else c)"

definition js_lower :: "string \<Rightarrow> string" where
  "js_lower s = map latin_lower s"

section \<open>Validation\<close>

definition message_list :: "jsval \<Rightarrow> validation_error + jsval list" where
  "message_list v =
     (case v of JUndef \<Rightarrow> Inr [] | JStr s \<Rightarrow> Inr [JStr s] | JArr vs \<Rightarrow> Inr vs
      | JBuf bs \<Rightarrow> Inr (map (\<lambda>b. JNum (int b)) bs) | _ \<Rightarrow> Inl MapOfNonArray)"

definition checkAddress :: "string \<Rightarrow> jsval \<Rightarrow> validation_error + string" where
  "checkAddress field v =
     (case v of
        JStr s \<Rightarrow>
          if s = [] \<or> ml_maxAddressLength MESSAGE_LIMITS < length s then invalid (field @ '' must be 1-254 characters'')
          else if CONTROL s then invalid (field @ '' contains a control character'')
          else if \<not> ADDRESS s then invalid (field @ '' is not a plain email address'')
          else Inr s
      | _ \<Rightarrow> invalid (field @ '' must be a string''))"

fun check_addresses :: "string \<Rightarrow> nat \<Rightarrow> jsval list \<Rightarrow> validation_error + string list" where
  "check_addresses field i [] = Inr []"
| "check_addresses field i (v # vs) =
     and_then (checkAddress (field @ CHR ''['' # dec i @ '']'') v) (\<lambda>a.
     and_then (check_addresses field (i + 1) vs) (\<lambda>as. Inr (a # as)))"

definition address_list :: "string \<Rightarrow> jsval \<Rightarrow> validation_error + string list" where
  "address_list field v = and_then (message_list v) (check_addresses field 0)"

definition optional_address :: "string \<Rightarrow> jsval \<Rightarrow> validation_error + string option" where
  "optional_address field v =
     (if v = JUndef then Inr None else and_then (checkAddress field v) (\<lambda>a. Inr (Some a)))"

definition check_text :: "string \<Rightarrow> jsval \<Rightarrow> validation_error + string" where
  "check_text field v =
     (case v of
        JStr s \<Rightarrow>
          if s = [] then invalid (field @ '' must be a non-empty string'')
          else if ml_maxBodyBytes MESSAGE_LIMITS < length (utf8 s) then invalid (field @ '' is too large'')
          else Inr s
      | _ \<Rightarrow> invalid (field @ '' must be a non-empty string''))"

definition check_subject :: "jsval \<Rightarrow> validation_error + string" where
  "check_subject v =
     (case v of
        JStr s \<Rightarrow>
          if js_trim s = [] then invalid ''subject must be a non-empty string''
          else if ml_maxSubjectLength MESSAGE_LIMITS < length s then invalid ''subject is too long''
          else if CONTROL s then invalid ''subject contains a control character''
          else Inr s
      | _ \<Rightarrow> invalid ''subject must be a non-empty string'')"

text \<open>\<open>Object.entries(value ?? {})\<close>.\<close>

definition entries_of :: "jsval \<Rightarrow> (string \<times> jsval) list" where
  "entries_of v =
     (case v of
        JObj ps \<Rightarrow> own_order ps
      | JStream ps \<Rightarrow> own_order ps
      | JArr vs \<Rightarrow> map (\<lambda>(i, w). (dec i, w)) (enumerate 0 vs)
      | JStr s \<Rightarrow> map (\<lambda>(i, c). (dec i, JStr [c])) (enumerate 0 s)
      | JBuf bs \<Rightarrow> map (\<lambda>(i, b). (dec i, JNum (int b))) (enumerate 0 bs)
      | _ \<Rightarrow> [])"

fun check_headers :: "(string \<times> jsval) list \<Rightarrow> (string \<times> string) list \<Rightarrow> validation_error + (string \<times> string) list" where
  "check_headers [] out = Inr out"
| "check_headers ((name, v) # es) out =
     (if \<not> HEADER_NAME name then invalid ''header names must start with \"x-\" and use letters, digits and \"-\"''
      else if RESERVED_HEADER name then invalid (''header '' @ name @ '' is reserved by Exchange'')
      else (case v of
              JStr s \<Rightarrow>
                if ml_maxHeaderValueLength MESSAGE_LIMITS < length s \<or> CONTROL s
                then invalid (''header '' @ name @ '' has an invalid value'')
                else check_headers es (put name s out)
            | _ \<Rightarrow> invalid (''header '' @ name @ '' has an invalid value'')))"

record validated_message =
  vm_to :: "string list"
  vm_cc :: "string list"
  vm_bcc :: "string list"
  vm_from :: "string option"
  vm_replyTo :: "string option"
  vm_subject :: string
  vm_html :: string
  vm_text :: string
  vm_headers :: "(string \<times> string) list"
  vm_category :: string
  vm_idempotencyKey :: string
  vm_correlationId :: "string option"

definition message_members :: "jsval \<Rightarrow> validation_error + (string \<times> jsval) list" where
  "message_members m =
     (case m of JObj ps \<Rightarrow> Inr ps | JStream ps \<Rightarrow> Inr ps | JArr vs \<Rightarrow> Inr [] | JBuf bs \<Rightarrow> Inr []
      | _ \<Rightarrow> invalid ''message must be an object'')"

definition check_category :: "jsval \<Rightarrow> validation_error + string" where
  "check_category v =
     (let bad = invalid ''category must be lower-case words separated by \".\", \"-\" or \"_\" (at most 64 characters)'' in
      case v of
        JStr s \<Rightarrow> if ml_maxCategoryLength MESSAGE_LIMITS < length s \<or> \<not> CATEGORY s then bad else Inr s
      | _ \<Rightarrow> bad)"

definition check_key :: "jsval \<Rightarrow> validation_error + string" where
  "check_key v =
     (let bad = invalid ''idempotencyKey must be a non-empty string without control characters'' in
      case v of
        JStr s \<Rightarrow> if s = [] \<or> ml_maxIdempotencyKeyLength MESSAGE_LIMITS < length s \<or> CONTROL s then bad else Inr s
      | _ \<Rightarrow> bad)"

definition check_correlation :: "jsval \<Rightarrow> validation_error + string option" where
  "check_correlation v =
     (if v = JUndef then Inr None
      else case v of
             JStr s \<Rightarrow> if SAFE_CORRELATION_ID s then Inr (Some s)
                      else invalid ''correlationId must be 1-128 characters from [A-Za-z0-9._:-]''
           | _ \<Rightarrow> invalid ''correlationId must be 1-128 characters from [A-Za-z0-9._:-]'')"

definition validateMessage :: "jsval \<Rightarrow> validation_error + validated_message" where
  "validateMessage m =
     and_then (message_members m) (\<lambda>ps.
     and_then (address_list ''to'' (member_of ''to'' ps)) (\<lambda>to.
     and_then (address_list ''cc'' (member_of ''cc'' ps)) (\<lambda>cc.
     and_then (address_list ''bcc'' (member_of ''bcc'' ps)) (\<lambda>bcc.
     and_then (if to = [] then invalid ''to must contain at least one recipient'' else Inr ()) (\<lambda>_.
     and_then (if ml_maxRecipients MESSAGE_LIMITS < length to + length cc + length bcc
               then invalid ''more than 500 recipients'' else Inr ()) (\<lambda>_.
     and_then (optional_address ''from'' (member_of ''from'' ps)) (\<lambda>from_address.
     and_then (optional_address ''replyTo'' (member_of ''replyTo'' ps)) (\<lambda>replyTo.
     and_then (check_subject (member_of ''subject'' ps)) (\<lambda>subject.
     and_then (check_text ''html'' (member_of ''html'' ps)) (\<lambda>html.
     and_then (check_text ''text'' (member_of ''text'' ps)) (\<lambda>text_body.
       let entries = entries_of (member_of ''headers'' ps) in
     and_then (if ml_maxHeaders MESSAGE_LIMITS < length entries then invalid ''too many headers'' else Inr ()) (\<lambda>_.
     and_then (check_headers entries []) (\<lambda>hs.
     and_then (check_category (member_of ''category'' ps)) (\<lambda>category.
     and_then (check_key (member_of ''idempotencyKey'' ps)) (\<lambda>key.
     and_then (check_correlation (member_of ''correlationId'' ps)) (\<lambda>correlation.
       Inr \<lparr>vm_to = to, vm_cc = cc, vm_bcc = bcc, vm_from = from_address, vm_replyTo = replyTo, vm_subject = subject,
            vm_html = html, vm_text = text_body, vm_headers = hs, vm_category = category, vm_idempotencyKey = key,
            vm_correlationId = correlation\<rparr>))))))))))))))))"

definition assertFromIsMailbox :: "validated_message \<Rightarrow> string \<Rightarrow> mail_send_error + unit" where
  "assertFromIsMailbox m mailbox =
     (case vm_from m of
        Some f \<Rightarrow>
          if js_lower f \<noteq> js_lower mailbox
          then Inl (mail_error Invalid_message ''Invalid email message: from must be the configured sender mailbox or omitted.'')
          else Inr ()
      | None \<Rightarrow> Inr ())"
section \<open>What a validated message is\<close>

text \<open>
  A well-formed message, and the JSON value that states it. The queue stores the message as its caller wrote it and
  validates it on either side, and the transports validate again what the handler hands them.
\<close>

definition address_ok :: "string \<Rightarrow> bool" where
  "address_ok a \<longleftrightarrow> a \<noteq> [] \<and> length a \<le> 254 \<and> \<not> CONTROL a \<and> ADDRESS a"

definition header_ok :: "string \<times> string \<Rightarrow> bool" where
  "header_ok h \<longleftrightarrow> HEADER_NAME (fst h) \<and> \<not> RESERVED_HEADER (fst h) \<and> length (snd h) \<le> 998 \<and> \<not> CONTROL (snd h)"

definition body_ok :: "string \<Rightarrow> bool" where
  "body_ok b \<longleftrightarrow> b \<noteq> [] \<and> length (utf8 b) \<le> 2097152"

definition well_formed :: "validated_message \<Rightarrow> bool" where
  "well_formed v \<longleftrightarrow>
     list_all address_ok (vm_to v) \<and> list_all address_ok (vm_cc v) \<and> list_all address_ok (vm_bcc v) \<and>
     vm_to v \<noteq> [] \<and> length (vm_to v) + length (vm_cc v) + length (vm_bcc v) \<le> 500 \<and>
     pred_option address_ok (vm_from v) \<and> pred_option address_ok (vm_replyTo v) \<and>
     js_trim (vm_subject v) \<noteq> [] \<and> length (vm_subject v) \<le> 998 \<and> \<not> CONTROL (vm_subject v) \<and>
     body_ok (vm_html v) \<and> body_ok (vm_text v) \<and>
     length (vm_headers v) \<le> 10 \<and> distinct (map fst (vm_headers v)) \<and> list_all header_ok (vm_headers v) \<and>
     length (vm_category v) \<le> 64 \<and> CATEGORY (vm_category v) \<and>
     vm_idempotencyKey v \<noteq> [] \<and> length (vm_idempotencyKey v) \<le> 512 \<and> \<not> CONTROL (vm_idempotencyKey v) \<and>
     pred_option SAFE_CORRELATION_ID (vm_correlationId v)"

definition optional_json :: "string option \<Rightarrow> jsval" where
  "optional_json x = (case x of None \<Rightarrow> JUndef | Some s \<Rightarrow> JStr s)"

definition message_json :: "validated_message \<Rightarrow> jsval" where
  "message_json v = JObj
     [(''to'', JArr (map JStr (vm_to v))), (''cc'', JArr (map JStr (vm_cc v))), (''bcc'', JArr (map JStr (vm_bcc v))),
      (''from'', optional_json (vm_from v)), (''replyTo'', optional_json (vm_replyTo v)), (''subject'', JStr (vm_subject v)),
      (''html'', JStr (vm_html v)), (''text'', JStr (vm_text v)),
      (''headers'', JObj (map (\<lambda>(n, s). (n, JStr s)) (vm_headers v))), (''category'', JStr (vm_category v)),
      (''idempotencyKey'', JStr (vm_idempotencyKey v)), (''correlationId'', optional_json (vm_correlationId v))]"

lemma MESSAGE_LIMITS_sel [simp]:
  "ml_maxRecipients MESSAGE_LIMITS = 500" "ml_maxAddressLength MESSAGE_LIMITS = 254"
  "ml_maxSubjectLength MESSAGE_LIMITS = 998" "ml_maxBodyBytes MESSAGE_LIMITS = 2097152"
  "ml_maxHeaders MESSAGE_LIMITS = 10" "ml_maxHeaderValueLength MESSAGE_LIMITS = 998"
  "ml_maxCategoryLength MESSAGE_LIMITS = 64" "ml_maxIdempotencyKeyLength MESSAGE_LIMITS = 512"
  by (simp_all add: MESSAGE_LIMITS_def)

lemma invalid_not_Inr [simp]: "invalid r \<noteq> Inr v"
  by (simp add: invalid_def)

lemma checkAddress_Inr: "checkAddress f v = Inr a \<longleftrightarrow> v = JStr a \<and> address_ok a"
  by (auto simp: checkAddress_def address_ok_def split: jsval.splits if_splits)

lemma check_addresses_Inr: "check_addresses f i vs = Inr as \<longleftrightarrow> vs = map JStr as \<and> list_all address_ok as"
  by (induction vs arbitrary: i as) (auto simp: res_simps checkAddress_Inr Cons_eq_map_conv)

lemma address_list_ok: "address_list f v = Inr as \<Longrightarrow> list_all address_ok as"
  by (auto simp: address_list_def res_simps check_addresses_Inr)

lemma optional_address_ok: "optional_address f v = Inr a \<longleftrightarrow> v = optional_json a \<and> pred_option address_ok a"
  by (auto simp: optional_address_def optional_json_def res_simps checkAddress_Inr split: if_splits option.splits)

lemma check_text_Inr: "check_text f v = Inr b \<longleftrightarrow> v = JStr b \<and> body_ok b"
  by (auto simp: check_text_def body_ok_def split: jsval.splits if_splits)

lemma check_subject_Inr:
  "check_subject v = Inr b \<longleftrightarrow> v = JStr b \<and> js_trim b \<noteq> [] \<and> length b \<le> 998 \<and> \<not> CONTROL b"
  by (auto simp: check_subject_def split: jsval.splits if_splits)

lemma check_category_Inr: "check_category v = Inr b \<longleftrightarrow> v = JStr b \<and> length b \<le> 64 \<and> CATEGORY b"
  by (auto simp: check_category_def Let_def split: jsval.splits if_splits)

lemma check_key_Inr: "check_key v = Inr b \<longleftrightarrow> v = JStr b \<and> b \<noteq> [] \<and> length b \<le> 512 \<and> \<not> CONTROL b"
  by (auto simp: check_key_def Let_def split: jsval.splits if_splits)

lemma check_correlation_Inr:
  "check_correlation v = Inr c \<longleftrightarrow> v = optional_json c \<and> pred_option SAFE_CORRELATION_ID c"
  by (auto simp: check_correlation_def optional_json_def split: jsval.splits if_splits option.splits)

lemma set_put: "set (put k v ps) \<subseteq> insert (k, v) (set ps)"
  by (induction k v ps rule: put.induct) (auto split: if_splits)

lemma fst_set_put: "fst ` set (put k v ps) = insert k (fst ` set ps)"
  by (induction k v ps rule: put.induct) (auto split: if_splits)

lemma distinct_put: "distinct (map fst ps) \<Longrightarrow> distinct (map fst (put k v ps))"
proof (induction k v ps rule: put.induct)
  case (2 k v k' v' ps)
  then show ?case
    by (cases "k' = k") (simp_all add: fst_set_put)
qed simp

lemma length_put: "length (put k v ps) \<le> Suc (length ps)"
  by (induction ps) auto

lemma check_headers_ok:
  assumes "check_headers es out = Inr hs" and "distinct (map fst out)" and "list_all header_ok out"
  shows "distinct (map fst hs) \<and> list_all header_ok hs \<and> length hs \<le> length out + length es"
  using assms
proof (induction es out rule: check_headers.induct)
  case (2 name v es out)
  then obtain s where s: "v = JStr s" "header_ok (name, s)" "check_headers es (put name s out) = Inr hs"
    by (auto simp: header_ok_def invalid_def split: if_splits jsval.splits)
  have "list_all header_ok (put name s out)"
    using s(2) 2(3) 2(4) set_put [of name s out] by (auto simp: list_all_iff)
  moreover have "distinct (map fst (put name s out))"
    using 2(3) by (rule distinct_put)
  ultimately have "distinct (map fst hs) \<and> list_all header_ok hs \<and> length hs \<le> length (put name s out) + length es"
    using 2(1) s 2(2) by (auto split: if_splits)
  then show ?case
    using length_put [of name s out] by auto
qed auto

lemma check_headers_valid:
  assumes "list_all header_ok hs" and "distinct (map fst (out @ hs))"
  shows "check_headers (map (\<lambda>(n, s). (n, JStr s)) hs) out = Inr (out @ hs)"
  using assms
proof (induction hs arbitrary: out)
  case (Cons h hs)
  have "fst h \<notin> fst ` set out"
    using Cons.prems(2) by auto
  then have "put (fst h) (snd h) out = out @ [h]"
    by (simp add: put_new)
  then show ?case
    using Cons.IH [of "out @ [h]"] Cons.prems by (cases h) (auto simp: header_ok_def)
qed simp

lemma header_name_not_index: "HEADER_NAME n \<Longrightarrow> \<not> is_index n"
proof
  assume h: "HEADER_NAME n" and i: "is_index n"
  then obtain c cs where n: "n = c # cs"
    by (cases n) (auto simp: HEADER_NAME_def)
  then have "to_lower c = CHR ''x''" and "is_digit c"
    using h i by (auto simp: HEADER_NAME_def is_index_def)
  moreover from this have "to_lower c = c"
    by (simp add: to_lower_def is_upper_def is_digit_def)
  ultimately show False
    by (simp add: is_digit_def)
qed

lemma own_order_headers:
  assumes "list_all header_ok hs"
  shows "own_order (map (\<lambda>(n, s). (n, JStr s)) hs) = map (\<lambda>(n, s). (n, JStr s)) hs"
proof -
  have "\<forall>p\<in>set (map (\<lambda>(n, s). (n, JStr s)) hs). \<not> is_index (fst p)"
    using assms header_name_not_index by (fastforce simp: list_all_iff header_ok_def)
  then show ?thesis
    unfolding own_order_def by (simp add: filter_empty_conv filter_id_conv case_prod_beta)
qed

lemma limit_Inr: "(if b then invalid r else Inr ()) = Inr u \<longleftrightarrow> \<not> b"
  by simp

lemma validated_well_formed_lemma:
  assumes "validateMessage m = Inr v"
  shows "well_formed v"
proof -
  obtain ps es where l: "address_list ''to'' (member_of ''to'' ps) = Inr (vm_to v)"
      "address_list ''cc'' (member_of ''cc'' ps) = Inr (vm_cc v)" "address_list ''bcc'' (member_of ''bcc'' ps) = Inr (vm_bcc v)"
    and n: "vm_to v \<noteq> []" "length (vm_to v) + length (vm_cc v) + length (vm_bcc v) \<le> 500"
    and r: "pred_option address_ok (vm_from v)" "pred_option address_ok (vm_replyTo v)"
      "js_trim (vm_subject v) \<noteq> []" "length (vm_subject v) \<le> 998" "\<not> CONTROL (vm_subject v)"
      "body_ok (vm_html v)" "body_ok (vm_text v)" "length (vm_category v) \<le> 64" "CATEGORY (vm_category v)"
      "vm_idempotencyKey v \<noteq> []" "length (vm_idempotencyKey v) \<le> 512" "\<not> CONTROL (vm_idempotencyKey v)"
      "pred_option SAFE_CORRELATION_ID (vm_correlationId v)"
    and h: "length es \<le> 10" "check_headers es [] = Inr (vm_headers v)"
    using assms unfolding validateMessage_def Let_def and_then_Inr_iff limit_Inr optional_address_ok check_text_Inr
      check_subject_Inr check_category_Inr check_key_Inr check_correlation_Inr MESSAGE_LIMITS_sel not_less
    by clarsimp
  show ?thesis
    unfolding well_formed_def using l [THEN address_list_ok] n r check_headers_ok [OF h(2)] h(1) by simp
qed

lemma validate_again_lemma:
  assumes "well_formed v"
  shows "validateMessage (message_json v) = Inr v"
proof -
  have l: "address_list f (JArr (map JStr as)) = Inr as" if "list_all address_ok as" for f as
    using that by (simp add: address_list_def message_list_def check_addresses_Inr)
  have h: "check_headers (map (\<lambda>(n, s). (n, JStr s)) (vm_headers v)) [] = Inr (vm_headers v)"
    using assms check_headers_valid [of "vm_headers v" "[]"] by (simp add: well_formed_def)
  have e: "entries_of (JObj (map (\<lambda>(n, s). (n, JStr s)) (vm_headers v))) = map (\<lambda>(n, s). (n, JStr s)) (vm_headers v)"
    using assms own_order_headers by (simp add: entries_of_def well_formed_def)
  have o1: "optional_address f (optional_json a) = Inr a" if "pred_option address_ok a" for f a
    using that by (simp add: optional_address_ok)
  have o2: "check_text f (JStr b) = Inr b" if "body_ok b" for f b
    using that by (simp add: check_text_Inr)
  have o3: "check_subject (JStr (vm_subject v)) = Inr (vm_subject v)"
    using assms by (simp add: check_subject_Inr well_formed_def)
  have o4: "check_category (JStr (vm_category v)) = Inr (vm_category v)"
    using assms by (simp add: check_category_Inr well_formed_def)
  have o5: "check_key (JStr (vm_idempotencyKey v)) = Inr (vm_idempotencyKey v)"
    using assms by (simp add: check_key_Inr well_formed_def)
  have o6: "check_correlation (optional_json (vm_correlationId v)) = Inr (vm_correlationId v)"
    using assms by (simp add: check_correlation_Inr well_formed_def)
  show ?thesis
    using assms
    by (simp add: validateMessage_def message_json_def message_members_def member_of_def l o1 o2 o3 o4 o5 o6 e h well_formed_def)
qed

section \<open>What an address cannot hold\<close>

text \<open>One \<open>@\<close>, and none of the characters that end an address or a header line.\<close>

definition injection_free :: "string \<Rightarrow> bool" where
  "injection_free a \<longleftrightarrow> length (filter (\<lambda>c. code_unit c = 64) a) = 1 \<and>
     (\<forall>c\<in>set a. 32 < code_unit c \<and> code_unit c \<noteq> 127 \<and> code_unit c \<notin> {44, 58, 59, 60, 62, 34})"

lemma addr_char_not_at: "addr_char c \<Longrightarrow> code_unit c \<noteq> 64 \<and> code_unit c \<notin> {44, 58, 59, 60, 62, 34} \<and> code_unit c \<noteq> 32"
  by (auto simp: addr_char_def is_space_def)

lemma address_injection_free: "address_ok a \<Longrightarrow> injection_free a"
proof -
  assume a: "address_ok a"
  define l where "l = takeWhile addr_char a"
  define r where "r = dropWhile addr_char a"
  have lr: "a = l @ r" by (simp add: l_def r_def)
  have l: "\<forall>c\<in>set l. addr_char c" by (auto simp: l_def dest: set_takeWhileD)
  from a obtain c cs where r: "r = c # cs" "code_unit c = 64" "\<forall>d\<in>set cs. addr_char d"
    unfolding address_ok_def ADDRESS_def r_def [symmetric] by (cases r) (auto simp: Let_def list_all_iff)
  have "filter (\<lambda>c. code_unit c = 64) l = []" "filter (\<lambda>c. code_unit c = 64) cs = []"
    using l r(3) by (auto simp: filter_empty_conv dest: addr_char_not_at)
  moreover have "\<forall>d\<in>set a. 32 \<le> code_unit d \<and> code_unit d \<noteq> 127"
    using a by (auto simp: address_ok_def CONTROL_def list_ex_iff not_less)
  moreover have "\<forall>d\<in>set a. code_unit d \<notin> {44, 58, 59, 60, 62, 34, 32}"
    using l r lr by (auto dest: addr_char_not_at)
  ultimately show ?thesis
    unfolding injection_free_def using lr r by (auto simp: order_less_le)
qed


definition example_validated :: validated_message where
  "example_validated = \<lparr>vm_to = [''ann@example.org''], vm_cc = [], vm_bcc = [], vm_from = None, vm_replyTo = None,
     vm_subject = ''Hello'', vm_html = ''<p>hi</p>'', vm_text = ''hi'', vm_headers = [(''X-Kind'', ''a'')],
     vm_category = ''auth.reset'', vm_idempotencyKey = ''k1'', vm_correlationId = None\<rparr>"

lemma char_of_x: "char_of (120 :: nat) = CHR ''x''"
  by code_simp

lemma example_parts:
  "address_ok ''ann@example.org''" "header_ok (''X-Kind'', ''a'')" "CATEGORY ''auth.reset''" "js_trim ''Hello'' = ''Hello''"
  "\<not> CONTROL ''Hello''" "\<not> CONTROL ''k1''" "body_ok ''<p>hi</p>''" "body_ok ''hi''"
  by (simp_all add: char_class_defs to_lower_def char_of_x CONTROL_def addr_char_def ADDRESS_def address_ok_def body_ok_def
      utf8_def header_ok_def HEADER_NAME_def RESERVED_HEADER_def starts_def CATEGORY_def js_trim_def)

lemma example_well_formed: "well_formed example_validated"
  by (simp add: well_formed_def example_validated_def example_parts)

lemma example_validates: "validateMessage (message_json example_validated) = Inr example_validated"
  using example_well_formed by (rule validate_again_lemma)

text \<open>
  C25. Whatever value a caller or a job's payload gives: if validation accepts it, the result is well formed - at
  least one and at most 500 recipients, every address with one \<open>@\<close> and no space, control character, comma, colon,
  semicolon, quote or angle bracket, a subject, header values and a key without control characters, at most ten
  extra headers, all of them \<open>x-\<close> headers Exchange does not reserve, bodies within the limit - and validating the
  result again, as the transports do with what the handler hands them, accepts it unchanged.
\<close>

theorem validated_message_safe:
  assumes "validateMessage m = Inr v"
  shows "well_formed v \<and> validateMessage (message_json v) = Inr v \<and>
    (\<forall>a \<in> set (vm_to v @ vm_cc v @ vm_bcc v). injection_free a)"
proof -
  have wf: "well_formed v"
    using assms by (rule validated_well_formed_lemma)
  then have "\<forall>a \<in> set (vm_to v @ vm_cc v @ vm_bcc v). address_ok a"
    by (auto simp: well_formed_def list_all_iff)
  then show ?thesis
    using wf validate_again_lemma address_injection_free by blast
qed

theorem validated_message_safe_witness:
  "well_formed example_validated \<and> validateMessage (message_json example_validated) = Inr example_validated \<and>
    injection_free ''ann@example.org''"
  using validated_message_safe [OF example_validates] by (simp add: example_validated_def)

end
