(* ===== verification/MailState.thy ===== *)
theory MailState
  imports MailMessage Valkey Complex_Main
begin

text \<open>
  What the mail handler remembers between attempts, in Valkey (\<open>platform-mail/src/state.ts\<close>): the ledger of messages
  claimed and delivered, and the pacing of a mailbox. Each script is one function of the server's clock and store; the
  ledger's scripts run on the string commands of \<open>Valkey\<close>, the pacing's on the commands of the record below.

  Numbers of the token bucket are exact fractions: the rounding of the server's floating point is outside the model.
\<close>

section \<open>Keys\<close>

definition MAIL_RATE_perMinute :: rat where "MAIL_RATE_perMinute = 20"
definition MAIL_RATE_burst :: rat where "MAIL_RATE_burst = 5"

text \<open>\<open>sha\<close> is SHA-256 in hexadecimal.\<close>

definition ledgerKey :: "(nat list \<Rightarrow> string) \<Rightarrow> string \<Rightarrow> string \<Rightarrow> string" where
  "ledgerKey sha mailbox idempotencyKey =
     ''mail:sent:'' @ sha (utf8 (js_lower mailbox) @ utf8 [CHR 0x00] @ utf8 idempotencyKey)"

definition rateKey :: "string \<Rightarrow> string" where
  "rateKey mailbox = ''mail:rate:'' @ js_lower mailbox"

definition cooldownKey :: "string \<Rightarrow> string" where
  "cooldownKey mailbox = ''mail:cooldown:'' @ js_lower mailbox"

lemma rateKey_eq [simp]: "rateKey a = rateKey b \<longleftrightarrow> js_lower a = js_lower b"
  by (simp add: rateKey_def)

lemma cooldownKey_eq [simp]: "cooldownKey a = cooldownKey b \<longleftrightarrow> js_lower a = js_lower b"
  by (simp add: cooldownKey_def)

lemma keys_apart [simp]: "rateKey a \<noteq> cooldownKey b" "cooldownKey b \<noteq> rateKey a"
  by (simp_all add: rateKey_def cooldownKey_def)

section \<open>The ledger's scripts\<close>

datatype claim_result = Claimed string | AlreadySent string | InFlight

definition CLAIM :: "'s valkey \<Rightarrow> msec \<Rightarrow> string \<Rightarrow> string \<Rightarrow> nat \<Rightarrow> 's \<Rightarrow> string \<times> 's" where
  "CLAIM vk t key token leaseSeconds s =
     (case vk_get vk t key s of
        None \<Rightarrow> (''claimed'', vk_set vk t key (''claimed:'' @ token) (Some (leaseSeconds * 1000)) s)
      | Some v \<Rightarrow> if take 5 v = ''sent:'' then (v, s) else (''in-flight'', s))"

definition MARK_SENT :: "'s valkey \<Rightarrow> msec \<Rightarrow> string \<Rightarrow> string \<Rightarrow> nat \<Rightarrow> 's \<Rightarrow> nat \<times> 's" where
  "MARK_SENT vk t key sid ttlSeconds s = (1, vk_set vk t key (''sent:'' @ sid) (Some (ttlSeconds * 1000)) s)"

definition RENEW :: "'s valkey \<Rightarrow> msec \<Rightarrow> string \<Rightarrow> string \<Rightarrow> nat \<Rightarrow> 's \<Rightarrow> nat \<times> 's" where
  "RENEW vk t key token leaseSeconds s =
     (if vk_get vk t key s = Some (''claimed:'' @ token) then (1, snd (vk_pexpire vk t key (leaseSeconds * 1000) s))
      else (0, s))"

definition RELEASE :: "'s valkey \<Rightarrow> msec \<Rightarrow> string \<Rightarrow> string \<Rightarrow> 's \<Rightarrow> nat \<times> 's" where
  "RELEASE vk t key token s =
     (if vk_get vk t key s = Some (''claimed:'' @ token) then vk_del vk t key s else (0, s))"

text \<open>The client's side of each script; \<open>token\<close> is the fresh token of the call.\<close>

definition state_claim :: "'s valkey \<Rightarrow> msec \<Rightarrow> string \<Rightarrow> string \<Rightarrow> nat \<Rightarrow> 's \<Rightarrow> claim_result \<times> 's" where
  "state_claim vk t key token leaseSeconds s =
     (let (reply, s') = CLAIM vk t key token leaseSeconds s in
      (if reply = ''claimed'' then Claimed token
       else if take 5 reply = ''sent:'' then AlreadySent (drop 5 reply)
       else InFlight, s'))"

definition state_markSent :: "'s valkey \<Rightarrow> msec \<Rightarrow> string \<Rightarrow> string \<Rightarrow> nat \<Rightarrow> 's \<Rightarrow> 's" where
  "state_markSent vk t key sid ttlSeconds s = snd (MARK_SENT vk t key sid ttlSeconds s)"

definition state_renew :: "'s valkey \<Rightarrow> msec \<Rightarrow> string \<Rightarrow> string \<Rightarrow> nat \<Rightarrow> 's \<Rightarrow> bool \<times> 's" where
  "state_renew vk t key token leaseSeconds s = map_prod (\<lambda>n. n = 1) (\<lambda>s'. s') (RENEW vk t key token leaseSeconds s)"

definition state_release :: "'s valkey \<Rightarrow> msec \<Rightarrow> string \<Rightarrow> string \<Rightarrow> 's \<Rightarrow> 's" where
  "state_release vk t key token s = snd (RELEASE vk t key token s)"

section \<open>What the ledger promises\<close>

text \<open>
  The abstract ledger: a key is free, held by the attempt with a token until a time, or delivered with a message id
  until a time. An entry past its time is no entry.
\<close>

datatype entry = Held string msec | Delivered string msec

type_synonym ledger = "string \<Rightarrow> entry option"

definition until :: "entry \<Rightarrow> msec" where
  "until e = (case e of Held _ d \<Rightarrow> d | Delivered _ d \<Rightarrow> d)"

definition entry_at :: "msec \<Rightarrow> string \<Rightarrow> ledger \<Rightarrow> entry option" where
  "entry_at t k a = (case a k of None \<Rightarrow> None | Some e \<Rightarrow> if t < until e then Some e else None)"

datatype ledger_op = Claim string string nat | MarkSent string string nat | Renew string string nat | Release string string

datatype ledger_reply = Answer claim_result | Renewed bool | Done

definition spec_op :: "msec \<Rightarrow> ledger_op \<Rightarrow> ledger \<Rightarrow> ledger_reply \<times> ledger" where
  "spec_op t p a =
     (case p of
        Claim k token lease \<Rightarrow>
          (case entry_at t k a of
             None \<Rightarrow> (Answer (Claimed token), a(k \<mapsto> Held token (t + lease * 1000)))
           | Some (Held _ _) \<Rightarrow> (Answer InFlight, a)
           | Some (Delivered i _) \<Rightarrow> (Answer (AlreadySent i), a))
      | MarkSent k i ttl \<Rightarrow> (Done, a(k \<mapsto> Delivered i (t + ttl * 1000)))
      | Renew k token lease \<Rightarrow>
          (case entry_at t k a of
             Some (Held token' _) \<Rightarrow>
               if token' = token then (Renewed True, a(k \<mapsto> Held token (t + lease * 1000))) else (Renewed False, a)
           | _ \<Rightarrow> (Renewed False, a))
      | Release k token \<Rightarrow>
          (case entry_at t k a of
             Some (Held token' _) \<Rightarrow> (Done, if token' = token then a(k := None) else a)
           | _ \<Rightarrow> (Done, a)))"

definition valkey_op :: "'s valkey \<Rightarrow> msec \<Rightarrow> ledger_op \<Rightarrow> 's \<Rightarrow> ledger_reply \<times> 's" where
  "valkey_op vk t p s =
     (case p of
        Claim k token lease \<Rightarrow> map_prod Answer (\<lambda>s'. s') (state_claim vk t k token lease s)
      | MarkSent k i ttl \<Rightarrow> (Done, state_markSent vk t k i ttl s)
      | Renew k token lease \<Rightarrow> map_prod Renewed (\<lambda>s'. s') (state_renew vk t k token lease s)
      | Release k token \<Rightarrow> (Done, state_release vk t k token s))"

fun run_ops :: "(msec \<Rightarrow> 'p \<Rightarrow> 's \<Rightarrow> 'r \<times> 's) \<Rightarrow> (msec \<times> 'p) list \<Rightarrow> 's \<Rightarrow> 'r list \<times> 's" where
  "run_ops f [] s = ([], s)"
| "run_ops f ((t, p) # ps) s =
     (let (r, s') = f t p s; (rs, s'') = run_ops f ps s' in (r # rs, s''))"

definition entry_text :: "entry \<Rightarrow> string" where
  "entry_text e = (case e of Held token _ \<Rightarrow> ''claimed:'' @ token | Delivered i _ \<Rightarrow> ''sent:'' @ i)"

text \<open>From \<open>t\<close> on the store shows what the ledger says, for every key.\<close>

definition shows_ledger :: "'s valkey \<Rightarrow> msec \<Rightarrow> ledger \<Rightarrow> 's \<Rightarrow> bool" where
  "shows_ledger vk t a s \<longleftrightarrow> (\<forall>k t'. t \<le> t' \<longrightarrow> vk_get vk t' k s = map_option entry_text (entry_at t' k a))"

lemma shows_ledger_later: "shows_ledger vk t a s \<Longrightarrow> t \<le> t' \<Longrightarrow> shows_ledger vk t' a s"
  by (auto simp: shows_ledger_def)

lemma entry_at_upd:
  "entry_at t k (a(k' \<mapsto> e)) = (if k = k' then (if t < until e then Some e else None) else entry_at t k a)"
  "entry_at t k (a(k' := None)) = (if k = k' then None else entry_at t k a)"
  by (simp_all add: entry_at_def)

lemma entry_at_earlier: "entry_at t' k a = Some e \<Longrightarrow> t \<le> t' \<Longrightarrow> entry_at t k a = Some e"
  by (auto simp: entry_at_def split: option.splits if_splits)

context valkey_strings
begin

lemma shows_set:
  assumes "shows_ledger vk t a s" and "entry_text e = v" and "until e = t + d"
  shows "shows_ledger vk t (a(k \<mapsto> e)) (vk_set vk t k v (Some d) s)"
  using assms by (auto simp: shows_ledger_def entry_at_upd get_set get_set_other)

lemma shows_pexpire:
  assumes "shows_ledger vk t a s" and "entry_at t k a = Some (Held token d0)"
  shows "shows_ledger vk t (a(k \<mapsto> Held token (t + d))) (snd (vk_pexpire vk t k d s))"
  using assms by (auto simp: shows_ledger_def entry_at_upd get_pexpire get_pexpire_other until_def entry_text_def)

lemma shows_del: "shows_ledger vk t a s \<Longrightarrow> shows_ledger vk t (a(k := None)) (snd (vk_del vk t k s))"
  by (auto simp: shows_ledger_def entry_at_upd get_del get_del_other)

lemma valkey_op_refines:
  assumes "shows_ledger vk t a s"
  shows "fst (valkey_op vk t p s) = fst (spec_op t p a) \<and> shows_ledger vk t (snd (spec_op t p a)) (snd (valkey_op vk t p s))"
proof -
  have get: "vk_get vk t k s = map_option entry_text (entry_at t k a)" for k
    using assms by (simp add: shows_ledger_def)
  note defs = valkey_op_def spec_op_def state_claim_def CLAIM_def state_markSent_def MARK_SENT_def state_renew_def RENEW_def
    state_release_def RELEASE_def get
  show ?thesis
  proof (cases p)
    case (Claim k token lease)
    show ?thesis
      using assms
      by (cases "entry_at t k a")
         (auto simp: Claim defs entry_text_def until_def intro!: shows_set split: entry.split)
  next
    case (MarkSent k i ttl)
    then show ?thesis
      using assms by (auto simp: defs entry_text_def until_def intro!: shows_set)
  next
    case (Renew k token lease)
    then show ?thesis
      using assms by (auto simp: defs entry_text_def intro!: shows_pexpire split: option.split entry.split)
  next
    case (Release k token)
    then show ?thesis
      using assms by (auto simp: defs entry_text_def intro!: shows_del split: option.split entry.split)
  qed
qed

lemma ledger_refines:
  assumes "shows_ledger vk t0 a s" and "sorted (t0 # map fst ps)"
  shows "fst (run_ops (valkey_op vk) ps s) = fst (run_ops spec_op ps a) \<and>
    shows_ledger vk (last (t0 # map fst ps)) (snd (run_ops spec_op ps a)) (snd (run_ops (valkey_op vk) ps s))"
  using assms
proof (induction ps arbitrary: t0 a s)
  case (Cons q ps)
  obtain t p where q: "q = (t, p)"
    by (cases q)
  have "shows_ledger vk t a s"
    using Cons.prems q shows_ledger_later by auto
  note step = valkey_op_refines [OF this, of p]
  have "sorted (t # map fst ps)"
    using Cons.prems(2) q by auto
  from Cons.IH [OF conjunct2 [OF step] this] step show ?case
    by (auto simp: q Let_def split: prod.splits)
qed simp

end

text \<open>On the abstract ledger: a delivered message is not claimed again before its entry runs out.\<close>

lemma delivered_not_reclaimed:
  assumes "entry_at t k a = Some (Delivered i d)"
  shows "\<exists>j d'. snd (spec_op t p a) k = Some (Delivered j d') \<and> ((\<exists>i' ttl. p = MarkSent k i' ttl) \<or> j = i \<and> d' = d)"
  using assms
  by (cases p) (auto simp: spec_op_def entry_at_def split: option.splits entry.splits if_splits)

lemma one_holder:
  assumes "entry_at t k a = Some (Held token d)"
  shows "fst (spec_op t (Claim k token' lease) a) = Answer InFlight \<and>
    (token' \<noteq> token \<longrightarrow> snd (spec_op t (Release k token') a) = a \<and> snd (spec_op t (Renew k token' lease) a) = a)"
  using assms by (simp add: spec_op_def)

definition ledger_example :: "(msec \<times> ledger_op) list" where
  "ledger_example = [(0, Claim ''k'' ''a'' 60), (10, Claim ''k'' ''b'' 60), (20, MarkSent ''k'' ''m1'' 604800),
     (30, Release ''k'' ''a''), (40, Claim ''k'' ''b'' 60)]"

lemma empty_shows_ledger: "shows_ledger mem_valkey 0 Map.empty mem_empty"
  by (simp add: shows_ledger_def mem_valkey_def mem_get_def mem_empty_def entry_at_def)

text \<open>
  C23. The scripts on Valkey implement the abstract ledger: for any sequence of claims, deliveries, renewals and releases
  from any number of workers, at non-decreasing times of the server's clock, every reply is the reply of the abstract
  ledger and from then on the store shows exactly its entries.
\<close>

theorem ledger_refinement:
  assumes "valkey_strings vk" and "shows_ledger vk t0 a s" and "sorted (t0 # map fst ps)"
  shows "fst (run_ops (valkey_op vk) ps s) = fst (run_ops spec_op ps a) \<and>
    shows_ledger vk (last (t0 # map fst ps)) (snd (run_ops spec_op ps a)) (snd (run_ops (valkey_op vk) ps s))"
  using assms(2,3) by (rule valkey_strings.ledger_refines [OF assms(1)])

theorem ledger_refinement_witness:
  "fst (run_ops (valkey_op mem_valkey) ledger_example mem_empty) =
     [Answer (Claimed ''a''), Answer InFlight, Done, Done, Answer (AlreadySent ''m1'')]"
  using ledger_refinement [OF mem.valkey_strings_axioms empty_shows_ledger, of ledger_example]
  by (simp add: ledger_example_def spec_op_def entry_at_def until_def)

end
