(* ===== verification/MailPacing.thy ===== *)
theory MailPacing
  imports MailState
begin

text \<open>
  The pacing of a mailbox (\<open>platform-mail/src/state.ts\<close>): the token bucket and the cooldown, two scripts on the server's
  clock. The commands they use are a record and a locale, like those of \<open>Valkey\<close>: \<open>sl_pttl\<close> is \<open>PTTL\<close> (negative when
  there is no key or no deadline), \<open>sl_set_px\<close> is \<open>SET key value PX ms\<close>, \<open>sl_hmget\<close> and \<open>sl_hset\<close> read and write the
  fields \<open>tokens\<close> and \<open>at\<close> together, \<open>sl_pexpire\<close> is \<open>PEXPIRE\<close> on that hash.
\<close>

record 's slot_server =
  sl_pttl :: "msec \<Rightarrow> string \<Rightarrow> 's \<Rightarrow> int"
  sl_set_px :: "msec \<Rightarrow> string \<Rightarrow> string \<Rightarrow> msec \<Rightarrow> 's \<Rightarrow> 's"
  sl_hmget :: "msec \<Rightarrow> string \<Rightarrow> 's \<Rightarrow> (rat \<times> msec) option"
  sl_hset :: "msec \<Rightarrow> string \<Rightarrow> rat \<Rightarrow> msec \<Rightarrow> 's \<Rightarrow> 's"
  sl_pexpire :: "msec \<Rightarrow> string \<Rightarrow> msec \<Rightarrow> 's \<Rightarrow> 's"

section \<open>The scripts\<close>

definition TAKE_SLOT :: "'s slot_server \<Rightarrow> msec \<Rightarrow> string \<Rightarrow> string \<Rightarrow> rat \<Rightarrow> rat \<Rightarrow> 's \<Rightarrow> int \<times> 's" where
  "TAKE_SLOT sv now bucket cooldown_key ratePerMs burst s =
     (let cooldown = sl_pttl sv now cooldown_key s in
      if 0 < cooldown then (cooldown, s)
      else
        let (tokens0, at0) = (case sl_hmget sv now bucket s of None \<Rightarrow> (burst, now) | Some (tk, a) \<Rightarrow> (tk, a));
            tokens1 = min burst (tokens0 + (of_nat now - of_nat at0) * ratePerMs);
            wait = (if 1 \<le> tokens1 then 0 else \<lceil>(1 - tokens1) / ratePerMs\<rceil>);
            tokens2 = (if 1 \<le> tokens1 then tokens1 - 1 else tokens1);
            s1 = sl_hset sv now bucket tokens2 now s
        in (wait, sl_pexpire sv now bucket 120000 s1))"

definition BACK_OFF :: "'s slot_server \<Rightarrow> msec \<Rightarrow> string \<Rightarrow> msec \<Rightarrow> 's \<Rightarrow> 's" where
  "BACK_OFF sv now cooldown_key ms s =
     (if sl_pttl sv now cooldown_key s < int ms then sl_set_px sv now cooldown_key ''1'' ms s else s)"

definition state_takeSlot :: "'s slot_server \<Rightarrow> msec \<Rightarrow> string \<Rightarrow> 's \<Rightarrow> int \<times> 's" where
  "state_takeSlot sv now mailbox s =
     TAKE_SLOT sv now (rateKey mailbox) (cooldownKey mailbox) (MAIL_RATE_perMinute / 60000) MAIL_RATE_burst s"

definition state_backOff :: "'s slot_server \<Rightarrow> msec \<Rightarrow> string \<Rightarrow> rat \<Rightarrow> 's \<Rightarrow> 's" where
  "state_backOff sv now mailbox seconds s = BACK_OFF sv now (cooldownKey mailbox) (nat \<lceil>seconds * 1000\<rceil>) s"

datatype slot_op = TakeSlot string | BackOff string rat

text \<open>The reply: the milliseconds to wait, 0 for a slot granted; nothing for a cooldown set.\<close>

definition slot_op :: "'s slot_server \<Rightarrow> msec \<Rightarrow> slot_op \<Rightarrow> 's \<Rightarrow> int option \<times> 's" where
  "slot_op sv t p s =
     (case p of
        TakeSlot mb \<Rightarrow> map_prod Some (\<lambda>s'. s') (state_takeSlot sv t mb s)
      | BackOff mb seconds \<Rightarrow> (None, state_backOff sv t mb seconds s))"

section \<open>What the commands promise\<close>

locale slot_laws =
  fixes sv :: "'s slot_server"
  assumes pttl_set: "t \<le> t' \<Longrightarrow> max 0 (sl_pttl sv t' k (sl_set_px sv t k v d s)) = max 0 (int t + int d - int t')"
    and pttl_later: "t \<le> t' \<Longrightarrow> 0 < sl_pttl sv t k s \<Longrightarrow>
      max 0 (sl_pttl sv t' k s) = max 0 (sl_pttl sv t k s - (int t' - int t))"
    and pttl_set_other: "k' \<noteq> k \<Longrightarrow> sl_pttl sv t' k' (sl_set_px sv t k v d s) = sl_pttl sv t' k' s"
    and pttl_hset: "k' \<noteq> k \<Longrightarrow> sl_pttl sv t' k' (sl_hset sv t k x y s) = sl_pttl sv t' k' s"
    and pttl_pexpire: "k' \<noteq> k \<Longrightarrow> sl_pttl sv t' k' (sl_pexpire sv t k d s) = sl_pttl sv t' k' s"
    and hmget_hset: "sl_hmget sv t k (sl_hset sv t k x y s) = Some (x, y)"
    and hmget_pexpire: "t \<le> t' \<Longrightarrow>
      sl_hmget sv t' k (sl_pexpire sv t k d s) = (if t' < t + d then sl_hmget sv t k s else None)"
    and hmget_set_other: "k' \<noteq> k \<Longrightarrow> sl_hmget sv t' k' (sl_set_px sv t k v d s) = sl_hmget sv t' k' s"
    and hmget_hset_other: "k' \<noteq> k \<Longrightarrow> sl_hmget sv t' k' (sl_hset sv t k x y s) = sl_hmget sv t' k' s"
    and hmget_pexpire_other: "k' \<noteq> k \<Longrightarrow> sl_hmget sv t' k' (sl_pexpire sv t k d s) = sl_hmget sv t' k' s"

text \<open>
  The bucket of a mailbox as it stands: written at \<open>a\<close> with \<open>tk\<close> tokens, there until \<open>a + 120000\<close>, or absent from now on.
\<close>

definition bucket_state :: "'s slot_server \<Rightarrow> string \<Rightarrow> msec \<Rightarrow> 's \<Rightarrow> bool" where
  "bucket_state sv k t s \<longleftrightarrow>
     (\<forall>t'\<ge>t. sl_hmget sv t' k s = None) \<or>
     (\<exists>tk a. 0 \<le> tk \<and> tk \<le> 5 \<and> a \<le> t \<and> (\<forall>t'\<ge>t. sl_hmget sv t' k s = (if t' < a + 120000 then Some (tk, a) else None)))"

definition available :: "'s slot_server \<Rightarrow> string \<Rightarrow> msec \<Rightarrow> 's \<Rightarrow> rat" where
  "available sv k t s =
     (case sl_hmget sv t k s of None \<Rightarrow> 5 | Some (tk, a) \<Rightarrow> min 5 (tk + (of_nat t - of_nat a) / 3000))"

lemma bucket_state_later: "bucket_state sv k t s \<Longrightarrow> t \<le> t' \<Longrightarrow> bucket_state sv k t' s"
  unfolding bucket_state_def by (meson order_trans)

lemma available_bounds:
  assumes "bucket_state sv k t s"
  shows "0 \<le> available sv k t s \<and> available sv k t s \<le> 5"
  using assms unfolding bucket_state_def
proof (elim disjE exE conjE)
  fix tk a assume "(0 :: rat) \<le> tk" "a \<le> t"
    and "\<forall>t'\<ge>t. sl_hmget sv t' k s = (if t' < a + 120000 then Some (tk, a) else None)"
  then show ?thesis
    by (simp add: available_def)
qed (simp add: available_def)

text \<open>Time adds a token every three seconds, and losing the bucket adds none: by then it would be full.\<close>

lemma available_later:
  assumes "bucket_state sv k t s" and "t \<le> t'"
  shows "available sv k t' s \<le> available sv k t s + (of_nat t' - of_nat t) / 3000"
  using assms(1) unfolding bucket_state_def
proof (elim disjE exE conjE)
  fix tk a assume b: "(0 :: rat) \<le> tk" "tk \<le> 5" "a \<le> t"
    and h: "\<forall>t'\<ge>t. sl_hmget sv t' k s = (if t' < a + 120000 then Some (tk, a) else None)"
  have le: "(of_nat t :: rat) \<le> of_nat t'" "(of_nat a :: rat) \<le> of_nat t"
    using assms(2) b(3) by simp_all
  show ?thesis
  proof (cases "t' < a + 120000")
    case True
    then show ?thesis
      using h assms(2) le b by (simp add: available_def min_def field_simps)
  next
    case False
    then have "(120000 :: rat) \<le> of_nat t' - of_nat a"
      using of_nat_mono [of "a + 120000" t', where 'a = rat] by simp
    then show ?thesis
      using h assms(2) le b by (cases "t < a + 120000") (auto simp: available_def min_def field_simps)
  qed
qed (use assms(2) in \<open>simp add: available_def\<close>)

context slot_laws
begin

lemma cooldown_later:
  assumes "t \<le> t'"
  shows "max 0 (sl_pttl sv t k s) - (int t' - int t) \<le> max 0 (sl_pttl sv t' k s)"
  using pttl_later [OF assms, of k s] assms by (cases "0 < sl_pttl sv t k s") auto

lemma take_slot_other:
  assumes "js_lower mb' \<noteq> js_lower mb"
  shows "sl_hmget sv t' (rateKey mb') (snd (state_takeSlot sv t mb s)) = sl_hmget sv t' (rateKey mb') s"
  using assms
  by (auto simp: state_takeSlot_def TAKE_SLOT_def Let_def hmget_hset_other hmget_pexpire_other split: prod.split)

lemma take_slot_cooldown: "sl_pttl sv t' (cooldownKey mb') (snd (state_takeSlot sv t mb s)) = sl_pttl sv t' (cooldownKey mb') s"
  by (auto simp: state_takeSlot_def TAKE_SLOT_def Let_def pttl_hset pttl_pexpire split: prod.split)

lemma back_off_bucket: "sl_hmget sv t' (rateKey mb') (state_backOff sv t mb secs s) = sl_hmget sv t' (rateKey mb') s"
  by (auto simp: state_backOff_def BACK_OFF_def hmget_set_other)

lemma back_off_cooldown:
  assumes "js_lower mb' = js_lower mb"
  shows "max 0 (max (sl_pttl sv t (cooldownKey mb') s) \<lceil>secs * 1000\<rceil>)
    \<le> max 0 (sl_pttl sv t (cooldownKey mb') (state_backOff sv t mb secs s))"
proof -
  have k: "cooldownKey mb' = cooldownKey mb"
    using assms by simp
  have "max 0 (sl_pttl sv t (cooldownKey mb) (sl_set_px sv t (cooldownKey mb) v d s)) = int d" for v d
    using pttl_set [OF order_refl, of t "cooldownKey mb" v d s] by simp
  moreover define n where "n = nat \<lceil>secs * 1000\<rceil>"
  moreover have "\<lceil>secs * 1000\<rceil> \<le> int n"
    by (simp add: n_def)
  ultimately show ?thesis
    unfolding state_backOff_def BACK_OFF_def k n_def [symmetric]
    by (cases "sl_pttl sv t (cooldownKey mb) s < int n") auto
qed

lemma back_off_cooldown_other:
  "js_lower mb' \<noteq> js_lower mb \<Longrightarrow> sl_pttl sv t' (cooldownKey mb') (state_backOff sv t mb secs s) = sl_pttl sv t' (cooldownKey mb') s"
  by (simp add: state_backOff_def BACK_OFF_def pttl_set_other)

lemma take_slot_bucket:
  assumes "bucket_state sv (rateKey mb) t s"
  defines "s' \<equiv> snd (state_takeSlot sv t mb s)"
  shows "bucket_state sv (rateKey mb) t s' \<and>
    available sv (rateKey mb) t s' = available sv (rateKey mb) t s - (if fst (state_takeSlot sv t mb s) = 0 then 1 else 0)"
proof (cases "0 < sl_pttl sv t (cooldownKey mb) s")
  case True
  then show ?thesis
    using assms by (simp add: state_takeSlot_def TAKE_SLOT_def)
next
  case False
  define av where "av = available sv (rateKey mb) t s"
  have av: "0 \<le> av" "av \<le> 5"
    using available_bounds [OF assms(1)] by (simp_all add: av_def)
  define tk where "tk = (if 1 \<le> av then av - 1 else av)"
  have run: "state_takeSlot sv t mb s =
      (if 1 \<le> av then 0 else \<lceil>(1 - av) * 3000\<rceil>, sl_pexpire sv t (rateKey mb) 120000 (sl_hset sv t (rateKey mb) tk t s))"
    using False
    by (cases "sl_hmget sv t (rateKey mb) s")
       (auto simp: state_takeSlot_def TAKE_SLOT_def MAIL_RATE_perMinute_def MAIL_RATE_burst_def av_def tk_def available_def Let_def)
  have wait: "\<not> 1 \<le> av \<Longrightarrow> \<lceil>(1 - av) * 3000\<rceil> \<noteq> 0"
    by (simp add: ceiling_eq_iff)
  have h: "sl_hmget sv t' (rateKey mb) s' = (if t' < t + 120000 then Some (tk, t) else None)" if "t \<le> t'" for t'
    using that by (simp add: s'_def run hmget_pexpire hmget_hset)
  have "0 \<le> tk" "tk \<le> 5"
    using av by (auto simp: tk_def)
  then have "bucket_state sv (rateKey mb) t s'"
    unfolding bucket_state_def using h by blast
  moreover have "available sv (rateKey mb) t s' = tk"
    using h [of t] \<open>tk \<le> 5\<close> by (simp add: available_def)
  ultimately show ?thesis
    using wait by (auto simp: run tk_def av_def)
qed

end

section \<open>The bound on a mailbox\<close>

text \<open>The grants of a mailbox in a window of time, among the operations of all mailboxes.\<close>

definition granted :: "string \<Rightarrow> msec \<Rightarrow> msec \<Rightarrow> (msec \<times> slot_op) \<times> int option \<Rightarrow> bool" where
  "granted mb a b e =
     (case e of ((t, TakeSlot mb'), Some w) \<Rightarrow> w = 0 \<and> js_lower mb' = js_lower mb \<and> a \<le> t \<and> t \<le> b | _ \<Rightarrow> False)"

definition grants :: "'s slot_server \<Rightarrow> string \<Rightarrow> msec \<Rightarrow> msec \<Rightarrow> (msec \<times> slot_op) list \<Rightarrow> 's \<Rightarrow> nat" where
  "grants sv mb a b ps s = length (filter (granted mb a b) (zip ps (fst (run_ops (slot_op sv) ps s))))"

lemma grants_Nil [simp]: "grants sv mb a b [] s = 0"
  by (simp add: grants_def)

lemma grants_Cons:
  "grants sv mb a b ((t, p) # ps) s =
     (if granted mb a b ((t, p), fst (slot_op sv t p s)) then 1 else 0) + grants sv mb a b ps (snd (slot_op sv t p s))"
  by (auto simp: grants_def Let_def split: prod.splits)

context slot_laws
begin

lemma slot_op_bucket:
  assumes "bucket_state sv (rateKey mb) t s"
  shows "bucket_state sv (rateKey mb) t (snd (slot_op sv t p s)) \<and>
    available sv (rateKey mb) t (snd (slot_op sv t p s)) =
      available sv (rateKey mb) t s - (if granted mb t t ((t, p), fst (slot_op sv t p s)) then 1 else 0)"
proof (cases p)
  case (TakeSlot mb')
  show ?thesis
  proof (cases "js_lower mb' = js_lower mb")
    case True
    then have k: "rateKey mb' = rateKey mb" by simp
    show ?thesis
      using take_slot_bucket [of mb' t s, unfolded k] assms True by (simp add: slot_op_def TakeSlot granted_def)
  next
    case False
    then have "sl_hmget sv t' (rateKey mb) (snd (state_takeSlot sv t mb' s)) = sl_hmget sv t' (rateKey mb) s" for t'
      using take_slot_other [of mb mb'] by simp
    then show ?thesis
      using assms False by (simp add: slot_op_def TakeSlot granted_def bucket_state_def available_def)
  qed
next
  case (BackOff mb' secs)
  then show ?thesis
    using assms by (simp add: slot_op_def granted_def bucket_state_def available_def back_off_bucket)
qed

lemma grants_bounded:
  assumes "bucket_state sv (rateKey mb) t s" and "sorted (t # map fst ps)" and "a \<le> b"
  shows "of_nat (grants sv mb a b ps s) \<le>
    (if t < a then 5 + (of_nat b - of_nat a) / 3000
     else if t \<le> b then available sv (rateKey mb) t s + (of_nat b - of_nat t) / 3000 else (0 :: rat))"
  using assms(1,2)
proof (induction ps arbitrary: t s)
  case Nil
  then show ?case
    using assms(3) available_bounds [OF Nil.prems(1)] by (auto simp: field_simps)
next
  case (Cons q ps)
  obtain t1 p where q: "q = (t1, p)" by (cases q)
  define s1 where "s1 = snd (slot_op sv t1 p s)"
  have le: "t \<le> t1" and srt: "sorted (t1 # map fst ps)"
    using Cons.prems(2) q by auto
  have b1: "bucket_state sv (rateKey mb) t1 s"
    using Cons.prems(1) le by (rule bucket_state_later)
  note step = slot_op_bucket [OF b1, of p, folded s1_def]
  have IH: "of_nat (grants sv mb a b ps s1) \<le>
    (if t1 < a then 5 + (of_nat b - of_nat a) / 3000
     else if t1 \<le> b then available sv (rateKey mb) t1 s1 + (of_nat b - of_nat t1) / 3000 else (0 :: rat))"
    using Cons.IH [OF conjunct1 [OF step] srt] .
  have later: "available sv (rateKey mb) t1 s \<le> available sv (rateKey mb) t s + (of_nat t1 - of_nat t) / 3000"
    using Cons.prems(1) le by (rule available_later)
  note av = available_bounds [OF b1] available_bounds [OF Cons.prems(1)] available_bounds [OF conjunct1 [OF step]]
  have r: "(of_nat t :: rat) \<le> of_nat t1" using le by simp
  have g: "granted mb a b ((t1, p), w) \<longleftrightarrow> granted mb t1 t1 ((t1, p), w) \<and> a \<le> t1 \<and> t1 \<le> b" for w
    by (auto simp: granted_def split: slot_op.splits option.splits)
  show ?case
  proof (cases "a \<le> t1 \<and> t1 \<le> b")
    case False
    then have "\<not> granted mb a b ((t1, p), w)" for w
      by (auto simp: g)
    then have "grants sv mb a b (q # ps) s = grants sv mb a b ps s1"
      by (simp add: q grants_Cons s1_def)
    then show ?thesis
      using IH False le av assms(3) by (auto simp: not_le field_simps)
  next
    case True
    have n: "of_nat (grants sv mb a b (q # ps) s) \<le> available sv (rateKey mb) t1 s + (of_nat b - of_nat t1) / (3000 :: rat)"
      using IH True conjunct2 [OF step] by (auto simp: q grants_Cons s1_def g)
    have ab: "(of_nat a :: rat) \<le> of_nat t1" "(of_nat t1 :: rat) \<le> of_nat b" using True by simp_all
    show ?thesis
    proof (cases "t < a")
      case True
      then show ?thesis
        using n ab av by (simp add: field_simps)
    next
      case False
      then show ?thesis
        using n ab later le True by (simp add: field_simps)
    qed
  qed
qed

text \<open>A minute of a mailbox starting anywhere: the burst and what the minute refills.\<close>

lemma minute_bounded:
  assumes "bucket_state sv (rateKey mb) t s" and "sorted (t # map fst ps)"
  shows "grants sv mb a (a + 60000) ps s \<le> 25"
proof -
  have "of_nat (grants sv mb a (a + 60000) ps s) \<le> (25 :: rat)"
    using grants_bounded [OF assms, of a "a + 60000"] available_bounds [OF assms(1)]
    by (auto split: if_splits simp: field_simps)
  then have "of_nat (grants sv mb a (a + 60000) ps s) \<le> (of_nat 25 :: rat)"
    by simp
  then show ?thesis
    unfolding of_nat_le_iff .
qed

text \<open>While a cooldown lasts nothing is granted, and no later call shortens it.\<close>

lemma slot_op_cooldown:
  "max 0 (sl_pttl sv t (cooldownKey mb) s) \<le> max 0 (sl_pttl sv t (cooldownKey mb) (snd (slot_op sv t p s)))"
proof (cases p)
  case (TakeSlot mb')
  then show ?thesis
    by (simp add: slot_op_def take_slot_cooldown)
next
  case (BackOff mb' secs)
  then show ?thesis
    using back_off_cooldown [of mb mb' t s secs] back_off_cooldown_other [of mb mb' t t secs s]
    by (cases "js_lower mb = js_lower mb'") (simp_all add: slot_op_def)
qed

lemma no_grant_in_cooldown:
  assumes "int until_ms - int t \<le> max 0 (sl_pttl sv t (cooldownKey mb) s)" and "sorted (t # map fst ps)" and "b < until_ms"
  shows "grants sv mb a b ps s = 0"
  using assms(1,2)
proof (induction ps arbitrary: t s)
  case (Cons q ps)
  obtain t1 p where q: "q = (t1, p)" by (cases q)
  have le: "t \<le> t1" and srt: "sorted (t1 # map fst ps)"
    using Cons.prems(2) q by auto
  have c: "int until_ms - int t1 \<le> max 0 (sl_pttl sv t1 (cooldownKey mb) s)"
    using cooldown_later [OF le, of "cooldownKey mb" s] Cons.prems(1) by linarith
  then have "int until_ms - int t1 \<le> max 0 (sl_pttl sv t1 (cooldownKey mb) (snd (slot_op sv t1 p s)))"
    using slot_op_cooldown [of t1 mb s p] by linarith
  note rest = Cons.IH [OF this srt]
  have "\<not> granted mb a b ((t1, p), fst (slot_op sv t1 p s))"
  proof (cases "t1 \<le> b")
    case True
    then have pos: "0 < sl_pttl sv t1 (cooldownKey mb) s"
      using c assms(3) by linarith
    show ?thesis
    proof (cases p)
      case (TakeSlot mb')
      have "js_lower mb' = js_lower mb \<Longrightarrow> cooldownKey mb' = cooldownKey mb"
        by simp
      then show ?thesis
        using pos by (auto simp: granted_def slot_op_def TakeSlot state_takeSlot_def TAKE_SLOT_def simp del: cooldownKey_eq)
    qed (simp add: granted_def)
  qed (auto simp: granted_def split: slot_op.splits option.splits)
  then show ?case
    using rest by (simp add: q grants_Cons)
qed simp

end

section \<open>A server\<close>

record mem_slots =
  mc_keys :: "string \<Rightarrow> msec option"
  mc_hash :: "string \<Rightarrow> ((rat \<times> msec) \<times> msec option) option"

definition mem_slot_server :: "mem_slots slot_server" where
  "mem_slot_server = \<lparr>
     sl_pttl = (\<lambda>t k s. case mc_keys s k of None \<Rightarrow> -2 | Some d \<Rightarrow> if t < d then int d - int t else -2),
     sl_set_px = (\<lambda>t k v d s. s\<lparr>mc_keys := (mc_keys s)(k \<mapsto> t + d)\<rparr>),
     sl_hmget = (\<lambda>t k s. case mc_hash s k of None \<Rightarrow> None | Some (x, dl) \<Rightarrow> if live t dl then Some x else None),
     sl_hset = (\<lambda>t k x y s. s\<lparr>mc_hash := (mc_hash s)(k \<mapsto> ((x, y),
       case mc_hash s k of None \<Rightarrow> None | Some (_, dl) \<Rightarrow> if live t dl then dl else None))\<rparr>),
     sl_pexpire = (\<lambda>t k d s. s\<lparr>mc_hash := (mc_hash s)(k :=
       (case mc_hash s k of None \<Rightarrow> None | Some (x, dl) \<Rightarrow> if live t dl then Some (x, Some (t + d)) else None))\<rparr>)\<rparr>"

definition mem_slots_empty :: mem_slots where
  "mem_slots_empty = \<lparr>mc_keys = Map.empty, mc_hash = Map.empty\<rparr>"

interpretation slots: slot_laws mem_slot_server
  by unfold_locales (auto simp: mem_slot_server_def live_def split: option.splits if_splits)

lemma empty_bucket: "bucket_state mem_slot_server k t mem_slots_empty"
  by (simp add: bucket_state_def mem_slot_server_def mem_slots_empty_def)

text \<open>
  C24. Whatever workers ask for slots and report throttling, in any order at non-decreasing times of the server's clock:
  at most 25 sends are granted to a mailbox in any minute (its spelling's case aside), and after a call that sets a
  cooldown of some seconds none is granted until they have passed, whatever the bucket holds and whatever shorter
  cooldown is set meanwhile.
\<close>

theorem mailbox_paced:
  assumes "slot_laws sv" and "bucket_state sv (rateKey mb) t s" and "sorted (t # map fst ps)"
    and "ps = before @ (tc, BackOff mb' secs) # after" and "js_lower mb' = js_lower mb"
    and "b < tc + nat \<lceil>secs * 1000\<rceil>"
  shows "grants sv mb a (a + 60000) ps s \<le> 25 \<and>
    grants sv mb a b after
      (snd (run_ops (slot_op sv) (before @ [(tc, BackOff mb' secs)]) s)) = 0"
proof
  show "grants sv mb a (a + 60000) ps s \<le> 25"
    using slot_laws.minute_bounded [OF assms(1-3)] .
  have run: "snd (run_ops f (xs @ ys) st) = snd (run_ops f ys (snd (run_ops f xs st)))" for f xs ys and st :: 'a
    by (induction f xs st rule: run_ops.induct) (auto simp: Let_def split: prod.splits)
  define s1 where "s1 = snd (run_ops (slot_op sv) before s)"
  define s2 where "s2 = state_backOff sv tc mb' secs s1"
  have s2: "snd (run_ops (slot_op sv) (before @ [(tc, BackOff mb' secs)]) s) = s2"
    by (simp add: run s1_def s2_def slot_op_def)
  have "max 0 (max (sl_pttl sv tc (cooldownKey mb) s1) \<lceil>secs * 1000\<rceil>) \<le> max 0 (sl_pttl sv tc (cooldownKey mb) s2)"
    unfolding s2_def using slot_laws.back_off_cooldown [OF assms(1)] assms(5) by metis
  then have c: "int (tc + nat \<lceil>secs * 1000\<rceil>) - int tc \<le> max 0 (sl_pttl sv tc (cooldownKey mb) s2)"
    by linarith
  have srt: "sorted (tc # map fst after)"
    using assms(3,4) by (simp add: sorted_append)
  show "grants sv mb a b after (snd (run_ops (slot_op sv) (before @ [(tc, BackOff mb' secs)]) s)) = 0"
    unfolding s2 by (rule slot_laws.no_grant_in_cooldown [OF assms(1) c srt assms(6)])
qed

theorem mailbox_paced_witness:
  "grants mem_slot_server ''a@b.co'' 0 (0 + 60000) ([(0, TakeSlot ''a@b.co'')] @ (10, BackOff ''a@b.co'' 60) # [(20, TakeSlot ''a@b.co'')])
      mem_slots_empty \<le> 25 \<and>
   grants mem_slot_server ''a@b.co'' 0 60009 [(20, TakeSlot ''a@b.co'')]
     (snd (run_ops (slot_op mem_slot_server) ([(0, TakeSlot ''a@b.co'')] @ [(10, BackOff ''a@b.co'' 60)]) mem_slots_empty)) = 0"
proof (rule mailbox_paced [OF slots.slot_laws_axioms empty_bucket [of _ 0] _ refl refl])
  show "sorted ((0 :: msec) # map fst ([(0, TakeSlot ''a@b.co'')] @ (10, BackOff ''a@b.co'' 60) # [(20, TakeSlot ''a@b.co'')]))"
    by simp
  show "60009 < 10 + nat \<lceil>60 * 1000 :: rat\<rceil>"
    by simp
qed

end
