(* ===== verification/MailJobs.thy ===== *)
theory MailJobs
  imports MailPacing JobsRun
begin

text \<open>
  The \<open>mail.send\<close> queue (\<open>platform-mail/src/jobs.ts\<close>): its one definition, enqueueing, and the handler. The handler is a
  function on a world \<open>'w\<close> its dependencies act on: the ledger and the pacing of \<open>MailState\<close>, the transport, the sleep and
  the abort signal. What it does to them, and what it counts and logs, is kept in order in a list. The timer that
  renews a claim runs beside the attempt: \<open>renewal_tick\<close> is one tick of it.
\<close>

section \<open>The queue\<close>

definition MAIL_QUEUE :: string where "MAIL_QUEUE = ''mail.send''"

text \<open>A property of a value, with the optional chaining of the source: of no object, it is undefined.\<close>

definition property_of :: "string \<Rightarrow> jsval \<Rightarrow> jsval" where
  "property_of k v = (case v of JObj ps \<Rightarrow> member_of k ps | JStream ps \<Rightarrow> member_of k ps | _ \<Rightarrow> JUndef)"

definition mailCanRedrive :: "jsval \<Rightarrow> bool" where
  "mailCanRedrive data =
     (case property_of ''category'' data of
        JStr c \<Rightarrow> c \<noteq> [] \<and> take 5 (js_lower c) \<noteq> ''auth.''
      | _ \<Rightarrow> False)"

definition MAIL_QUEUE_CONFIG :: queue_config where
  "MAIL_QUEUE_CONFIG = \<lparr>qc_expireInSeconds = Some (Some 300), qc_heartbeatSeconds = Some (Some 30),
     qc_retryLimit = Some (Some 10), qc_acceptDeadLetterOnDrain = False, qc_retryDelaySeconds = Some (Some 10),
     qc_retryDelayMaxSeconds = Some (Some 900), qc_deadLetter = None,
     qc_retention = \<lparr>rt_completed = Some Immediate, rt_failed = Some (Some 86400), rt_deadLetter = Some (Some 86400),
       rt_pending = Some (Some 86400)\<rparr>,
     qc_canRedrive = Some (Rule (\<lambda>data. Some (JBool (mailCanRedrive data))))\<rparr>"

definition MAIL_HANDLE_OPTIONS :: handle_options where
  "MAIL_HANDLE_OPTIONS = \<lparr>ho_queue = MAIL_QUEUE_CONFIG, ho_concurrency = Some (Some 1), ho_pollingMillis = Some (Some 1000)\<rparr>"

text \<open>For integers; an absent limit or delay is zero, an absent maximum is the delay.\<close>

definition minRetryWindowSeconds :: "int option \<Rightarrow> int option \<Rightarrow> int option \<Rightarrow> int" where
  "minRetryWindowSeconds retryLimit retryDelay retryDelayMax =
     (let limit = (case retryLimit of None \<Rightarrow> 0 | Some n \<Rightarrow> n); delay = (case retryDelay of None \<Rightarrow> 0 | Some n \<Rightarrow> n);
          longest = (case retryDelayMax of None \<Rightarrow> delay | Some n \<Rightarrow> n)
      in sum_list (map (\<lambda>n. min longest (delay * 2 ^ n)) [0 ..< nat limit]))"

definition MAIL_CLAIM_LEASE_SECONDS :: nat where "MAIL_CLAIM_LEASE_SECONDS = 60"
definition MAIL_CLAIM_RENEW_SECONDS :: nat where "MAIL_CLAIM_RENEW_SECONDS = 30"
definition MAIL_SENT_TTL_SECONDS :: nat where "MAIL_SENT_TTL_SECONDS = 7 * 24 * 60 * 60"
definition MAIL_MAX_SLOT_WAIT_MS :: int where "MAIL_MAX_SLOT_WAIT_MS = 120000"
definition MAIL_DEFAULT_COOLDOWN_SECONDS :: nat where "MAIL_DEFAULT_COOLDOWN_SECONDS = 60"
definition MAIL_MAX_COOLDOWN_SECONDS :: nat where "MAIL_MAX_COOLDOWN_SECONDS = 600"
definition MAIL_PRIORITY_auth :: int where "MAIL_PRIORITY_auth = 10"
definition MAIL_PRIORITY_default :: int where "MAIL_PRIORITY_default = 0"

definition priorityFor :: "string \<Rightarrow> int" where
  "priorityFor category = (if take 5 category = ''auth.'' then MAIL_PRIORITY_auth else MAIL_PRIORITY_default)"

section \<open>Enqueueing\<close>

datatype enqueue_error = InvalidMail validation_error | NotQueued jobs_error

definition mail_define :: "(nat \<Rightarrow> boss_call \<Rightarrow> string option) \<Rightarrow> unit engine_op" where
  "mail_define fails = defineQueue fails MAIL_QUEUE MAIL_QUEUE_CONFIG"

definition mail_enqueue ::
  "(send_args \<Rightarrow> pg \<Rightarrow> (string + string option) \<times> pg) \<Rightarrow> (byte list \<Rightarrow> byte list) \<Rightarrow> engine_life \<Rightarrow> jsval \<Rightarrow>
    int option \<Rightarrow> js_int option \<Rightarrow> pg \<Rightarrow> (enqueue_error + string option) \<times> pg" where
  "mail_enqueue bsend sha1 life message startAfter priority d =
     (case validateMessage message of
        Inl e \<Rightarrow> (Inl (InvalidMail e), d)
      | Inr m \<Rightarrow>
          (case send bsend sha1 life MAIL_QUEUE message
             \<lparr>so_idempotencyKey = Some (vm_idempotencyKey m), so_startAfter = startAfter,
              so_priority = (case priority of None \<Rightarrow> Some (Some (priorityFor (vm_category m))) | Some p \<Rightarrow> Some p)\<rparr> d of
             (Inl e, d') \<Rightarrow> (Inl (NotQueued e), d')
           | (Inr r, d') \<Rightarrow> (Inr r, d')))"

text \<open>Registering: the handler first, then the enqueue side's definition of the queue, which agrees with it.\<close>

definition registerMailJobs :: "(nat \<Rightarrow> boss_call \<Rightarrow> string option) \<Rightarrow> handler_fn \<Rightarrow> unit engine_op" where
  "registerMailJobs fails fn = op_then (handle fails MAIL_QUEUE fn MAIL_HANDLE_OPTIONS) (\<lambda>_. mail_define fails)"

section \<open>The handler\<close>

datatype mail_thrown = SendFailed mail_send_error | OtherError string string

datatype log_level = LogInfo | LogWarn | LogError

datatype mail_act =
    DidClaim string "mail_thrown + claim_result"
  | DidTakeSlot "mail_thrown + int"
  | DidSleep int "mail_thrown + unit"
  | DidSend validated_message "mail_thrown + string"
  | DidMarkSent string string "mail_thrown + unit"
  | DidRelease string string "mail_thrown + unit"
  | DidBackOff nat "mail_thrown + unit"
  | DidRenew bool
  | CountSent string | CountDuplicate string | CountFailed string string | CountPaced int
  | Logged log_level string "string option"

record 'w mail_deps =
  md_claim :: "string \<Rightarrow> nat \<Rightarrow> 'w \<Rightarrow> (mail_thrown + claim_result) \<times> 'w"
  md_markSent :: "string \<Rightarrow> string \<Rightarrow> nat \<Rightarrow> 'w \<Rightarrow> (mail_thrown + unit) \<times> 'w"
  md_renew :: "string \<Rightarrow> string \<Rightarrow> nat \<Rightarrow> 'w \<Rightarrow> (mail_thrown + bool) \<times> 'w"
  md_release :: "string \<Rightarrow> string \<Rightarrow> 'w \<Rightarrow> (mail_thrown + unit) \<times> 'w"
  md_takeSlot :: "string \<Rightarrow> 'w \<Rightarrow> (mail_thrown + int) \<times> 'w"
  md_backOff :: "string \<Rightarrow> nat \<Rightarrow> 'w \<Rightarrow> (mail_thrown + unit) \<times> 'w"
  md_sleep :: "int \<Rightarrow> 'w \<Rightarrow> (mail_thrown + unit) \<times> 'w"
  md_aborted :: "'w \<Rightarrow> bool"
  md_send :: "validated_message \<Rightarrow> (nat \<Rightarrow> 'w \<Rightarrow> (mail_thrown + unit) \<times> 'w) \<Rightarrow> 'w \<Rightarrow> (mail_thrown + string) \<times> 'w"

definition mail_code_text :: "mail_error_code \<Rightarrow> string" where
  "mail_code_text c =
     (case c of Invalid_message \<Rightarrow> ''invalid_message'' | Unauthenticated \<Rightarrow> ''unauthenticated'' | Forbidden \<Rightarrow> ''forbidden''
      | Mailbox_not_found \<Rightarrow> ''mailbox_not_found'' | Too_large \<Rightarrow> ''too_large'' | Throttled \<Rightarrow> ''throttled''
      | Unavailable \<Rightarrow> ''unavailable'' | Network \<Rightarrow> ''network'' | Timeout \<Rightarrow> ''timeout'' | Config \<Rightarrow> ''config'')"

definition cooldownSeconds :: "nat option \<Rightarrow> nat" where
  "cooldownSeconds retryAfter =
     min MAIL_MAX_COOLDOWN_SECONDS (max 1 (case retryAfter of None \<Rightarrow> MAIL_DEFAULT_COOLDOWN_SECONDS | Some n \<Rightarrow> n))"

definition retryable :: "mail_send_error \<Rightarrow> bool" where
  "retryable e \<longleftrightarrow> RETRYABLE (me_code e)"

definition toJobError :: "mail_thrown \<Rightarrow> thrown_error" where
  "toJobError e =
     (case e of
        SendFailed m \<Rightarrow>
          if \<not> retryable m
          then \<lparr>te_name = ''PermanentJobError'',
                te_message = ''mail.send failed permanently ('' @ mail_code_text (me_code m) @ ''): '' @ me_message m,
                te_permanent = True\<rparr>
          else \<lparr>te_name = ''MailSendError'', te_message = me_message m, te_permanent = False\<rparr>
      | OtherError n m \<Rightarrow> \<lparr>te_name = n, te_message = m, te_permanent = False\<rparr>)"

definition thrown_by_validation :: "validation_error \<Rightarrow> mail_thrown" where
  "thrown_by_validation e =
     (case e of InvalidMessage m \<Rightarrow> SendFailed m | MapOfNonArray \<Rightarrow> OtherError ''TypeError'' ''list(...).map is not a function'')"

definition categoryOf :: "jsval \<Rightarrow> string" where
  "categoryOf data = (case property_of ''category'' data of JStr c \<Rightarrow> if length c \<le> 64 then c else ''unknown'' | _ \<Rightarrow> ''unknown'')"

text \<open>A call of a dependency, kept with its outcome; a telemetry or log call has none.\<close>

definition perform :: "('w \<Rightarrow> 'r \<times> 'w) \<Rightarrow> ('r \<Rightarrow> mail_act) \<Rightarrow> mail_act list \<times> 'w \<Rightarrow> 'r \<times> mail_act list \<times> 'w" where
  "perform f act st = (let (r, w') = f (snd st) in (r, fst st @ [act r], w'))"

definition note_act :: "mail_act list \<Rightarrow> mail_act list \<times> 'w \<Rightarrow> mail_act list \<times> 'w" where
  "note_act acts st = (fst st @ acts, snd st)"

function waitForSlot ::
  "'w mail_deps \<Rightarrow> string \<Rightarrow> int \<Rightarrow> mail_act list \<times> 'w \<Rightarrow> (mail_thrown + int) \<times> mail_act list \<times> 'w" where
  "waitForSlot env mailbox waitedMs st =
     (case perform (md_takeSlot env mailbox) DidTakeSlot st of
        (Inl e, st1) \<Rightarrow> (Inl e, st1)
      | (Inr waitMs, st1) \<Rightarrow>
          if waitMs \<le> 0 then (Inr waitedMs, if 0 < waitedMs then note_act [CountPaced waitedMs] st1 else st1)
          else if MAIL_MAX_SLOT_WAIT_MS < waitedMs + waitMs
          then (Inl (SendFailed \<lparr>me_code = Throttled,
                  me_message = ''The sender mailbox is at its sending rate; try again later.'',
                  me_retryAfterSeconds = Some (nat (ceil_div waitMs 1000))\<rparr>), st1)
          else (case perform (md_sleep env waitMs) (DidSleep waitMs) st1 of
                  (Inl e, st2) \<Rightarrow> (Inl e, st2)
                | (Inr _, st2) \<Rightarrow> waitForSlot env mailbox (waitedMs + waitMs) st2))"
  by pat_completeness auto

termination
  by (relation "measure (\<lambda>(_, _, waitedMs, _). nat (MAIL_MAX_SLOT_WAIT_MS - waitedMs))") auto

declare waitForSlot.simps [simp del]

text \<open>One tick of the renewal timer: a failed renewal is left to the next tick.\<close>

definition renewal_tick :: "'w mail_deps \<Rightarrow> string \<Rightarrow> string \<Rightarrow> string \<Rightarrow> mail_act list \<times> 'w \<Rightarrow> mail_act list \<times> 'w" where
  "renewal_tick env key token category st =
     (let (r, w') = md_renew env key token MAIL_CLAIM_LEASE_SECONDS (snd st) in
      case r of
        Inl _ \<Rightarrow> (fst st, w')
      | Inr held \<Rightarrow> (fst st @ DidRenew held # (if held then [] else [Logged LogWarn category None]), w'))"

text \<open>The attempt once it holds the claim: wait, send, record; whether the provider was reached is in the result.\<close>

definition attempt_send ::
  "'w mail_deps \<Rightarrow> string \<Rightarrow> string \<Rightarrow> validated_message \<Rightarrow> mail_act list \<times> 'w \<Rightarrow> (bool \<times> mail_thrown + unit) \<times> mail_act list \<times> 'w" where
  "attempt_send env mailbox key m st =
     (case waitForSlot env mailbox 0 st of
        (Inl e, st1) \<Rightarrow> (Inl (False, e), st1)
      | (Inr _, st1) \<Rightarrow>
          if md_aborted env (snd st1)
          then (Inl (False, SendFailed (mail_error Timeout ''The attempt was aborted before the message was sent.'')), st1)
          else (case perform (md_send env m (\<lambda>seconds. md_backOff env mailbox (cooldownSeconds (Some seconds)))) (DidSend m) st1 of
                  (Inl e, st2) \<Rightarrow> (Inl (True, e), st2)
                | (Inr sid, st2) \<Rightarrow>
                    (let (r, st3) = perform (md_markSent env key sid MAIL_SENT_TTL_SECONDS) (DidMarkSent key sid) st2;
                         st4 = (case r of Inl _ \<Rightarrow> note_act [Logged LogError (vm_category m) None] st3 | Inr _ \<Rightarrow> st3)
                     in (Inr (), note_act [CountSent (vm_category m), Logged LogInfo (vm_category m) None] st4))))"

definition error_code :: "mail_thrown \<Rightarrow> string" where
  "error_code e = (case e of SendFailed m \<Rightarrow> mail_code_text (me_code m) | OtherError _ _ \<Rightarrow> ''network'')"

text \<open>What follows a failed attempt: count it, give the claim back, start the cooldown when the provider throttled.\<close>

definition attempt_failed ::
  "'w mail_deps \<Rightarrow> string \<Rightarrow> string \<Rightarrow> string \<Rightarrow> string \<Rightarrow> bool \<Rightarrow> mail_thrown \<Rightarrow> mail_act list \<times> 'w \<Rightarrow> mail_act list \<times> 'w" where
  "attempt_failed env mailbox key token category reachedProvider e st =
     (let st1 = note_act [CountFailed category (error_code e), Logged LogWarn category (Some (error_code e))] st;
          st2 = snd (perform (md_release env key token) (DidRelease key token) st1)
      in case e of
           SendFailed m \<Rightarrow>
             if reachedProvider \<and> me_code m = Throttled
             then (let secs = cooldownSeconds (me_retryAfterSeconds m)
                   in snd (perform (md_backOff env mailbox secs) (DidBackOff secs) st2))
             else st2
         | OtherError _ _ \<Rightarrow> st2)"

definition mail_run ::
  "'w mail_deps \<Rightarrow> (nat list \<Rightarrow> string) \<Rightarrow> string \<Rightarrow> jsval \<Rightarrow> 'w \<Rightarrow> (thrown_error + unit) \<times> mail_act list \<times> 'w" where
  "mail_run env sha mailbox data w =
     (case validateMessage data of
        Inl err \<Rightarrow>
          (Inl (toJobError (thrown_by_validation err)),
           note_act [CountFailed (categoryOf data) ''invalid_message'', Logged LogError (categoryOf data) None] ([], w))
      | Inr m \<Rightarrow>
          (let key = ledgerKey sha mailbox (vm_idempotencyKey m); category = vm_category m in
           case perform (md_claim env key MAIL_CLAIM_LEASE_SECONDS) (DidClaim key) ([], w) of
             (Inl e, st) \<Rightarrow> (Inl (toJobError e), st)
           | (Inr (AlreadySent i), st) \<Rightarrow> (Inr (), note_act [CountDuplicate category, Logged LogInfo category None] st)
           | (Inr InFlight, st) \<Rightarrow>
               (Inl (toJobError (SendFailed (mail_error Unavailable ''Another attempt is sending this message; retrying later.''))),
                note_act [CountFailed category ''in_flight'', Logged LogWarn category (Some ''in_flight'')] st)
           | (Inr (Claimed token), st) \<Rightarrow>
               (case attempt_send env mailbox key m st of
                  (Inr _, st') \<Rightarrow> (Inr (), st')
                | (Inl (reached, e), st') \<Rightarrow>
                    (Inl (toJobError e), attempt_failed env mailbox key token category reached e st'))))"

text \<open>
  The handler as \<open>platform-jobs\<close> calls it: under the correlation id of the payload when it is one a log line may carry,
  else under the one the engine has seeded.
\<close>

definition mail_handler :: "'w mail_deps \<Rightarrow> (nat list \<Rightarrow> string) \<Rightarrow> string \<Rightarrow> string \<Rightarrow> 'w \<Rightarrow> handler_fn" where
  "mail_handler env sha mailbox uuid w j st =
     (let result = fst (mail_run env sha mailbox (job_data j) w) in
      case property_of ''correlationId'' (job_data j) of
        JStr c \<Rightarrow>
          if isCorrelationId (JStr c)
          then withJobContext uuid MAIL_QUEUE (\<lambda>als. (result, als))
                 \<lparr>js_correlationId = Some c, js_workspaceId = None, js_userId = None, js_traceparent = None\<rparr> st
          else (result, st)
      | _ \<Rightarrow> (result, st))"

section \<open>What an attempt does\<close>

fun is_send :: "mail_act \<Rightarrow> bool" where
  "is_send (DidSend m r) = True"
| "is_send a = False"

fun slept :: "mail_act \<Rightarrow> int" where
  "slept (DidSleep n r) = n"
| "slept a = 0"

definition total_sleep :: "mail_act list \<Rightarrow> int" where
  "total_sleep tr = sum_list (map slept tr)"

fun waiting_act :: "mail_act \<Rightarrow> bool" where
  "waiting_act (DidTakeSlot r) = True"
| "waiting_act (DidSleep n r) = True"
| "waiting_act (CountPaced n) = True"
| "waiting_act a = False"

text \<open>A wait that ended with a slot: the last answer of the state was that it is granted.\<close>

definition slot_granted :: "mail_act list \<Rightarrow> bool" where
  "slot_granted zs \<longleftrightarrow> (\<exists>pre ms paced. zs = pre @ DidTakeSlot (Inr ms) # paced \<and> ms \<le> 0 \<and> (\<forall>a\<in>set paced. \<exists>n. a = CountPaced n))"

lemma total_sleep_simps [simp]: "total_sleep [] = 0" "total_sleep (a # tr) = slept a + total_sleep tr"
  "total_sleep (tr @ tr') = total_sleep tr + total_sleep tr'"
  by (simp_all add: total_sleep_def)

lemma slot_granted_Cons: "slot_granted zs \<Longrightarrow> slot_granted (a # zs)"
  unfolding slot_granted_def by (metis append_Cons)

lemma performE:
  assumes "perform f act (acts, w) = (r, st)"
  obtains w' where "f w = (r, w')" "st = (acts @ [act r], w')"
  using assms by (auto simp: perform_def split: prod.splits)

lemma waitForSlot_shape:
  assumes "waitForSlot env mb waited (acts, w) = (r, acts', w')" and "0 \<le> waited" and "waited \<le> MAIL_MAX_SLOT_WAIT_MS"
  shows "\<exists>zs. acts' = acts @ zs \<and> list_all waiting_act zs \<and> total_sleep zs \<le> MAIL_MAX_SLOT_WAIT_MS - waited \<and>
    (is_ok r \<longrightarrow> slot_granted zs)"
  using assms
proof (induction env mb waited "(acts, w)" arbitrary: acts w rule: waitForSlot.induct)
  case (1 env mb waited acts w)
  obtain x w1 where x: "md_takeSlot env mb w = (x, w1)" by (cases "md_takeSlot env mb w")
  show ?case
  proof (cases x)
    case (Inl e)
    then show ?thesis
      using 1(2,4) x by (auto simp: waitForSlot.simps [of env mb waited] perform_def)
  next
    case (Inr ms)
    note x = x [unfolded Inr]
    consider (go) "ms \<le> 0" | (long) "0 < ms" "MAIL_MAX_SLOT_WAIT_MS < waited + ms"
      | (sleep) "0 < ms" "waited + ms \<le> MAIL_MAX_SLOT_WAIT_MS" by linarith
    then show ?thesis
    proof cases
      case go
      then have "slot_granted [DidTakeSlot (Inr ms)]" "slot_granted [DidTakeSlot (Inr ms), CountPaced n]" for n
        unfolding slot_granted_def by (metis append_Nil empty_iff empty_set, metis append_Nil empty_iff empty_set insert_iff list.set(2))
      then show ?thesis
        using 1(2,4) x go by (auto simp: waitForSlot.simps [of env mb waited] perform_def note_act_def split: if_splits)
    next
      case long
      then show ?thesis
        using 1(2,4) x by (auto simp: waitForSlot.simps [of env mb waited] perform_def)
    next
      case sleep
      obtain y w2 where y: "md_sleep env ms w1 = (y, w2)" by (cases "md_sleep env ms w1")
      show ?thesis
      proof (cases y)
        case (Inl e)
        then show ?thesis
          using 1(2) x y sleep 1(3) by (auto simp: waitForSlot.simps [of env mb waited] perform_def)
      next
        case (Inr u)
        note y = y [unfolded Inr]
        define mid where "mid = acts @ [DidTakeSlot (Inr ms), DidSleep ms (Inr u)]"
        have rec: "waitForSlot env mb (waited + ms) (mid, w2) = (r, acts', w')"
          using 1(2) x y sleep by (simp add: waitForSlot.simps [of env mb waited] perform_def mid_def)
        have "\<exists>zs. acts' = mid @ zs \<and> list_all waiting_act zs \<and> total_sleep zs \<le> MAIL_MAX_SLOT_WAIT_MS - (waited + ms) \<and>
            (is_ok r \<longrightarrow> slot_granted zs)"
          using x y sleep 1(3) rec
          
          by (intro 1(1)) (auto simp: perform_def mid_def)
        then obtain zs where zs: "acts' = mid @ zs" "list_all waiting_act zs"
            "total_sleep zs \<le> MAIL_MAX_SLOT_WAIT_MS - (waited + ms)" "is_ok r \<longrightarrow> slot_granted zs"
          by blast
        then show ?thesis
          by (intro exI [of _ "DidTakeSlot (Inr ms) # DidSleep ms (Inr u) # zs"]) (auto simp: mid_def slot_granted_Cons)
      qed
    qed
  qed
qed

lemma waiting_no_send:
  "list_all waiting_act zs \<Longrightarrow> DidSend m r \<notin> set zs \<and> DidRelease k t x \<notin> set zs \<and> DidBackOff n y \<notin> set zs \<and>
     filter is_send zs = []"
proof (induction zs)
  case (Cons a zs)
  then show ?case by (cases a) auto
qed simp

text \<open>The three ways an attempt that holds its claim can go.\<close>

lemma attempt_send_shape:
  assumes "attempt_send env mb key m (acts, w) = (r, acts', w')"
  shows "\<exists>zs. list_all waiting_act zs \<and> total_sleep zs \<le> MAIL_MAX_SLOT_WAIT_MS \<and>
    ((\<exists>e. r = Inl (False, e) \<and> acts' = acts @ zs) \<or>
     slot_granted zs \<and> (\<exists>e. r = Inl (True, e) \<and> acts' = acts @ zs @ [DidSend m (Inl e)]) \<or>
     slot_granted zs \<and> (\<exists>sid x logs. r = Inr () \<and> acts' = acts @ zs @ [DidSend m (Inr sid), DidMarkSent key sid x] @
       logs @ [CountSent (vm_category m), Logged LogInfo (vm_category m) None] \<and> (\<forall>a\<in>set logs. a = Logged LogError (vm_category m) None)))"
proof -
  obtain x acts1 w1 where x: "waitForSlot env mb 0 (acts, w) = (x, acts1, w1)"
    by (metis prod_cases3)
  obtain zs where zs: "acts1 = acts @ zs" "list_all waiting_act zs" "total_sleep zs \<le> MAIL_MAX_SLOT_WAIT_MS" "is_ok x \<longrightarrow> slot_granted zs"
    using waitForSlot_shape [OF x] by (auto simp: MAIL_MAX_SLOT_WAIT_MS_def)
  show ?thesis
  proof (cases x)
    case (Inl e)
    then show ?thesis
      using assms x zs by (auto simp: attempt_send_def)
  next
    case (Inr n)
    then have g: "slot_granted zs" using zs(4) by simp
    define cb where "cb = (\<lambda>seconds. md_backOff env mb (cooldownSeconds (Some seconds)))"
    obtain y w2 where y: "md_send env m cb w1 = (y, w2)" by (cases "md_send env m cb w1")
    show ?thesis
    proof (cases "md_aborted env w1")
      case True
      then show ?thesis
        using assms x zs Inr by (auto simp: attempt_send_def)
    next
      case False
      show ?thesis
      proof (cases y)
        case (Inl e)
        then show ?thesis
          using assms x zs g Inr False y [unfolded cb_def] by (auto simp: attempt_send_def perform_def)
      next
        case sid: (Inr sid)
        obtain z w3 where z: "md_markSent env key sid MAIL_SENT_TTL_SECONDS w2 = (z, w3)"
          by (cases "md_markSent env key sid MAIL_SENT_TTL_SECONDS w2")
        show ?thesis
          using assms x zs g Inr False y [unfolded cb_def sid] z
          by (cases z) (auto simp: attempt_send_def perform_def note_act_def)
      qed
    qed
  qed
qed

lemma attempt_failed_shape:
  "\<exists>x. fst (attempt_failed env mb key token category reached e (acts, w)) =
     acts @ [CountFailed category (error_code e), Logged LogWarn category (Some (error_code e)), DidRelease key token x] @
       (case e of
          SendFailed m \<Rightarrow> if reached \<and> me_code m = Throttled
            then [DidBackOff (cooldownSeconds (me_retryAfterSeconds m))
              (fst (md_backOff env mb (cooldownSeconds (me_retryAfterSeconds m)) (snd (md_release env key token w))))] else []
        | OtherError _ _ \<Rightarrow> [])"
  by (auto simp: attempt_failed_def perform_def note_act_def Let_def split: mail_thrown.split prod.split)

text \<open>Everything an attempt may do, as one statement about its list of acts.\<close>

definition attempt_ok ::
  "(nat list \<Rightarrow> string) \<Rightarrow> string \<Rightarrow> jsval \<Rightarrow> thrown_error + unit \<Rightarrow> mail_act list \<Rightarrow> bool" where
  "attempt_ok sha mailbox data r tr \<longleftrightarrow>
     length (filter is_send tr) \<le> 1 \<and> total_sleep tr \<le> MAIL_MAX_SLOT_WAIT_MS \<and>
     (\<forall>m x. DidSend m x \<in> set tr \<longrightarrow> validateMessage data = Inr m \<and>
        (\<exists>token zs rest. slot_granted zs \<and>
           tr = DidClaim (ledgerKey sha mailbox (vm_idempotencyKey m)) (Inr (Claimed token)) # zs @ DidSend m x # rest)) \<and>
     (\<forall>m sid. DidSend m (Inr sid) \<in> set tr \<longrightarrow> is_ok r \<and>
        (\<exists>x. DidMarkSent (ledgerKey sha mailbox (vm_idempotencyKey m)) sid x \<in> set tr)) \<and>
     (is_ok r \<longrightarrow> (\<exists>m sid. DidSend m (Inr sid) \<in> set tr) \<or> (\<exists>key i. DidClaim key (Inr (AlreadySent i)) \<in> set tr)) \<and>
     (\<forall>key token. DidClaim key (Inr (Claimed token)) \<in> set tr \<and> \<not> is_ok r \<longrightarrow> (\<exists>x. DidRelease key token x \<in> set tr)) \<and>
     (\<forall>n x. DidBackOff n x \<in> set tr \<longrightarrow> n \<le> MAIL_MAX_COOLDOWN_SECONDS \<and>
        (\<exists>m e. DidSend m (Inl (SendFailed e)) \<in> set tr \<and> me_code e = Throttled))"

lemma waiting_acts:
  assumes "list_all waiting_act zs" and "a \<in> set zs"
  shows "(\<exists>r. a = DidTakeSlot r) \<or> (\<exists>n r. a = DidSleep n r) \<or> (\<exists>n. a = CountPaced n)"
  using assms by (cases a) (auto simp: list_all_iff)

lemma cooldown_bounded: "cooldownSeconds r \<le> MAIL_MAX_COOLDOWN_SECONDS"
  by (simp add: cooldownSeconds_def)

lemma attempt_okI_sent:
  assumes tr: "tr = DidClaim key (Inr (Claimed token)) # zs @ DidSend m x # rest"
    and key: "key = ledgerKey sha mb (vm_idempotencyKey m)" "validateMessage data = Inr m"
    and zs: "list_all waiting_act zs" "total_sleep zs \<le> MAIL_MAX_SLOT_WAIT_MS" "slot_granted zs"
    and rest: "filter is_send rest = []" "total_sleep rest = 0" "\<forall>k c. DidClaim k c \<notin> set rest"
    and good: "\<And>i. x = Inr i \<Longrightarrow> is_ok r \<and> (\<exists>y. DidMarkSent key i y \<in> set rest)"
    and bad: "\<And>e. x = Inl e \<Longrightarrow> \<not> is_ok r \<and> (\<exists>y. DidRelease key token y \<in> set rest)"
    and off: "\<And>n y. DidBackOff n y \<in> set rest \<Longrightarrow>
      n \<le> MAIL_MAX_COOLDOWN_SECONDS \<and> (\<exists>e. x = Inl (SendFailed e) \<and> me_code e = Throttled)"
  shows "attempt_ok sha mb data r tr"
proof -
  have only: "m' = m \<and> x' = x" if "DidSend m' x' \<in> set tr" for m' x'
  proof -
    have "DidSend m' x' \<notin> set rest"
      using rest(1) by (auto simp: filter_empty_conv)
    then show ?thesis
      using that tr waiting_no_send [OF zs(1)] by auto
  qed
  have claim: "k = key \<and> c = Inr (Claimed token)" if "DidClaim k c \<in> set tr" for k c
    using that tr rest(3) waiting_acts [OF zs(1)] by fastforce
  have ins: "DidSend m x \<in> set tr"
    by (simp add: tr)
  show ?thesis
    unfolding attempt_ok_def
  proof (intro conjI allI impI)
    show "length (filter is_send tr) \<le> 1"
      using rest(1) waiting_no_send [OF zs(1)] by (simp add: tr)
    show "total_sleep tr \<le> MAIL_MAX_SLOT_WAIT_MS"
      using rest(2) zs(2) by (simp add: tr)
    show "validateMessage data = Inr m'" if "DidSend m' x' \<in> set tr" for m' x'
      using only [OF that] key(2) by simp
    show "\<exists>token zs rest. slot_granted zs \<and>
        tr = DidClaim (ledgerKey sha mb (vm_idempotencyKey m')) (Inr (Claimed token)) # zs @ DidSend m' x' # rest"
      if "DidSend m' x' \<in> set tr" for m' x'
      using only [OF that] zs(3) tr key(1) by blast
    show "is_ok r" if "DidSend m' (Inr sid) \<in> set tr" for m' sid
      using only [OF that] good by blast
    show "\<exists>x. DidMarkSent (ledgerKey sha mb (vm_idempotencyKey m')) sid x \<in> set tr" if "DidSend m' (Inr sid) \<in> set tr" for m' sid
      using only [OF that] good [of sid] key(1) tr by auto
    show "(\<exists>m sid. DidSend m (Inr sid) \<in> set tr) \<or> (\<exists>key i. DidClaim key (Inr (AlreadySent i)) \<in> set tr)" if "is_ok r"
      using that bad ins by (cases x) auto
    show "\<exists>x. DidRelease k t x \<in> set tr" if "DidClaim k (Inr (Claimed t)) \<in> set tr \<and> \<not> is_ok r" for k t
    proof -
      note h = that
      obtain e where e: "x = Inl e"
        using h good by (cases x) auto
      have "k = key \<and> t = token"
        using claim h by blast
      then show ?thesis
        using bad [OF e] tr by auto
    qed
    show "n \<le> MAIL_MAX_COOLDOWN_SECONDS" if "DidBackOff n y \<in> set tr" for n y
      using that off waiting_no_send [OF zs(1)] tr by auto
    show "\<exists>m e. DidSend m (Inl (SendFailed e)) \<in> set tr \<and> me_code e = Throttled" if "DidBackOff n y \<in> set tr" for n y
    proof -
      have "DidBackOff n y \<in> set rest"
        using that waiting_no_send [OF zs(1)] tr by auto
      from off [OF this] show ?thesis
        using ins by blast
    qed
  qed
qed

lemma mail_attempt_lemma:
  assumes "mail_run env sha mb data w = (r, tr, w')"
  shows "attempt_ok sha mb data r tr"
proof (cases "validateMessage data")
  case (Inl e)
  then show ?thesis
    using assms by (auto simp: mail_run_def note_act_def attempt_ok_def MAIL_MAX_SLOT_WAIT_MS_def)
next
  case (Inr m)
  define key where "key = ledgerKey sha mb (vm_idempotencyKey m)"
  obtain c w1 where c: "md_claim env key MAIL_CLAIM_LEASE_SECONDS w = (c, w1)"
    by (cases "md_claim env key MAIL_CLAIM_LEASE_SECONDS w")
  show ?thesis
  proof (cases "\<exists>token. c = Inr (Claimed token)")
    case False
    then show ?thesis
      using assms Inr c
      by (cases c) (auto simp: mail_run_def note_act_def perform_def attempt_ok_def MAIL_MAX_SLOT_WAIT_MS_def key_def Let_def
          split: claim_result.splits)
  next
    case True
    then obtain token where token: "c = Inr (Claimed token)" by blast
    define st where "st = ([DidClaim key (Inr (Claimed token))], w1)"
    obtain x acts1 w2 where x: "attempt_send env mb key m st = (x, acts1, w2)"
      by (metis prod_cases3)
    have run: "mail_run env sha mb data w =
      (case x of Inr _ \<Rightarrow> (Inr (), acts1, w2)
       | Inl (reached, e) \<Rightarrow> (Inl (toJobError e), attempt_failed env mb key token (vm_category m) reached e (acts1, w2)))"
      using Inr c token x by (simp add: mail_run_def perform_def key_def [symmetric] st_def Let_def split: sum.split)
    obtain zs where zs: "list_all waiting_act zs" "total_sleep zs \<le> MAIL_MAX_SLOT_WAIT_MS"
      and sh: "(\<exists>e. x = Inl (False, e) \<and> acts1 = DidClaim key (Inr (Claimed token)) # zs) \<or>
       slot_granted zs \<and> (\<exists>e. x = Inl (True, e) \<and> acts1 = DidClaim key (Inr (Claimed token)) # zs @ [DidSend m (Inl e)]) \<or>
       slot_granted zs \<and> (\<exists>sid y logs. x = Inr () \<and> acts1 = DidClaim key (Inr (Claimed token)) # zs @
         [DidSend m (Inr sid), DidMarkSent key sid y] @ logs @ [CountSent (vm_category m), Logged LogInfo (vm_category m) None] \<and>
         (\<forall>a\<in>set logs. a = Logged LogError (vm_category m) None))"
      using attempt_send_shape [OF x [unfolded st_def]] by auto
    note nowait = waiting_no_send [OF zs(1)]
    have w: "\<And>a. a \<in> set zs \<Longrightarrow> (\<exists>r. a = DidTakeSlot r) \<or> (\<exists>n r. a = DidSleep n r) \<or> (\<exists>n. a = CountPaced n)"
      using waiting_acts [OF zs(1)] .
    from sh show ?thesis
    proof (elim disjE conjE exE)
      fix e assume e: "x = Inl (False, e)" and a: "acts1 = DidClaim key (Inr (Claimed token)) # zs"
      obtain y where y: "tr = acts1 @ [CountFailed (vm_category m) (error_code e),
          Logged LogWarn (vm_category m) (Some (error_code e)), DidRelease key token y]"
        using assms run attempt_failed_shape [of env mb key token "vm_category m" False e acts1 w2]
        by (auto simp: e split: mail_thrown.splits)
      then show ?thesis
        using assms run zs w nowait Inr by (auto simp: attempt_ok_def e a)
    next
      fix e assume g: "slot_granted zs" and e: "x = Inl (True, e)"
        and a: "acts1 = DidClaim key (Inr (Claimed token)) # zs @ [DidSend m (Inl e)]"
      obtain y bs where y: "tr = acts1 @ [CountFailed (vm_category m) (error_code e),
          Logged LogWarn (vm_category m) (Some (error_code e)), DidRelease key token y] @ bs"
        and bs: "\<forall>b\<in>set bs. \<exists>n v f. b = DidBackOff n v \<and> n \<le> MAIL_MAX_COOLDOWN_SECONDS \<and> e = SendFailed f \<and> me_code f = Throttled"
        using assms run attempt_failed_shape [of env mb key token "vm_category m" True e acts1 w2]
        by (auto simp: e cooldown_bounded split: mail_thrown.splits if_splits)
      have bs0: "filter is_send bs = []" "total_sleep bs = 0" "\<forall>k c. DidClaim k c \<notin> set bs"
        using bs by (induction bs) auto
      have r: "r = Inl (toJobError e)"
        using assms run by (simp add: e)
      show ?thesis
        by (rule attempt_okI_sent [of tr key token zs m "Inl e"
             "CountFailed (vm_category m) (error_code e) # Logged LogWarn (vm_category m) (Some (error_code e)) # DidRelease key token y # bs"])
           (use y bs bs0 zs g Inr key_def r in \<open>auto simp: a\<close>)
    next
      fix sid y logs assume g: "slot_granted zs" and e: "x = Inr ()"
        and a: "acts1 = DidClaim key (Inr (Claimed token)) # zs @ [DidSend m (Inr sid), DidMarkSent key sid y] @ logs @
          [CountSent (vm_category m), Logged LogInfo (vm_category m) None]"
        and l: "\<forall>a\<in>set logs. a = Logged LogError (vm_category m) None"
      have l0: "filter is_send logs = []" "total_sleep logs = 0" "\<forall>k c. DidClaim k c \<notin> set logs" "\<forall>n c. DidBackOff n c \<notin> set logs"
        using l by (induction logs) auto
      have r: "r = Inr ()" "tr = acts1"
        using assms run by (simp_all add: e)
      show ?thesis
        by (rule attempt_okI_sent [of tr key token zs m "Inr sid"
             "DidMarkSent key sid y # logs @ [CountSent (vm_category m), Logged LogInfo (vm_category m) None]"])
           (use l0 zs g Inr key_def r in \<open>auto simp: a\<close>)
    qed
  qed
qed

section \<open>The state in Valkey\<close>

text \<open>
  The handler over \<open>MailState\<close> and \<open>MailPacing\<close>: the world is the server's clock, the two parts of its store and the rest
  the transport and the sleep act on; \<open>token\<close> is the token the next claim takes.
\<close>

record ('s, 'q, 'r) mail_world =
  mw_now :: msec
  mw_store :: 's
  mw_slots :: 'q
  mw_rest :: 'r

definition valkey_mail_deps ::
  "'s valkey \<Rightarrow> 'q slot_server \<Rightarrow> (('s, 'q, 'r) mail_world \<Rightarrow> string) \<Rightarrow>
    (int \<Rightarrow> ('s, 'q, 'r) mail_world \<Rightarrow> (mail_thrown + unit) \<times> ('s, 'q, 'r) mail_world) \<Rightarrow>
    (('s, 'q, 'r) mail_world \<Rightarrow> bool) \<Rightarrow>
    (validated_message \<Rightarrow> (nat \<Rightarrow> ('s, 'q, 'r) mail_world \<Rightarrow> (mail_thrown + unit) \<times> ('s, 'q, 'r) mail_world) \<Rightarrow>
       ('s, 'q, 'r) mail_world \<Rightarrow> (mail_thrown + string) \<times> ('s, 'q, 'r) mail_world) \<Rightarrow>
    ('s, 'q, 'r) mail_world mail_deps" where
  "valkey_mail_deps vk sv token sleep aborted transport = \<lparr>
     md_claim = (\<lambda>key lease w. let (c, s) = state_claim vk (mw_now w) key (token w) lease (mw_store w)
                 in (Inr c, w\<lparr>mw_store := s\<rparr>)),
     md_markSent = (\<lambda>key sid ttl w. (Inr (), w\<lparr>mw_store := state_markSent vk (mw_now w) key sid ttl (mw_store w)\<rparr>)),
     md_renew = (\<lambda>key tk lease w. let (b, s) = state_renew vk (mw_now w) key tk lease (mw_store w)
                 in (Inr b, w\<lparr>mw_store := s\<rparr>)),
     md_release = (\<lambda>key tk w. (Inr (), w\<lparr>mw_store := state_release vk (mw_now w) key tk (mw_store w)\<rparr>)),
     md_takeSlot = (\<lambda>mb w. let (ms, q) = state_takeSlot sv (mw_now w) mb (mw_slots w) in (Inr ms, w\<lparr>mw_slots := q\<rparr>)),
     md_backOff = (\<lambda>mb secs w. (Inr (), w\<lparr>mw_slots := state_backOff sv (mw_now w) mb (of_nat secs) (mw_slots w)\<rparr>)),
     md_sleep = sleep, md_aborted = aborted, md_send = transport\<rparr>"

text \<open>What the handler relies on to send a message once: a key known as delivered is answered as delivered.\<close>

locale mail_ledger =
  fixes env :: "'w mail_deps" and delivered :: "string \<Rightarrow> 'w \<Rightarrow> bool"
  assumes claim_delivered: "delivered key w \<Longrightarrow> \<exists>i w'. md_claim env key lease w = (Inr (AlreadySent i), w')"
begin

lemma delivered_not_sent_again:
  assumes "validateMessage data = Inr m" and "delivered (ledgerKey sha mb (vm_idempotencyKey m)) w"
  shows "fst (mail_run env sha mb data w) = Inr () \<and> filter is_send (fst (snd (mail_run env sha mb data w))) = []"
proof -
  obtain i w' where "md_claim env (ledgerKey sha mb (vm_idempotencyKey m)) MAIL_CLAIM_LEASE_SECONDS w = (Inr (AlreadySent i), w')"
    using claim_delivered [OF assms(2)] by blast
  then show ?thesis
    using assms(1) by (simp add: mail_run_def perform_def note_act_def Let_def)
qed

end

definition ledger_says :: "'s valkey \<Rightarrow> string \<Rightarrow> ('s, 'q, 'r) mail_world \<Rightarrow> bool" where
  "ledger_says vk key w \<longleftrightarrow> (\<exists>a i d. shows_ledger vk (mw_now w) a (mw_store w) \<and> entry_at (mw_now w) key a = Some (Delivered i d))"

interpretation valkey_ledger: mail_ledger "valkey_mail_deps mem_valkey mem_slot_server token sleep aborted transport" "ledger_says mem_valkey"
  for token sleep aborted transport
proof
  fix key lease and w :: "(mem_store, mem_slots, 'a) mail_world"
  assume "ledger_says mem_valkey key w"
  then obtain a i d where a: "shows_ledger mem_valkey (mw_now w) a (mw_store w)" "entry_at (mw_now w) key a = Some (Delivered i d)"
    unfolding ledger_says_def by blast
  have "fst (state_claim mem_valkey (mw_now w) key tk lease (mw_store w)) = AlreadySent i" for tk
    using mem.valkey_op_refines [OF a(1), of "Claim key tk lease"] a(2)
    by (simp add: valkey_op_def spec_op_def)
  then show "\<exists>i w'. md_claim (valkey_mail_deps mem_valkey mem_slot_server token sleep aborted transport) key lease w =
      (Inr (AlreadySent i), w')"
    by (simp add: valkey_mail_deps_def Let_def case_prod_beta)
qed

lemma recorded_is_delivered:
  assumes "shows_ledger mem_valkey t a s" and "t \<le> t'" and "t' < t + MAIL_SENT_TTL_SECONDS * 1000"
  shows "ledger_says mem_valkey key
    \<lparr>mw_now = t', mw_store = state_markSent mem_valkey t key i MAIL_SENT_TTL_SECONDS s, mw_slots = q, mw_rest = x\<rparr>"
proof -
  have "shows_ledger mem_valkey t (a(key \<mapsto> Delivered i (t + MAIL_SENT_TTL_SECONDS * 1000)))
      (state_markSent mem_valkey t key i MAIL_SENT_TTL_SECONDS s)"
    using mem.valkey_op_refines [OF assms(1), of "MarkSent key i MAIL_SENT_TTL_SECONDS"]
    by (simp add: valkey_op_def spec_op_def)
  then show ?thesis
    using assms(2,3) shows_ledger_later unfolding ledger_says_def
    by (fastforce simp: entry_at_def until_def)
qed

section \<open>The queue's definition\<close>

lemma mail_send_queue_resolves: "is_ok (resolveQueue MAIL_QUEUE MAIL_QUEUE_CONFIG)"
  by (simp add: resolveQueue_def MAIL_QUEUE_CONFIG_def MAIL_QUEUE_def assertQueueName_def QUEUE_NAME_def queue_char_def
      char_class_defs integer_def or_default_def DEFAULTS_def resolveRetention_def opt_integer_def require_def least_window_def
      not_callable_def DAY_def MINUTE_def Let_def)

lemma mail_retries_an_hour: "3600 \<le> minRetryWindowSeconds (Some 10) (Some 10) (Some 900)"
  by (simp add: minRetryWindowSeconds_def upt_rec)

lemma auth_mail_not_redriven:
  "property_of ''category'' data = JStr c \<Longrightarrow> take 5 c = ''auth.'' \<Longrightarrow> \<not> mailCanRedrive data"
  by (auto simp: mailCanRedrive_def js_lower_def take_map latin_lower_def char_class_defs)

lemma invalid_not_enqueued:
  "validateMessage message = Inl e \<Longrightarrow> mail_enqueue bsend sha1 life message start_at p d = (Inl (InvalidMail e), d)"
  by (simp add: mail_enqueue_def)

text \<open>Permanent is exactly: an error of the package that retrying cannot fix.\<close>

lemma permanent_iff: "te_permanent (toJobError e) \<longleftrightarrow> (\<exists>m. e = SendFailed m \<and> \<not> retryable m)"
  by (auto simp: toJobError_def split: mail_thrown.split)

definition coded :: "validation_error + 'a \<Rightarrow> bool" where
  "coded r \<longleftrightarrow> (\<forall>e. r = Inl (InvalidMessage e) \<longrightarrow> me_code e = Invalid_message)"

lemma coded_basic [intro]: "coded (Inr x)" "coded (invalid reason)" "coded (Inl MapOfNonArray)"
  by (simp_all add: coded_def invalid_def mail_error_def)

lemma coded_then [intro]: "coded r \<Longrightarrow> (\<And>x. coded (f x)) \<Longrightarrow> coded (and_then r f)"
  by (cases r) (auto simp: coded_def)

lemma coded_address: "coded (checkAddress f v)"
  unfolding checkAddress_def by (auto split: jsval.split)

lemma coded_addresses: "coded (check_addresses f i vs)"
  by (induction vs arbitrary: i) (auto intro!: coded_address)

lemma coded_address_list: "coded (address_list f v)"
  unfolding address_list_def message_list_def by (intro coded_then coded_addresses) (auto split: jsval.split)

lemma coded_optional: "coded (optional_address f v)"
  unfolding optional_address_def by (auto intro!: coded_address)

lemma coded_text: "coded (check_text f v)"
  unfolding check_text_def by (auto split: jsval.split)

lemma coded_subject: "coded (check_subject v)"
  unfolding check_subject_def by (auto split: jsval.split)

lemma coded_category: "coded (check_category v)"
  unfolding check_category_def Let_def by (auto split: jsval.split)

lemma coded_key: "coded (check_key v)"
  unfolding check_key_def Let_def by (auto split: jsval.split)

lemma coded_correlation: "coded (check_correlation v)"
  unfolding check_correlation_def by (auto split: jsval.split)

lemma coded_headers: "coded (check_headers es hs)"
  by (induction es hs rule: check_headers.induct) (auto split: jsval.split)

lemma coded_members: "coded (message_members v)"
  unfolding message_members_def by (auto split: jsval.split)

lemma coded_validate: "coded (validateMessage data)"
  unfolding validateMessage_def Let_def
  by (intro coded_then coded_members coded_address_list coded_optional coded_subject coded_text coded_headers coded_category
      coded_key coded_correlation) auto

text \<open>
  A payload that fails validation is dead-lettered at once - but for a list that is neither a text nor an array, whose
  \<open>TypeError\<close> is taken for a failure worth retrying.
\<close>

lemma invalid_payload_outcome:
  assumes "validateMessage data = Inl e"
  shows "\<exists>t. fst (mail_run env sha mb data w) = Inl t \<and> (te_permanent t \<longleftrightarrow> e \<noteq> MapOfNonArray) \<and> snd (snd (mail_run env sha mb data w)) = w"
  using assms coded_validate [of data]
  by (cases e) (auto simp: mail_run_def note_act_def permanent_iff thrown_by_validation_def coded_def retryable_def RETRYABLE_def)

lemma null_recipients_retried:
  "validateMessage (JObj [(''to'', JNull)]) = Inl MapOfNonArray"
  "\<not> te_permanent (toJobError (thrown_by_validation MapOfNonArray))"
  by (simp_all add: validateMessage_def message_members_def member_of_def address_list_def message_list_def toJobError_def
      thrown_by_validation_def)

definition example_env :: "unit mail_deps" where
  "example_env = \<lparr>md_claim = (\<lambda>k n w. (Inr (Claimed ''t1''), w)), md_markSent = (\<lambda>k i n w. (Inr (), w)),
     md_renew = (\<lambda>k t n w. (Inr True, w)), md_release = (\<lambda>k t w. (Inr (), w)), md_takeSlot = (\<lambda>mb w. (Inr 0, w)),
     md_backOff = (\<lambda>mb n w. (Inr (), w)), md_sleep = (\<lambda>n w. (Inr (), w)), md_aborted = (\<lambda>w. False),
     md_send = (\<lambda>m cb w. (Inr ''m1'', w))\<rparr>"

definition example_sha :: "nat list \<Rightarrow> string" where "example_sha bs = map char_of bs"

lemma example_run:
  "mail_run example_env example_sha ''a@b.co'' (message_json example_validated) () =
     (Inr (), [DidClaim (ledgerKey example_sha ''a@b.co'' ''k1'') (Inr (Claimed ''t1'')), DidTakeSlot (Inr 0),
       DidSend example_validated (Inr ''m1''), DidMarkSent (ledgerKey example_sha ''a@b.co'' ''k1'') ''m1'' (Inr ()),
       CountSent ''auth.reset'', Logged LogInfo ''auth.reset'' None], ())"
proof -
  have "waitForSlot example_env ''a@b.co'' 0 st = (Inr 0, fst st @ [DidTakeSlot (Inr 0)], snd st)" for st
    by (subst waitForSlot.simps) (simp add: example_env_def perform_def)
  moreover have "vm_idempotencyKey example_validated = ''k1''" "vm_category example_validated = ''auth.reset''"
    by (simp_all add: example_validated_def)
  ultimately show ?thesis
    by (simp add: mail_run_def example_validates attempt_send_def perform_def note_act_def example_env_def Let_def)
qed



end
