(* ===== verification/MailTransport.thy ===== *)
theory MailTransport
  imports MailJobs
begin

text \<open>
  The transports of \<open>platform-mail\<close> and how one is chosen: \<open>graph.ts\<close> (Microsoft Graph over \<open>fetch\<close>, with its retries in
  place), \<open>smtp.ts\<close> (outside production), \<open>config.ts\<close> and \<open>factory.ts\<close>. The network, the credential, the sleep and the
  abort signal act on a world \<open>'w\<close> and are parameters; so are \<open>Date.parse\<close> and the parsing of a certificate.
\<close>

section \<open>Microsoft Graph\<close>

record 'w graph_deps =
  gd_token :: "'w \<Rightarrow> (string + string option) \<times> 'w"
  gd_fetch :: "jsval \<Rightarrow> 'w \<Rightarrow> (string + (nat \<times> (string \<Rightarrow> string option) \<times> jsval option)) \<times> 'w"
  gd_sleep :: "rat \<Rightarrow> 'w \<Rightarrow> (string + unit) \<times> 'w"
  gd_aborted :: "'w \<Rightarrow> bool"
  gd_now :: "'w \<Rightarrow> int"
  gd_random :: "'w \<Rightarrow> rat"

definition RETRY_IN_PLACE :: "nat \<Rightarrow> bool" where
  "RETRY_IN_PLACE status \<longleftrightarrow> status \<in> {429, 502, 503, 504}"

definition BASE_BACKOFF_MS :: rat where "BASE_BACKOFF_MS = 500"
definition MAX_BACKOFF_MS :: rat where "MAX_BACKOFF_MS = 8000"

text \<open>\<open>date_parse\<close> is \<open>Date.parse\<close>: milliseconds, or \<open>None\<close> for \<open>NaN\<close>.\<close>

definition parseRetryAfter :: "(string \<Rightarrow> int option) \<Rightarrow> string option \<Rightarrow> int \<Rightarrow> nat option" where
  "parseRetryAfter date_parse header now =
     (case header of
        None \<Rightarrow> None
      | Some h \<Rightarrow>
          (let trimmed = js_trim h in
           if trimmed \<noteq> [] \<and> list_all is_digit trimmed then Some (undec trimmed)
           else case date_parse trimmed of
                  None \<Rightarrow> None
                | Some date \<Rightarrow> Some (nat (max 0 (ceil_div (date - now) 1000)))))"

definition toRecipients :: "string list \<Rightarrow> jsval" where
  "toRecipients addresses = JArr (map (\<lambda>a. JObj [(''emailAddress'', JObj [(''address'', JStr a)])]) addresses)"

definition buildGraphPayload :: "validated_message \<Rightarrow> jsval" where
  "buildGraphPayload m = JObj
     [(''message'', JObj
        ([(''subject'', JStr (vm_subject m)),
          (''body'', JObj [(''contentType'', JStr ''HTML''), (''content'', JStr (vm_html m))]),
          (''toRecipients'', toRecipients (vm_to m))]
         @ (if vm_cc m \<noteq> [] then [(''ccRecipients'', toRecipients (vm_cc m))] else [])
         @ (if vm_bcc m \<noteq> [] then [(''bccRecipients'', toRecipients (vm_bcc m))] else [])
         @ (case vm_replyTo m of None \<Rightarrow> [] | Some r \<Rightarrow> [(''replyTo'', toRecipients [r])])
         @ (if vm_headers m \<noteq> []
            then [(''internetMessageHeaders'', JArr (map (\<lambda>(n, v). JObj [(''name'', JStr n), (''value'', JStr v)]) (vm_headers m)))]
            else []))),
      (''saveToSentItems'', JBool False)]"

definition codeForStatus :: "nat \<Rightarrow> mail_error_code" where
  "codeForStatus status =
     (if status = 400 then Invalid_message else if status = 401 then Unauthenticated else if status = 403 then Forbidden
      else if status = 404 then Mailbox_not_found else if status = 413 then Too_large else if status = 429 then Throttled
      else if 500 \<le> status then Unavailable else Invalid_message)"

text \<open>The body of the response is \<open>None\<close> when it is not JSON.\<close>

definition providerErrorCode :: "jsval option \<Rightarrow> string option" where
  "providerErrorCode body =
     (case body of
        None \<Rightarrow> None
      | Some b \<Rightarrow>
          (case property_of ''code'' (property_of ''error'' b) of
             JStr c \<Rightarrow>
               if 1 \<le> length c \<and> length c \<le> 64 \<and> list_all (\<lambda>x. is_alnum x \<or> x \<in> {CHR ''_'', CHR ''.'', CHR ''-''}) c
               then Some c else None
           | _ \<Rightarrow> None))"

definition graph_token :: "'w graph_deps \<Rightarrow> 'w \<Rightarrow> (mail_thrown + string) \<times> 'w" where
  "graph_token gd w =
     (let (r, w') = gd_token gd w;
          failed = (\<lambda>name. (Inl (SendFailed (if gd_aborted gd w' then mail_error Timeout ''Send aborted by the caller.''
                      else mail_error Unauthenticated (''Could not obtain a Graph token ('' @ name @ '').''))), w'))
      in case r of
           Inr (Some t) \<Rightarrow> if t \<noteq> [] then (Inr t, w') else failed ''Error''
         | Inr None \<Rightarrow> failed ''Error''
         | Inl name \<Rightarrow> failed name)"

text \<open>An error of the transport is known by its name.\<close>

definition transportError :: "string \<Rightarrow> bool \<Rightarrow> string \<Rightarrow> mail_thrown" where
  "transportError timeout_text aborted name =
     SendFailed
       (if aborted then mail_error Timeout ''Send aborted by the caller.''
        else if name = ''TimeoutError'' \<or> name = ''AbortError''
        then mail_error Timeout (''Graph sendMail timed out after '' @ timeout_text @ '' ms.'')
        else mail_error Network (''Graph sendMail could not reach the service ('' @ name @ '').''))"

record graph_options =
  go_mailbox :: string
  go_maxAttempts :: nat
  go_requestTimeoutMs :: nat
  go_maxRetryAfterSeconds :: nat

definition graph_options_of :: "string \<Rightarrow> int option \<Rightarrow> nat option \<Rightarrow> nat option \<Rightarrow> graph_options" where
  "graph_options_of mailbox attempts timeout max_retry = \<lparr>go_mailbox = mailbox,
     go_maxAttempts = nat (max 1 (case attempts of None \<Rightarrow> 3 | Some n \<Rightarrow> n)),
     go_requestTimeoutMs = (case timeout of None \<Rightarrow> 15000 | Some n \<Rightarrow> n),
     go_maxRetryAfterSeconds = (case max_retry of None \<Rightarrow> 30 | Some n \<Rightarrow> n)\<rparr>"

definition graph_delay :: "nat option \<Rightarrow> rat \<Rightarrow> nat \<Rightarrow> rat" where
  "graph_delay retryAfter random attempt =
     (case retryAfter of
        Some n \<Rightarrow> of_nat n * 1000
      | None \<Rightarrow> random * min MAX_BACKOFF_MS (BASE_BACKOFF_MS * 2 ^ (attempt - 1)))"

text \<open>One POST, as the record of a send keeps it: what \<open>fetch\<close> came to.\<close>

datatype graph_post = Answered nat | NoAnswer string

text \<open>The loop: \<open>left\<close> attempts remain after this one.\<close>

fun graph_loop ::
  "'w graph_deps \<Rightarrow> graph_options \<Rightarrow> (string \<Rightarrow> int option) \<Rightarrow> string \<Rightarrow> (nat \<Rightarrow> 'w \<Rightarrow> (mail_thrown + unit) \<times> 'w) \<Rightarrow> jsval \<Rightarrow>
    nat \<Rightarrow> nat \<Rightarrow> 'w \<Rightarrow> (mail_thrown + string) \<times> graph_post list \<times> 'w" where
  "graph_loop gd opts date_parse client_id throttled payload left attempt w =
     (case graph_token gd w of
        (Inl e, w1) \<Rightarrow> (Inl e, [], w1)
      | (Inr _, w1) \<Rightarrow>
          (case gd_fetch gd payload w1 of
             (Inl name, w2) \<Rightarrow>
               (Inl (transportError (dec (go_requestTimeoutMs opts)) (gd_aborted gd w2) name), [NoAnswer name], w2)
           | (Inr (status, headers, body), w2) \<Rightarrow>
               (let request = (case headers ''request-id'' of Some r \<Rightarrow> r | None \<Rightarrow> client_id) in
                if status = 202 then (Inr request, [Answered status], w2)
                else
                  let retryAfter = parseRetryAfter date_parse (headers ''retry-after'') (gd_now gd w2);
                      failure = SendFailed \<lparr>me_code = codeForStatus status,
                        me_message = ''Graph sendMail failed: HTTP '' @ dec status @
                          (case providerErrorCode body of None \<Rightarrow> [] | Some c \<Rightarrow> CHR '' '' # c) @ '' (request '' @ request @ '')'',
                        me_retryAfterSeconds = retryAfter\<rparr>;
                      waitable = (case retryAfter of None \<Rightarrow> True | Some n \<Rightarrow> n \<le> go_maxRetryAfterSeconds opts)
                  in case left of
                       0 \<Rightarrow> (Inl failure, [Answered status], w2)
                     | Suc left' \<Rightarrow>
                         if \<not> (RETRY_IN_PLACE status \<and> waitable) then (Inl failure, [Answered status], w2)
                         else
                           let delay = graph_delay retryAfter (gd_random gd w2) attempt;
                               w3 = (if status = 429 then snd (throttled (nat (max 1 \<lceil>delay / 1000\<rceil>)) w2) else w2)
                           in case gd_sleep gd delay w3 of
                                (Inl name, w4) \<Rightarrow>
                                  (Inl (transportError (dec (go_requestTimeoutMs opts)) (gd_aborted gd w4) name), [Answered status], w4)
                              | (Inr _, w4) \<Rightarrow>
                                  (let (r, posts, w5) = graph_loop gd opts date_parse client_id throttled payload left' (attempt + 1) w4
                                   in (r, Answered status # posts, w5)))))"

declare graph_loop.simps [simp del]

definition graph_send ::
  "'w graph_deps \<Rightarrow> graph_options \<Rightarrow> (string \<Rightarrow> int option) \<Rightarrow> string \<Rightarrow> jsval \<Rightarrow> (nat \<Rightarrow> 'w \<Rightarrow> (mail_thrown + unit) \<times> 'w) \<Rightarrow>
    'w \<Rightarrow> (mail_thrown + string) \<times> graph_post list \<times> 'w" where
  "graph_send gd opts date_parse client_id message throttled w =
     (case validateMessage message of
        Inl e \<Rightarrow> (Inl (thrown_by_validation e), [], w)
      | Inr m \<Rightarrow>
          (case assertFromIsMailbox m (go_mailbox opts) of
             Inl e \<Rightarrow> (Inl (SendFailed e), [], w)
           | Inr _ \<Rightarrow>
               graph_loop gd opts date_parse client_id throttled (buildGraphPayload m) (go_maxAttempts opts - 1) 1 w))"

text \<open>
  The posts of one send: at most the attempts allowed, and each but the last was answered with a status on which Graph did
  not take the message. So no send is accepted twice, and one whose outcome is unknown is not tried again.
\<close>

lemma graph_loop_posts:
  assumes "graph_loop gd opts dp cid th p left att w = (r, posts, w')"
  shows "length posts \<le> Suc left \<and> (\<forall>x\<in>set (butlast posts). \<exists>s. x = Answered s \<and> RETRY_IN_PLACE s) \<and>
    (is_ok r \<longleftrightarrow> Answered 202 \<in> set posts) \<and> (Answered 202 \<in> set posts \<longrightarrow> last posts = Answered 202)"
  using assms
proof (induction left arbitrary: att w r posts w')
  case 0
  then show ?case
    by (subst (asm) graph_loop.simps) (auto simp: Let_def is_ok_def split: prod.splits sum.splits if_splits)
next
  case (Suc left)
  obtain t w1 where t: "graph_token gd w = (t, w1)" by (cases "graph_token gd w")
  show ?case
  proof (cases t)
    case (Inl e)
    then show ?thesis
      using Suc.prems t by (subst (asm) graph_loop.simps) auto
  next
    case (Inr tok)
    obtain f w2 where f: "gd_fetch gd p w1 = (f, w2)" by (cases "gd_fetch gd p w1")
    show ?thesis
    proof (cases "\<exists>s h b r2 p2 w4 w5. f = Inr (s, h, b) \<and> s \<noteq> 202 \<and> RETRY_IN_PLACE s \<and>
        graph_loop gd opts dp cid th p left (att + 1) w4 = (r2, p2, w5) \<and> r = r2 \<and> posts = Answered s # p2")
      case True
      then obtain s p2 w4 w5 where s: "s \<noteq> 202" "RETRY_IN_PLACE s" "graph_loop gd opts dp cid th p left (att + 1) w4 = (r, p2, w5)"
        "posts = Answered s # p2" by blast
      from Suc.IH [OF s(3)] s show ?thesis
        by (cases p2) auto
    next
      case False
      then have "is_ok r \<and> posts = [Answered 202] \<or> \<not> is_ok r \<and> (posts = [] \<or> (\<exists>x. posts = [x] \<and> x \<noteq> Answered 202))"
        using Suc.prems t Inr f
        by (subst (asm) graph_loop.simps) (auto simp: Let_def is_ok_def split: prod.splits sum.splits if_splits)
      then show ?thesis
        by auto
    qed
  qed
qed

lemma graph_accepts_once:
  assumes "graph_send gd opts dp cid message th w = (r, posts, w')"
  shows "length posts \<le> max 1 (go_maxAttempts opts) \<and> length (filter (\<lambda>x. x = Answered 202) posts) \<le> 1 \<and>
    (is_ok r \<longleftrightarrow> Answered 202 \<in> set posts) \<and> (\<forall>name. NoAnswer name \<in> set posts \<longrightarrow> last posts = NoAnswer name)"
proof (cases "posts = []")
  case True
  then show ?thesis
    using assms by (auto simp: graph_send_def is_ok_def dest!: graph_loop_posts split: sum.splits)
next
  case False
  then obtain m att p where l: "graph_loop gd opts dp cid th p (go_maxAttempts opts - 1) att w = (r, posts, w')"
    using assms by (auto simp: graph_send_def split: sum.splits)
  note g = graph_loop_posts [OF l]
  have split: "posts = butlast posts @ [last posts]"
    using False by simp
  have "filter (\<lambda>x. x = Answered 202) (butlast posts) = []"
    using g by (auto simp: filter_empty_conv RETRY_IN_PLACE_def)
  then have "length (filter (\<lambda>x. x = Answered 202) posts) \<le> 1"
    by (subst split, simp)
  moreover have "NoAnswer name \<in> set posts \<Longrightarrow> last posts = NoAnswer name" for name
    using g split by (metis UnE butlast.simps(2) empty_iff empty_set graph_post.distinct(1) insert_iff list.set(2) set_append)
  ultimately show ?thesis
    using g by (auto simp: max_def)
qed

text \<open>A message for another mailbox, or an invalid one, is refused before anything goes out.\<close>

lemma graph_refuses_before_posting:
  assumes "validateMessage message = Inr m" and "vm_from m = Some f" and "js_lower f \<noteq> js_lower (go_mailbox opts)"
  shows "\<exists>e. graph_send gd opts dp cid message th w = (Inl (SendFailed e), [], w) \<and> \<not> retryable e"
  using assms by (auto simp: graph_send_def assertFromIsMailbox_def mail_error_def retryable_def RETRYABLE_def)

text \<open>A recipient list reaches Graph whole: what the payload says of \<open>to\<close> is the list of the message.\<close>

lemma recipients_sent:
  "property_of ''toRecipients'' (property_of ''message'' (buildGraphPayload m)) = toRecipients (vm_to m)"
  by (simp add: buildGraphPayload_def property_of_def member_of_def)

text \<open>Graph as the transport of the handler.\<close>

definition graph_transport ::
  "'w graph_deps \<Rightarrow> graph_options \<Rightarrow> (string \<Rightarrow> int option) \<Rightarrow> string \<Rightarrow> validated_message \<Rightarrow>
    (nat \<Rightarrow> 'w \<Rightarrow> (mail_thrown + unit) \<times> 'w) \<Rightarrow> 'w \<Rightarrow> (mail_thrown + string) \<times> 'w" where
  "graph_transport gd opts dp cid m throttled w =
     (let (r, posts, w') = graph_send gd opts dp cid (message_json m) throttled w in (r, w'))"

section \<open>SMTP\<close>

text \<open>The refusal to load in production, and a send: \<open>sendMail\<close> throws a name and perhaps a reply code.\<close>

definition smtp_guard :: "string option \<Rightarrow> bool" where
  "smtp_guard node_env \<longleftrightarrow> node_env \<noteq> Some ''production''"

definition smtp_send ::
  "(validated_message \<Rightarrow> 'w \<Rightarrow> (string \<times> nat option + string) \<times> 'w) \<Rightarrow> string \<Rightarrow> bool \<Rightarrow> jsval \<Rightarrow> 'w \<Rightarrow>
    (mail_thrown + string) \<times> 'w" where
  "smtp_send sendMail from_address aborted message w =
     (case validateMessage message of
        Inl e \<Rightarrow> (Inl (thrown_by_validation e), w)
      | Inr m \<Rightarrow>
          (case assertFromIsMailbox m from_address of
             Inl e \<Rightarrow> (Inl (SendFailed e), w)
           | Inr _ \<Rightarrow>
               if aborted then (Inl (SendFailed (mail_error Timeout ''Send aborted by the caller.'')), w)
               else (case sendMail m w of
                       (Inr messageId, w') \<Rightarrow> (Inr messageId, w')
                     | (Inl (name, code), w') \<Rightarrow>
                         (Inl (SendFailed
                            (case code of
                               Some n \<Rightarrow>
                                 if 500 \<le> n then mail_error Invalid_message (''SMTP server rejected the message ('' @ dec n @ '').'')
                                 else mail_error Network (''SMTP send failed ('' @ name @ '').'')
                             | None \<Rightarrow> mail_error Network (''SMTP send failed ('' @ name @ '').''))), w'))))"

section \<open>Choosing a transport\<close>

datatype graph_credential = WorkloadIdentity string | Certificate string | ClientSecret string

datatype mail_config =
    GraphConfig string string string graph_credential
  | SmtpConfig string nat string

definition config_error :: "string \<Rightarrow> mail_send_error + 'a" where
  "config_error m = Inl (mail_error Config m)"

definition env_text :: "(string \<Rightarrow> string option) \<Rightarrow> (string \<Rightarrow> bool) \<Rightarrow> string \<Rightarrow> mail_send_error + string option" where
  "env_text env bad name =
     (case env name of
        None \<Rightarrow> Inr None
      | Some v \<Rightarrow>
          (let trimmed = js_trim v in
           if trimmed = [] then Inr None
           else if bad trimmed then config_error (name @ '' contains a control character.'') else Inr (Some trimmed)))"

definition value_of :: "(string \<Rightarrow> string option) \<Rightarrow> string \<Rightarrow> mail_send_error + string option" where
  "value_of env name = env_text env CONTROL name"

definition CONTROL_EXCEPT_WHITESPACE :: "string \<Rightarrow> bool" where
  "CONTROL_EXCEPT_WHITESPACE s \<longleftrightarrow>
     list_ex (\<lambda>c. code_unit c \<le> 8 \<or> code_unit c = 11 \<or> code_unit c = 12 \<or> 14 \<le> code_unit c \<and> code_unit c \<le> 31 \<or> code_unit c = 127) s"

definition multiline :: "(string \<Rightarrow> string option) \<Rightarrow> string \<Rightarrow> mail_send_error + string option" where
  "multiline env name = env_text env CONTROL_EXCEPT_WHITESPACE name"

definition required :: "(string \<Rightarrow> string option) \<Rightarrow> string \<Rightarrow> string \<Rightarrow> mail_send_error + string" where
  "required env name why =
     and_then (value_of env name) (\<lambda>v.
       case v of None \<Rightarrow> config_error (name @ '' is required '' @ why @ ''.'') | Some t \<Rightarrow> Inr t)"

definition isProduction :: "(string \<Rightarrow> string option) \<Rightarrow> bool" where
  "isProduction env \<longleftrightarrow> env ''NODE_ENV'' = Some ''production''"

text \<open>
  \<open>number\<close> is \<open>Number\<close> of a text, \<open>None\<close> when it is no integer; \<open>pem\<close> parses and checks a certificate, \<open>pem_at\<close> the one in
  a file.
\<close>

definition readGraphCredential ::
  "(string \<Rightarrow> string \<Rightarrow> mail_send_error + string) \<Rightarrow> (string \<Rightarrow> string \<Rightarrow> mail_send_error + string) \<Rightarrow>
    (string \<Rightarrow> string option) \<Rightarrow> mail_send_error + graph_credential" where
  "readGraphCredential pem pem_at env =
     and_then (value_of env ''AZURE_FEDERATED_TOKEN_FILE'') (\<lambda>token_file.
     case token_file of
     Some f \<Rightarrow> Inr (WorkloadIdentity f)
     | None \<Rightarrow>
     and_then (value_of env ''AZURE_CLIENT_CERTIFICATE_PATH'') (\<lambda>path.
     case path of
     Some p \<Rightarrow> and_then (pem_at ''AZURE_CLIENT_CERTIFICATE_PATH'' p) (\<lambda>c. Inr (Certificate c))
     | None \<Rightarrow>
     and_then (multiline env ''AZURE_CLIENT_CERTIFICATE'') (\<lambda>cert.
     case cert of
     Some t \<Rightarrow> and_then (pem ''AZURE_CLIENT_CERTIFICATE'' t) (\<lambda>c. Inr (Certificate c))
     | None \<Rightarrow>
     and_then (value_of env ''AZURE_CLIENT_SECRET'') (\<lambda>secret.
     case secret of
     Some t \<Rightarrow>
     if isProduction env then config_error (''A client secret is refused when NODE_ENV=production: mail authenticates with workload identity federation '' @
     ''(set AZURE_FEDERATED_TOKEN_FILE) or a certificate (AZURE_CLIENT_CERTIFICATE_PATH or AZURE_CLIENT_CERTIFICATE), not a stored secret.'')
     else Inr (ClientSecret t)
     | None \<Rightarrow> config_error (''No Graph credential: set AZURE_FEDERATED_TOKEN_FILE (workload identity) or AZURE_CLIENT_CERTIFICATE_PATH '' @
     ''(a mounted certificate file) or AZURE_CLIENT_CERTIFICATE (a certificate, ECS) in production, '' @
     ''or AZURE_CLIENT_SECRET (local testing only).'')))))"

definition readMailConfig ::
  "(string \<Rightarrow> int option) \<Rightarrow> (string \<Rightarrow> string \<Rightarrow> mail_send_error + string) \<Rightarrow> (string \<Rightarrow> string \<Rightarrow> mail_send_error + string) \<Rightarrow>
    (string \<Rightarrow> string option) \<Rightarrow> mail_send_error + mail_config" where
  "readMailConfig number pem pem_at env =
     and_then (value_of env ''MAIL_TRANSPORT'') (\<lambda>tr.
     case tr of
       None \<Rightarrow> config_error ''MAIL_TRANSPORT is required: set it to \"graph\" (or \"smtp\" outside production).''
     | Some transport \<Rightarrow>
         if transport = ''smtp'' then
           if isProduction env
           then config_error ''MAIL_TRANSPORT=smtp is refused when NODE_ENV=production. Use MAIL_TRANSPORT=graph.''
           else
             and_then (value_of env ''MAIL_SMTP_PORT'') (\<lambda>port_text.
             and_then (case number (case port_text of None \<Rightarrow> ''1025'' | Some t \<Rightarrow> t) of
                         None \<Rightarrow> config_error ''MAIL_SMTP_PORT must be a port number between 1 and 65535.''
                       | Some n \<Rightarrow> if n < 1 \<or> 65535 < n
                           then config_error ''MAIL_SMTP_PORT must be a port number between 1 and 65535.'' else Inr (nat n)) (\<lambda>port.
             and_then (value_of env ''MAIL_SMTP_FROM'') (\<lambda>from_text.
               let sender = (case from_text of None \<Rightarrow> ''noreply@localhost.test'' | Some f \<Rightarrow> f) in
             and_then (if ADDRESS sender then Inr () else config_error ''MAIL_SMTP_FROM must be a plain email address.'') (\<lambda>_.
             and_then (value_of env ''MAIL_SMTP_HOST'') (\<lambda>host.
               Inr (SmtpConfig (case host of None \<Rightarrow> ''localhost'' | Some h \<Rightarrow> h) port sender))))))
         else if transport \<noteq> ''graph''
         then config_error (''MAIL_TRANSPORT='' @ quoted transport @ '' is not supported; use \"graph\" or \"smtp\".'')
         else
           and_then (required env ''MAIL_GRAPH_SENDER'' ''for MAIL_TRANSPORT=graph (the product's shared mailbox)'') (\<lambda>sender.
           and_then (if ADDRESS sender then Inr () else config_error ''MAIL_GRAPH_SENDER must be a plain email address.'') (\<lambda>_.
           and_then (required env ''AZURE_TENANT_ID'' ''for MAIL_TRANSPORT=graph'') (\<lambda>tenant.
           and_then (required env ''AZURE_CLIENT_ID'' ''for MAIL_TRANSPORT=graph (the product's own Entra app)'') (\<lambda>client.
           and_then (readGraphCredential pem pem_at env) (\<lambda>cred. Inr (GraphConfig sender tenant client cred)))))))"

lemma config_error_not_Inr [simp]: "config_error m \<noteq> Inr x"
  by (simp add: config_error_def)

lemma stored_secret_refused:
  "isProduction env \<Longrightarrow> readGraphCredential pem pem_at env = Inr cred \<Longrightarrow> cred \<noteq> ClientSecret t"
  by (auto simp: readGraphCredential_def and_then_Inr_iff split: option.splits)

text \<open>In production mail leaves through Graph, with a federated token or a certificate.\<close>

lemma production_transport:
  assumes "readMailConfig number pem pem_at env = Inr c" and "isProduction env"
  shows "\<exists>sender tenant client cred. c = GraphConfig sender tenant client cred \<and> (\<forall>t. cred \<noteq> ClientSecret t) \<and> ADDRESS sender"
  using assms stored_secret_refused [OF assms(2)]
  by (auto simp: readMailConfig_def and_then_Inr_iff split: option.splits if_splits)

text \<open>A variable that is blank is a variable that is not set; one with a control character inside is refused.\<close>

lemma value_of_safe: "value_of env name = Inr (Some t) \<Longrightarrow> t \<noteq> [] \<and> \<not> CONTROL t \<and> js_trim t = t"
  by (auto simp: value_of_def env_text_def config_error_def Let_def split: option.splits if_splits)

text \<open>The sender a configuration chooses; \<open>DEFAULT_MAX_RETRY_AFTER_SECONDS\<close> is the factory's bound on a wait in place.\<close>

definition DEFAULT_MAX_RETRY_AFTER_SECONDS :: nat where "DEFAULT_MAX_RETRY_AFTER_SECONDS = 10"

datatype sender_choice = GraphSender graph_options graph_credential | SmtpSender string nat string

definition createEmailSender ::
  "(string \<Rightarrow> int option) \<Rightarrow> (string \<Rightarrow> string \<Rightarrow> mail_send_error + string) \<Rightarrow> (string \<Rightarrow> string \<Rightarrow> mail_send_error + string) \<Rightarrow>
    (string \<Rightarrow> string option) \<Rightarrow> nat option \<Rightarrow> mail_send_error + sender_choice" where
  "createEmailSender number pem pem_at env max_retry =
     and_then (readMailConfig number pem pem_at env) (\<lambda>c.
       case c of
         SmtpConfig host port sender \<Rightarrow> Inr (SmtpSender host port sender)
       | GraphConfig sender tenant client cred \<Rightarrow>
           Inr (GraphSender (graph_options_of sender None None
             (Some (case max_retry of None \<Rightarrow> DEFAULT_MAX_RETRY_AFTER_SECONDS | Some n \<Rightarrow> n))) cred))"

end
