(* ===== verification/Database.thy ===== *)
theory Database
  imports MailTransport
begin

text \<open>
  The database package (\<open>platform-db\<close>): what it reads from the environment (\<open>config.ts\<close>), how it names a failure
  (\<open>errors.ts\<close>), the backoff on connection attempts it puts into a pool (\<open>guard.ts\<close>), the pools (\<open>pool.ts\<close>) and the
  advisory lock (\<open>advisory-lock.ts\<close>). Reading a file, \<open>Number\<close> and the driver are parameters.
\<close>

section \<open>Configuration\<close>

record db_config =
  db_host :: string
  db_port :: int
  db_database :: string
  db_user :: string
  db_password :: string
  db_caPem :: "string option"
  db_caPath :: "string option"
  db_readHost :: "string option"
  db_max :: int
  db_idleTimeoutMillis :: int
  db_connectionTimeoutMillis :: int

record db_defaults =
  dd_port :: int
  dd_poolMax :: int
  dd_idleTimeoutMillis :: int
  dd_connectionTimeoutMillis :: int

definition DB_DEFAULTS :: db_defaults where
  "DB_DEFAULTS = \<lparr>dd_port = 5432, dd_poolMax = 10, dd_idleTimeoutMillis = 30000, dd_connectionTimeoutMillis = 5000\<rparr>"

text \<open>What is wrong with the environment: a variable missing, no integer in its range, or refused; or the CA file.\<close>

datatype db_config_error =
    DbRequired string | DbNotInteger string int int string | DbAuthMode string | DbPasswordMissing | DbSslMode string
  | DbPlaintextInProduction | DbCaUnreadable string string | DbCaNotPem string

definition db_required :: "env \<Rightarrow> string \<Rightarrow> db_config_error + string" where
  "db_required e name =
     (case map_option js_trim (e name) of
        None \<Rightarrow> Inl (DbRequired name) | Some v \<Rightarrow> if v = [] then Inl (DbRequired name) else Inr v)"

definition db_integer :: "(string \<Rightarrow> int option) \<Rightarrow> env \<Rightarrow> string \<Rightarrow> int \<Rightarrow> int \<Rightarrow> int \<Rightarrow> db_config_error + int" where
  "db_integer number e name fallback lo hi =
     (case map_option js_trim (e name) of
        None \<Rightarrow> Inr fallback
      | Some raw \<Rightarrow>
          if raw = [] then Inr fallback
          else (case number raw of
                  None \<Rightarrow> Inl (DbNotInteger name lo hi raw)
                | Some v \<Rightarrow> if v < lo \<or> hi < v then Inl (DbNotInteger name lo hi raw) else Inr v))"

text \<open>A variable trimmed and in lower case, empty when it is not set.\<close>

definition lower_trim :: "string option \<Rightarrow> string" where
  "lower_trim v = (case v of None \<Rightarrow> [] | Some s \<Rightarrow> js_lower (js_trim s))"

text \<open>The trust anchor and its path; neither when TLS is off, which production refuses.\<close>

definition read_ca :: "(string \<Rightarrow> string + string) \<Rightarrow> env \<Rightarrow> string \<Rightarrow> db_config_error + string option \<times> string option" where
  "read_ca read_file e ssl =
     (if ssl = ''disable'' then
        if e ''NODE_ENV'' = Some ''production'' then Inl DbPlaintextInProduction else Inr (None, None)
      else
        and_then (db_required e ''DATABASE_SSL_CA'') (\<lambda>path.
          case read_file path of
            Inl code \<Rightarrow> Inl (DbCaUnreadable path code)
          | Inr pem \<Rightarrow>
              if \<not> sublist ''-----BEGIN CERTIFICATE-----'' pem then Inl (DbCaNotPem path)
              else Inr (Some pem, Some path)))"

definition readDatabaseConfig :: "(string \<Rightarrow> string + string) \<Rightarrow> (string \<Rightarrow> int option) \<Rightarrow> env \<Rightarrow> db_config_error + db_config" where
  "readDatabaseConfig read_file number e =
     (let auth = lower_trim (e ''DATABASE_AUTH''); ssl = lower_trim (e ''DATABASE_SSL'') in
     and_then (require (auth = [] \<or> auth = ''password'') (DbAuthMode (the (e ''DATABASE_AUTH'')))) (\<lambda>_.
     and_then (db_required e ''DATABASE_HOST'') (\<lambda>host.
     and_then (db_required e ''DATABASE_NAME'') (\<lambda>database.
     and_then (db_required e ''DATABASE_USER'') (\<lambda>user.
     and_then (case e ''DATABASE_PASSWORD'' of
                 None \<Rightarrow> Inl DbPasswordMissing | Some p \<Rightarrow> if p = [] then Inl DbPasswordMissing else Inr p) (\<lambda>password.
     and_then (require (ssl = [] \<or> ssl = ''disable'') (DbSslMode (the (e ''DATABASE_SSL'')))) (\<lambda>_.
     and_then (read_ca read_file e ssl) (\<lambda>(pem, path).
     and_then (db_integer number e ''DATABASE_PORT'' (dd_port DB_DEFAULTS) 1 65535) (\<lambda>port.
     and_then (db_integer number e ''DB_POOL_MAX'' (dd_poolMax DB_DEFAULTS) 1 1000) (\<lambda>pool_max.
     and_then (db_integer number e ''DB_POOL_IDLE_TIMEOUT_MS'' (dd_idleTimeoutMillis DB_DEFAULTS) 0 3600000) (\<lambda>idle.
     and_then (db_integer number e ''DB_POOL_CONNECT_TIMEOUT_MS'' (dd_connectionTimeoutMillis DB_DEFAULTS) 0 600000) (\<lambda>connect.
       Inr \<lparr>db_host = host, db_port = port, db_database = database, db_user = user, db_password = password,
            db_caPem = pem, db_caPath = path,
            db_readHost = (case map_option js_trim (e ''DATABASE_READ_HOST'') of
                             Some h \<Rightarrow> if h = [] then None else Some h | None \<Rightarrow> None),
            db_max = pool_max, db_idleTimeoutMillis = idle, db_connectionTimeoutMillis = connect\<rparr>))))))))))))"

text \<open>What \<open>new Pool\<close> is given: the CA when there is one, and then verified.\<close>

record pool_config =
  pc_host :: string
  pc_port :: int
  pc_database :: string
  pc_user :: string
  pc_password :: string
  pc_max :: int
  pc_idleTimeoutMillis :: int
  pc_connectionTimeoutMillis :: int
  pc_ssl :: "(string \<times> bool) option"

definition poolConfig :: "db_config \<Rightarrow> string \<Rightarrow> int \<Rightarrow> pool_config" where
  "poolConfig c host pool_max = \<lparr>pc_host = host, pc_port = db_port c, pc_database = db_database c, pc_user = db_user c,
     pc_password = db_password c, pc_max = pool_max, pc_idleTimeoutMillis = db_idleTimeoutMillis c,
     pc_connectionTimeoutMillis = db_connectionTimeoutMillis c,
     pc_ssl = (case db_caPem c of None \<Rightarrow> None | Some pem \<Rightarrow> if pem = [] then None else Some (pem, True))\<rparr>"

definition MIGRATOR_POOL_MAX :: int where "MIGRATOR_POOL_MAX = 2"

definition createPool :: "(string \<Rightarrow> string + string) \<Rightarrow> (string \<Rightarrow> int option) \<Rightarrow> env \<Rightarrow> db_config_error + pool_config" where
  "createPool read_file number e =
     and_then (readDatabaseConfig read_file number e) (\<lambda>c. Inr (poolConfig c (db_host c) (db_max c)))"

definition createMigratorPool :: "(string \<Rightarrow> string + string) \<Rightarrow> (string \<Rightarrow> int option) \<Rightarrow> env \<Rightarrow> db_config_error + pool_config" where
  "createMigratorPool read_file number e =
     and_then (readDatabaseConfig read_file number e) (\<lambda>c.
       Inr (poolConfig c (db_host c)
         (case map_option js_trim (e ''DB_POOL_MAX'') of
            None \<Rightarrow> MIGRATOR_POOL_MAX | Some v \<Rightarrow> if v = [] then MIGRATOR_POOL_MAX else db_max c)))"

definition createReadPool :: "(string \<Rightarrow> string + string) \<Rightarrow> (string \<Rightarrow> int option) \<Rightarrow> env \<Rightarrow> db_config_error + pool_config option" where
  "createReadPool read_file number e =
     and_then (readDatabaseConfig read_file number e) (\<lambda>c.
       Inr (map_option (\<lambda>h. poolConfig c h (db_max c)) (db_readHost c)))"

text \<open>In production no pool talks to the database in the clear, and none skips the verification.\<close>

lemma read_ca_in_production:
  assumes "read_ca read_file e ssl = Inr (a, b)" and "e ''NODE_ENV'' = Some ''production''"
  shows "\<exists>pem. a = Some pem \<and> sublist ''-----BEGIN CERTIFICATE-----'' pem"
proof -
  obtain path where "(case read_file path of Inl code \<Rightarrow> Inl (DbCaUnreadable path code)
      | Inr pem \<Rightarrow> if \<not> sublist ''-----BEGIN CERTIFICATE-----'' pem then Inl (DbCaNotPem path) else Inr (Some pem, Some path)) = Inr (a, b)"
    using assms by (auto simp: read_ca_def and_then_Inr_iff split: if_splits)
  then show ?thesis
    by (cases "read_file path") (auto split: if_splits)
qed

lemma ca_in_production:
  assumes "readDatabaseConfig read_file number e = Inr c" and "e ''NODE_ENV'' = Some ''production''"
  shows "\<exists>pem. db_caPem c = Some pem \<and> sublist ''-----BEGIN CERTIFICATE-----'' pem"
  using assms read_ca_in_production
  by (fastforce simp: readDatabaseConfig_def Let_def and_then_Inr_iff)

lemma production_tls:
  assumes "e ''NODE_ENV'' = Some ''production''"
  shows "createPool read_file number e = Inr p \<Longrightarrow> \<exists>pem. pc_ssl p = Some (pem, True)"
    and "createMigratorPool read_file number e = Inr p \<Longrightarrow> \<exists>pem. pc_ssl p = Some (pem, True)"
    and "createReadPool read_file number e = Inr (Some p) \<Longrightarrow> \<exists>pem. pc_ssl p = Some (pem, True)"
proof -
  have "\<exists>pem. pc_ssl (poolConfig c h n) = Some (pem, True)" if "readDatabaseConfig read_file number e = Inr c" for c h n
    using ca_in_production [OF that assms] by (auto simp: poolConfig_def)
  then show "createPool read_file number e = Inr p \<Longrightarrow> \<exists>pem. pc_ssl p = Some (pem, True)"
    and "createMigratorPool read_file number e = Inr p \<Longrightarrow> \<exists>pem. pc_ssl p = Some (pem, True)"
    and "createReadPool read_file number e = Inr (Some p) \<Longrightarrow> \<exists>pem. pc_ssl p = Some (pem, True)"
    by (auto simp: createPool_def createMigratorPool_def createReadPool_def and_then_Inr_iff)
qed

section \<open>Naming a failure\<close>

datatype db_error_code =
    CONFIG | AUTH_FAILED | TLS_UNTRUSTED_CA | TLS_CERT_INVALID | TLS_NOT_OFFERED | CONNECTION_LIMIT | UNREACHABLE
  | CONNECT_TIMEOUT | UNKNOWN

record connection_target =
  ct_host :: "string option"
  ct_port :: "nat option"
  ct_database :: "string option"
  ct_user :: "string option"

text \<open>
  What was thrown: an object, with its code, message and cause where they are texts and objects, and whether it is a
  connection error already named; or something else, of which only \<open>String\<close> is left.
\<close>

datatype thrown_value =
    ErrorLike "db_error_code option" "string option" "string option" "thrown_value option"
  | NotAnObject string

fun chain :: "nat \<Rightarrow> thrown_value \<Rightarrow> (string option \<times> string option) list" where
  "chain 0 v = []"
| "chain (Suc n) (NotAnObject s) = []"
| "chain (Suc n) (ErrorLike named c m cause) =
     (c, m) # (case cause of None \<Rightarrow> [] | Some v \<Rightarrow> chain n v)"

definition UNTRUSTED_CA_CODES :: "string list" where
  "UNTRUSTED_CA_CODES = [''SELF_SIGNED_CERT_IN_CHAIN'', ''DEPTH_ZERO_SELF_SIGNED_CERT'', ''UNABLE_TO_VERIFY_LEAF_SIGNATURE'',
     ''UNABLE_TO_GET_ISSUER_CERT'', ''UNABLE_TO_GET_ISSUER_CERT_LOCALLY'', ''CERT_UNTRUSTED'']"

definition CERT_INVALID_CODES :: "string list" where
  "CERT_INVALID_CODES = [''ERR_TLS_CERT_ALTNAME_INVALID'', ''CERT_HAS_EXPIRED'', ''CERT_NOT_YET_VALID'', ''CERT_REVOKED'']"

definition UNREACHABLE_CODES :: "string list" where
  "UNREACHABLE_CODES = [''ECONNREFUSED'', ''ECONNRESET'', ''ENOTFOUND'', ''EAI_AGAIN'', ''ETIMEDOUT'', ''EHOSTUNREACH'',
     ''ENETUNREACH'', ''57P03'']"

definition present :: "string option \<Rightarrow> bool" where
  "present v = (case v of None \<Rightarrow> False | Some s \<Rightarrow> s \<noteq> [])"

definition where_text :: "connection_target \<Rightarrow> string" where
  "where_text t =
     (if present (ct_host t)
      then the (ct_host t) @ (case ct_port t of Some (Suc p) \<Rightarrow> CHR '':'' # dec (Suc p) | _ \<Rightarrow> [])
      else ''the database'')
     @ (if present (ct_user t) then '' as role \"'' @ the (ct_user t) @ ''\"'' else [])
     @ (if present (ct_database t) then '' (database \"'' @ the (ct_database t) @ ''\")'' else [])"

definition joined :: "string list \<Rightarrow> string" where
  "joined xs = (case xs of [] \<Rightarrow> [] | x # ys \<Rightarrow> x @ concat (map (\<lambda>y. '' | '' @ y) ys))"

text \<open>The failure: its code, and which of the messages of that code, with the code of the driver where the message shows it.\<close>

datatype db_message =
    WrongPassword | RoleRejected | NoSlot | UntrustedCa string | CertInvalid string | NoTls | WaitedTooLong | NoRoute string
  | Other string

definition message_code :: "db_message \<Rightarrow> db_error_code" where
  "message_code m =
     (case m of WrongPassword \<Rightarrow> AUTH_FAILED | RoleRejected \<Rightarrow> AUTH_FAILED | NoSlot \<Rightarrow> CONNECTION_LIMIT
      | UntrustedCa _ \<Rightarrow> TLS_UNTRUSTED_CA | CertInvalid _ \<Rightarrow> TLS_CERT_INVALID | NoTls \<Rightarrow> TLS_NOT_OFFERED
      | WaitedTooLong \<Rightarrow> CONNECT_TIMEOUT | NoRoute _ \<Rightarrow> UNREACHABLE | Other _ \<Rightarrow> UNKNOWN)"

record db_failure =
  df_message :: db_message
  df_at :: string
  df_cause :: thrown_value

definition classify :: "thrown_value \<Rightarrow> db_message" where
  "classify err =
     (let links = chain 8 err;
          codes = filter (\<lambda>c. c \<noteq> []) (map (\<lambda>l. case fst l of None \<Rightarrow> [] | Some c \<Rightarrow> c) links);
          text_of = joined (map (\<lambda>l. case snd l of None \<Rightarrow> [] | Some m \<Rightarrow> m) links);
          first_in = (\<lambda>set_codes. case find (\<lambda>c. List.member set_codes c) codes of None \<Rightarrow> [] | Some c \<Rightarrow> c);
          has = (\<lambda>set_codes. list_ex (\<lambda>c. List.member set_codes c) codes)
      in if List.member codes ''28P01'' then WrongPassword
         else if List.member codes ''28000'' then RoleRejected
         else if List.member codes ''53300'' \<or> has_text ''too many connections'' text_of \<or> has_text ''too many clients'' text_of then NoSlot
         else if has UNTRUSTED_CA_CODES then UntrustedCa (first_in UNTRUSTED_CA_CODES)
         else if has CERT_INVALID_CODES then CertInvalid (first_in CERT_INVALID_CODES)
         else if has_text ''does not support ssl'' text_of then NoTls
         else if has_text ''timeout exceeded when trying to connect'' text_of then WaitedTooLong
         else if has UNREACHABLE_CODES then NoRoute (first_in UNREACHABLE_CODES)
         else Other (case err of
                       NotAnObject s \<Rightarrow> s
                     | ErrorLike _ _ (Some m) _ \<Rightarrow> m
                     | ErrorLike _ _ None _ \<Rightarrow> ''[object Object]''))"

text \<open>An error already named is returned as it is (\<open>None\<close>).\<close>

definition classifyDatabaseError :: "thrown_value \<Rightarrow> connection_target \<Rightarrow> db_failure option" where
  "classifyDatabaseError err target =
     (case err of
        ErrorLike (Some code) _ _ _ \<Rightarrow> None
      | _ \<Rightarrow> Some \<lparr>df_message = classify err, df_at = where_text target, df_cause = err\<rparr>)"

text \<open>A code anywhere in the first eight links is found, however the driver's error is wrapped.\<close>

fun wrap :: "nat \<Rightarrow> thrown_value \<Rightarrow> thrown_value" where
  "wrap 0 v = v"
| "wrap (Suc n) v = ErrorLike None None (Some ''Failed query'') (Some (wrap n v))"

lemma chain_wrap: "n < k \<Longrightarrow> chain k (wrap n v) = replicate n (None, Some ''Failed query'') @ chain (k - n) v"
proof (induction n arbitrary: k)
  case (Suc n)
  then obtain j where "k = Suc j" by (cases k) auto
  with Suc show ?case by simp
qed simp

lemma wrapped_password_named:
  assumes "n < 8"
  shows "classify (wrap n (ErrorLike None (Some ''28P01'') m cause)) = WrongPassword"
proof -
  obtain j where "8 - n = Suc j"
    using assms by (metis Suc_diff_Suc)
  then show ?thesis
    using assms by (simp add: classify_def chain_wrap Let_def)
qed

section \<open>Backoff on connection attempts\<close>

text \<open>The state the guard keeps of a pool; times are milliseconds of a monotonic clock.\<close>

record guard_options =
  gp_minBackoffMs :: rat
  gp_maxBackoffMs :: rat

definition guard_options_of :: "rat option \<Rightarrow> rat option \<Rightarrow> guard_options" where
  "guard_options_of lo hi =
     (let l = (case lo of None \<Rightarrow> 250 | Some v \<Rightarrow> v)
      in \<lparr>gp_minBackoffMs = l, gp_maxBackoffMs = max l (case hi of None \<Rightarrow> 5000 | Some v \<Rightarrow> v)\<rparr>)"

record backoff =
  bo_failures :: nat
  bo_retryAt :: rat
  bo_lastError :: "string option"

definition no_backoff :: backoff where
  "no_backoff = \<lparr>bo_failures = 0, bo_retryAt = 0, bo_lastError = None\<rparr>"

definition backoff_delay :: "guard_options \<Rightarrow> nat \<Rightarrow> rat" where
  "backoff_delay opts failures = min (gp_maxBackoffMs opts) (gp_minBackoffMs opts * 2 ^ min (failures - 1) 20)"

text \<open>The outcome of a dial, with the log line it makes: the first failure, and a recovery.\<close>

datatype guard_log = ConnectionFailed string | Recovered nat

definition record_outcome :: "guard_options \<Rightarrow> rat \<Rightarrow> string option \<Rightarrow> backoff \<Rightarrow> backoff \<times> guard_log list" where
  "record_outcome opts now err b =
     (case err of
        Some e \<Rightarrow>
          (let failures = bo_failures b + 1 in
           (\<lparr>bo_failures = failures, bo_retryAt = now + backoff_delay opts failures, bo_lastError = Some e\<rparr>,
            if failures = 1 then [ConnectionFailed e] else []))
      | None \<Rightarrow> (no_backoff, if 0 < bo_failures b then [Recovered (bo_failures b)] else []))"

datatype dial = Dial | FailFast string

definition newClient :: "rat \<Rightarrow> backoff \<Rightarrow> dial" where
  "newClient now b =
     (case bo_lastError b of None \<Rightarrow> Dial | Some e \<Rightarrow> if now < bo_retryAt b then FailFast e else Dial)"

text \<open>Callers ask for connections and dials end, in any order, at non-decreasing times.\<close>

datatype guard_event = Wanted rat | Ended rat "string option"

fun event_time :: "guard_event \<Rightarrow> rat" where
  "event_time (Wanted t) = t"
| "event_time (Ended t r) = t"

fun guard_run :: "guard_options \<Rightarrow> guard_event list \<Rightarrow> backoff \<Rightarrow> (rat \<times> dial) list" where
  "guard_run opts [] b = []"
| "guard_run opts (Wanted t # es) b = (t, newClient t b) # guard_run opts es b"
| "guard_run opts (Ended t r # es) b = guard_run opts es (fst (record_outcome opts t r b))"

lemma delay_bounds:
  assumes "0 \<le> gp_minBackoffMs opts" and "gp_minBackoffMs opts \<le> gp_maxBackoffMs opts"
  shows "gp_minBackoffMs opts \<le> backoff_delay opts n \<and> backoff_delay opts n \<le> gp_maxBackoffMs opts"
proof -
  have "gp_minBackoffMs opts * 1 \<le> gp_minBackoffMs opts * 2 ^ min (n - 1) 20"
    using assms(1) by (intro mult_left_mono) simp_all
  then show ?thesis
    using assms(2) by (simp add: backoff_delay_def)
qed

lemma delay_mono:
  assumes "0 \<le> gp_minBackoffMs opts" and "m \<le> n"
  shows "backoff_delay opts m \<le> backoff_delay opts n"
proof -
  have "(2 :: rat) ^ min (m - 1) 20 \<le> 2 ^ min (n - 1) 20"
    using assms(2) by (intro power_increasing) auto
  then have "gp_minBackoffMs opts * 2 ^ min (m - 1) 20 \<le> gp_minBackoffMs opts * 2 ^ min (n - 1) 20"
    using assms(1) by (intro mult_left_mono)
  then show ?thesis
    unfolding backoff_delay_def by (simp add: min.coboundedI2)
qed

lemma options_ordered: "gp_minBackoffMs (guard_options_of lo hi) \<le> gp_maxBackoffMs (guard_options_of lo hi)"
  by (simp add: guard_options_of_def Let_def)

text \<open>After a failed dial nobody dials until the backoff has passed, unless a dial succeeds meanwhile.\<close>

lemma guard_gate:
  assumes "bo_lastError b \<noteq> None" and "bo_retryAt b = t0 + backoff_delay opts (bo_failures b)" and "until_ms \<le> bo_retryAt b"
    and "\<forall>t. Ended t None \<notin> set es" and "sorted (t0 # map event_time es)" and "0 \<le> gp_minBackoffMs opts"
  shows "\<forall>(t, d) \<in> set (guard_run opts es b). t < until_ms \<longrightarrow> d \<noteq> Dial"
  using assms
proof (induction opts es b arbitrary: t0 rule: guard_run.induct)
  case (2 opts t es b)
  have "sorted (t0 # map event_time es)"
    using 2(6) by auto
  then have "\<forall>(t, d) \<in> set (guard_run opts es b). t < until_ms \<longrightarrow> d \<noteq> Dial"
    using 2(1) [OF 2(2-4)] 2(5,7) by simp
  then show ?case
    using 2(2,4) by (auto simp: newClient_def)
next
  case (3 opts t r es b)
  obtain e where r: "r = Some e"
    using 3(5) by (cases r) auto
  define b' where "b' = fst (record_outcome opts t r b)"
  have b': "bo_lastError b' \<noteq> None" "bo_retryAt b' = t + backoff_delay opts (bo_failures b')"
    "bo_failures b' = bo_failures b + 1"
    by (simp_all add: b'_def record_outcome_def r Let_def)
  have "until_ms \<le> bo_retryAt b'"
    using 3(3,4,6,7) b' delay_mono [of opts "bo_failures b" "bo_failures b + 1"] by fastforce
  moreover have "sorted (t # map event_time es)" "\<forall>t. Ended t None \<notin> set es"
    using 3(5,6) by auto
  ultimately show ?case
    using 3(1) [folded b'_def, OF b'(1,2)] 3(7) by (simp add: b'_def)
qed simp

text \<open>And the gate opens again: at the latest a whole backoff after the last failure the next caller dials.\<close>

lemma guard_reopens: "bo_retryAt b \<le> t \<Longrightarrow> newClient t b = Dial"
  by (simp add: newClient_def split: option.split)

section \<open>The advisory lock\<close>

record ('x, 'v, 'w) lock_deps =
  ld_connect :: "'w \<Rightarrow> (thrown_value + unit) \<times> 'w"
  ld_tryLock :: "string \<Rightarrow> 'w \<Rightarrow> (thrown_value + bool) \<times> 'w"
  ld_unlock :: "string \<Rightarrow> 'w \<Rightarrow> (thrown_value + bool) \<times> 'w"
  ld_release :: "bool \<Rightarrow> 'w \<Rightarrow> 'w"
  ld_fn :: "'w \<Rightarrow> ('x + 'v) \<times> 'w"

datatype 'x lock_throw = NotConnected thrown_value | FnThrew 'x

definition withAdvisoryLock :: "('x, 'v, 'w) lock_deps \<Rightarrow> string \<Rightarrow> 'w \<Rightarrow> ('x lock_throw + 'v option) \<times> 'w" where
  "withAdvisoryLock deps key w =
     (case ld_connect deps w of
        (Inl e, w1) \<Rightarrow> (Inl (NotConnected e), w1)
      | (Inr _, w1) \<Rightarrow>
          (case ld_tryLock deps key w1 of
             (Inl e, w2) \<Rightarrow> (Inl (NotConnected e), ld_release deps True w2)
           | (Inr False, w2) \<Rightarrow> (Inr None, ld_release deps False w2)
           | (Inr True, w2) \<Rightarrow>
               (let (r, w3) = ld_fn deps w2;
                    (u, w4) = ld_unlock deps key w3;
                    destroy = (case u of Inl _ \<Rightarrow> True | Inr b \<Rightarrow> \<not> b)
                in (case r of Inl x \<Rightarrow> Inl (FnThrew x) | Inr v \<Rightarrow> Inr (Some v), ld_release deps destroy w4))))"

text \<open>
  PostgreSQL's side, for one pool: the sessions that hold an advisory lock, by key; a client of the pool has a session, and
  a destroyed one loses it with its locks.
\<close>

record sessions =
  ss_holder :: "string \<Rightarrow> nat option"
  ss_free :: "nat set"

definition pg_deps :: "nat \<Rightarrow> (sessions \<Rightarrow> ('x + 'v) \<times> sessions) \<Rightarrow> ('x, 'v, sessions) lock_deps" where
  "pg_deps me fn = \<lparr>
     ld_connect = (\<lambda>w. if me \<in> ss_free w then (Inr (), w\<lparr>ss_free := ss_free w - {me}\<rparr>)
                    else (Inl (NotAnObject ''pool''), w)),
     ld_tryLock = (\<lambda>k w. case ss_holder w k of
                      None \<Rightarrow> (Inr True, w\<lparr>ss_holder := (ss_holder w)(k \<mapsto> me)\<rparr>)
                    | Some h \<Rightarrow> (Inr (h = me), w)),
     ld_unlock = (\<lambda>k w. if ss_holder w k = Some me then (Inr True, w\<lparr>ss_holder := (ss_holder w)(k := None)\<rparr>) else (Inr False, w)),
     ld_release = (\<lambda>destroy w. w\<lparr>ss_holder := (if destroy then (\<lambda>k. if ss_holder w k = Some me then None else ss_holder w k) else ss_holder w),
                     ss_free := insert me (ss_free w)\<rparr>),
     ld_fn = fn\<rparr>"

text \<open>Held by another session, the work is not done; taken, it is given back however the work ends.\<close>

lemma lock_held_elsewhere:
  assumes "ss_holder w k = Some h" and "h \<noteq> me" and "me \<in> ss_free w"
  shows "withAdvisoryLock (pg_deps me fn) k w = (Inr None, w)"
  using assms by (simp add: withAdvisoryLock_def pg_deps_def insert_absorb)

lemma lock_given_back:
  assumes "ss_holder w k = None" and "me \<in> ss_free w"
    and "fn (w\<lparr>ss_free := ss_free w - {me}, ss_holder := (ss_holder w)(k \<mapsto> me)\<rparr>) = (r, w')"
  shows "let (res, w'') = withAdvisoryLock (pg_deps me fn) k w in
    res = (case r of Inl x \<Rightarrow> Inl (FnThrew x) | Inr v \<Rightarrow> Inr (Some v)) \<and> ss_holder w'' k \<noteq> Some me \<and> me \<in> ss_free w''"
  using assms by (auto simp: withAdvisoryLock_def pg_deps_def Let_def split: prod.splits)

end
