(* ===== verification/Health.thy ===== *)
theory Health
  imports Database
begin

text \<open>
  Readiness (\<open>platform-runtime/src/health\<close>), the formatting of an invalid environment (\<open>config/env-validator.ts\<close>) and the
  timing of a request (\<open>http/request-timing.ts\<close>). A report takes the answers of the checks that finished before its
  deadline, in the order they finished; a check that is not among them gave none.
\<close>

section \<open>The registry\<close>

datatype check_status = Up | Down

datatype check_answer = AnsweredUp | AnsweredSkip | Threw string

datatype health_log = CheckDown string string | CheckRecovered string | ChecksLate

record registry =
  hr_checks :: "string list"
  hr_last :: "string \<rightharpoonup> check_status \<times> string option"
  hr_draining :: bool

definition new_registry :: registry where
  "new_registry = \<lparr>hr_checks = [], hr_last = Map.empty, hr_draining = False\<rparr>"

definition READINESS_DEADLINE_MS :: nat where "READINESS_DEADLINE_MS = 800"

text \<open>\<open>None\<close>: a name registered twice is refused.\<close>

definition health_register :: "string \<Rightarrow> registry \<Rightarrow> registry option" where
  "health_register name r = (if List.member (hr_checks r) name then None else Some (r\<lparr>hr_checks := hr_checks r @ [name]\<rparr>))"

definition health_has :: "string \<Rightarrow> registry \<Rightarrow> bool" where
  "health_has name r = List.member (hr_checks r) name"

definition beginShutdown :: "registry \<Rightarrow> registry" where
  "beginShutdown r = r\<lparr>hr_draining := True\<rparr>"

definition transition :: "string \<Rightarrow> check_status \<Rightarrow> string option \<Rightarrow> registry \<Rightarrow> registry \<times> health_log list" where
  "transition name status cause r =
     (if hr_last r name = Some (status, cause) then (r, [])
      else (r\<lparr>hr_last := (hr_last r)(name \<mapsto> (status, cause))\<rparr>,
            case status of
              Down \<Rightarrow> [CheckDown name (case cause of None \<Rightarrow> [] | Some c \<Rightarrow> c)]
            | Up \<Rightarrow> if map_option fst (hr_last r name) = Some Down then [CheckRecovered name] else []))"

definition runOne_check :: "string \<Rightarrow> check_answer \<Rightarrow> registry \<Rightarrow> registry \<times> health_log list" where
  "runOne_check name a r =
     (case a of AnsweredSkip \<Rightarrow> (r, []) | AnsweredUp \<Rightarrow> transition name Up None r | Threw m \<Rightarrow> transition name Down (Some m) r)"

fun each_transition :: "('x \<Rightarrow> registry \<Rightarrow> registry \<times> health_log list) \<Rightarrow> 'x list \<Rightarrow> registry \<Rightarrow> registry \<times> health_log list" where
  "each_transition f [] r = (r, [])"
| "each_transition f (x # xs) r =
     (let (r1, l1) = f x r; (r2, l2) = each_transition f xs r1 in (r2, l1 @ l2))"

record readiness =
  rd_ok :: bool
  rd_shuttingDown :: bool
  rd_checks :: "(string \<times> check_status) list"

definition late_cause :: string where
  "late_cause = ''no answer within '' @ dec READINESS_DEADLINE_MS @ '' ms''"

definition reported :: "(string \<times> check_answer) list \<Rightarrow> string \<Rightarrow> (string \<times> check_status) option" where
  "reported answers name =
     (case map_of answers name of
        None \<Rightarrow> Some (name, Down)
      | Some AnsweredSkip \<Rightarrow> None
      | Some AnsweredUp \<Rightarrow> Some (name, Up)
      | Some (Threw m) \<Rightarrow> Some (name, Down))"

definition health_report :: "(string \<times> check_answer) list \<Rightarrow> registry \<Rightarrow> readiness \<times> registry \<times> health_log list" where
  "health_report answers r =
     (if hr_draining r then (\<lparr>rd_ok = False, rd_shuttingDown = True, rd_checks = []\<rparr>, r, [])
      else
        let (r1, l1) = each_transition (\<lambda>(n, a). runOne_check n a) answers r;
            late = filter (\<lambda>n. map_of answers n = None) (hr_checks r);
            (r2, l2) = each_transition (\<lambda>n. transition n Down (Some late_cause)) late r1;
            checks = List.map_filter (reported answers) (hr_checks r)
        in (\<lparr>rd_ok = list_all (\<lambda>c. snd c = Up) checks, rd_shuttingDown = False, rd_checks = checks\<rparr>, r2,
            l1 @ l2 @ (if late = [] then [] else [ChecksLate])))"

text \<open>The status code of \<open>/readyz\<close>; \<open>/livez\<close> touches nothing.\<close>

definition readyz_code :: "readiness \<Rightarrow> nat" where
  "readyz_code rep = (if rd_ok rep then 200 else 503)"

definition livez_code :: nat where "livez_code = 200"

text \<open>The built-in cache check: not applicable without a client, down when it is not connected.\<close>

definition cache_check :: "bool \<Rightarrow> bool \<Rightarrow> string + unit \<Rightarrow> check_answer" where
  "cache_check has_client ready ping =
     (if \<not> has_client then AnsweredSkip
      else if \<not> ready then Threw ''cache connection is not ready''
      else (case ping of Inl m \<Rightarrow> Threw m | Inr _ \<Rightarrow> AnsweredUp))"

section \<open>What a report says\<close>

lemma ready_iff:
  assumes "\<not> hr_draining r"
  shows "rd_ok (fst (health_report answers r)) \<longleftrightarrow>
    (\<forall>n\<in>set (hr_checks r). map_of answers n = Some AnsweredUp \<or> map_of answers n = Some AnsweredSkip)"
proof -
  have "rd_ok (fst (health_report answers r)) \<longleftrightarrow>
      (\<forall>n\<in>set (hr_checks r). \<forall>c. reported answers n = Some c \<longrightarrow> snd c = Up)"
    using assms by (force simp: health_report_def Let_def list_all_iff List.map_filter_def split: prod.split)
  also have "\<dots> \<longleftrightarrow> (\<forall>n\<in>set (hr_checks r). map_of answers n = Some AnsweredUp \<or> map_of answers n = Some AnsweredSkip)"
    by (rule ball_cong) (auto simp: reported_def simp del: map_of_eq_Some_iff split: option.splits check_answer.splits)
  finally show ?thesis .
qed

lemma draining_not_ready: "hr_draining r \<Longrightarrow> readyz_code (fst (health_report answers r)) = 503"
  by (simp add: health_report_def readyz_code_def)

lemma transition_draining [simp]: "hr_draining (fst (transition n s c r)) = hr_draining r"
  by (simp add: transition_def)

text \<open>A check that stays as it was, for the same reason, is not logged again.\<close>

lemma transition_logged_once: "snd (transition n s c (fst (transition n s c r))) = []"
  by (simp add: transition_def)

lemma cause_change_logged:
  "hr_last r n = Some (Down, Some old) \<Longrightarrow> old \<noteq> new \<Longrightarrow> snd (transition n Down (Some new) r) = [CheckDown n new]"
  by (simp add: transition_def)

lemma duplicate_refused: "health_register n r = Some r' \<Longrightarrow> health_register n r' = None \<and> health_has n r'"
  by (auto simp: health_register_def health_has_def split: if_splits)

section \<open>An invalid environment\<close>

definition env_issue_text :: "string list \<times> string \<Rightarrow> string" where
  "env_issue_text issue =
     ''  '' @ (case fst issue of [] \<Rightarrow> [] | p # ps \<Rightarrow> p @ concat (map (\<lambda>q. CHR ''.'' # q) ps)) @ '': '' @ snd issue"

text \<open>The failure lists every issue on a line of its own, after the heading; \<open>mark\<close> is the sign the heading starts with.\<close>

definition createEnvValidator ::
  "string \<Rightarrow> ('e \<Rightarrow> (string list \<times> string) list + 'a) \<Rightarrow> 'e \<Rightarrow> string + 'a" where
  "createEnvValidator mark safeParse e =
     (case safeParse e of
        Inr d \<Rightarrow> Inr d
      | Inl issues \<Rightarrow>
          Inl (mark @ '' Invalid environment configuration:'' @ CHR 10 #
               (case map env_issue_text issues of [] \<Rightarrow> [] | l # ls \<Rightarrow> l @ concat (map (\<lambda>x. CHR 10 # x) ls))))"

lemma every_issue_named:
  assumes "safeParse e = Inl issues" and "issue \<in> set issues"
  shows "\<exists>m pre post. createEnvValidator mark safeParse e = Inl m \<and> m = pre @ env_issue_text issue @ post"
proof -
  obtain before after where issues: "issues = before @ issue # after"
    using assms(2) by (metis split_list)
  show ?thesis
  proof (cases before)
    case Nil
    then show ?thesis
      using assms(1) issues
      by (intro exI [of _ "mark @ '' Invalid environment configuration:'' @ [CHR 10]"]
          exI [of _ "concat (map (\<lambda>x. CHR 10 # x) (map env_issue_text after))"] exI)
         (simp add: createEnvValidator_def)
  next
    case (Cons b bs)
    then show ?thesis
      using assms(1) issues
      by (intro exI [of _ "mark @ '' Invalid environment configuration:'' @ [CHR 10] @ env_issue_text b @
          concat (map (\<lambda>x. CHR 10 # x) (map env_issue_text bs)) @ [CHR 10]"]
          exI [of _ "concat (map (\<lambda>x. CHR 10 # x) (map env_issue_text after))"] exI)
         (simp add: createEnvValidator_def)
  qed
qed

section \<open>When a request arrived\<close>

definition ALB_WAIT_REPORTING_FLOOR_MS :: int where "ALB_WAIT_REPORTING_FLOOR_MS = 1000"

definition albWaitMs :: "int option \<Rightarrow> int option \<Rightarrow> int option" where
  "albWaitMs arrivalAt albReceivedAt =
     (case (arrivalAt, albReceivedAt) of
        (Some a, Some b) \<Rightarrow> if ALB_WAIT_REPORTING_FLOOR_MS \<le> a - b then Some (a - b) else None
      | _ \<Rightarrow> None)"

definition hex_number :: "string \<Rightarrow> nat" where
  "hex_number s = foldl (\<lambda>n c. 16 * n + hex_val (to_lower c)) 0 s"

text \<open>\<open>Root=1-\<close>, eight hexadecimal digits, a dash and twenty-four, anywhere in the header, in either case.\<close>

definition root_id_at :: "string \<Rightarrow> bool" where
  "root_id_at s \<longleftrightarrow> map to_lower (take 7 s) = ''root=1-'' \<and> length s \<ge> 40 \<and> list_all is_hex (take 8 (drop 7 s)) \<and>
     take 1 (drop 15 s) = ''-'' \<and> list_all is_hex (take 24 (drop 16 s))"

definition albReceivedAtMs :: "string option \<Rightarrow> int option" where
  "albReceivedAtMs traceId =
     (case traceId of
        None \<Rightarrow> None
      | Some t \<Rightarrow>
          (case find root_id_at (rev (suffixes t)) of
             None \<Rightarrow> None
           | Some s \<Rightarrow> (let seconds = hex_number (take 8 (drop 7 s)) in if 0 < seconds then Some (int seconds * 1000) else None)))"

text \<open>A gap the truncation to seconds alone could make is not reported.\<close>

lemma reported_gap_is_real:
  assumes "albWaitMs (Some arrival) (Some (1000 * (sent div 1000))) = Some gap"
  shows "0 < arrival - sent"
proof -
  have "1000 \<le> arrival - 1000 * (sent div 1000)"
    using assms by (simp add: albWaitMs_def ALB_WAIT_REPORTING_FLOOR_MS_def split: if_splits)
  moreover have "sent < 1000 * (sent div 1000) + 1000"
    by presburger
  ultimately show ?thesis
    by linarith
qed

end
