(* ===== verification/Shutdown.thy ===== *)
theory Shutdown
  imports Health
begin

text \<open>
  Leaving the service (\<open>platform-runtime/src/shutdown/graceful-shutdown.ts\<close>): the settings, and the sequence as a relation
  on states. Time passes between the steps; a step of the application ends when it ends, well or badly, or never. The
  deadline is a timer: when its moment comes it fires, so time does not pass it while the sequence runs.
\<close>

section \<open>Settings\<close>

definition DEFAULT_SHUTDOWN_MS :: nat where "DEFAULT_SHUTDOWN_MS = 25000"
definition DEFAULT_DRAIN_DELAY_MS :: nat where "DEFAULT_DRAIN_DELAY_MS = 5000"

datatype shutdown_error = NestHooksEnabled | NotMilliseconds string string | DelayNotBelowTimeout nat nat

definition readMs :: "(string \<Rightarrow> int option) \<Rightarrow> env \<Rightarrow> string \<Rightarrow> nat \<Rightarrow> shutdown_error + nat" where
  "readMs number e name fallback =
     (case map_option js_trim (e name) of
        None \<Rightarrow> Inr fallback
      | Some raw \<Rightarrow>
          if raw = [] then Inr fallback
          else (case number raw of
                  None \<Rightarrow> Inl (NotMilliseconds name raw)
                | Some v \<Rightarrow> if v < 0 \<or> 600000 < v then Inl (NotMilliseconds name raw) else Inr (nat v)))"

record shutdown_config =
  sc_timeoutMs :: nat
  sc_delayMs :: nat

definition enableGracefulShutdown :: "(string \<Rightarrow> int option) \<Rightarrow> env \<Rightarrow> bool \<Rightarrow> shutdown_error + shutdown_config" where
  "enableGracefulShutdown number e nest_hooks =
     (if nest_hooks then Inl NestHooksEnabled
      else
        and_then (readMs number e ''SHUTDOWN_TIMEOUT_MS'' DEFAULT_SHUTDOWN_MS) (\<lambda>timeout.
        and_then (readMs number e ''SHUTDOWN_ENDPOINT_DELAY_MS''
          (if present (e ''KUBERNETES_SERVICE_HOST'') then DEFAULT_DRAIN_DELAY_MS else 0)) (\<lambda>delay.
        if timeout \<le> delay then Inl (DelayNotBelowTimeout delay timeout)
        else Inr \<lparr>sc_timeoutMs = timeout, sc_delayMs = delay\<rparr>)))"

lemma delay_below_timeout: "enableGracefulShutdown number e h = Inr c \<Longrightarrow> sc_delayMs c < sc_timeoutMs c \<and> \<not> h"
  by (auto simp: enableGracefulShutdown_def and_then_Inr_iff split: if_splits)

section \<open>The sequence\<close>

datatype stage = Serving | EndpointDelay | DrainHttp | CloseApp | FlushTelemetry | Exited nat

datatype sequence_act = WentNotReady | DelayPassed | HttpDrained | AppClosed | TelemetryFlushed

record shutdown_state =
  sd_stage :: stage
  sd_health :: registry
  sd_failed :: bool
  sd_now :: msec
  sd_started :: msec
  sd_acts :: "(sequence_act \<times> msec) list"

definition serving :: "registry \<Rightarrow> msec \<Rightarrow> shutdown_state" where
  "serving h t = \<lparr>sd_stage = Serving, sd_health = h, sd_failed = False, sd_now = t, sd_started = t, sd_acts = []\<rparr>"

definition stage_running :: "stage \<Rightarrow> bool" where
  "stage_running st \<longleftrightarrow> st \<in> {EndpointDelay, DrainHttp, CloseApp, FlushTelemetry}"

text \<open>A step of the sequence ends: what it did is kept with its time, and whether it failed.\<close>

definition finish :: "stage \<Rightarrow> sequence_act \<Rightarrow> bool \<Rightarrow> shutdown_state \<Rightarrow> shutdown_state" where
  "finish next_stage act well s =
     s\<lparr>sd_stage := next_stage, sd_failed := sd_failed s \<or> \<not> well, sd_acts := sd_acts s @ [(act, sd_now s)]\<rparr>"

text \<open>\<open>http\<close>: the application has an HTTP server. A signal, or a call of \<open>shutdown\<close>, starts the sequence once.\<close>

definition begin_sequence :: "bool \<Rightarrow> shutdown_state \<Rightarrow> shutdown_state" where
  "begin_sequence http s =
     (if http
      then s\<lparr>sd_stage := EndpointDelay, sd_health := beginShutdown (sd_health s), sd_started := sd_now s,
             sd_acts := sd_acts s @ [(WentNotReady, sd_now s)]\<rparr>
      else s\<lparr>sd_stage := CloseApp, sd_started := sd_now s\<rparr>)"

definition shutdown_signal :: "bool \<Rightarrow> shutdown_state \<Rightarrow> shutdown_state" where
  "shutdown_signal http s = (if sd_stage s = Serving then begin_sequence http s else s)"

inductive sd_step :: "shutdown_config \<Rightarrow> bool \<Rightarrow> shutdown_state \<Rightarrow> shutdown_state \<Rightarrow> bool" for c http where
  Signal: "sd_step c http s (shutdown_signal http s)"
| Tick: "sd_now s \<le> t \<Longrightarrow> (stage_running (sd_stage s) \<Longrightarrow> t \<le> sd_started s + sc_timeoutMs c) \<Longrightarrow>
    sd_step c http s (s\<lparr>sd_now := t\<rparr>)"
| Delay: "sd_stage s = EndpointDelay \<Longrightarrow> sd_started s + sc_delayMs c \<le> sd_now s \<Longrightarrow>
    sd_step c http s (finish DrainHttp DelayPassed True s)"
| Drain: "sd_stage s = DrainHttp \<Longrightarrow> sd_step c http s (finish CloseApp HttpDrained well s)"
| Close: "sd_stage s = CloseApp \<Longrightarrow> sd_step c http s (finish FlushTelemetry AppClosed well s)"
| Flush: "sd_stage s = FlushTelemetry \<Longrightarrow>
    sd_step c http s (finish (Exited (if sd_failed s \<or> \<not> well then 1 else 0)) TelemetryFlushed well s)"
| Deadline: "stage_running (sd_stage s) \<Longrightarrow> sd_now s = sd_started s + sc_timeoutMs c \<Longrightarrow>
    sd_step c http s (s\<lparr>sd_stage := Exited 1\<rparr>)"

inductive_cases sd_stepE: "sd_step c http s s'"

inductive sd_reach :: "shutdown_config \<Rightarrow> bool \<Rightarrow> shutdown_state \<Rightarrow> bool" for c http where
  Start: "\<not> hr_draining h \<Longrightarrow> sd_reach c http (serving h t)"
| Step: "sd_reach c http s \<Longrightarrow> sd_step c http s s' \<Longrightarrow> sd_reach c http s'"

text \<open>The acts that lie behind a stage.\<close>

definition http_acts :: "bool \<Rightarrow> sequence_act list" where
  "http_acts http = (if http then [WentNotReady, DelayPassed, HttpDrained] else [])"

fun acts_before :: "bool \<Rightarrow> stage \<Rightarrow> sequence_act list" where
  "acts_before http Serving = []"
| "acts_before http EndpointDelay = [WentNotReady]"
| "acts_before http DrainHttp = [WentNotReady, DelayPassed]"
| "acts_before http CloseApp = http_acts http"
| "acts_before http FlushTelemetry = http_acts http @ [AppClosed]"
| "acts_before http (Exited n) = http_acts http @ [AppClosed, TelemetryFlushed]"

definition sd_inv :: "shutdown_config \<Rightarrow> bool \<Rightarrow> shutdown_state \<Rightarrow> bool" where
  "sd_inv c http s \<longleftrightarrow>
     (case sd_stage s of
        Exited n \<Rightarrow>
          (if n = 0 then map fst (sd_acts s) = acts_before http (Exited 0) \<and> \<not> sd_failed s
           else n = 1 \<and> (\<exists>k. map fst (sd_acts s) = take k (acts_before http (Exited 1))))
      | st \<Rightarrow> map fst (sd_acts s) = acts_before http st) \<and>
     (http \<longrightarrow> sd_stage s \<noteq> Serving \<longrightarrow> hr_draining (sd_health s)) \<and>
     (sd_stage s = Serving \<longrightarrow> \<not> hr_draining (sd_health s)) \<and>
     (\<not> http \<longrightarrow> sd_stage s \<noteq> EndpointDelay \<and> sd_stage s \<noteq> DrainHttp) \<and>
     (stage_running (sd_stage s) \<longrightarrow> sd_started s \<le> sd_now s \<and> sd_now s \<le> sd_started s + sc_timeoutMs c) \<and>
     sorted (map snd (sd_acts s)) \<and> (\<forall>(a, t) \<in> set (sd_acts s). sd_started s \<le> t \<and> t \<le> sd_now s) \<and>
     (\<forall>(a, t) \<in> set (sd_acts s). t \<le> sd_started s + sc_timeoutMs c \<and>
        (a \<noteq> WentNotReady \<longrightarrow> http \<longrightarrow> sd_started s + sc_delayMs c \<le> t))"

lemma acts_before_take: "\<exists>k. acts_before http st = take k (acts_before http (Exited n))" if "http \<or> st \<noteq> EndpointDelay \<and> st \<noteq> DrainHttp"
proof -
  have "acts_before http st = take (length (acts_before http st)) (acts_before http (Exited n))"
    using that by (cases st) (auto simp: http_acts_def)
  then show ?thesis by blast
qed

lemma exited_take: "acts_before http (Exited n) = take 5 (acts_before http (Exited m))"
  by (auto simp: http_acts_def)

text \<open>Once the delay has passed - every stage after it, with a server - the clock is beyond it.\<close>

lemma delay_behind:
  assumes "sd_inv c http s" and "DelayPassed \<in> set (acts_before http (sd_stage s))" and "stage_running (sd_stage s)" and http
  shows "sd_started s + sc_delayMs c \<le> sd_now s"
proof -
  have "map fst (sd_acts s) = acts_before http (sd_stage s)"
    using assms(1,3) by (auto simp: sd_inv_def stage_running_def split: stage.splits)
  then have "DelayPassed \<in> fst ` set (sd_acts s)"
    using assms(2) by (metis set_map)
  then obtain t where "(DelayPassed, t) \<in> set (sd_acts s)"
    by auto
  then show ?thesis
    using assms(1,4) unfolding sd_inv_def by fastforce
qed

text \<open>A step that ends appends its act: the bookkeeping common to the four.\<close>

lemma finish_inv:
  assumes "sd_inv c http s" and "stage_running (sd_stage s)" and "http \<longrightarrow> sd_started s + sc_delayMs c \<le> sd_now s"
    and "acts_before http (sd_stage s) @ [a] = acts_before http st'" and "a \<noteq> WentNotReady" and "st' \<noteq> Serving"
    and "\<not> http \<longrightarrow> st' \<noteq> EndpointDelay \<and> st' \<noteq> DrainHttp"
    and "\<forall>n. st' = Exited n \<longrightarrow> n \<le> 1 \<and> (n = 0 \<longleftrightarrow> \<not> sd_failed s \<and> well)"
  shows "sd_inv c http (finish st' a well s)"
proof -
  have old: "map fst (sd_acts s) = acts_before http (sd_stage s)"
    using assms(1,2) by (auto simp: sd_inv_def stage_running_def split: stage.splits)
  have st: "sd_stage s \<noteq> Serving"
    using assms(2) by (auto simp: stage_running_def)
  have now: "sd_started s \<le> sd_now s" "sd_now s \<le> sd_started s + sc_timeoutMs c"
    using assms(1,2) by (auto simp: sd_inv_def)
  have acts: "map fst (sd_acts (finish st' a well s)) = acts_before http st'"
    using old assms(4) by (simp add: finish_def)
  have "case st' of
        Exited n \<Rightarrow> if n = 0 then map fst (sd_acts (finish st' a well s)) = acts_before http (Exited 0) \<and> \<not> sd_failed (finish st' a well s)
           else n = 1 \<and> (\<exists>k. map fst (sd_acts (finish st' a well s)) = take k (acts_before http (Exited 1)))
      | st \<Rightarrow> map fst (sd_acts (finish st' a well s)) = acts_before http st"
  proof (cases st')
    case (Exited n)
    then have full: "map fst (sd_acts (finish st' a well s)) = acts_before http (Exited n)"
      using acts by simp
    show ?thesis
    proof (cases "n = 0")
      case True
      then show ?thesis
        using full assms(8) Exited by (simp add: finish_def)
    next
      case False
      then have "n = 1" using assms(8) Exited by auto
      moreover have "map fst (sd_acts (finish st' a well s)) = take 5 (acts_before http (Exited 1))"
        using full exited_take by metis
      ultimately show ?thesis
        using Exited by auto
    qed
  qed (use acts in simp_all)
  moreover have "\<forall>(b, t) \<in> set (sd_acts s). sd_started s \<le> t \<and> t \<le> sd_now s" "sorted (map snd (sd_acts s))"
    using assms(1) by (simp_all add: sd_inv_def)
  then have "sorted (map snd (sd_acts s @ [(a, sd_now s)]))"
    by (auto simp: sorted_append)
  ultimately show ?thesis
    using assms(1,3,5-7) st now unfolding sd_inv_def by (auto simp: finish_def)
qed

lemma sd_step_inv:
  assumes "sd_step c http s s'" and "sd_inv c http s"
  shows "sd_inv c http s'"
  using assms(1)
proof (cases rule: sd_step.cases)
  case Signal
  show ?thesis
  proof (cases "sd_stage s = Serving")
    case True
    then have "sd_acts s = []" "\<not> hr_draining (sd_health s)"
      using assms(2) by (simp_all add: sd_inv_def)
    then show ?thesis
      using Signal True by (auto simp: shutdown_signal_def begin_sequence_def sd_inv_def http_acts_def stage_running_def beginShutdown_def)
  next
    case False
    then show ?thesis
      using Signal assms(2) by (simp add: shutdown_signal_def)
  qed
next
  case (Tick t)
  have "\<forall>x\<in>set (sd_acts s). case x of (a, u) \<Rightarrow> sd_started s \<le> u \<and> u \<le> sd_now s"
    using assms(2) by (simp add: sd_inv_def)
  then have old: "\<forall>x\<in>set (sd_acts s). case x of (a, u) \<Rightarrow> sd_started s \<le> u \<and> u \<le> t"
    using Tick(2) by auto
  have "stage_running (sd_stage s) \<longrightarrow> sd_started s \<le> t"
    using assms(2) Tick(2) by (auto simp: sd_inv_def)
  with Tick show ?thesis
    using assms(2) old by (simp add: sd_inv_def cong: stage.case_cong if_cong)
next
  case Delay
  have "http"
    using assms(2) Delay(2) by (auto simp: sd_inv_def)
  then show ?thesis
    unfolding Delay(1) using assms(2) Delay(2,3) by (intro finish_inv) (auto simp: stage_running_def)
next
  case (Drain well)
  have "http"
    using assms(2) Drain(2) by (auto simp: sd_inv_def)
  then show ?thesis
    unfolding Drain(1) using assms(2) Drain(2) delay_behind [OF assms(2)]
    by (intro finish_inv) (auto simp: stage_running_def http_acts_def)
next
  case (Close well)
  then show ?thesis
    unfolding Close(1) using assms(2) delay_behind [OF assms(2)]
    by (intro finish_inv) (auto simp: stage_running_def http_acts_def)
next
  case (Flush well)
  then show ?thesis
    unfolding Flush(1) using assms(2) delay_behind [OF assms(2)]
    by (intro finish_inv) (auto simp: stage_running_def http_acts_def)
next
  case Deadline
  have old: "map fst (sd_acts s) = acts_before http (sd_stage s)"
    using assms(2) Deadline(2) by (auto simp: sd_inv_def stage_running_def split: stage.splits)
  have "http \<or> sd_stage s \<noteq> EndpointDelay \<and> sd_stage s \<noteq> DrainHttp"
    using assms(2) by (auto simp: sd_inv_def)
  then have "\<exists>k. map fst (sd_acts s) = take k (acts_before http (Exited 1))"
    unfolding old by (rule acts_before_take)
  then show ?thesis
    unfolding Deadline(1) using assms(2) Deadline(2) by (auto simp: sd_inv_def stage_running_def)
qed

lemma sd_reach_inv: "sd_reach c http s \<Longrightarrow> sd_inv c http s"
proof (induction rule: sd_reach.induct)
  case (Start h t)
  then show ?case
    by (simp add: sd_inv_def serving_def stage_running_def)
next
  case (Step s s')
  then show ?case
    using sd_step_inv by blast
qed

lemma exited_final: "sd_step c http s s' \<Longrightarrow> sd_stage s = Exited n \<Longrightarrow> sd_stage s' = Exited n \<and> sd_acts s' = sd_acts s"
  by (erule sd_stepE) (auto simp: shutdown_signal_def stage_running_def)

text \<open>Nothing has to end for the process to leave: the clock comes to the deadline and the deadline fires.\<close>

lemma deadline_exits:
  assumes "sd_reach c http s" and "stage_running (sd_stage s)"
  shows "\<exists>s1 s2. sd_step c http s s1 \<and> sd_step c http s1 s2 \<and> sd_stage s2 = Exited 1 \<and> sd_now s2 = sd_started s + sc_timeoutMs c"
proof -
  define s1 where "s1 = s\<lparr>sd_now := sd_started s + sc_timeoutMs c\<rparr>"
  have "sd_now s \<le> sd_started s + sc_timeoutMs c"
    using sd_reach_inv [OF assms(1)] assms(2) by (simp add: sd_inv_def)
  then have "sd_step c http s s1"
    unfolding s1_def by (intro sd_step.Tick) simp_all
  moreover have "sd_step c http s1 (s1\<lparr>sd_stage := Exited 1\<rparr>)"
    using assms(2) by (intro sd_step.Deadline) (simp_all add: s1_def)
  ultimately show ?thesis
    by (intro exI [of _ s1] exI [of _ "s1\<lparr>sd_stage := Exited 1\<rparr>"]) (simp add: s1_def)
qed

definition example_shutdown :: shutdown_config where
  "example_shutdown = \<lparr>sc_timeoutMs = 25000, sc_delayMs = 5000\<rparr>"

lemma example_reach:
  "sd_reach example_shutdown True (finish DrainHttp DelayPassed True ((shutdown_signal True (serving new_registry 0))\<lparr>sd_now := 5000\<rparr>))"
proof -
  have r: "sd_reach example_shutdown True (serving new_registry 0)"
    by (rule sd_reach.Start) (simp add: new_registry_def)
  then have r1: "sd_reach example_shutdown True (shutdown_signal True (serving new_registry 0))"
    using sd_step.Signal by (rule sd_reach.Step)
  have "sd_step example_shutdown True (shutdown_signal True (serving new_registry 0))
      ((shutdown_signal True (serving new_registry 0))\<lparr>sd_now := 5000\<rparr>)"
    by (rule sd_step.Tick) (simp_all add: shutdown_signal_def begin_sequence_def serving_def example_shutdown_def)
  with r1 have r2: "sd_reach example_shutdown True ((shutdown_signal True (serving new_registry 0))\<lparr>sd_now := 5000\<rparr>)"
    by (rule sd_reach.Step)
  show ?thesis
    by (rule sd_reach.Step [OF r2], rule sd_step.Delay)
       (simp_all add: shutdown_signal_def begin_sequence_def serving_def example_shutdown_def)
qed

text \<open>
  C26. The shutdown of a process, whatever signals come, whatever time passes and however its steps end, or do not: what
  has been done is always a beginning of \<open>not ready, delay, drain, close, flush\<close> in that order (without a server: \<open>close,
  flush\<close>), so HTTP has drained before the application is closed; from the first signal the readiness check answers 503
  whatever the checks say; nothing after the readiness flip is done before the endpoint delay has passed, which is before
  the deadline; while it runs the clock has not passed the deadline, at which the process can always leave; it leaves
  with 0 only when every step was done and none failed, else with 1.
\<close>

theorem shutdown_ordered:
  assumes "sd_reach c http s" and "enableGracefulShutdown number e hooks = Inr c"
  shows "(\<exists>k. map fst (sd_acts s) = take k (acts_before http (Exited 0))) \<and>
    (http \<and> sd_stage s \<noteq> Serving \<longrightarrow> readyz_code (fst (health_report answers (sd_health s))) = 503) \<and>
    (\<forall>(a, t) \<in> set (sd_acts s). t \<le> sd_started s + sc_timeoutMs c \<and>
       (http \<and> a \<noteq> WentNotReady \<longrightarrow> sd_started s + sc_delayMs c \<le> t)) \<and> sc_delayMs c < sc_timeoutMs c \<and>
    (stage_running (sd_stage s) \<longrightarrow> sd_now s \<le> sd_started s + sc_timeoutMs c \<and>
       (\<exists>s1 s2. sd_step c http s s1 \<and> sd_step c http s1 s2 \<and> sd_stage s2 = Exited 1)) \<and>
    (\<forall>n. sd_stage s = Exited n \<longrightarrow> n \<le> 1 \<and> (n = 0 \<longrightarrow> map fst (sd_acts s) = acts_before http (Exited 0) \<and> \<not> sd_failed s))"
proof -
  have inv: "sd_inv c http s"
    using assms(1) by (rule sd_reach_inv)
  have p: "\<exists>k. map fst (sd_acts s) = take k (acts_before http (Exited 0))"
  proof (cases "sd_stage s")
    case (Exited n)
    then have "\<exists>k m. map fst (sd_acts s) = take k (acts_before http (Exited m))"
      using inv exited_take [of http 0 0] by (cases "n = 0") (auto simp: sd_inv_def simp del: acts_before.simps(6))
    then show ?thesis
      by simp
  qed (use inv acts_before_take [of http "sd_stage s" 0] in \<open>auto simp: sd_inv_def\<close>)
  show ?thesis
    using inv p draining_not_ready delay_below_timeout [OF assms(2)] deadline_exits [OF assms(1)]
    by (auto simp: sd_inv_def split: if_splits)
qed

theorem shutdown_ordered_witness:
  "let s = finish DrainHttp DelayPassed True ((shutdown_signal True (serving new_registry 0))\<lparr>sd_now := 5000\<rparr>) in
   readyz_code (fst (health_report [] (sd_health s))) = 503 \<and> sd_now s \<le> sd_started s + 25000"
proof -
  have c: "enableGracefulShutdown (\<lambda>_. None) [''KUBERNETES_SERVICE_HOST'' \<mapsto> ''10.0.0.1''] False = Inr example_shutdown"
    by (simp add: enableGracefulShutdown_def readMs_def DEFAULT_SHUTDOWN_MS_def DEFAULT_DRAIN_DELAY_MS_def present_def
        example_shutdown_def)
  show ?thesis
    using shutdown_ordered [OF example_reach c, of "[]"]
    by (simp add: Let_def finish_def stage_running_def example_shutdown_def)
qed

end
