(* ===== verification/ExclusiveJob.thy ===== *)
theory ExclusiveJob
  imports Shutdown Cache
begin

text \<open>
  A scheduled job on one pod at a time (\<open>platform-runtime/src/scheduling/exclusive-job.service.ts\<close>): a lock of the cache when
  there is one, an advisory lock of PostgreSQL when there is none, and neither when there is no pool. The job is a function
  on the world, so what other pods do while it runs is part of it.
\<close>

datatype job_note =
    StillRunningHere string | RunningElsewhere string | RunningElsewherePg string | Unlocked string | Outlived string
  | JobTimed string bool

record 's job_world =
  jw_now :: msec
  jw_available :: bool
  jw_store :: 's
  jw_sessions :: sessions
  jw_running :: "string list"
  jw_notes :: "job_note list"

datatype ('x) job_error = JobThrew 'x | LockFailed cache_error | LockNotAsked thrown_value

definition jot :: "job_note \<Rightarrow> 's job_world \<Rightarrow> 's job_world" where
  "jot n w = w\<lparr>jw_notes := jw_notes w @ [n]\<rparr>"

definition cron_key :: "string \<Rightarrow> string" where
  "cron_key name = ''cron:'' @ name"

text \<open>The pool's sessions inside the job's world.\<close>

definition world_deps :: "nat \<Rightarrow> ('s job_world \<Rightarrow> ('x + unit) \<times> 's job_world) \<Rightarrow> ('x, unit, 's job_world) lock_deps" where
  "world_deps me fn =
     (let pd = pg_deps me (\<lambda>ss. (Inr (), ss)) :: ('x, unit, sessions) lock_deps
      in \<lparr>ld_connect = (\<lambda>w. let (r, ss) = ld_connect pd (jw_sessions w) in (r, w\<lparr>jw_sessions := ss\<rparr>)),
          ld_tryLock = (\<lambda>k w. let (r, ss) = ld_tryLock pd k (jw_sessions w) in (r, w\<lparr>jw_sessions := ss\<rparr>)),
          ld_unlock = (\<lambda>k w. let (r, ss) = ld_unlock pd k (jw_sessions w) in (r, w\<lparr>jw_sessions := ss\<rparr>)),
          ld_release = (\<lambda>d w. w\<lparr>jw_sessions := ld_release pd d (jw_sessions w)\<rparr>),
          ld_fn = fn\<rparr>)"

definition runWithoutCache ::
  "nat option \<Rightarrow> string \<Rightarrow> ('s job_world \<Rightarrow> ('x + unit) \<times> 's job_world) \<Rightarrow> 's job_world \<Rightarrow> ('x job_error + unit) \<times> 's job_world" where
  "runWithoutCache pool name fn w =
     (case pool of
        None \<Rightarrow> (let (r, w') = fn (jot (Unlocked name) w) in (map_sum JobThrew id r, w'))
      | Some me \<Rightarrow>
          (case withAdvisoryLock (world_deps me fn) (cron_key name) w of
             (Inl (NotConnected e), w') \<Rightarrow> (Inl (LockNotAsked e), w')
           | (Inl (FnThrew x), w') \<Rightarrow> (Inl (JobThrew x), w')
           | (Inr (Some _), w') \<Rightarrow> (Inr (), w')
           | (Inr None, w') \<Rightarrow> (Inr (), jot (RunningElsewherePg name) w')))"

definition runExclusively ::
  "'s valkey \<Rightarrow> string \<Rightarrow> nat option \<Rightarrow> string \<Rightarrow> js_int \<Rightarrow> ('s job_world \<Rightarrow> ('x + unit) \<times> 's job_world) \<Rightarrow> 's job_world \<Rightarrow>
    ('x job_error + unit) \<times> 's job_world" where
  "runExclusively vk token pool name lockTtlMs fn w =
     (if \<not> jw_available w then runWithoutCache pool name fn w
      else
        (case tryLock vk True (jw_now w) (cron_key name) lockTtlMs token (jw_store w) of
           (Inl e, s) \<Rightarrow> (Inl (LockFailed e), w\<lparr>jw_store := s\<rparr>)
         | (Inr None, s) \<Rightarrow> (Inr (), jot (RunningElsewhere name) (w\<lparr>jw_store := s\<rparr>))
         | (Inr (Some lk), s) \<Rightarrow>
             (let (r, w1) = fn (w\<lparr>jw_store := s\<rparr>);
                  (freed, lk', s1) = lock_release vk (jw_available w1) (jw_now w1) lk (jw_store w1);
                  w2 = w1\<lparr>jw_store := s1\<rparr>
              in (map_sum JobThrew id r, if freed then w2 else jot (Outlived name) w2))))"

text \<open>One tick on one pod: not while the previous one still runs here; timed, and the name given up at the end.\<close>

definition exclusive_run ::
  "'s valkey \<Rightarrow> string \<Rightarrow> nat option \<Rightarrow> string \<Rightarrow> js_int \<Rightarrow> ('s job_world \<Rightarrow> ('x + unit) \<times> 's job_world) \<Rightarrow> 's job_world \<Rightarrow>
    ('x job_error + unit) \<times> 's job_world" where
  "exclusive_run vk token pool name lockTtlMs fn w =
     (if List.member (jw_running w) name then (Inr (), jot (StillRunningHere name) w)
      else
        (let (r, w') = runExclusively vk token pool name lockTtlMs fn (w\<lparr>jw_running := name # jw_running w\<rparr>)
         in (r, jot (JobTimed name (is_ok r)) (w'\<lparr>jw_running := removeAll name (jw_running w')\<rparr>))))"

text \<open>A pod that finds the lock taken does not run the job: whatever the job is, the world is what it was, but for the notes.\<close>

lemma taken_elsewhere_skips:
  assumes "valkey_strings vk" and "jw_available w" and "0 < n" and "vk_get vk (jw_now w) (lock_key (cron_key name)) (jw_store w) \<noteq> None"
    and "\<not> List.member (jw_running w) name"
  shows "\<exists>w'. (\<forall>fn. exclusive_run vk token pool name (Some n) fn w = (Inr (), w')) \<and> jw_store w' = jw_store w"
  using assms valkey_strings.setnx_taken [OF assms(1,4)]
  by (auto simp: exclusive_run_def runExclusively_def tryLock_def positive_int_def jot_def)

text \<open>Without a cache, a session elsewhere that holds the advisory lock stops the job here.\<close>

lemma taken_elsewhere_skips_pg:
  assumes "\<not> jw_available w" and "ss_holder (jw_sessions w) (cron_key name) = Some h" and "h \<noteq> me" and "me \<in> ss_free (jw_sessions w)"
  shows "runWithoutCache (Some me) name fn w = (Inr (), jot (RunningElsewherePg name) w)"
  using assms by (simp add: runWithoutCache_def withAdvisoryLock_def world_deps_def pg_deps_def insert_absorb Let_def)

text \<open>A job that ends within its lease frees the lock, thrown or not; one that outlived it touches nobody's.\<close>

lemma lock_freed_after_run:
  assumes v: "valkey_strings vk" and "jw_available w" and "0 < n" and "vk_get vk (jw_now w) (lock_key (cron_key name)) (jw_store w) = None"
    and fn: "fn (w\<lparr>jw_store := vk_set vk (jw_now w) (lock_key (cron_key name)) token (Some (nat n)) (jw_store w)\<rparr>) = (r, w1)"
    and "jw_available w1"
  shows "let (res, w') = runExclusively vk token pool name (Some n) fn w in
    res = map_sum JobThrew id r \<and>
    (vk_get vk (jw_now w1) (lock_key (cron_key name)) (jw_store w1) = Some token \<longrightarrow>
       vk_get vk (jw_now w1) (lock_key (cron_key name)) (jw_store w') = None) \<and>
    (vk_get vk (jw_now w1) (lock_key (cron_key name)) (jw_store w1) \<noteq> Some token \<longrightarrow> jw_store w' = jw_store w1)"
proof -
  let ?k = "lock_key (cron_key name)"
  note setnx = valkey_strings.setnx_free [OF v assms(4)]
  have rel: "lock_release vk True (jw_now w1) \<lparr>lk_key = cron_key name, lk_token = token, lk_released = False\<rparr> (jw_store w1) =
     (if vk_get vk (jw_now w1) ?k (jw_store w1) = Some token
      then (fst (vk_del vk (jw_now w1) ?k (jw_store w1)) = 1, \<lparr>lk_key = cron_key name, lk_token = token, lk_released = True\<rparr>,
            snd (vk_del vk (jw_now w1) ?k (jw_store w1)))
      else (False, \<lparr>lk_key = cron_key name, lk_token = token, lk_released = True\<rparr>, jw_store w1))"
    by (simp add: lock_release_def release_lua_def split_beta)
  show ?thesis
    using assms(2,3,6) setnx fn rel valkey_strings.get_del [OF v order_refl, of "jw_now w1" ?k "jw_store w1"]
    by (auto simp: runExclusively_def tryLock_def positive_int_def jot_def Let_def)
qed

end
