(* ===== verification/IdentityDomains.thy ===== *)
theory IdentityDomains
  imports ExclusiveJob
begin

text \<open>
  Domains of addresses and the guard on addresses the server is asked to fetch (\<open>identity/src/domains.ts\<close>, \<open>ssrf.ts\<close>).
  The parser of URLs, the classification of a host as public (Better Auth's) and the resolver are parameters.
\<close>

section \<open>Splitting\<close>

fun js_split :: "char \<Rightarrow> string \<Rightarrow> string list" where
  "js_split x [] = [[]]"
| "js_split x (c # cs) =
     (if c = x then [] # js_split x cs
      else (case js_split x cs of [] \<Rightarrow> [[c]] | p # ps \<Rightarrow> (c # p) # ps))"

lemma js_split_not_Nil [simp]: "js_split x s \<noteq> []"
  by (induction x s rule: js_split.induct) (auto split: list.split)

lemma js_split_none: "x \<notin> set s \<Longrightarrow> js_split x s = [s]"
  by (induction x s rule: js_split.induct) auto

lemma js_split_append: "x \<notin> set a \<Longrightarrow> js_split x (a @ x # b) = a # js_split x b"
  by (induction a) auto

lemma length_js_split: "length (js_split x s) = Suc (length (filter (\<lambda>c. c = x) s))"
  by (induction x s rule: js_split.induct) (auto split: list.split)

section \<open>Domains of an address\<close>

definition emailDomain :: "string \<Rightarrow> string" where
  "emailDomain email =
     (case js_split (CHR ''@'') email of [a, d] \<Rightarrow> js_lower (js_trim d) | _ \<Rightarrow> [])"

definition trim_lower :: "string \<Rightarrow> string" where
  "trim_lower d = js_lower (js_trim d)"

text \<open>One domain, a list of them separated by commas, or an array; nothing when it is not given.\<close>

datatype domains_given = NoDomains | DomainText string | DomainList "string list"

definition parseDomains :: "domains_given \<Rightarrow> string list" where
  "parseDomains ds =
     filter (\<lambda>d. d \<noteq> []) (map trim_lower
       (case ds of NoDomains \<Rightarrow> [] | DomainText t \<Rightarrow> js_split (CHR '','') t | DomainList l \<Rightarrow> l))"

definition ends_with :: "string \<Rightarrow> string \<Rightarrow> bool" where
  "ends_with s suffix_text \<longleftrightarrow> suffix suffix_text s"

definition domainIn :: "string \<Rightarrow> domains_given \<Rightarrow> bool" where
  "domainIn domain ds =
     (let d = trim_lower domain in
      d \<noteq> [] \<and> list_ex (\<lambda>allowed. d = allowed \<or> ends_with d (CHR ''.'' # allowed)) (parseDomains ds))"

definition emailInDomains :: "string \<Rightarrow> domains_given \<Rightarrow> bool" where
  "emailInDomains email ds = domainIn (emailDomain email) ds"

lemma two_ats_no_domain: "2 \<le> length (filter (\<lambda>c. c = CHR ''@'') email) \<Longrightarrow> emailDomain email = []"
  using length_js_split [of "CHR ''@''" email]
  by (auto simp: emailDomain_def split: list.split)

section \<open>Staff domains\<close>

definition WILDCARD :: string where "WILDCARD = ''*.''"

definition LABEL :: "string \<Rightarrow> bool" where
  "LABEL l \<longleftrightarrow> l \<noteq> [] \<and> length l \<le> 63 \<and> list_all (\<lambda>c. is_lower c \<or> is_digit c \<or> c = CHR ''-'') l \<and>
     (is_lower (hd l) \<or> is_digit (hd l)) \<and> (is_lower (last l) \<or> is_digit (last l))"

definition HOSTNAME :: "string \<Rightarrow> bool" where
  "HOSTNAME s = list_all LABEL (js_split (CHR ''.'') s)"

definition SHARED_SECOND_LEVEL :: "string list" where
  "SHARED_SECOND_LEVEL = [''com'', ''net'', ''org'', ''edu'', ''gov'', ''ac'', ''co'', ''mil'', ''or'', ''ne'', ''go'', ''gob'', ''gv'']"

definition SHARED_HOSTS :: "string list" where
  "SHARED_HOSTS = [''github.io'', ''pages.dev'', ''workers.dev'', ''vercel.app'', ''netlify.app'', ''herokuapp.com'',
     ''azurewebsites.net'', ''blogspot.com'', ''cloudfront.net'', ''amazonaws.com'']"

definition isSharedSuffix :: "string \<Rightarrow> bool" where
  "isSharedSuffix host =
     ((case js_split (CHR ''.'') host of [a, b] \<Rightarrow> List.member SHARED_SECOND_LEVEL a | _ \<Rightarrow> False) \<or> List.member SHARED_HOSTS host)"

definition is_wildcard :: "string \<Rightarrow> bool" where
  "is_wildcard e \<longleftrightarrow> take 2 e = WILDCARD"

datatype domains_problem = NotText | NotDomain string | WholeTld string | SharedSuffix string

definition entry_problem :: "jsval \<Rightarrow> domains_problem option" where
  "entry_problem entry =
     (case entry of
        JStr e \<Rightarrow>
          (let v = trim_lower e; wild = is_wildcard v; host = (if wild then drop 2 v else v) in
           if \<not> HOSTNAME host then Some (NotDomain e)
           else if wild \<and> CHR ''.'' \<notin> set host then Some (WholeTld e)
           else if wild \<and> isSharedSuffix host then Some (SharedSuffix e)
           else None)
      | _ \<Rightarrow> Some NotText)"

fun staffDomainsProblem :: "jsval list \<Rightarrow> domains_problem option" where
  "staffDomainsProblem [] = None"
| "staffDomainsProblem (e # es) = (case entry_problem e of Some p \<Rightarrow> Some p | None \<Rightarrow> staffDomainsProblem es)"

definition normalizeStaffDomains :: "string list \<Rightarrow> string list" where
  "normalizeStaffDomains ds = filter (\<lambda>d. d \<noteq> []) (map trim_lower ds)"

definition staffDomainIn :: "string \<Rightarrow> string list \<Rightarrow> bool" where
  "staffDomainIn domain entries =
     (let d = trim_lower domain in
      HOSTNAME d \<and> list_ex (\<lambda>e. if is_wildcard e then ends_with d (drop 1 e) else d = e) entries)"

definition staffEmailIn :: "string \<Rightarrow> string list \<Rightarrow> bool" where
  "staffEmailIn email entries = staffDomainIn (emailDomain email) entries"

definition staffReservedDomains :: "string list \<Rightarrow> string list" where
  "staffReservedDomains entries = map (\<lambda>e. if is_wildcard e then drop 2 e else e) entries"

text \<open>An exact entry admits itself alone, a wildcard entry the names with a label more in front of it, and no look-alike.\<close>

lemma staff_exact: "\<not> is_wildcard e \<Longrightarrow> staffDomainIn d [e] \<longleftrightarrow> trim_lower d = e \<and> HOSTNAME e"
  by (auto simp: staffDomainIn_def Let_def)

lemma wildcard_split: "is_wildcard e \<Longrightarrow> e = CHR ''*'' # CHR ''.'' # drop 2 e"
  by (cases e; cases "tl e") (auto simp: is_wildcard_def WILDCARD_def)

lemma staff_wildcard:
  assumes "is_wildcard e"
  shows "staffDomainIn d [e] \<longleftrightarrow> HOSTNAME (trim_lower d) \<and> (\<exists>sub. trim_lower d = sub @ CHR ''.'' # drop 2 e)"
proof -
  obtain h where e: "e = CHR ''*'' # CHR ''.'' # h"
    using wildcard_split [OF assms] by metis
  then show ?thesis
    using assms by (simp add: staffDomainIn_def Let_def ends_with_def suffix_def)
qed

lemma hostname_front: "HOSTNAME (sub @ CHR ''.'' # h) \<Longrightarrow> sub \<noteq> []"
  by (auto simp: HOSTNAME_def LABEL_def)

text \<open>A wildcard entry does not admit the domain it is written with.\<close>

lemma wildcard_excludes_itself: "is_wildcard e \<Longrightarrow> trim_lower d = drop 2 e \<Longrightarrow> \<not> staffDomainIn d [e]"
  by (auto simp: staff_wildcard)

lemma trim_lower_idem_normal: "d \<in> set (normalizeStaffDomains ds) \<Longrightarrow> d \<noteq> []"
  by (simp add: normalizeStaffDomains_def)

text \<open>The domains reserved against a public sign-up cover the staff domains.\<close>

lemma staff_is_reserved:
  assumes "staffDomainIn d entries" and "\<forall>e\<in>set entries. trim_lower e = e \<and> (is_wildcard e \<longrightarrow> trim_lower (drop 2 e) = drop 2 e \<and> drop 2 e \<noteq> [])"
  shows "domainIn d (DomainList (staffReservedDomains entries))"
proof -
  obtain e where e: "e \<in> set entries" "if is_wildcard e then ends_with (trim_lower d) (drop 1 e) else trim_lower d = e"
    and h: "HOSTNAME (trim_lower d)"
    using assms(1) by (auto simp: staffDomainIn_def Let_def list_ex_iff)
  have ne: "trim_lower d \<noteq> []"
    using h by (auto simp: HOSTNAME_def LABEL_def)
  show ?thesis
  proof (cases "is_wildcard e")
    case True
    then have "drop 2 e \<in> set (parseDomains (DomainList (staffReservedDomains entries)))"
      using e(1) assms(2) by (force simp: parseDomains_def staffReservedDomains_def image_iff)
    moreover have "drop 1 e = CHR ''.'' # drop 2 e"
      using wildcard_split [OF True] by (metis One_nat_def drop0 drop_Suc_Cons)
    ultimately show ?thesis
      using e(2) True ne by (auto simp: domainIn_def Let_def list_ex_iff)
  next
    case False
    then have "e \<in> set (parseDomains (DomainList (staffReservedDomains entries)))"
      using e assms(2) ne by (force simp: parseDomains_def staffReservedDomains_def image_iff)
    then show ?thesis
      using e(2) False ne by (auto simp: domainIn_def Let_def list_ex_iff)
  qed
qed

section \<open>The guard on fetched URLs\<close>

record parsed_url =
  pu_protocol :: string
  pu_username :: string
  pu_password :: string
  pu_hostname :: string

datatype ssrf_reason =
    NotUrl | HttpsRequired | HttpOrHttpsRequired | CredentialsInUrl | HostNotPublic | DoesNotResolve | NonPublicAddress | Redirects

text \<open>\<open>hostname.replace(/^\[|\]$/g, '')\<close>: a bracket at either end.\<close>

definition unbracket :: "string \<Rightarrow> string" where
  "unbracket h =
     (let a = (case h of c # cs \<Rightarrow> if c = CHR ''['' then cs else h | [] \<Rightarrow> []) in
      if a \<noteq> [] \<and> last a = CHR '']'' then butlast a else a)"

record ssrf_policy =
  sp_resolve :: "string \<Rightarrow> string list option"
  sp_allowLocalNetwork :: bool

definition assertSafeUrl ::
  "(string \<Rightarrow> parsed_url option) \<Rightarrow> (string \<Rightarrow> bool) \<Rightarrow> (string \<Rightarrow> bool) \<Rightarrow> string \<Rightarrow> ssrf_policy \<Rightarrow> ssrf_reason + parsed_url" where
  "assertSafeUrl parse is_ip is_public raw policy =
     (case parse raw of
        None \<Rightarrow> Inl NotUrl
      | Some url \<Rightarrow>
          if \<not> sp_allowLocalNetwork policy \<and> pu_protocol url \<noteq> ''https:'' then Inl HttpsRequired
          else if sp_allowLocalNetwork policy \<and> pu_protocol url \<noteq> ''https:'' \<and> pu_protocol url \<noteq> ''http:'' then Inl HttpOrHttpsRequired
          else if pu_username url \<noteq> [] \<or> pu_password url \<noteq> [] then Inl CredentialsInUrl
          else if sp_allowLocalNetwork policy then Inr url
          else
            let host = unbracket (pu_hostname url) in
            if \<not> is_ip host \<and> \<not> is_public host then Inl HostNotPublic
            else
              let addresses = (if is_ip host then [host] else case sp_resolve policy host of None \<Rightarrow> [] | Some as \<Rightarrow> as) in
              if addresses = [] then Inl DoesNotResolve
              else if \<not> list_all is_public addresses then Inl NonPublicAddress
              else Inr url)"

definition assertNoRedirect :: "string + nat \<Rightarrow> ssrf_reason + unit" where
  "assertNoRedirect answer =
     (case answer of
        Inl _ \<Rightarrow> Inr ()
      | Inr status \<Rightarrow> if 300 \<le> status \<and> status < 400 then Inl Redirects else Inr ())"

text \<open>The URLs of a provider's configuration the server will fetch; stored as text it is parsed.\<close>

definition oidcFetchUrls :: "jsval \<Rightarrow> jsval \<Rightarrow> string list" where
  "oidcFetchUrls issuer oidcConfig =
     (let config = (case oidcConfig of
                      JStr t \<Rightarrow> (case json_parse t of None \<Rightarrow> JObj [] | Some v \<Rightarrow> v)
                    | v \<Rightarrow> v);
          keys = [''discoveryEndpoint'', ''authorizationEndpoint'', ''tokenEndpoint'', ''jwksEndpoint'', ''userInfoEndpoint'']
      in List.map_filter (\<lambda>v. case v of JStr s \<Rightarrow> if s \<noteq> [] then Some s else None | _ \<Rightarrow> None)
           (issuer # map (\<lambda>k. property_of k config) keys))"

lemma safe_url_public:
  assumes "assertSafeUrl parse is_ip is_public raw policy = Inr url" and "\<not> sp_allowLocalNetwork policy"
  shows "pu_protocol url = ''https:'' \<and> pu_username url = [] \<and> pu_password url = [] \<and>
    (let host = unbracket (pu_hostname url) in
     is_public host \<and> (\<not> is_ip host \<longrightarrow> (\<exists>as. sp_resolve policy host = Some as \<and> as \<noteq> [] \<and> (\<forall>a\<in>set as. is_public a))))"
  using assms by (auto simp: assertSafeUrl_def Let_def list_all_iff split: option.splits if_splits)

end
