(* ===== verification/BetterAuth.thy ===== *)
theory BetterAuth
  imports IdentityDomains
begin

text \<open>
  The slice of Better Auth the identity package works on: users, accounts and sessions, and the calls of its internal and
  database adapters. Better Auth is not part of the repository, so the calls are a record, an argument of every definition
  that makes one, and the locale states what the package relies on: what a read answers after a write. The table kept as
  lists at the end interprets it. Dates are milliseconds since the epoch.
\<close>

record auth_user =
  u_id :: string
  u_email :: string
  u_emailVerified :: bool
  u_banned :: bool
  u_banExpires :: "int option"
  u_createdAt :: int
  u_updatedAt :: int

record auth_account =
  ac_userId :: string
  ac_providerId :: string
  ac_accountId :: string
  ac_password :: "string option"
  ac_updatedAt :: int

record auth_session =
  se_token :: string
  se_userId :: string
  se_createdAt :: int
  se_expiresAt :: int
  se_contextId :: "string option"

text \<open>
  \<open>ad_sessions\<close> reads the session rows of the database, \<open>ad_listSessions\<close> goes through the secondary storage.
  \<open>ad_touchUser\<close> is \<open>updateUser\<close> with an \<open>updatedAt\<close>; \<open>ad_casUser\<close> is \<open>updateMany\<close> of the user with an id and an \<open>updatedAt\<close>,
  answering the number of rows changed.
\<close>

record 'w adapter =
  ad_userById :: "string \<Rightarrow> 'w \<Rightarrow> auth_user option"
  ad_userByEmail :: "string \<Rightarrow> 'w \<Rightarrow> auth_user option"
  ad_accounts :: "string \<Rightarrow> 'w \<Rightarrow> auth_account list"
  ad_sessions :: "string \<Rightarrow> 'w \<Rightarrow> auth_session list"
  ad_listSessions :: "string \<Rightarrow> 'w \<Rightarrow> auth_session list"
  ad_sessionRow :: "string \<Rightarrow> 'w \<Rightarrow> auth_session option"
  ad_usersWhere :: "(auth_user \<Rightarrow> bool) \<Rightarrow> nat \<Rightarrow> 'w \<Rightarrow> auth_user list"
  ad_deleteUser :: "string \<Rightarrow> 'w \<Rightarrow> 'w"
  ad_deleteSessions :: "string list \<Rightarrow> 'w \<Rightarrow> 'w"
  ad_touchUser :: "string \<Rightarrow> int \<Rightarrow> 'w \<Rightarrow> 'w"
  ad_casUser :: "string \<Rightarrow> int \<Rightarrow> int \<Rightarrow> 'w \<Rightarrow> nat \<times> 'w"

locale auth_adapter =
  fixes ad :: "'w adapter"
  assumes byId_id: "ad_userById ad i w = Some u \<Longrightarrow> u_id u = i"
    and byEmail_byId: "ad_userByEmail ad e w = Some u \<Longrightarrow> u_email u = e \<and> ad_userById ad (u_id u) w = Some u"
    and sessions_of: "s \<in> set (ad_sessions ad i w) \<Longrightarrow> se_userId s = i"
    and usersWhere: "u \<in> set (ad_usersWhere ad P n w) \<Longrightarrow> P u \<and> ad_userById ad (u_id u) w = Some u"
    and usersWhere_limit: "length (ad_usersWhere ad P n w) \<le> n"
    and byId_touch: "ad_userById ad i (ad_touchUser ad j t w) =
      (if i = j then map_option (u_updatedAt_update (\<lambda>_. t)) (ad_userById ad i w) else ad_userById ad i w)"
    and accounts_touch: "ad_accounts ad i (ad_touchUser ad j t w) = ad_accounts ad i w"
    and cas_moves: "map_option u_updatedAt (ad_userById ad i w) = Some old \<Longrightarrow>
      ad_casUser ad i old new w = (1, ad_touchUser ad i new w)"
    and cas_keeps: "map_option u_updatedAt (ad_userById ad i w) \<noteq> Some old \<Longrightarrow> ad_casUser ad i old new w = (0, w)"
    and byId_deleteUser: "ad_userById ad i (ad_deleteUser ad j w) = (if i = j then None else ad_userById ad i w)"
    and accounts_deleteUser: "ad_accounts ad i (ad_deleteUser ad j w) = (if i = j then [] else ad_accounts ad i w)"
    and sessions_deleteUser: "ad_sessions ad i (ad_deleteUser ad j w) = (if i = j then [] else ad_sessions ad i w)"
    and sessions_deleteSessions: "ad_sessions ad i (ad_deleteSessions ad ts w) =
      filter (\<lambda>s. se_token s \<notin> set ts) (ad_sessions ad i w)"
    and byId_deleteSessions: "ad_userById ad i (ad_deleteSessions ad ts w) = ad_userById ad i w"
begin

lemma updatedAt_touch:
  "ad_userById ad i w \<noteq> None \<Longrightarrow> map_option u_updatedAt (ad_userById ad i (ad_touchUser ad i t w)) = Some t"
  by (auto simp: byId_touch)

lemma cas_once:
  assumes "ad_casUser ad i old new w = (1, w')" "new \<noteq> old"
  shows "ad_casUser ad i old new' w' = (0, w')"
proof -
  have m: "map_option u_updatedAt (ad_userById ad i w) = Some old"
    using assms cas_keeps [of i w old new] by (cases "map_option u_updatedAt (ad_userById ad i w) = Some old") auto
  then have "w' = ad_touchUser ad i new w"
    using assms(1) cas_moves [of i w old new] by simp
  moreover have "ad_userById ad i w \<noteq> None"
    using m by auto
  ultimately have "map_option u_updatedAt (ad_userById ad i w') = Some new"
    using updatedAt_touch by simp
  then show ?thesis
    using assms(2) by (intro cas_keeps) auto
qed

end

section \<open>Tables kept as lists\<close>

record mem_auth =
  ma_users :: "auth_user list"
  ma_accounts :: "auth_account list"
  ma_sessions :: "auth_session list"

definition ma_user :: "string \<Rightarrow> mem_auth \<Rightarrow> auth_user option" where
  "ma_user i w = find (\<lambda>u. u_id u = i) (ma_users w)"

definition ma_touch :: "string \<Rightarrow> int \<Rightarrow> mem_auth \<Rightarrow> mem_auth" where
  "ma_touch i t w = w\<lparr>ma_users := map (\<lambda>u. if u_id u = i then u\<lparr>u_updatedAt := t\<rparr> else u) (ma_users w)\<rparr>"

definition ma_byEmail :: "string \<Rightarrow> mem_auth \<Rightarrow> auth_user option" where
  "ma_byEmail e w = find (\<lambda>u. u_email u = e \<and> ma_user (u_id u) w = Some u) (ma_users w)"

definition ma_delete :: "string \<Rightarrow> mem_auth \<Rightarrow> mem_auth" where
  "ma_delete i w =
     \<lparr>ma_users = filter (\<lambda>u. u_id u \<noteq> i) (ma_users w), ma_accounts = filter (\<lambda>a. ac_userId a \<noteq> i) (ma_accounts w),
      ma_sessions = filter (\<lambda>s. se_userId s \<noteq> i) (ma_sessions w)\<rparr>"

definition mem_adapter :: "mem_auth adapter" where
  "mem_adapter =
     \<lparr>ad_userById = ma_user, ad_userByEmail = ma_byEmail,
      ad_accounts = (\<lambda>i w. filter (\<lambda>a. ac_userId a = i) (ma_accounts w)),
      ad_sessions = (\<lambda>i w. filter (\<lambda>s. se_userId s = i) (ma_sessions w)),
      ad_listSessions = (\<lambda>i w. filter (\<lambda>s. se_userId s = i) (ma_sessions w)),
      ad_sessionRow = (\<lambda>t w. find (\<lambda>s. se_token s = t) (ma_sessions w)),
      ad_usersWhere = (\<lambda>P n w. take n (filter (\<lambda>u. P u \<and> ma_user (u_id u) w = Some u) (ma_users w))),
      ad_deleteUser = ma_delete,
      ad_deleteSessions = (\<lambda>ts w. w\<lparr>ma_sessions := filter (\<lambda>s. se_token s \<notin> set ts) (ma_sessions w)\<rparr>),
      ad_touchUser = ma_touch,
      ad_casUser = (\<lambda>i old new w. if map_option u_updatedAt (ma_user i w) = Some old then (1, ma_touch i new w) else (0, w))\<rparr>"

lemma find_map_same:
  assumes "\<And>x. P (f x) = P x"
  shows "find P (map f xs) = map_option f (find P xs)"
  using assms by (induction xs) auto

lemma find_filter_imp: "(\<And>x. P x \<Longrightarrow> Q x) \<Longrightarrow> find P (filter Q xs) = find P xs"
  by (induction xs) auto

lemma find_filter_none: "(\<And>x. P x \<Longrightarrow> \<not> Q x) \<Longrightarrow> find P (filter Q xs) = None"
  by (induction xs) auto

lemma find_congD: "find P xs = Some x \<Longrightarrow> P x \<and> x \<in> set xs"
  by (induction xs) (auto split: if_splits)

lemma ma_user_touch:
  "ma_user i (ma_touch j t w) = (if i = j then map_option (u_updatedAt_update (\<lambda>_. t)) (ma_user i w) else ma_user i w)"
proof -
  let ?f = "\<lambda>u. if u_id u = j then u\<lparr>u_updatedAt := t\<rparr> else u"
  have "ma_user i (ma_touch j t w) = map_option ?f (ma_user i w)"
    unfolding ma_user_def ma_touch_def by (simp add: find_map_same)
  then show ?thesis
    by (cases "ma_user i w") (auto simp: ma_user_def dest: find_congD)
qed

lemma ma_user_sessions [simp]: "ma_user i (w\<lparr>ma_sessions := ss\<rparr>) = ma_user i w"
  by (simp add: ma_user_def)

lemma ma_user_id: "ma_user i w = Some u \<Longrightarrow> u_id u = i"
  by (auto simp: ma_user_def dest: find_congD)

lemma ma_accounts_touch [simp]: "ma_accounts (ma_touch j t w) = ma_accounts w"
  by (simp add: ma_touch_def)

lemma ma_delete_simps [simp]:
  "ma_accounts (ma_delete i w) = filter (\<lambda>a. ac_userId a \<noteq> i) (ma_accounts w)"
  "ma_sessions (ma_delete i w) = filter (\<lambda>s. se_userId s \<noteq> i) (ma_sessions w)"
  by (simp_all add: ma_delete_def)

lemma ma_user_delete: "ma_user i (ma_delete j w) = (if i = j then None else ma_user i w)"
  by (auto simp: ma_user_def ma_delete_def intro: find_filter_imp find_filter_none)

interpretation mem_auth: auth_adapter mem_adapter
proof
  fix w :: mem_auth and u P n
  assume "u \<in> set (ad_usersWhere mem_adapter P n w)"
  then show "P u \<and> ad_userById mem_adapter (u_id u) w = Some u"
    by (auto simp: mem_adapter_def dest: in_set_takeD)
qed (auto simp: mem_adapter_def ma_user_touch ma_user_delete ma_byEmail_def ma_user_sessions filter_filter
    dest: find_congD ma_user_id intro: filter_cong)

end
