(* ===== verification/KnownDevice.thy ===== *)
theory KnownDevice
  imports BetterAuth Base64Url
begin

text \<open>
  The known-device cookie (\<open>identity/src/known-device.ts\<close>): how it is signed, parsed and judged, what it is bound to, and
  how "sign out everywhere" and "sign out other sessions" end it. \<open>mac\<close> is HMAC-SHA256 under the key derived from the
  secret, the name of the cookie and the secret are Better Auth's; the clock is in seconds for the cookie, in milliseconds
  for rows. A function that sets a cookie answers the value set.
\<close>

section \<open>Dates as text\<close>

text \<open>\<open>Date.prototype.toISOString\<close> of a time in milliseconds; \<open>civil\<close> is the Gregorian date of a day.\<close>

definition civil :: "int \<Rightarrow> int \<times> int \<times> int" where
  "civil days =
     (let z = days + 719468; era = z div 146097; doe = z mod 146097;
          yoe = (doe - doe div 1460 + doe div 36524 - doe div 146096) div 365;
          doy = doe - (365 * yoe + yoe div 4 - yoe div 100); mp = (5 * doy + 2) div 153;
          m = (if mp < 10 then mp + 3 else mp - 9)
      in (yoe + era * 400 + (if m \<le> 2 then 1 else 0), m, doy - (153 * mp + 2) div 5 + 1))"

definition pad :: "nat \<Rightarrow> int \<Rightarrow> string" where
  "pad n k = (let t = dec (nat k) in replicate (n - length t) CHR ''0'' @ t)"

definition year_text :: "int \<Rightarrow> string" where
  "year_text y = (if 0 \<le> y \<and> y \<le> 9999 then pad 4 y else if y < 0 then CHR ''-'' # pad 6 (- y) else CHR ''+'' # pad 6 y)"

definition iso_text :: "int \<Rightarrow> string" where
  "iso_text ms =
     (let day = ms div 86400000; t = ms mod 86400000; (y, m, d) = civil day
      in year_text y @ ''-'' @ pad 2 m @ ''-'' @ pad 2 d @ ''T'' @ pad 2 (t div 3600000) @ '':'' @
         pad 2 (t div 60000 mod 60) @ '':'' @ pad 2 (t div 1000 mod 60) @ ''.'' @ pad 3 (t mod 1000) @ ''Z'')"

lemma iso_examples:
  "iso_text 0 = ''1970-01-01T00:00:00.000Z''"
  "iso_text 951782400123 = ''2000-02-29T00:00:00.123Z''"
  "iso_text (- 1) = ''1969-12-31T23:59:59.999Z''"
  by code_simp+

section \<open>The value of the cookie\<close>

definition KNOWN_DEVICE_MAX_AGE :: int where "KNOWN_DEVICE_MAX_AGE = 90 * 24 * 3600"
definition CLOCK_SKEW_SECONDS :: int where "CLOCK_SKEW_SECONDS = 60"

type_synonym mac = "string \<Rightarrow> string \<Rightarrow> nat list"

definition LINE_FEED :: char where "LINE_FEED = CHR 0x0A"

definition device_tag :: "mac \<Rightarrow> string \<Rightarrow> string \<Rightarrow> string \<Rightarrow> string" where
  "device_tag mac secret name payload = base64url (mac secret (name @ [LINE_FEED] @ payload))"

definition signDeviceValue :: "mac \<Rightarrow> string \<Rightarrow> string \<Rightarrow> string \<Rightarrow> string" where
  "signDeviceValue mac secret name payload = payload @ ''.'' @ device_tag mac secret name payload"

record device_value =
  dv_userId :: string
  dv_deviceId :: string
  dv_iat :: nat
  dv_epoch :: string

definition b64_text :: "nat \<Rightarrow> string \<Rightarrow> bool" where
  "b64_text n s \<longleftrightarrow> length s = n \<and> list_all is_b64 s"

text \<open>
  \<open>PATTERN\<close>: six fields between dots, none of which can hold a dot; answers the value and the tag. The payload is the
  text before the last dot.
\<close>

definition device_pattern :: "string \<Rightarrow> (device_value \<times> string) option" where
  "device_pattern raw =
     (case js_split CHR ''.'' raw of
        [v, u, d, i, e, t] \<Rightarrow>
          if v = ''v2'' \<and> u \<noteq> [] \<and> b64_text 24 d \<and> 9 \<le> length i \<and> length i \<le> 12 \<and> list_all is_digit i \<and>
             b64_text 22 e \<and> b64_text 43 t
          then Some (\<lparr>dv_userId = u, dv_deviceId = d, dv_iat = undec i, dv_epoch = e\<rparr>, t)
          else None
      | _ \<Rightarrow> None)"

definition before_last_dot :: "string \<Rightarrow> string" where
  "before_last_dot raw = rev (drop 1 (dropWhile (\<lambda>c. c \<noteq> CHR ''.'') (rev raw)))"

definition parse_device :: "mac \<Rightarrow> string \<Rightarrow> string \<Rightarrow> string option \<Rightarrow> device_value option" where
  "parse_device mac secret name cookie =
     (case cookie of
        None \<Rightarrow> None
      | Some raw \<Rightarrow>
          (case device_pattern raw of
             None \<Rightarrow> None
           | Some (v, tag) \<Rightarrow> if tag = device_tag mac secret name (before_last_dot raw) then Some v else None))"

section \<open>What a device is bound to\<close>

record epoch_inputs =
  ei_userUpdatedAt :: int
  ei_password :: string
  ei_credentialUpdatedAt :: int

definition readEpochInputs :: "'w adapter \<Rightarrow> string \<Rightarrow> 'w \<Rightarrow> epoch_inputs option" where
  "readEpochInputs ad userId w =
     (case (ad_userById ad userId w, find (\<lambda>a. ac_providerId a = ''credential'') (ad_accounts ad userId w)) of
        (Some u, Some c) \<Rightarrow>
          Some \<lparr>ei_userUpdatedAt = u_updatedAt u, ei_password = (case ac_password c of None \<Rightarrow> [] | Some p \<Rightarrow> p),
                ei_credentialUpdatedAt = ac_updatedAt c\<rparr>
      | _ \<Rightarrow> None)"

definition device_fingerprint :: "mac \<Rightarrow> string \<Rightarrow> string \<Rightarrow> epoch_inputs \<Rightarrow> string" where
  "device_fingerprint mac secret userId inputs =
     (let material = userId @ [LINE_FEED] @ ei_password inputs @ [LINE_FEED] @ iso_text (ei_credentialUpdatedAt inputs) @ [LINE_FEED] @
                     iso_text (ei_userUpdatedAt inputs)
      in base64url (take 16 (mac secret (''epoch'' @ [LINE_FEED] @ material))))"

definition epochOf :: "mac \<Rightarrow> string \<Rightarrow> 'w adapter \<Rightarrow> 'w \<Rightarrow> string \<Rightarrow> epoch_inputs option \<Rightarrow> string option" where
  "epochOf mac secret ad w userId known =
     map_option (device_fingerprint mac secret userId)
       (case known of Some i \<Rightarrow> Some i | None \<Rightarrow> readEpochInputs ad userId w)"

definition validDevice ::
  "mac \<Rightarrow> string \<Rightarrow> string \<Rightarrow> 'w adapter \<Rightarrow> 'w \<Rightarrow> string option \<Rightarrow> string option \<Rightarrow> int \<Rightarrow> epoch_inputs option \<Rightarrow>
   (string \<times> nat) option" where
  "validDevice mac secret name ad w cookie userId now inputs =
     (case parse_device mac secret name cookie of
        None \<Rightarrow> None
      | Some device \<Rightarrow>
          let age = now - int (dv_iat device) in
          if KNOWN_DEVICE_MAX_AGE < age \<or> age < - CLOCK_SKEW_SECONDS then None
          else if userId \<noteq> Some (dv_userId device) then None
          else if epochOf mac secret ad w (dv_userId device) inputs = Some (dv_epoch device)
          then Some (dv_deviceId device, dv_iat device)
          else None)"

definition knownDeviceId ::
  "mac \<Rightarrow> string \<Rightarrow> string \<Rightarrow> 'w adapter \<Rightarrow> 'w \<Rightarrow> string option \<Rightarrow> string option \<Rightarrow> int \<Rightarrow> string option" where
  "knownDeviceId mac secret name ad w cookie userId now =
     map_option fst (validDevice mac secret name ad w cookie userId now None)"

definition device_payload :: "string \<Rightarrow> string \<Rightarrow> nat \<Rightarrow> string \<Rightarrow> string" where
  "device_payload userId deviceId iat epoch =
     ''v2'' @ ''.'' @ userId @ ''.'' @ deviceId @ ''.'' @ dec iat @ ''.'' @ epoch"

definition writeDevice ::
  "mac \<Rightarrow> string \<Rightarrow> string \<Rightarrow> 'w adapter \<Rightarrow> 'w \<Rightarrow> string \<Rightarrow> string \<Rightarrow> nat \<Rightarrow> epoch_inputs option \<Rightarrow> string option" where
  "writeDevice mac secret name ad w userId deviceId iat epochInputs =
     map_option (\<lambda>epoch. signDeviceValue mac secret name (device_payload userId deviceId iat epoch))
       (epochOf mac secret ad w userId epochInputs)"

text \<open>\<open>random\<close> is the 18 random bytes of the call.\<close>

definition rememberDevice ::
  "mac \<Rightarrow> string \<Rightarrow> string \<Rightarrow> 'w adapter \<Rightarrow> 'w \<Rightarrow> string option \<Rightarrow> string \<Rightarrow> nat \<Rightarrow> nat list \<Rightarrow> string option" where
  "rememberDevice mac secret name ad w cookie userId now random =
     (if knownDeviceId mac secret name ad w cookie (Some userId) (int now) \<noteq> None then None
      else writeDevice mac secret name ad w userId (base64url random) now None)"

definition bumpDeviceEpoch :: "'w adapter \<Rightarrow> string \<Rightarrow> int \<Rightarrow> 'w \<Rightarrow> 'w" where
  "bumpDeviceEpoch ad userId now w = ad_touchUser ad userId now w"

definition bumpAndReissue ::
  "mac \<Rightarrow> string \<Rightarrow> string \<Rightarrow> 'w adapter \<Rightarrow> int \<Rightarrow> string \<Rightarrow> string \<times> nat \<Rightarrow> epoch_inputs \<Rightarrow> 'w \<Rightarrow> string option \<times> 'w" where
  "bumpAndReissue mac secret name ad now userId device inputs w =
     (let next = max now (ei_userUpdatedAt inputs + 1);
          (won, w') = ad_casUser ad userId (ei_userUpdatedAt inputs) next w
      in if won = 0 then
           (None, if map_option u_updatedAt (ad_userById ad userId w') = Some (ei_userUpdatedAt inputs)
                  then bumpDeviceEpoch ad userId now w' else w')
         else (writeDevice mac secret name ad w' userId (fst device) (snd device) (Some (inputs\<lparr>ei_userUpdatedAt := next\<rparr>)), w'))"

section \<open>What the cookie proves\<close>

lemma no_dot: "is_b64 c \<Longrightarrow> c \<noteq> CHR ''.''" "is_digit c \<Longrightarrow> c \<noteq> CHR ''.''"
  by (auto simp: is_b64_def char_class_defs)

lemma b64_text_no_dot: "b64_text n s \<Longrightarrow> CHR ''.'' \<notin> set s"
  by (auto simp: b64_text_def list_all_iff dest: no_dot)

lemma before_last_dot_append:
  assumes "CHR ''.'' \<notin> set t"
  shows "before_last_dot (p @ CHR ''.'' # t) = p"
proof -
  have "\<forall>c\<in>set (rev t). c \<noteq> CHR ''.''"
    using assms by auto
  then have "dropWhile (\<lambda>c. c \<noteq> CHR ''.'') (rev t @ CHR ''.'' # rev p) = CHR ''.'' # rev p"
    by (rule dropWhile_append_stop) simp
  then show ?thesis
    by (simp add: before_last_dot_def)
qed

lemma digits_no_dot: "CHR ''.'' \<notin> set (dec n)"
  using dec_digits [of n] no_dot(2) by blast

text \<open>A tag of 32 bytes is 43 characters.\<close>

definition tag_sized :: "mac \<Rightarrow> bool" where
  "tag_sized mac \<longleftrightarrow> (\<forall>secret input. length (mac secret input) = 32 \<and> bytes (mac secret input))"

lemma bytes_take: "bytes bs \<Longrightarrow> bytes (take n bs)"
  by (auto simp: bytes_def dest: in_set_takeD)

lemma device_tag_text: "tag_sized mac \<Longrightarrow> b64_text 43 (device_tag mac secret name payload)"
  using base64url_alphabet [of "mac secret (name @ [LINE_FEED] @ payload)"]
  by (auto simp: b64_text_def tag_sized_def device_tag_def length_base64url list_all_iff)

lemma device_fingerprint_text: "tag_sized mac \<Longrightarrow> b64_text 22 (device_fingerprint mac secret userId inputs)"
  by (auto simp: b64_text_def tag_sized_def device_fingerprint_def Let_def length_base64url list_all_iff
      dest!: base64url_alphabet [OF bytes_take, rotated] intro: base64url_alphabet [OF bytes_take, THEN bspec])

text \<open>A value the package signed is read back as it was.\<close>

lemma parse_signed:
  assumes "tag_sized mac" "userId \<noteq> []" "CHR ''.'' \<notin> set userId" "b64_text 24 deviceId" "b64_text 22 epoch"
    and "9 \<le> length (dec iat)" "length (dec iat) \<le> 12"
  shows "parse_device mac secret name (Some (signDeviceValue mac secret name (device_payload userId deviceId iat epoch))) =
    Some \<lparr>dv_userId = userId, dv_deviceId = deviceId, dv_iat = iat, dv_epoch = epoch\<rparr>"
proof -
  let ?p = "device_payload userId deviceId iat epoch"
  let ?t = "device_tag mac secret name ?p"
  have t: "b64_text 43 ?t"
    using assms(1) by (rule device_tag_text)
  note dots = b64_text_no_dot [OF t] b64_text_no_dot [OF assms(4)] b64_text_no_dot [OF assms(5)] digits_no_dot assms(3)
  have "js_split CHR ''.'' (signDeviceValue mac secret name ?p) = [''v2'', userId, deviceId, dec iat, epoch, ?t]"
    using dots by (simp add: signDeviceValue_def device_payload_def js_split_append js_split_none)
  moreover have "before_last_dot (signDeviceValue mac secret name ?p) = ?p"
    using dots by (simp add: signDeviceValue_def before_last_dot_append)
  ultimately show ?thesis
    using assms t dec_digits [of iat] by (simp add: parse_device_def device_pattern_def list_all_iff)
qed

text \<open>
  A cookie counts for a user only if it carries the tag of this secret and this cookie's name over a payload that names the
  user, is not older than its age limit, and holds the fingerprint of the user's password and dates as they are now.
\<close>

lemma valid_cookie_proves:
  assumes "validDevice mac secret name ad w (Some raw) (Some userId) now inputs = Some (deviceId, iat)"
  obtains v tag where "device_pattern raw = Some (v, tag)" "tag = device_tag mac secret name (before_last_dot raw)"
    "dv_userId v = userId" "dv_deviceId v = deviceId" "dv_iat v = iat"
    "now - int iat \<le> KNOWN_DEVICE_MAX_AGE" "- CLOCK_SKEW_SECONDS \<le> now - int iat"
    "epochOf mac secret ad w userId inputs = Some (dv_epoch v)"
  using assms by (auto simp: validDevice_def parse_device_def Let_def split: option.splits if_splits)

text \<open>The cookie a sign-in sets counts, until it is too old, as long as nothing it is bound to changes.\<close>

lemma written_cookie_counts:
  assumes "tag_sized mac" "userId \<noteq> []" "CHR ''.'' \<notin> set userId" "b64_text 24 deviceId"
    and "9 \<le> length (dec iat)" "length (dec iat) \<le> 12"
    and "writeDevice mac secret name ad w userId deviceId iat None = Some raw"
    and "readEpochInputs ad userId w' = readEpochInputs ad userId w"
    and "now - int iat \<le> KNOWN_DEVICE_MAX_AGE" "- CLOCK_SKEW_SECONDS \<le> now - int iat"
  shows "knownDeviceId mac secret name ad w' (Some raw) (Some userId) now = Some deviceId"
proof -
  obtain i where i: "readEpochInputs ad userId w = Some i"
    and raw: "raw = signDeviceValue mac secret name (device_payload userId deviceId iat (device_fingerprint mac secret userId i))"
    using assms(7) by (auto simp: writeDevice_def epochOf_def)
  have "parse_device mac secret name (Some raw) =
      Some \<lparr>dv_userId = userId, dv_deviceId = deviceId, dv_iat = iat, dv_epoch = device_fingerprint mac secret userId i\<rparr>"
    using parse_signed [OF assms(1-4) device_fingerprint_text [OF assms(1)] assms(5,6)] raw by simp
  then show ?thesis
    using assms(8-10) i by (simp add: knownDeviceId_def validDevice_def epochOf_def Let_def)
qed

text \<open>Nothing is remembered for a user without a password account.\<close>

lemma no_password_no_cookie:
  "readEpochInputs ad userId w = None \<Longrightarrow> rememberDevice mac secret name ad w cookie userId now random = None"
  by (simp add: rememberDevice_def writeDevice_def epochOf_def)

context auth_adapter begin

lemma epoch_after_bump:
  assumes "readEpochInputs ad userId w = Some i"
  shows "readEpochInputs ad userId (bumpDeviceEpoch ad userId now w) = Some (i\<lparr>ei_userUpdatedAt := now\<rparr>)"
  using assms by (auto simp: readEpochInputs_def bumpDeviceEpoch_def byId_touch accounts_touch split: option.splits)

text \<open>
  After "sign out everywhere" a cookie that counted no longer does, provided the fingerprints of the two dates differ.
\<close>

lemma bump_forgets:
  assumes "validDevice mac secret name ad w (Some raw) (Some userId) now None = Some d"
    and "readEpochInputs ad userId w = Some i"
    and "device_fingerprint mac secret userId (i\<lparr>ei_userUpdatedAt := t\<rparr>) \<noteq> device_fingerprint mac secret userId i"
  shows "validDevice mac secret name ad (bumpDeviceEpoch ad userId t w) (Some raw) (Some userId) now' None = None"
  using assms epoch_after_bump [OF assms(2), of t]
  by (auto simp: validDevice_def epochOf_def Let_def split: option.splits if_splits)

text \<open>
  Two calls of "sign out other sessions" that read the same dates end with one new cookie at most: the one that moved the
  date mints it, the other changes nothing.
\<close>

lemma reissued_once:
  assumes "bumpAndReissue mac secret name ad now userId device inputs w = (Some cookie, w')"
  shows "bumpAndReissue mac secret name ad now' userId device' inputs w' = (None, w')"
proof -
  let ?next = "max now (ei_userUpdatedAt inputs + 1)"
  obtain won v where c: "ad_casUser ad userId (ei_userUpdatedAt inputs) ?next w = (won, v)"
    by fastforce
  then have "won \<noteq> 0" and w': "w' = v"
    using assms by (auto simp: bumpAndReissue_def Let_def split: if_splits)
  from this(1) have m: "map_option u_updatedAt (ad_userById ad userId w) = Some (ei_userUpdatedAt inputs)"
    using c cas_keeps [of userId w] by (metis fst_conv)
  then have v: "v = ad_touchUser ad userId ?next w"
    using c cas_moves [OF m] by simp
  have u: "map_option u_updatedAt (ad_userById ad userId v) = Some ?next"
    using m updatedAt_touch [of userId w ?next] v by auto
  then have k: "ad_casUser ad userId (ei_userUpdatedAt inputs) n v = (0, v)" for n
    by (intro cas_keeps) auto
  have "(map_option u_updatedAt (ad_userById ad userId v) = Some (ei_userUpdatedAt inputs)) = False"
    using u by auto
  with w' k show ?thesis
    unfolding bumpAndReissue_def Let_def by (simp del: map_option_eq_Some)
qed

end

lemmas bump_forgets_rows = mem_auth.bump_forgets
lemmas reissued_once_rows = mem_auth.reissued_once

end
