(* ===== verification/Lockout.thy ===== *)
theory Lockout
  imports KnownDevice
begin

text \<open>
  The throttle on guessing (\<open>identity/src/lockout.ts\<close>) over the secondary storage (\<open>identity/src/storage.ts\<close>). The server's
  commands are a record, a parameter; \<open>counter_server\<close> states what the counters rely on, \<open>mem_counters\<close> interprets it.
  Attempts run interleaved: an attempt is a stage, and one step of it is one call of the storage.
\<close>

section \<open>The secondary storage\<close>

record 's counters =
  ct_get :: "msec \<Rightarrow> string \<Rightarrow> 's \<Rightarrow> string option"
  ct_set :: "msec \<Rightarrow> string \<Rightarrow> string \<Rightarrow> nat option \<Rightarrow> 's \<Rightarrow> 's"
  ct_del :: "msec \<Rightarrow> string \<Rightarrow> 's \<Rightarrow> 's"
  ct_getdel :: "msec \<Rightarrow> string \<Rightarrow> 's \<Rightarrow> string option \<times> 's"
  ct_incr :: "msec \<Rightarrow> string \<Rightarrow> 's \<Rightarrow> nat \<times> 's"
  ct_expire :: "msec \<Rightarrow> string \<Rightarrow> nat \<Rightarrow> 's \<Rightarrow> 's"

definition INCREMENT_LUA :: "'s counters \<Rightarrow> msec \<Rightarrow> string \<Rightarrow> nat \<Rightarrow> 's \<Rightarrow> nat \<times> 's" where
  "INCREMENT_LUA ct t key ttl s =
     (let (n, s1) = ct_incr ct t key s in if n = 1 then (n, ct_expire ct t key (ttl * 1000) s1) else (n, s1))"

text \<open>
  How a call fares: the client is not ready, the call throws (after the server applied it, or not), or it is answered.
  The storage is the server's store and the operations it degraded on, in order.
\<close>

datatype reach = NotReady | Failed bool | Fine

type_synonym 's storage = "'s \<times> string list"

definition storage_guard :: "string \<Rightarrow> 'a \<Rightarrow> reach \<Rightarrow> ('s \<Rightarrow> 'a \<times> 's) \<Rightarrow> 's storage \<Rightarrow> 'a \<times> 's storage" where
  "storage_guard op fallback r call st =
     (case r of
        NotReady \<Rightarrow> (fallback, fst st, snd st @ [op])
      | Failed applied \<Rightarrow> (fallback, if applied then snd (call (fst st)) else fst st, snd st @ [op])
      | Fine \<Rightarrow> (let (v, s') = call (fst st) in (v, s', snd st)))"

definition storage_get :: "'s counters \<Rightarrow> reach \<Rightarrow> msec \<Rightarrow> string \<Rightarrow> 's storage \<Rightarrow> string option \<times> 's storage" where
  "storage_get ct r t key = storage_guard ''get'' None r (\<lambda>s. (ct_get ct t key s, s))"

text \<open>\<open>CacheService.set\<close> sets the time to live only when it is not zero.\<close>

definition storage_set ::
  "'s counters \<Rightarrow> reach \<Rightarrow> msec \<Rightarrow> string \<Rightarrow> string \<Rightarrow> nat option \<Rightarrow> 's storage \<Rightarrow> unit \<times> 's storage" where
  "storage_set ct r t key v ttl =
     storage_guard ''set'' () r (\<lambda>s. ((), ct_set ct t key v (if ttl = Some 0 then None else ttl) s))"

definition storage_delete :: "'s counters \<Rightarrow> reach \<Rightarrow> msec \<Rightarrow> string \<Rightarrow> 's storage \<Rightarrow> unit \<times> 's storage" where
  "storage_delete ct r t key = storage_guard ''delete'' () r (\<lambda>s. ((), ct_del ct t key s))"

definition storage_getAndDelete ::
  "'s counters \<Rightarrow> reach \<Rightarrow> msec \<Rightarrow> string \<Rightarrow> 's storage \<Rightarrow> string option \<times> 's storage" where
  "storage_getAndDelete ct r t key = storage_guard ''getAndDelete'' None r (ct_getdel ct t key)"

definition storage_increment :: "'s counters \<Rightarrow> reach \<Rightarrow> msec \<Rightarrow> string \<Rightarrow> nat \<Rightarrow> 's storage \<Rightarrow> nat \<times> 's storage" where
  "storage_increment ct r t key ttl = storage_guard ''increment'' 0 r (INCREMENT_LUA ct t key ttl)"

section \<open>The limits and the keys\<close>

definition IP_MAX_ATTEMPTS :: nat where "IP_MAX_ATTEMPTS = 5"
definition IP_WINDOW_SECONDS :: nat where "IP_WINDOW_SECONDS = 15 * 60"
definition ACCOUNT_FREE_ATTEMPTS :: nat where "ACCOUNT_FREE_ATTEMPTS = 5"
definition ACCOUNT_DELAY_STEP_MS :: nat where "ACCOUNT_DELAY_STEP_MS = 200"
definition ACCOUNT_MAX_DELAY_MS :: nat where "ACCOUNT_MAX_DELAY_MS = 5000"
definition ACCOUNT_CEILING :: nat where "ACCOUNT_CEILING = 50"
definition ACCOUNT_WINDOW_SECONDS :: nat where "ACCOUNT_WINDOW_SECONDS = 3600"
definition DEVICE_MAX_ATTEMPTS :: nat where "DEVICE_MAX_ATTEMPTS = 5"
definition DEVICE_WINDOW_SECONDS :: nat where "DEVICE_WINDOW_SECONDS = 15 * 60"
definition DEVICES_MAX_ATTEMPTS :: nat where "DEVICES_MAX_ATTEMPTS = 20"
definition DEVICES_WINDOW_SECONDS :: nat where "DEVICES_WINDOW_SECONDS = 3600"

lemmas lockout_limits = IP_MAX_ATTEMPTS_def IP_WINDOW_SECONDS_def ACCOUNT_FREE_ATTEMPTS_def ACCOUNT_DELAY_STEP_MS_def
  ACCOUNT_MAX_DELAY_MS_def ACCOUNT_CEILING_def ACCOUNT_WINDOW_SECONDS_def DEVICE_MAX_ATTEMPTS_def DEVICE_WINDOW_SECONDS_def
  DEVICES_MAX_ATTEMPTS_def DEVICES_WINDOW_SECONDS_def

datatype lock_kind = SignIn | TwoFactor

fun kind_text :: "lock_kind \<Rightarrow> string" where
  "kind_text SignIn = ''signin''"
| "kind_text TwoFactor = ''2fa''"

text \<open>\<open>sha\<close> is SHA-256 in hexadecimal.\<close>

definition lock_digest :: "(string \<Rightarrow> string) \<Rightarrow> string \<Rightarrow> string" where
  "lock_digest sha subject = sha (trim_lower subject)"

definition gen_key :: "(string \<Rightarrow> string) \<Rightarrow> string \<Rightarrow> string" where
  "gen_key sha subject = ''lockout:gen:'' @ lock_digest sha subject"

definition account_key :: "(string \<Rightarrow> string) \<Rightarrow> lock_kind \<Rightarrow> nat \<Rightarrow> string \<Rightarrow> string" where
  "account_key sha kind gen subject =
     ''lockout:'' @ kind_text kind @ '':acct:'' @ dec gen @ '':'' @ lock_digest sha subject"

definition address_key :: "(string \<Rightarrow> string) \<Rightarrow> lock_kind \<Rightarrow> nat \<Rightarrow> string \<Rightarrow> string \<Rightarrow> string" where
  "address_key sha kind gen subject ip =
     ''lockout:'' @ kind_text kind @ '':ip:'' @ dec gen @ '':'' @ lock_digest sha subject @ '':'' @ ip"

definition devices_key :: "(string \<Rightarrow> string) \<Rightarrow> lock_kind \<Rightarrow> nat \<Rightarrow> string \<Rightarrow> string" where
  "devices_key sha kind gen subject =
     ''lockout:'' @ kind_text kind @ '':devs:'' @ dec gen @ '':'' @ lock_digest sha subject"

definition device_key :: "(string \<Rightarrow> string) \<Rightarrow> lock_kind \<Rightarrow> nat \<Rightarrow> string \<Rightarrow> string \<Rightarrow> string" where
  "device_key sha kind gen subject deviceId =
     ''lockout:'' @ kind_text kind @ '':dev:'' @ dec gen @ '':'' @ lock_digest sha subject @ '':'' @ deviceId"

text \<open>
  \<open>Number(v) || 0\<close> of what the generation's key holds; only \<open>clearAttempts\<close> writes it, always a decimal numeral.
\<close>

definition generation_of :: "string option \<Rightarrow> nat" where
  "generation_of v = (case v of None \<Rightarrow> 0 | Some s \<Rightarrow> if s \<noteq> [] \<and> list_all is_digit s then undec s else 0)"

section \<open>One attempt\<close>

record lock_attempt =
  at_kind :: lock_kind
  at_subject :: string
  at_ip :: string
  at_device :: "string option"

text \<open>
  The stages of \<open>admit\<close>, each before the call it makes; the number is the generation read first. \<open>Admitted\<close> carries the
  delay waited; \<open>Refused\<close> has emitted \<open>account.locked\<close> and thrown 429.
\<close>

datatype lock_stage =
    AskGeneration | CountDevice nat | CountDevices nat | CountAddress nat | CountAccount nat
  | Admitted nat | Refused

definition admit_step ::
  "(string \<Rightarrow> string) \<Rightarrow> 's counters \<Rightarrow> reach \<Rightarrow> msec \<Rightarrow> lock_attempt \<Rightarrow> lock_stage \<Rightarrow> 's storage \<Rightarrow> lock_stage \<times> 's storage" where
  "admit_step sha ct r t a lock_stage st =
     (case lock_stage of
        AskGeneration \<Rightarrow>
          let (v, st') = storage_get ct r t (gen_key sha (at_subject a)) st; gen = generation_of v
          in (if at_device a \<noteq> None \<and> at_device a \<noteq> Some [] then CountDevice gen else CountAddress gen, st')
      | CountDevice gen \<Rightarrow>
          let (mine, st') = storage_increment ct r t
                (device_key sha (at_kind a) gen (at_subject a) (the (at_device a))) DEVICE_WINDOW_SECONDS st
          in (if mine > DEVICE_MAX_ATTEMPTS then Refused else CountDevices gen, st')
      | CountDevices gen \<Rightarrow>
          let (together, st') = storage_increment ct r t
                (devices_key sha (at_kind a) gen (at_subject a)) DEVICES_WINDOW_SECONDS st
          in (if together \<le> DEVICES_MAX_ATTEMPTS then Admitted 0 else CountAddress gen, st')
      | CountAddress gen \<Rightarrow>
          let (here, st') = storage_increment ct r t
                (address_key sha (at_kind a) gen (at_subject a) (at_ip a)) IP_WINDOW_SECONDS st
          in (if here > IP_MAX_ATTEMPTS then Refused else CountAccount gen, st')
      | CountAccount gen \<Rightarrow>
          let (total, st') = storage_increment ct r t
                (account_key sha (at_kind a) gen (at_subject a)) ACCOUNT_WINDOW_SECONDS st
          in (if total > ACCOUNT_CEILING then Refused
              else if total > ACCOUNT_FREE_ATTEMPTS
              then Admitted (min ((total - ACCOUNT_FREE_ATTEMPTS) * ACCOUNT_DELAY_STEP_MS) ACCOUNT_MAX_DELAY_MS)
              else Admitted 0, st')
      | _ \<Rightarrow> (lock_stage, st))"

text \<open>\<open>admit\<close> by itself: its calls one after the other, as the calls fare and at the times given.\<close>

fun admit ::
  "(string \<Rightarrow> string) \<Rightarrow> 's counters \<Rightarrow> (reach \<times> msec) list \<Rightarrow> lock_attempt \<Rightarrow> lock_stage \<Rightarrow> 's storage \<Rightarrow> lock_stage \<times> 's storage" where
  "admit sha ct [] a lock_stage st = (lock_stage, st)"
| "admit sha ct ((r, t) # rs) a lock_stage st =
     (let (stage', st') = admit_step sha ct r t a lock_stage st in admit sha ct rs a stage' st')"

definition clearAttempts ::
  "(string \<Rightarrow> string) \<Rightarrow> 's counters \<Rightarrow> reach \<Rightarrow> reach \<Rightarrow> msec \<Rightarrow> string \<Rightarrow> 's storage \<Rightarrow> 's storage" where
  "clearAttempts sha ct r r' t subject st =
     (let (v, st1) = storage_get ct r t (gen_key sha subject) st
      in snd (storage_set ct r' t (gen_key sha subject) (dec (generation_of v + 1)) (Some (30 * 24 * 3600)) st1))"

section \<open>The hooks\<close>

definition TWO_FACTOR_PATHS :: "string list" where
  "TWO_FACTOR_PATHS = [''/two-factor/verify-totp'', ''/two-factor/verify-backup-code'', ''/two-factor/verify-otp'']"

text \<open>
  What the before hooks read of a call: its path, its body, the client address the mount set, the user of the pending
  two-factor challenge and of the address, and the device of the cookie, given the user.
\<close>

record lock_call =
  lc_path :: string
  lc_body :: jsval
  lc_ip :: "string option"
  lc_pending :: "string option"
  lc_device :: "string option \<Rightarrow> string option"
  lc_byEmail :: "string \<Rightarrow> string option"

definition ipOf :: "lock_call \<Rightarrow> string" where
  "ipOf c = (case lc_ip c of None \<Rightarrow> ''unknown'' | Some ip \<Rightarrow> ip)"

definition body_string :: "string \<Rightarrow> jsval \<Rightarrow> string option" where
  "body_string k body = (case property_of k body of JStr s \<Rightarrow> Some s | _ \<Rightarrow> None)"

definition attempt_of :: "lock_call \<Rightarrow> lock_attempt option" where
  "attempt_of c =
     (if lc_path c = ''/sign-in/email'' then
        (case body_string ''email'' (lc_body c) of
           None \<Rightarrow> None
         | Some email \<Rightarrow>
             Some \<lparr>at_kind = SignIn, at_subject = email, at_ip = ipOf c, at_device = lc_device c (lc_byEmail c email)\<rparr>)
      else if lc_path c \<in> set TWO_FACTOR_PATHS then
        (case lc_pending c of
           None \<Rightarrow> None
         | Some userId \<Rightarrow>
             if userId = [] then None
             else Some \<lparr>at_kind = TwoFactor, at_subject = userId, at_ip = ipOf c, at_device = lc_device c (Some userId)\<rparr>)
      else None)"

text \<open>
  What the after hooks do, from how the call ended: an error returned, a two-factor challenge, the user signed in; and what
  the before hook of the same call noted (the address of a reset, the session's user and the cookie to re-issue).
\<close>

datatype after_effect =
    ClearSubject string | Remember string | BumpEpoch string | BumpReissue string "string \<times> nat" epoch_inputs

record lock_outcome =
  lo_error :: bool
  lo_challenge :: bool
  lo_user :: "string option"
  lo_resetEmail :: "string option"
  lo_revoked :: "(string \<times> ((string \<times> nat) \<times> epoch_inputs) option) option"

definition after_effects :: "lock_call \<Rightarrow> lock_outcome \<Rightarrow> after_effect list" where
  "after_effects c r =
     (if lc_path c = ''/admin/revoke-user-sessions'' then
        (if lo_error r then [] else case body_string ''userId'' (lc_body c) of None \<Rightarrow> [] | Some u \<Rightarrow> [BumpEpoch u])
      else if lc_path c = ''/revoke-sessions'' \<or> lc_path c = ''/revoke-other-sessions'' then
        (if lo_error r then []
         else case lo_revoked r of
                None \<Rightarrow> []
              | Some (u, None) \<Rightarrow> [BumpEpoch u]
              | Some (u, Some (d, i)) \<Rightarrow> [BumpReissue u d i])
      else if lc_path c = ''/sign-in/email'' then
        (case body_string ''email'' (lc_body c) of
           None \<Rightarrow> []
         | Some email \<Rightarrow>
             if lo_error r \<or> lo_challenge r then []
             else ClearSubject email # (case lo_user r of Some u \<Rightarrow> if u \<noteq> [] then [Remember u] else [] | None \<Rightarrow> []))
      else if lc_path c \<in> set TWO_FACTOR_PATHS then
        (case lo_user r of
           Some u \<Rightarrow> if u \<noteq> [] \<and> \<not> lo_error r then [ClearSubject u, Remember u] else []
         | None \<Rightarrow> [])
      else if lc_path c = ''/reset-password'' then
        (case lo_resetEmail r of
           Some email \<Rightarrow> if email \<noteq> [] \<and> \<not> lo_error r then [ClearSubject email] else []
         | None \<Rightarrow> [])
      else [])"

text \<open>What the before hook of a revocation notes: for the other sessions, the epoch's inputs first, then the cookie judged by them.\<close>

definition revoked_note ::
  "mac \<Rightarrow> string \<Rightarrow> string \<Rightarrow> 'w adapter \<Rightarrow> 'w \<Rightarrow> string option \<Rightarrow> int \<Rightarrow> string \<Rightarrow> string \<Rightarrow>
   string \<times> ((string \<times> nat) \<times> epoch_inputs) option" where
  "revoked_note mac secret name ad w cookie now path userId =
     (userId,
      if path = ''/revoke-other-sessions'' then
        (case readEpochInputs ad userId w of
           None \<Rightarrow> None
         | Some inputs \<Rightarrow>
             map_option (\<lambda>d. (d, inputs)) (validDevice mac secret name ad w cookie (Some userId) now (Some inputs)))
      else None)"

text \<open>
  What the before hook of a reset notes, and the user of a pending second factor: \<open>verification\<close> is Better Auth's lookup of
  a verification value.
\<close>

definition reset_note :: "(string \<Rightarrow> string option) \<Rightarrow> 'w adapter \<Rightarrow> 'w \<Rightarrow> jsval \<Rightarrow> string option" where
  "reset_note verification ad w body =
     (case body_string ''token'' body of
        None \<Rightarrow> None
      | Some token \<Rightarrow>
          (case verification (''reset-password:'' @ token) of
             None \<Rightarrow> None
           | Some userId \<Rightarrow> map_option u_email (ad_userById ad userId w)))"

definition pendingUserId :: "(string \<Rightarrow> string option) \<Rightarrow> string option \<Rightarrow> string option" where
  "pendingUserId verification identifier =
     (case identifier of None \<Rightarrow> None | Some i \<Rightarrow> if i = [] then None else verification i)"

section \<open>What the counters rely on\<close>

text \<open>
  \<open>cnt\<close> observes the number a key holds, 0 when there is no key: \<open>INCR\<close> answers one more and keeps the deadline, a new
  key has none; \<open>EXPIRE\<close> sets it; a key is gone from its deadline on.
\<close>

locale counter_server =
  fixes ct :: "'s counters" and cnt :: "msec \<Rightarrow> string \<Rightarrow> 's \<Rightarrow> nat"
  assumes incr_reply: "fst (ct_incr ct t k s) = Suc (cnt t k s)"
    and cnt_incr: "t \<le> t' \<Longrightarrow> cnt t' k (snd (ct_incr ct t k s)) =
      (if cnt t k s = 0 then 1 else if cnt t' k s = 0 then 0 else Suc (cnt t k s))"
    and cnt_incr_other: "k' \<noteq> k \<Longrightarrow> cnt t' k' (snd (ct_incr ct t k s)) = cnt t' k' s"
    and cnt_expire: "t \<le> t' \<Longrightarrow> 0 < cnt t k s \<Longrightarrow>
      cnt t' k (ct_expire ct t k d s) = (if t' < t + d then cnt t k s else 0)"
    and cnt_expire_other: "k' \<noteq> k \<Longrightarrow> cnt t' k' (ct_expire ct t k d s) = cnt t' k' s"
    and cnt_later: "t \<le> t' \<Longrightarrow> cnt t' k s = cnt t k s \<or> cnt t' k s = 0"
    and cnt_set_other: "k' \<noteq> k \<Longrightarrow> cnt t' k' (ct_set ct t k v ttl s) = cnt t' k' s"
    and get_set: "t \<le> t' \<Longrightarrow> ct_get ct t' k (ct_set ct t k v ttl s) =
      (case ttl of None \<Rightarrow> Some v | Some n \<Rightarrow> if t' < t + n * 1000 then Some v else None)"
begin

lemma increment_reply: "fst (INCREMENT_LUA ct t k ttl s) = Suc (cnt t k s)"
  using incr_reply [of t k s] by (auto simp: INCREMENT_LUA_def split: prod.split)

lemma cnt_increment:
  assumes "t \<le> t'"
  shows "cnt t' k (snd (INCREMENT_LUA ct t k ttl s)) =
    (if cnt t k s = 0 then (if t' < t + ttl * 1000 then 1 else 0)
     else if cnt t' k s = 0 then 0 else Suc (cnt t k s))"
proof -
  obtain n s1 where i: "ct_incr ct t k s = (n, s1)" by fastforce
  then have n: "n = Suc (cnt t k s)" and s1: "s1 = snd (ct_incr ct t k s)"
    using incr_reply [of t k s] by auto
  have now: "cnt t k s1 = (if cnt t k s = 0 then 1 else Suc (cnt t k s))"
    using cnt_incr [of t t k s] s1 by simp
  have "INCREMENT_LUA ct t k ttl s = (n, if n = 1 then ct_expire ct t k (ttl * 1000) s1 else s1)"
    by (simp add: INCREMENT_LUA_def i)
  then show ?thesis
    using n now cnt_incr [OF assms, of k s] cnt_expire [OF assms, of k s1 "ttl * 1000"] s1 by auto
qed

lemma cnt_increment_other: "k' \<noteq> k \<Longrightarrow> cnt t' k' (snd (INCREMENT_LUA ct t k ttl s)) = cnt t' k' s"
  using cnt_incr_other [of k' k t' t s] cnt_expire_other [of k' k t' t]
  by (auto simp: INCREMENT_LUA_def split: prod.split)

text \<open>
  The counter of a key whose increments answered within the limit \<open>M\<close> were \<open>c\<close> since \<open>b\<close>: either no counting began since
  \<open>b\<close>, and the key holds more than \<open>c\<close> while it lives; or one did, and it outlives the window.
\<close>

definition spent_ok :: "string \<Rightarrow> nat \<Rightarrow> msec \<Rightarrow> msec \<Rightarrow> nat \<Rightarrow> msec \<Rightarrow> nat \<Rightarrow> 's \<Rightarrow> bool" where
  "spent_ok k ttl b e M t c s \<longleftrightarrow>
     (c < M \<and> (c = 0 \<or> (\<forall>t'\<ge>t. cnt t' k s = 0 \<or> c < cnt t' k s))) \<or>
     (\<exists>N>0. c < M + min N M \<and> (\<forall>t'\<ge>t. t' < e \<longrightarrow> cnt t' k s = N))"

lemma spent_ok_bound: "spent_ok k ttl b e M t c s \<Longrightarrow> c < 2 * M"
  by (auto simp: spent_ok_def)

lemma spent_ok_later: "spent_ok k ttl b e M t c s \<Longrightarrow> t \<le> t' \<Longrightarrow> spent_ok k ttl b e M t' c s"
  by (auto simp: spent_ok_def) (meson order_trans)+

lemma spent_ok_same:
  "spent_ok k ttl b e M t c s \<Longrightarrow> (\<And>t'. t \<le> t' \<Longrightarrow> cnt t' k s' = cnt t' k s) \<Longrightarrow> spent_ok k ttl b e M t c s'"
  by (auto simp: spent_ok_def)

lemma spent_ok_increment:
  assumes ok: "spent_ok k ttl b e M t c s" and b: "b \<le> t" "t < e" "e \<le> b + ttl * 1000"
    and r: "INCREMENT_LUA ct t k ttl s = (n, s')"
  shows "spent_ok k ttl b e M t (if n \<le> M then Suc c else c) s'"
proof -
  have n: "n = Suc (cnt t k s)" and s': "s' = snd (INCREMENT_LUA ct t k ttl s)"
    using increment_reply [of t k ttl s] r by auto
  have cnt': "cnt t' k s' = (if cnt t k s = 0 then (if t' < t + ttl * 1000 then 1 else 0)
     else if cnt t' k s = 0 then 0 else Suc (cnt t k s))" if "t \<le> t'" for t'
    using cnt_increment [OF that] s' by simp
  have later: "cnt t' k s = cnt t k s \<or> cnt t' k s = 0" if "t \<le> t'" for t'
    using cnt_later [OF that] .
  show ?thesis
  proof (cases "cnt t k s = 0")
    case True
    then have "\<forall>t'\<ge>t. t' < e \<longrightarrow> cnt t' k s' = 1"
      using cnt' b by auto
    moreover have "c < M"
      using ok True b(2) by (auto simp: spent_ok_def)
    ultimately show ?thesis
      using n True unfolding spent_ok_def by (intro disjI2 exI [of _ "1::nat"]) auto
  next
    case pos: False
    consider (before) "c < M" "c = 0 \<or> c < cnt t k s" | (after) N where "0 < N" "c < M + min N M" "\<forall>t'\<ge>t. t' < e \<longrightarrow> cnt t' k s = N"
      using ok pos by (auto simp: spent_ok_def)
    then show ?thesis
    proof cases
      case before
      have "\<forall>t'\<ge>t. cnt t' k s' = 0 \<or> cnt t' k s' = n"
        using cnt' pos n later by auto
      moreover have "c < cnt t k s"
        using before(2) pos by auto
      then have "(if n \<le> M then Suc c else c) < M" "(if n \<le> M then Suc c else c) < n"
        using before(1) n by auto
      ultimately show ?thesis
        unfolding spent_ok_def by (intro disjI1) metis
    next
      case after
      then have "cnt t k s = N"
        using b(2) by simp
      then have "\<forall>t'\<ge>t. t' < e \<longrightarrow> cnt t' k s' = Suc N"
        using cnt' after by auto
      moreover have "(if n \<le> M then Suc c else c) < M + min (Suc N) M"
        using after(2) n \<open>cnt t k s = N\<close> by auto
      ultimately show ?thesis
        unfolding spent_ok_def by (intro disjI2 exI [of _ "Suc N"]) simp
    qed
  qed
qed

end

section \<open>A store of counters with deadlines\<close>

record mem_counts =
  mc_strings :: "string \<Rightarrow> (string \<times> msec option) option"
  mc_counts :: "string \<Rightarrow> nat \<times> msec option"

definition mc_cnt :: "msec \<Rightarrow> string \<Rightarrow> mem_counts \<Rightarrow> nat" where
  "mc_cnt t k s = (case mc_counts s k of (n, dl) \<Rightarrow> if live t dl then n else 0)"

definition mc_get :: "msec \<Rightarrow> string \<Rightarrow> mem_counts \<Rightarrow> string option" where
  "mc_get t k s = (case mc_strings s k of None \<Rightarrow> None | Some (v, dl) \<Rightarrow> if live t dl then Some v else None)"

definition mem_counters :: "mem_counts counters" where
  "mem_counters =
     \<lparr>ct_get = mc_get,
      ct_set = (\<lambda>t k v d s. s\<lparr>mc_strings := (mc_strings s)(k \<mapsto> (v, map_option (\<lambda>n. t + n * 1000) d))\<rparr>),
      ct_del = (\<lambda>t k s. s\<lparr>mc_strings := (mc_strings s)(k := None), mc_counts := (mc_counts s)(k := (0, None))\<rparr>),
      ct_getdel = (\<lambda>t k s. (mc_get t k s, s\<lparr>mc_strings := (mc_strings s)(k := None)\<rparr>)),
      ct_incr = (\<lambda>t k s. (Suc (mc_cnt t k s),
        s\<lparr>mc_counts := (mc_counts s)(k := (Suc (mc_cnt t k s), if mc_cnt t k s = 0 then None else snd (mc_counts s k)))\<rparr>)),
      ct_expire = (\<lambda>t k d s. if mc_cnt t k s = 0 then s
                              else s\<lparr>mc_counts := (mc_counts s)(k := (mc_cnt t k s, Some (t + d)))\<rparr>)\<rparr>"

definition mc_empty :: mem_counts where
  "mc_empty = \<lparr>mc_strings = Map.empty, mc_counts = (\<lambda>_. (0, None))\<rparr>"

interpretation mem_counters: counter_server mem_counters mc_cnt
  by unfold_locales
    (auto simp: mem_counters_def mc_cnt_def mc_get_def live_def split: prod.splits option.splits if_splits)

section \<open>What a clear does and how an attempt ends\<close>

text \<open>After \<open>clearAttempts\<close> the next attempts read the next generation, whose counters are new, for thirty days.\<close>

lemma clear_starts_afresh:
  assumes "t \<le> t'" "t' < t + 30 * 24 * 3600 * 1000"
  shows "generation_of (fst (storage_get mem_counters Fine t' (gen_key sha subject)
           (clearAttempts sha mem_counters Fine Fine t subject st)))
         = generation_of (fst (storage_get mem_counters Fine t (gen_key sha subject) st)) + 1"
proof -
  let ?n = "generation_of (fst (storage_get mem_counters Fine t (gen_key sha subject) st)) + 1"
  have "fst (storage_get mem_counters Fine t' (gen_key sha subject) (clearAttempts sha mem_counters Fine Fine t subject st)) =
      Some (dec ?n)"
    using mem_counters.get_set [OF assms(1), of "gen_key sha subject" "dec ?n" "Some (30 * 24 * 3600)" "fst st"] assms(2)
    by (simp add: clearAttempts_def storage_get_def storage_set_def storage_guard_def)
  then show ?thesis
    using dec_digits [of ?n] by (simp add: generation_of_def list_all_iff)
qed

text \<open>
  A verified second factor clears the counters of the user id and no other subject: those of the address, which the password
  step counted on, stay.
\<close>

lemma two_factor_clears_user_only:
  "lc_path c \<in> set TWO_FACTOR_PATHS \<Longrightarrow> ClearSubject s \<in> set (after_effects c r) \<Longrightarrow> lo_user r = Some s"
  by (cases "lo_user r") (auto simp: after_effects_def TWO_FACTOR_PATHS_def simp del: split_paired_All split: if_split_asm)

text \<open>Each call moves an attempt on, so it ends after five.\<close>

fun stage_rank :: "lock_stage \<Rightarrow> nat" where
  "stage_rank AskGeneration = 5"
| "stage_rank (CountDevice g) = 4"
| "stage_rank (CountDevices g) = 3"
| "stage_rank (CountAddress g) = 2"
| "stage_rank (CountAccount g) = 1"
| "stage_rank _ = 0"

lemma admit_step_rank:
  "0 < stage_rank sg \<Longrightarrow> stage_rank (fst (admit_step sha ct r t a sg st)) < stage_rank sg"
  by (cases sg) (auto simp: admit_step_def Let_def split: prod.split)

lemma admit_ends: "stage_rank sg \<le> length rs \<Longrightarrow> stage_rank (fst (admit sha ct rs a sg st)) = 0"
proof (induction rs arbitrary: sg st)
  case Nil
  then show ?case by simp
next
  case (Cons rt rs)
  obtain r t where rt: "rt = (r, t)" by fastforce
  obtain sg' st' where step: "admit_step sha ct r t a sg st = (sg', st')" by (rule prod.exhaust)
  have "stage_rank sg' \<le> length rs"
  proof (cases "stage_rank sg = 0")
    case True
    then show ?thesis
      using step by (cases sg) (auto simp: admit_step_def)
  next
    case False
    then show ?thesis
      using admit_step_rank [of sg sha ct r t a st] step Cons.prems by simp
  qed
  then show ?case
    using Cons.IH rt step by simp
qed

text \<open>An unreachable server admits everyone, without a delay.\<close>

lemma outage_admits:
  "\<forall>(r, t)\<in>set rs. r \<noteq> Fine \<Longrightarrow> sg \<noteq> Refused \<Longrightarrow> \<forall>d. sg = Admitted d \<longrightarrow> d = 0 \<Longrightarrow> stage_rank sg \<le> length rs \<Longrightarrow>
   fst (admit sha ct rs a sg st) = Admitted 0"
proof (induction rs arbitrary: sg st)
  case Nil
  then show ?case by (cases sg) auto
next
  case (Cons rt rs)
  obtain r t where rt: "rt = (r, t)" "r \<noteq> Fine" using Cons.prems(1) by fastforce
  obtain sg' st' where step: "admit_step sha ct r t a sg st = (sg', st')" by (rule prod.exhaust)
  have z: "fst (storage_increment ct r t k ttl st) = 0" for k ttl
    using rt(2) by (cases r) (simp_all add: storage_increment_def storage_guard_def)
  have "sg' = fst (admit_step sha ct r t a sg st)"
    by (simp add: step)
  then have "sg' \<noteq> Refused \<and> (\<forall>d. sg' = Admitted d \<longrightarrow> d = 0) \<and> stage_rank sg' \<le> length rs"
    using Cons.prems(2-4) by (cases sg) (simp_all add: admit_step_def Let_def split_beta z)
  then show ?case
    using Cons.IH Cons.prems(1) rt step by simp
qed

end
