(* ===== verification/LockoutBounds.thy ===== *)
theory LockoutBounds
  imports Lockout
begin

text \<open>
  How many guesses the throttle of \<open>Lockout\<close> lets through when any number of attempts run at once: a run is a list of
  events, each the next call of one attempt, or a clear. Every counter is spent at most \<open>2 M - 1\<close> times in any window as
  long as its own: at most \<open>M - 1\<close> times on a counting that began before the window, and \<open>M\<close> times on the one that begins
  in it and outlives it.
\<close>

section \<open>Runs of attempts\<close>

text \<open>\<open>lw_spent\<close> notes each call that a limit let through: its time, the attempt and the stage it was at.\<close>

record 's lock_world =
  lw_stages :: "nat \<Rightarrow> lock_stage"
  lw_store :: "'s storage"
  lw_spent :: "(msec \<times> nat \<times> lock_stage) list"

datatype lock_event = Step nat reach msec | Forget string reach reach msec

fun lock_time :: "lock_event \<Rightarrow> msec" where
  "lock_time (Step i r t) = t"
| "lock_time (Forget s r r' t) = t"

fun answered :: "lock_event \<Rightarrow> bool" where
  "answered (Step i r t) = (r = Fine)"
| "answered (Forget s r r' t) = (r = Fine \<and> r' = Fine)"

definition passes :: "lock_stage \<Rightarrow> lock_stage \<Rightarrow> bool" where
  "passes sg sg' =
     (case sg of
        CountDevice g \<Rightarrow> sg' \<noteq> Refused
      | CountDevices g \<Rightarrow> sg' = Admitted 0
      | CountAddress g \<Rightarrow> sg' \<noteq> Refused
      | CountAccount g \<Rightarrow> sg' \<noteq> Refused
      | _ \<Rightarrow> False)"

fun lock_step ::
  "(string \<Rightarrow> string) \<Rightarrow> 's counters \<Rightarrow> (nat \<Rightarrow> lock_attempt) \<Rightarrow> lock_event \<Rightarrow> 's lock_world \<Rightarrow> 's lock_world" where
  "lock_step sha ct atts (Step i r t) W =
     (let (sg', st') = admit_step sha ct r t (atts i) (lw_stages W i) (lw_store W)
      in \<lparr>lw_stages = (lw_stages W)(i := sg'), lw_store = st',
          lw_spent = lw_spent W @ (if passes (lw_stages W i) sg' then [(t, i, lw_stages W i)] else [])\<rparr>)"
| "lock_step sha ct atts (Forget subject r r' t) W =
     W\<lparr>lw_store := clearAttempts sha ct r r' t subject (lw_store W)\<rparr>"

fun lock_run ::
  "(string \<Rightarrow> string) \<Rightarrow> 's counters \<Rightarrow> (nat \<Rightarrow> lock_attempt) \<Rightarrow> lock_event list \<Rightarrow> 's lock_world \<Rightarrow> 's lock_world" where
  "lock_run sha ct atts [] W = W"
| "lock_run sha ct atts (e # es) W = lock_run sha ct atts es (lock_step sha ct atts e W)"

definition lock_start :: "'s \<Rightarrow> 's lock_world" where
  "lock_start s = \<lparr>lw_stages = (\<lambda>_. AskGeneration), lw_store = (s, []), lw_spent = []\<rparr>"

section \<open>The counter a stage spends\<close>

definition stage_key :: "(string \<Rightarrow> string) \<Rightarrow> lock_attempt \<Rightarrow> lock_stage \<Rightarrow> string option" where
  "stage_key sha a sg =
     (case sg of
        CountDevice g \<Rightarrow> Some (device_key sha (at_kind a) g (at_subject a) (the (at_device a)))
      | CountDevices g \<Rightarrow> Some (devices_key sha (at_kind a) g (at_subject a))
      | CountAddress g \<Rightarrow> Some (address_key sha (at_kind a) g (at_subject a) (at_ip a))
      | CountAccount g \<Rightarrow> Some (account_key sha (at_kind a) g (at_subject a))
      | _ \<Rightarrow> None)"

definition stage_max :: "lock_stage \<Rightarrow> nat" where
  "stage_max sg =
     (case sg of
        CountDevice g \<Rightarrow> DEVICE_MAX_ATTEMPTS
      | CountDevices g \<Rightarrow> DEVICES_MAX_ATTEMPTS
      | CountAddress g \<Rightarrow> IP_MAX_ATTEMPTS
      | _ \<Rightarrow> ACCOUNT_CEILING)"

definition stage_window :: "lock_stage \<Rightarrow> nat" where
  "stage_window sg =
     (case sg of
        CountDevice g \<Rightarrow> DEVICE_WINDOW_SECONDS
      | CountDevices g \<Rightarrow> DEVICES_WINDOW_SECONDS
      | CountAddress g \<Rightarrow> IP_WINDOW_SECONDS
      | _ \<Rightarrow> ACCOUNT_WINDOW_SECONDS)"

lemmas stage_defs = stage_key_def stage_max_def stage_window_def

lemmas lock_keys = account_key_def address_key_def devices_key_def device_key_def

text \<open>A key belongs to one kind of counter.\<close>

lemma stage_key_limits:
  "stage_key sha a sg = stage_key sha a' sg' \<Longrightarrow> stage_key sha a sg \<noteq> None \<Longrightarrow>
   stage_max sg' = stage_max sg \<and> stage_window sg' = stage_window sg"
  by (cases "at_kind a"; cases "at_kind a'"; cases sg; cases sg')
    (simp_all add: stage_defs lock_keys)

lemma gen_key_apart: "stage_key sha a sg = Some k \<Longrightarrow> k \<noteq> gen_key sha subject"
  by (cases "at_kind a"; cases sg) (auto simp: stage_defs lock_keys gen_key_def)

lemma account_key_same:
  "lock_digest sha s = lock_digest sha s' \<Longrightarrow> account_key sha kind g s = account_key sha kind g s'"
  "lock_digest sha s = lock_digest sha s' \<Longrightarrow> devices_key sha kind g s = devices_key sha kind g s'"
  "lock_digest sha s = lock_digest sha s' \<Longrightarrow> address_key sha kind g s ip = address_key sha kind g s' ip"
  "lock_digest sha s = lock_digest sha s' \<Longrightarrow> device_key sha kind g s d = device_key sha kind g s' d"
  by (simp_all add: lock_keys)

lemma admit_step_counts:
  assumes "stage_key sha a sg = Some k" "admit_step sha ct Fine t a sg st = (sg', st')"
    and "INCREMENT_LUA ct t k (stage_window sg) (fst st) = (n, s')"
  shows "fst st' = s' \<and> (passes sg sg' \<longleftrightarrow> n \<le> stage_max sg)"
  using assms
  by (cases sg) (auto simp: admit_step_def stage_defs storage_increment_def storage_guard_def passes_def split: if_splits)

lemma admit_step_free:
  assumes "stage_key sha a sg = None" "admit_step sha ct Fine t a sg st = (sg', st')"
  shows "fst st' = fst st \<and> \<not> passes sg sg'"
  using assms
  by (cases sg) (auto simp: admit_step_def stage_defs storage_get_def storage_guard_def Let_def passes_def split: if_splits)

section \<open>The bound of one counter\<close>

text \<open>How often a key was spent from \<open>b\<close> until before \<open>e\<close>.\<close>

definition spent_on ::
  "(string \<Rightarrow> string) \<Rightarrow> (nat \<Rightarrow> lock_attempt) \<Rightarrow> string \<Rightarrow> msec \<Rightarrow> msec \<Rightarrow> (msec \<times> nat \<times> lock_stage) list \<Rightarrow> nat" where
  "spent_on sha atts k b e xs =
     length (filter (\<lambda>(t, i, sg). stage_key sha (atts i) sg = Some k \<and> b \<le> t \<and> t < e) xs)"

lemma spent_on_snoc:
  "spent_on sha atts k b e (xs @ [(t, i, sg)]) =
     spent_on sha atts k b e xs + (if stage_key sha (atts i) sg = Some k \<and> b \<le> t \<and> t < e then 1 else 0)"
  by (simp add: spent_on_def)

context counter_server begin

lemma forget_keeps_count:
  assumes "k \<noteq> gen_key sha subject"
  shows "cnt t' k (fst (clearAttempts sha ct Fine Fine t subject st)) = cnt t' k (fst st)"
  using cnt_set_other [OF assms]
  by (simp add: clearAttempts_def storage_get_def storage_set_def storage_guard_def)

text \<open>
  The invariant of a key with the limits of the stage that counts on it, from \<open>b\<close> until before \<open>e\<close>; \<open>t\<close> is a time no later
  event precedes.
\<close>

definition key_ok ::
  "(string \<Rightarrow> string) \<Rightarrow> (nat \<Rightarrow> lock_attempt) \<Rightarrow> string \<Rightarrow> lock_stage \<Rightarrow> msec \<Rightarrow> msec \<Rightarrow> msec \<Rightarrow> 's lock_world \<Rightarrow> bool" where
  "key_ok sha atts k sg b e t W \<longleftrightarrow>
     (let c = spent_on sha atts k b e (lw_spent W) in
      (t < b \<longrightarrow> c = 0) \<and> spent_ok k (stage_window sg) b e (stage_max sg) t c (fst (lw_store W)))"

lemma stage_max_pos: "0 < stage_max sg"
  by (cases sg) (simp_all add: stage_max_def lockout_limits)

lemma spent_ok_early: "spent_ok k w b e (stage_max sg) t 0 s"
  using stage_max_pos by (simp add: spent_ok_def)

lemma spent_ok_late: "spent_ok k w b e (stage_max sg) t c s \<Longrightarrow> e \<le> t' \<Longrightarrow> spent_ok k w b e (stage_max sg) t' c s'"
  using spent_ok_bound [of k w b e "stage_max sg" t c s] stage_max_pos [of sg] unfolding spent_ok_def
  by (intro disjI2 exI [of _ "stage_max sg"]) auto

lemma key_ok_step:
  assumes ok: "key_ok sha atts k sg b e t0 W" and key: "stage_key sha a sg = Some k" and e: "e \<le> b + stage_window sg * 1000"
    and ev: "answered ev" "t0 \<le> lock_time ev"
  shows "key_ok sha atts k sg b e (lock_time ev) (lock_step sha ct atts ev W)"
proof (cases ev)
  case (Forget subject r r' t)
  then have keeps: "cnt t' k (fst (lw_store (lock_step sha ct atts ev W))) = cnt t' k (fst (lw_store W))" for t'
    using forget_keeps_count [OF gen_key_apart [OF key]] ev(1) by simp
  show ?thesis
    unfolding key_ok_def Let_def
  proof (intro conjI)
    let ?W = "lock_step sha ct atts ev W"
    have c: "spent_on sha atts k b e (lw_spent ?W) = spent_on sha atts k b e (lw_spent W)"
      using Forget by simp
    show "lock_time ev < b \<longrightarrow> spent_on sha atts k b e (lw_spent ?W) = 0"
      using ok ev(2) c unfolding key_ok_def Let_def by simp
    have "spent_ok k (stage_window sg) b e (stage_max sg) t0 (spent_on sha atts k b e (lw_spent W)) (fst (lw_store W))"
      using ok unfolding key_ok_def Let_def by simp
    then have "spent_ok k (stage_window sg) b e (stage_max sg) (lock_time ev) (spent_on sha atts k b e (lw_spent W))
        (fst (lw_store W))"
      using ev(2) by (rule spent_ok_later)
    then show "spent_ok k (stage_window sg) b e (stage_max sg) (lock_time ev) (spent_on sha atts k b e (lw_spent ?W))
        (fst (lw_store ?W))"
      unfolding c by (rule spent_ok_same) (rule keeps)
  qed
next
  case (Step i r t)
  let ?sg = "lw_stages W i" and ?s = "fst (lw_store W)" and ?c = "spent_on sha atts k b e (lw_spent W)"
  obtain sg' st' where step: "admit_step sha ct Fine t (atts i) ?sg (lw_store W) = (sg', st')"
    by (rule prod.exhaust)
  have W': "lock_step sha ct atts ev W = \<lparr>lw_stages = (lw_stages W)(i := sg'), lw_store = st',
      lw_spent = lw_spent W @ (if passes ?sg sg' then [(t, i, ?sg)] else [])\<rparr>"
    using Step ev(1) step by simp
  have t: "t0 \<le> t" "lock_time ev = t"
    using Step ev(2) by simp_all
  have c0: "t < b \<longrightarrow> ?c = 0" and sp: "spent_ok k (stage_window sg) b e (stage_max sg) t ?c ?s"
    using ok t(1) spent_ok_later unfolding key_ok_def Let_def by auto
  show ?thesis
  proof (cases "stage_key sha (atts i) ?sg = Some k")
    case False
    have "cnt t' k (fst st') = cnt t' k ?s" for t'
    proof (cases "stage_key sha (atts i) ?sg")
      case None
      then show ?thesis
        using admit_step_free [OF None step] by simp
    next
      case (Some k')
      obtain n s' where inc: "INCREMENT_LUA ct t k' (stage_window ?sg) ?s = (n, s')"
        by fastforce
      then show ?thesis
        using admit_step_counts [OF Some step inc] cnt_increment_other [of k k' t' t "stage_window ?sg" ?s] Some False
        by auto
    qed
    moreover have "spent_on sha atts k b e (lw_spent (lock_step sha ct atts ev W)) = ?c"
      using False by (simp add: W' spent_on_def)
    ultimately show ?thesis
      using c0 sp spent_ok_same unfolding key_ok_def Let_def t(2) by (auto simp: W')
  next
    case True
    then have lim: "stage_max ?sg = stage_max sg" "stage_window ?sg = stage_window sg"
      using stage_key_limits [of sha a sg "atts i" ?sg] key by simp_all
    obtain n s' where inc: "INCREMENT_LUA ct t k (stage_window ?sg) ?s = (n, s')"
      by fastforce
    have st': "fst st' = s'" and p: "passes ?sg sg' \<longleftrightarrow> n \<le> stage_max sg"
      using admit_step_counts [OF True step inc] lim by simp_all
    have c': "spent_on sha atts k b e (lw_spent (lock_step sha ct atts ev W)) =
        (if n \<le> stage_max sg \<and> b \<le> t \<and> t < e then Suc ?c else ?c)"
      using True by (simp add: W' p spent_on_snoc)
    consider "t < b" | "b \<le> t" "t < e" | "e \<le> t" "b \<le> t"
      by linarith
    then have "spent_ok k (stage_window sg) b e (stage_max sg) t
        (if n \<le> stage_max sg \<and> b \<le> t \<and> t < e then Suc ?c else ?c) s'"
    proof cases
      case 1
      then show ?thesis using c0 spent_ok_early by simp
    next
      case 2
      then show ?thesis
        using spent_ok_increment [OF sp 2 e] inc lim by simp
    next
      case 3
      then show ?thesis using spent_ok_late [OF sp] by simp
    qed
    then show ?thesis
      using c0 unfolding key_ok_def Let_def t(2) c' by (simp add: W' st')
  qed
qed

lemma key_ok_run:
  assumes "key_ok sha atts k sg b e t0 W" "stage_key sha a sg = Some k" "e \<le> b + stage_window sg * 1000"
    and "list_all answered evs" "sorted (t0 # map lock_time evs)"
  shows "spent_on sha atts k b e (lw_spent (lock_run sha ct atts evs W)) < 2 * stage_max sg"
  using assms(1,4,5)
proof (induction evs arbitrary: W t0)
  case Nil
  then show ?case
    using spent_ok_bound [of k "stage_window sg" b e "stage_max sg"] unfolding key_ok_def Let_def by auto
next
  case (Cons ev evs)
  have "key_ok sha atts k sg b e (lock_time ev) (lock_step sha ct atts ev W)"
    using key_ok_step [OF Cons.prems(1) assms(2,3), of ev] Cons.prems(2,3) by simp
  then show ?case
    using Cons.IH Cons.prems(2,3) by simp
qed

lemma counter_bound:
  assumes "stage_key sha a sg = Some k" "e = b + stage_window sg * 1000"
    and "list_all answered evs" "sorted (map lock_time evs)"
  shows "spent_on sha atts k b e (lw_spent (lock_run sha ct atts evs (lock_start s))) < 2 * stage_max sg"
proof (rule key_ok_run [of _ _ _ _ _ _ 0, OF _ assms(1) _ assms(3)])
  show "key_ok sha atts k sg b e 0 (lock_start s)"
    using spent_ok_early by (simp add: key_ok_def lock_start_def spent_on_def)
qed (use assms in auto)

end

section \<open>The bounds of the throttle\<close>

text \<open>
  The calls a limit let through for one subject under one generation, from \<open>b\<close> for \<open>window\<close> seconds: those that admitted an
  attempt, those of one client address, those of one remembered device.
\<close>

definition passed ::
  "(string \<Rightarrow> string) \<Rightarrow> (nat \<Rightarrow> lock_attempt) \<Rightarrow> lock_kind \<Rightarrow> string \<Rightarrow> (lock_attempt \<Rightarrow> lock_stage \<Rightarrow> bool) \<Rightarrow>
   msec \<Rightarrow> nat \<Rightarrow> 's lock_world \<Rightarrow> nat" where
  "passed sha atts kind subject P b window W =
     length (filter (\<lambda>(t, i, sg). at_kind (atts i) = kind \<and> lock_digest sha (at_subject (atts i)) = lock_digest sha subject \<and>
         P (atts i) sg \<and> b \<le> t \<and> t < b + window * 1000) (lw_spent W))"

definition admissions where
  "admissions sha atts kind subject g b W =
     passed sha atts kind subject (\<lambda>a sg. sg = CountAccount g \<or> sg = CountDevices g) b ACCOUNT_WINDOW_SECONDS W"

definition from_address where
  "from_address sha atts kind subject g ip b W =
     passed sha atts kind subject (\<lambda>a sg. sg = CountAddress g \<and> at_ip a = ip) b IP_WINDOW_SECONDS W"

definition from_device where
  "from_device sha atts kind subject g d b W =
     passed sha atts kind subject (\<lambda>a sg. sg = CountDevice g \<and> at_device a = Some d) b DEVICE_WINDOW_SECONDS W"

lemma length_filter_imp: "(\<And>x. P x \<Longrightarrow> Q x) \<Longrightarrow> length (filter P xs) \<le> length (filter Q xs)"
  by (induction xs) auto

lemma length_filter_disj: "length (filter (\<lambda>x. P x \<or> Q x) xs) \<le> length (filter P xs) + length (filter Q xs)"
  by (induction xs) auto

lemma passed_spent:
  assumes "\<And>a sg. at_kind a = kind \<Longrightarrow> lock_digest sha (at_subject a) = lock_digest sha subject \<Longrightarrow> P a sg \<Longrightarrow>
      stage_key sha a sg = Some k"
  shows "passed sha atts kind subject P b w W \<le> spent_on sha atts k b (b + w * 1000) (lw_spent W)"
  unfolding passed_def spent_on_def using assms by (intro length_filter_imp) auto

text \<open>An attempt that was admitted spent the account's counter or the devices'.\<close>

definition admitted_noted :: "'s lock_world \<Rightarrow> bool" where
  "admitted_noted W \<longleftrightarrow>
     (\<forall>i d. lw_stages W i = Admitted d \<longrightarrow> (\<exists>t g. (t, i, CountAccount g) \<in> set (lw_spent W) \<or> (t, i, CountDevices g) \<in> set (lw_spent W)))"

lemma admitted_by:
  "fst (admit_step sha ct r t a sg st) = Admitted d \<Longrightarrow>
   sg = Admitted d \<or> (\<exists>g. (sg = CountAccount g \<or> sg = CountDevices g) \<and> passes sg (fst (admit_step sha ct r t a sg st)))"
  by (cases sg) (auto simp: admit_step_def Let_def split_beta passes_def split: if_splits)

lemma admitted_noted_step:
  assumes "admitted_noted W"
  shows "admitted_noted (lock_step sha ct atts ev W)"
proof (cases ev)
  case (Step i r t)
  let ?sg = "lw_stages W i" and ?step = "admit_step sha ct r t (atts i) (lw_stages W i) (lw_store W)"
  have W': "lw_stages (lock_step sha ct atts ev W) = (lw_stages W)(i := fst ?step)"
    "lw_spent (lock_step sha ct atts ev W) = lw_spent W @ (if passes ?sg (fst ?step) then [(t, i, ?sg)] else [])"
    using Step by (simp_all add: Let_def split_beta)
  show ?thesis
    unfolding admitted_noted_def
  proof (intro allI impI)
    fix j d
    assume j: "lw_stages (lock_step sha ct atts ev W) j = Admitted d"
    show "\<exists>t g. (t, j, CountAccount g) \<in> set (lw_spent (lock_step sha ct atts ev W)) \<or>
        (t, j, CountDevices g) \<in> set (lw_spent (lock_step sha ct atts ev W))"
    proof (cases "j = i \<and> ?sg \<noteq> Admitted d")
      case True
      with j have "fst ?step = Admitted d"
        by (simp add: W')
      then obtain g where g: "?sg = CountAccount g \<or> ?sg = CountDevices g" "passes ?sg (fst ?step)"
        using admitted_by [of sha ct r t "atts i" ?sg "lw_store W" d] True by auto
      then have "(t, i, ?sg) \<in> set (lw_spent (lock_step sha ct atts ev W))"
        by (simp add: W')
      with g(1) True show ?thesis
        by (intro exI [of _ t] exI [of _ g]) (elim disjE; simp)
    next
      case False
      with j have "\<exists>d'. lw_stages W j = Admitted d'"
        by (auto simp: W' split: if_splits)
      with assms show ?thesis
        unfolding admitted_noted_def W' by fastforce
    qed
  qed
qed (use assms in \<open>simp add: admitted_noted_def\<close>)

lemma admitted_noted_run: "admitted_noted W \<Longrightarrow> admitted_noted (lock_run sha ct atts evs W)"
  by (induction evs arbitrary: W) (simp_all add: admitted_noted_step)

context counter_server begin

lemma pass_bound:
  assumes "stage_key sha a sg = Some k"
    and "\<And>a sg. at_kind a = kind \<Longrightarrow> lock_digest sha (at_subject a) = lock_digest sha subject \<Longrightarrow> P a sg \<Longrightarrow>
      stage_key sha a sg = Some k"
    and "list_all answered evs" "sorted (map lock_time evs)"
  shows "passed sha atts kind subject P b (stage_window sg) (lock_run sha ct atts evs (lock_start s)) < 2 * stage_max sg"
  using passed_spent [OF assms(2)] counter_bound [OF assms(1) refl assms(3,4)] le_less_trans by blast

lemma throttle_bounds:
  fixes kind :: lock_kind and subject ip d :: string and g :: nat
  assumes evs: "list_all answered evs" "sorted (map lock_time evs)"
    and W: "W = lock_run sha ct atts evs (lock_start s)"
  shows "admissions sha atts kind subject g b W \<le> 138 \<and> from_address sha atts kind subject g ip b W \<le> 9 \<and>
    from_device sha atts kind subject g d b W \<le> 9"
proof -
  let ?a = "\<lparr>at_kind = kind, at_subject = subject, at_ip = ip, at_device = Some d\<rparr>"
  have keys: "stage_key sha ?a (CountAccount g) = Some (account_key sha kind g subject)"
    "stage_key sha ?a (CountDevices g) = Some (devices_key sha kind g subject)"
    "stage_key sha ?a (CountAddress g) = Some (address_key sha kind g subject ip)"
    "stage_key sha ?a (CountDevice g) = Some (device_key sha kind g subject d)"
    by (simp_all add: stage_key_def)
  let ?p = "\<lambda>P w. passed sha atts kind subject P b w W"
  have "?p (\<lambda>a sg. sg = CountAccount g) ACCOUNT_WINDOW_SECONDS < 100"
  proof -
    have "stage_key sha a sg = stage_key sha ?a (CountAccount g)"
      if "at_kind a = kind" "lock_digest sha (at_subject a) = lock_digest sha subject" "sg = CountAccount g" for a sg
      using that by (simp add: stage_key_def lock_keys)
    then show ?thesis
      using pass_bound [OF keys(1) _ evs, of kind subject "\<lambda>a sg. sg = CountAccount g" atts b s] keys(1)
      unfolding W from_address_def from_device_def by (simp add: stage_max_def stage_window_def lockout_limits)
  qed
  moreover have "?p (\<lambda>a sg. sg = CountDevices g) ACCOUNT_WINDOW_SECONDS < 40"
  proof -
    have "stage_key sha a sg = stage_key sha ?a (CountDevices g)"
      if "at_kind a = kind" "lock_digest sha (at_subject a) = lock_digest sha subject" "sg = CountDevices g" for a sg
      using that by (simp add: stage_key_def lock_keys)
    then show ?thesis
      using pass_bound [OF keys(2) _ evs, of kind subject "\<lambda>a sg. sg = CountDevices g" atts b s] keys(2)
      unfolding W from_address_def from_device_def by (simp add: stage_max_def stage_window_def lockout_limits)
  qed
  moreover have "from_address sha atts kind subject g ip b W < 10"
  proof -
    have "stage_key sha a sg = stage_key sha ?a (CountAddress g)"
      if "at_kind a = kind" "lock_digest sha (at_subject a) = lock_digest sha subject" "sg = CountAddress g \<and> at_ip a = ip" for a sg
      using that by (simp add: stage_key_def lock_keys)
    then show ?thesis
      using pass_bound [OF keys(3) _ evs, of kind subject "\<lambda>a sg. sg = CountAddress g \<and> at_ip a = ip" atts b s] keys(3)
      unfolding W from_address_def from_device_def by (simp add: stage_max_def stage_window_def lockout_limits)
  qed
  moreover have "from_device sha atts kind subject g d b W < 10"
  proof -
    have "stage_key sha a sg = stage_key sha ?a (CountDevice g)"
      if "at_kind a = kind" "lock_digest sha (at_subject a) = lock_digest sha subject" "sg = CountDevice g \<and> at_device a = Some d" for a sg
      using that by (simp add: stage_key_def lock_keys)
    then show ?thesis
      using pass_bound [OF keys(4) _ evs, of kind subject "\<lambda>a sg. sg = CountDevice g \<and> at_device a = Some d" atts b s] keys(4)
      unfolding W from_address_def from_device_def by (simp add: stage_max_def stage_window_def lockout_limits)
  qed
  moreover have "admissions sha atts kind subject g b W
      \<le> ?p (\<lambda>a sg. sg = CountAccount g) ACCOUNT_WINDOW_SECONDS + ?p (\<lambda>a sg. sg = CountDevices g) ACCOUNT_WINDOW_SECONDS"
    unfolding admissions_def passed_def by (rule order_trans [OF length_filter_imp length_filter_disj]) auto
  ultimately show ?thesis
    by simp
qed

end

text \<open>
  C27. However many guesses at an account run at once, interleaved in any way and from any addresses and devices, as long as
  the counters' server answers: in any hour at most 138 attempts under one generation of the account's counters are
  admitted (99 through the account's counter, 39 through the devices'); in any 15 minutes at most 9 attempts from one
  client address pass the address's limit, and at most 9 of one remembered device pass the device's; and every attempt
  admitted is one that these counters counted.
\<close>

theorem lockout_bounds_guesses:
  assumes "counter_server ct cnt"
    and "list_all answered evs" and "sorted (map lock_time evs)"
    and "W = lock_run sha ct atts evs (lock_start s)"
  shows "admissions sha atts kind subject g b W \<le> 138 \<and> from_address sha atts kind subject g ip b W \<le> 9 \<and>
    from_device sha atts kind subject g d b W \<le> 9 \<and>
    (\<forall>i delay. lw_stages W i = Admitted delay \<longrightarrow>
       (\<exists>t g. (t, i, CountAccount g) \<in> set (lw_spent W) \<or> (t, i, CountDevices g) \<in> set (lw_spent W)))"
proof -
  have "admitted_noted W"
    unfolding assms(4) by (rule admitted_noted_run) (simp add: admitted_noted_def lock_start_def)
  then show ?thesis
    using counter_server.throttle_bounds [OF assms(1-3) refl] unfolding admitted_noted_def assms(4) by blast
qed

definition example_attempts :: "nat \<Rightarrow> lock_attempt" where
  "example_attempts i = \<lparr>at_kind = SignIn, at_subject = ''a@b.c'', at_ip = ''192.0.2.1'', at_device = None\<rparr>"

definition example_guesses :: "lock_event list" where
  "example_guesses = [Step 0 Fine 0, Step 1 Fine 0, Step 0 Fine 1, Step 1 Fine 2, Step 0 Fine 3, Step 1 Fine 3]"

lemma example_guess_run:
  "lw_stages (lock_run (\<lambda>_. ''d'') mem_counters example_attempts example_guesses (lock_start mc_empty)) 1 = Admitted 0"
  by (simp add: example_guesses_def example_attempts_def lock_start_def admit_step_def storage_get_def storage_increment_def
      storage_guard_def INCREMENT_LUA_def mem_counters_def mc_empty_def mc_get_def mc_cnt_def live_def lock_keys gen_key_def
      generation_of_def lock_digest_def lockout_limits)

theorem lockout_bounds_guesses_witness:
  "admissions (\<lambda>_. ''d'') example_attempts SignIn ''a@b.c'' 0 0
     (lock_run (\<lambda>_. ''d'') mem_counters example_attempts example_guesses (lock_start mc_empty)) \<le> 138 \<and>
   (\<exists>t g. (t, 1, CountAccount g) \<in> set (lw_spent (lock_run (\<lambda>_. ''d'') mem_counters example_attempts example_guesses (lock_start mc_empty)))
      \<or> (t, 1, CountDevices g) \<in> set (lw_spent (lock_run (\<lambda>_. ''d'') mem_counters example_attempts example_guesses (lock_start mc_empty))))"
proof -
  have "list_all answered example_guesses" "sorted (map lock_time example_guesses)"
    by (simp_all add: example_guesses_def)
  from lockout_bounds_guesses [OF mem_counters.counter_server_axioms this refl, where sha = "\<lambda>_. ''d''" and
      atts = example_attempts and s = mc_empty and kind = SignIn and subject = "''a@b.c''" and g = 0 and b = 0]
  show ?thesis
    using example_guess_run by blast
qed

end
