(* ===== verification/RequestSlot.thy ===== *)
theory RequestSlot
  imports KnownDevice
begin

text \<open>
  What one request of the identity handler carries along (\<open>identity/src/callback-errors.ts\<close>): the code a provider refused
  with, the claims of the staff sign-in under way, and the users it created; and what may be said of an error in a log
  (\<open>identity/src/events.ts\<close>). The slot of the request is passed as a value, \<open>None\<close> outside a request.
\<close>

section \<open>The slot\<close>

record staff_claims =
  sc_oid :: string
  sc_tid :: string
  sc_email :: string
  sc_guest :: bool
  sc_roles :: "string list"

record request_slot =
  rs_code :: "string option"
  rs_staffSignIn :: "staff_claims option"
  rs_createdUsers :: "string list"

definition new_slot :: request_slot where
  "new_slot = \<lparr>rs_code = None, rs_staffSignIn = None, rs_createdUsers = []\<rparr>"

text \<open>An App Roles claim: an ordered set of texts of 1 to 256 characters, at most 200 of them.\<close>

fun collect_roles :: "string list \<Rightarrow> jsval list \<Rightarrow> string list" where
  "collect_roles roles [] = roles"
| "collect_roles roles (v # vs) =
     (let roles' = (case v of
                      JStr r \<Rightarrow> if r \<noteq> [] \<and> length r \<le> 256 \<and> r \<notin> set roles then roles @ [r] else roles
                    | _ \<Rightarrow> roles)
      in if 200 \<le> length roles' then roles' else collect_roles roles' vs)"

definition validRoles :: "jsval \<Rightarrow> string list" where
  "validRoles v = (case v of JArr vs \<Rightarrow> collect_roles [] vs | _ \<Rightarrow> [])"

lemma collect_roles_ok:
  "length roles \<le> 200 \<Longrightarrow> distinct roles \<Longrightarrow> \<forall>r\<in>set roles. r \<noteq> [] \<and> length r \<le> 256 \<Longrightarrow> length roles < 200 \<or> vs = [] \<Longrightarrow>
   length (collect_roles roles vs) \<le> 200 \<and> distinct (collect_roles roles vs) \<and>
   (\<forall>r\<in>set (collect_roles roles vs). r \<noteq> [] \<and> length r \<le> 256)"
proof (induction roles vs rule: collect_roles.induct)
  case (1 roles)
  then show ?case by simp
next
  case (2 roles v vs)
  define roles' where "roles' = (case v of
      JStr r \<Rightarrow> if r \<noteq> [] \<and> length r \<le> 256 \<and> r \<notin> set roles then roles @ [r] else roles | _ \<Rightarrow> roles)"
  have r': "length roles' \<le> 200" "distinct roles'" "\<forall>r\<in>set roles'. r \<noteq> [] \<and> length r \<le> 256"
    using "2.prems" by (auto simp: roles'_def split: jsval.split)
  have eq: "collect_roles roles (v # vs) = (if 200 \<le> length roles' then roles' else collect_roles roles' vs)"
    by (simp add: roles'_def Let_def)
  show ?case
  proof (cases "200 \<le> length roles'")
    case True
    with r' show ?thesis unfolding eq by simp
  next
    case False
    then show ?thesis
      using "2.IH" [OF roles'_def] r' unfolding eq by auto
  qed
qed

lemma valid_roles_bounded:
  "length (validRoles v) \<le> 200 \<and> distinct (validRoles v) \<and> (\<forall>r\<in>set (validRoles v). r \<noteq> [] \<and> length r \<le> 256)"
  using collect_roles_ok [of "[]"] by (cases v) (auto simp: validRoles_def)

definition rememberStaffSignIn :: "staff_claims \<Rightarrow> request_slot option \<Rightarrow> request_slot option" where
  "rememberStaffSignIn claims = map_option (\<lambda>s. s\<lparr>rs_staffSignIn := Some claims\<rparr>)"

definition takeStaffSignIn :: "request_slot option \<Rightarrow> staff_claims option \<times> request_slot option" where
  "takeStaffSignIn slot =
     (case slot of
        None \<Rightarrow> (None, None)
      | Some s \<Rightarrow> (rs_staffSignIn s, Some (s\<lparr>rs_staffSignIn := None\<rparr>)))"

definition rememberCreatedUser :: "string \<Rightarrow> request_slot option \<Rightarrow> request_slot option" where
  "rememberCreatedUser userId =
     map_option (\<lambda>s. if userId \<in> set (rs_createdUsers s) then s else s\<lparr>rs_createdUsers := rs_createdUsers s @ [userId]\<rparr>)"

definition wasCreatedInThisRequest :: "string \<Rightarrow> request_slot option \<Rightarrow> bool" where
  "wasCreatedInThisRequest userId slot = (case slot of None \<Rightarrow> False | Some s \<Rightarrow> userId \<in> set (rs_createdUsers s))"

definition refuseCallbackWith :: "string \<Rightarrow> request_slot option \<Rightarrow> request_slot option" where
  "refuseCallbackWith code = map_option (\<lambda>s. s\<lparr>rs_code := Some code\<rparr>)"

lemma claims_taken_once:
  "fst (takeStaffSignIn (snd (takeStaffSignIn slot))) = None"
  by (auto simp: takeStaffSignIn_def split: option.splits)

section \<open>The code on the redirect\<close>

text \<open>
  A URL as its path, its query parameters and the rest; the parser (of a location against the request's URL) and the two
  renderings are parameters. The headers of the response are left to the location.
\<close>

record redirect_url =
  ru_pathname :: string
  ru_params :: "(string \<times> string) list"
  ru_rest :: string

record callback_response =
  cr_status :: nat
  cr_location :: "string option"
  cr_body :: "string option"

definition params_set :: "string \<Rightarrow> string \<Rightarrow> (string \<times> string) list \<Rightarrow> (string \<times> string) list" where
  "params_set k v ps =
     (if k \<in> fst ` set ps
      then takeWhile (\<lambda>p. fst p \<noteq> k) ps @ (k, v) # filter (\<lambda>p. fst p \<noteq> k) (tl (dropWhile (\<lambda>p. fst p \<noteq> k) ps))
      else ps @ [(k, v)])"

definition withCallbackErrorCodes ::
  "(string \<Rightarrow> redirect_url) \<Rightarrow> ((string \<times> string) list \<Rightarrow> string) \<Rightarrow> (redirect_url \<Rightarrow> string) \<Rightarrow> request_slot \<Rightarrow>
   callback_response \<Rightarrow> callback_response" where
  "withCallbackErrorCodes parse search href slot response =
     (case (rs_code slot, cr_location response) of
        (Some code, Some location) \<Rightarrow>
          if code = [] \<or> location = [] \<or> cr_status response < 300 \<or> 399 < cr_status response then response
          else let url = parse location in
            if ''error'' \<notin> fst ` set (ru_params url) then response
            else let url' = url\<lparr>ru_params := params_set ''error'' code (ru_params url)\<rparr> in
              \<lparr>cr_status = cr_status response,
               cr_location = Some (if take 1 location = ''/'' then ru_pathname url' @ search (ru_params url') else href url'),
               cr_body = None\<rparr>
      | _ \<Rightarrow> response)"

lemma map_of_takeWhile_stop: "map_of (takeWhile (\<lambda>p. fst p \<noteq> k) ps @ (k, v) # qs) k = Some v"
  by (induction ps) auto

lemma map_of_params_set [simp]: "map_of (params_set k v ps) k = Some v"
proof (cases "k \<in> fst ` set ps")
  case True
  then show ?thesis
    by (simp add: params_set_def map_of_takeWhile_stop del: map_of_append)
next
  case False
  then have "map_of ps k = None"
    by (simp add: map_of_eq_None_iff)
  with False show ?thesis
    by (simp add: params_set_def map_add_def)
qed

lemma callback_without_code: "rs_code slot = None \<Longrightarrow> withCallbackErrorCodes parse search href slot r = r"
  by (simp add: withCallbackErrorCodes_def)

lemma callback_status_kept: "cr_status (withCallbackErrorCodes parse search href slot r) = cr_status r"
  by (simp add: withCallbackErrorCodes_def Let_def split: option.split)

section \<open>What a log may say of an error\<close>

text \<open>
  An error value: the name of its constructor, its \<open>name\<close>, its \<open>code\<close> and its cause, each a text if it is one. The causes of
  causes is cut at four.
\<close>

datatype thrown_cause = Thrown (th_class: "string option") (th_name: "string option") (th_code: "string option") (th_cause: "thrown_cause option")

definition field_char :: "char \<Rightarrow> bool" where
  "field_char c \<longleftrightarrow> is_alnum c \<or> c \<in> set ''_.:-''"

definition plain_identifier :: "string option \<Rightarrow> string option" where
  "plain_identifier v =
     (case v of
        Some s \<Rightarrow> if s \<noteq> [] \<and> length s \<le> 64 \<and> list_all field_char s then Some s else None
      | None \<Rightarrow> None)"

definition or_text :: "string option \<Rightarrow> string option \<Rightarrow> string option" where
  "or_text a b = (case a of Some s \<Rightarrow> Some s | None \<Rightarrow> b)"

fun cause_chain :: "nat \<Rightarrow> thrown_cause option \<Rightarrow> thrown_cause list" where
  "cause_chain (Suc n) (Some e) = e # cause_chain n (th_cause e)"
| "cause_chain _ _ = []"

definition class_name :: "thrown_cause \<Rightarrow> string option" where
  "class_name e = or_text (plain_identifier (th_class e)) (plain_identifier (th_name e))"

definition first_some :: "'a option list \<Rightarrow> 'a option" where
  "first_some xs = (case filter (\<lambda>x. x \<noteq> None) xs of [] \<Rightarrow> None | x # _ \<Rightarrow> x)"

definition log_field :: "string \<Rightarrow> string option \<Rightarrow> (string \<times> string) list" where
  "log_field k v = (case v of Some s \<Rightarrow> [(k, s)] | None \<Rightarrow> [])"

definition errorFields :: "(string \<Rightarrow> bool) \<Rightarrow> thrown_cause option \<Rightarrow> string option \<Rightarrow> (string \<times> string) list" where
  "errorFields valid_id error correlationId =
     (let causes = cause_chain 4 error in
      log_field ''error'' (if causes = [] then None else class_name (hd causes)) @
         log_field ''cause'' (if length causes < 2 then None else class_name (causes ! 1)) @
         log_field ''errorCode'' (first_some (map (\<lambda>e. plain_identifier (th_code e)) causes)) @
         log_field ''correlationId'' (case correlationId of Some i \<Rightarrow> if valid_id i then Some i else None | None \<Rightarrow> None))"

lemma plain_identifier_safe: "plain_identifier v = Some s \<Longrightarrow> length s \<le> 64 \<and> list_all field_char s"
  by (auto simp: plain_identifier_def split: option.splits if_splits)

lemma first_some_in: "first_some xs = Some x \<Longrightarrow> Some x \<in> set xs"
proof -
  assume "first_some xs = Some x"
  then have "Some x \<in> set (filter (\<lambda>x. x \<noteq> None) xs)"
    unfolding first_some_def by (cases "filter (\<lambda>x. x \<noteq> None) xs") auto
  then show ?thesis by simp
qed

lemma log_field_iff [simp]: "(k, v) \<in> set (log_field k' x) \<longleftrightarrow> k = k' \<and> x = Some v"
  by (auto simp: log_field_def split: option.split)

lemma class_name_safe: "class_name e = Some s \<Longrightarrow> length s \<le> 64 \<and> list_all field_char s"
  unfolding class_name_def or_text_def
  by (cases "plain_identifier (th_class e)") (simp_all add: plain_identifier_safe)

lemma code_safe:
  "first_some (map (\<lambda>e. plain_identifier (th_code e)) causes) = Some s \<Longrightarrow>
   length s \<le> 64 \<and> list_all field_char s"
  using first_some_in plain_identifier_safe by fastforce

text \<open>Every field but the correlation id is at most 64 characters of the identifiers' alphabet.\<close>

lemma error_fields_safe:
  assumes "(k, v) \<in> set (errorFields valid_id error correlationId)"
  shows "k = ''correlationId'' \<and> valid_id v \<or> length v \<le> 64 \<and> list_all field_char v"
proof -
  let ?safe = "\<lambda>s. length s \<le> 64 \<and> list_all field_char s"
  let ?causes = "cause_chain 4 error"
  consider "(if ?causes = [] then None else class_name (hd ?causes)) = Some v"
    | "(if length ?causes < 2 then None else class_name (?causes ! 1)) = Some v"
    | "first_some (map (\<lambda>e. plain_identifier (th_code e)) ?causes) = Some v"
    | "k = ''correlationId''" "(case correlationId of Some i \<Rightarrow> if valid_id i then Some i else None | None \<Rightarrow> None) = Some v"
    using assms unfolding errorFields_def Let_def set_append Un_iff log_field_iff by blast
  then show ?thesis
  proof cases
    case 1
    then have "?safe v" using class_name_safe by (metis option.distinct(1))
    then show ?thesis by blast
  next
    case 2
    then have "?safe v" using class_name_safe by (metis option.distinct(1))
    then show ?thesis by blast
  next
    case 3
    then have "?safe v" by (rule code_safe)
    then show ?thesis by blast
  next
    case 4
    then show ?thesis by (simp split: option.splits if_splits)
  qed
qed

end
