(* ===== verification/StaffSession.thy ===== *)
theory StaffSession
  imports RequestSlot
begin

text \<open>
  The 12-hour cap on staff sessions (\<open>identity/src/staff-session.ts\<close>): the hooks where a session is written, the memo of who is
  staff, the wrapped reads, and what happens to the sessions of a user who becomes staff. Better Auth's adapter is the record
  of \<open>BetterAuth\<close>; the product's sign-in hook is a function on the world that may throw. Times are milliseconds.
\<close>

section \<open>The hooks on session writes\<close>

definition STAFF_CAP :: int where "STAFF_CAP = 12 * 3600 * 1000"

definition is_microsoft :: "auth_account \<Rightarrow> bool" where
  "is_microsoft a \<longleftrightarrow> ac_providerId a = ''microsoft''"

definition isStaff :: "'w adapter \<Rightarrow> string list \<Rightarrow> string \<Rightarrow> 'w \<Rightarrow> bool" where
  "isStaff ad staffDomains userId w =
     (if list_ex is_microsoft (ad_accounts ad userId w) then True
      else (case ad_userById ad userId w of None \<Rightarrow> False | Some u \<Rightarrow> staffEmailIn (u_email u) staffDomains))"

text \<open>
  The product's hook answers whether it threw, and the world after. A line of the log says a sign-in was refused, or that
  the user a refused sign-in created could not be removed.
\<close>

type_synonym 'w staff_hook = "auth_user \<Rightarrow> staff_claims \<Rightarrow> 'w \<Rightarrow> bool \<times> 'w"

record 'w staff_policy =
  sp_staffDomains :: "string list"
  sp_onStaffSignIn :: "'w staff_hook option"

datatype staff_log = SignInRefused | UserNotRemoved

text \<open>
  \<open>forgetUserCreatedByThisRequest\<close>: \<open>fails\<close> tells that the transaction failed, which rolls it back.
\<close>

definition forgetUser ::
  "'w adapter \<Rightarrow> bool \<Rightarrow> string \<Rightarrow> staff_claims option \<Rightarrow> request_slot option \<Rightarrow> 'w \<times> staff_log list \<Rightarrow> 'w \<times> staff_log list" where
  "forgetUser ad fails userId claims slot wl =
     (let (w, log) = wl in
      if \<not> wasCreatedInThisRequest userId slot then (w, log)
      else if fails then (w, log @ [UserNotRemoved])
      else
        let accounts = ad_accounts ad userId w;
            onlyThisMicrosoftAccount =
              (case accounts of
                 [sole] \<Rightarrow> is_microsoft sole \<and> (case claims of None \<Rightarrow> True | Some c \<Rightarrow> ac_accountId sole = sc_oid c)
               | _ \<Rightarrow> False)
        in if \<not> onlyThisMicrosoftAccount \<or> ad_listSessions ad userId w \<noteq> [] \<or> ad_sessions ad userId w \<noteq> [] then (w, log)
           else (ad_deleteUser ad userId w, log))"

definition refuseAndForget where
  "refuseAndForget ad fails userId claims slot wl =
     (let (w, log) = forgetUser ad fails userId claims slot wl in (w, log @ [SignInRefused]))"

text \<open>\<open>runStaffSignIn\<close> answers whether the sign-in goes on.\<close>

definition runStaffSignIn ::
  "'w adapter \<Rightarrow> 'w staff_policy \<Rightarrow> bool \<Rightarrow> string \<Rightarrow> staff_claims \<Rightarrow> request_slot option \<Rightarrow> 'w \<times> staff_log list \<Rightarrow>
   bool \<times> 'w \<times> staff_log list" where
  "runStaffSignIn ad policy fails userId claims slot wl =
     (case sp_onStaffSignIn policy of
        None \<Rightarrow> (True, wl)
      | Some hook \<Rightarrow>
          (case ad_userById ad userId (fst wl) of
             Some user \<Rightarrow>
               if list_ex (\<lambda>a. is_microsoft a \<and> ac_accountId a = sc_oid claims) (ad_accounts ad userId (fst wl))
               then (let (threw, w') = hook user claims (fst wl) in
                     if threw then (False, refuseAndForget ad fails userId (Some claims) slot (w', snd wl))
                     else (True, w', snd wl))
               else (False, refuseAndForget ad fails userId (Some claims) slot wl)
           | None \<Rightarrow> (False, refuseAndForget ad fails userId (Some claims) slot wl)))"

text \<open>The row being written: its user if it is a text, its dates if they are dates.\<close>

record session_row =
  sr_userId :: "string option"
  sr_createdAt :: "int option"
  sr_expiresAt :: "int option"

definition or_else_int :: "int option \<Rightarrow> int \<Rightarrow> int" where
  "or_else_int v d = (case v of Some x \<Rightarrow> x | None \<Rightarrow> d)"

definition earliest :: "int \<Rightarrow> int \<Rightarrow> int" where
  "earliest a b = (if a \<le> b then a else b)"

definition isMicrosoftCallback :: "string option \<Rightarrow> string option \<Rightarrow> bool" where
  "isMicrosoftCallback path provider \<longleftrightarrow>
     (case path of None \<Rightarrow> False | Some p \<Rightarrow> take 10 p = ''/callback/'') \<and> provider = Some ''microsoft''"

datatype write_result = RefusedWrite | WriteAsIs | WriteExpiry int

definition capped_write :: "'w adapter \<Rightarrow> string list \<Rightarrow> session_row \<Rightarrow> int \<Rightarrow> 'w \<Rightarrow> write_result" where
  "capped_write ad staffDomains row now w =
     (case sr_userId row of
        None \<Rightarrow> WriteAsIs
      | Some userId \<Rightarrow>
          if \<not> isStaff ad staffDomains userId w then WriteAsIs
          else WriteExpiry (earliest (or_else_int (sr_expiresAt row) (now + STAFF_CAP)) (or_else_int (sr_createdAt row) now + STAFF_CAP)))"

definition session_create_before ::
  "'w adapter \<Rightarrow> 'w staff_policy \<Rightarrow> bool \<Rightarrow> bool \<Rightarrow> session_row \<Rightarrow> int \<Rightarrow> request_slot option \<Rightarrow> 'w \<times> staff_log list \<Rightarrow>
   write_result \<times> request_slot option \<times> 'w \<times> staff_log list" where
  "session_create_before ad policy callback fails row now slot wl =
     (let (signIn, slot') = takeStaffSignIn slot in
      case (signIn, sr_userId row) of
        (Some claims, Some userId) \<Rightarrow>
          (let (goes_on, wl') = runStaffSignIn ad policy fails userId claims slot' wl in
           (if goes_on then capped_write ad (sp_staffDomains policy) row now (fst wl') else RefusedWrite, slot', wl'))
      | _ \<Rightarrow>
          if sp_onStaffSignIn policy \<noteq> None \<and> callback then
            (RefusedWrite, slot',
             case sr_userId row of
               Some userId \<Rightarrow> refuseAndForget ad fails userId None slot' wl
             | None \<Rightarrow> (fst wl, snd wl @ [SignInRefused]))
          else (capped_write ad (sp_staffDomains policy) row now (fst wl), slot', wl))"

text \<open>The session refreshed is the one of the request's cookie.\<close>

definition session_update_before ::
  "'w adapter \<Rightarrow> string list \<Rightarrow> int option \<Rightarrow> string option \<Rightarrow> 'w \<Rightarrow> write_result" where
  "session_update_before ad staffDomains expiresAt token w =
     (case expiresAt of
        None \<Rightarrow> WriteAsIs
      | Some e \<Rightarrow>
          (case (case token of None \<Rightarrow> None | Some t \<Rightarrow> if t = [] then None else ad_sessionRow ad t w) of
             None \<Rightarrow> WriteAsIs
           | Some row \<Rightarrow>
               if \<not> isStaff ad staffDomains (se_userId row) w then WriteAsIs
               else WriteExpiry (earliest e (se_createdAt row + STAFF_CAP))))"

section \<open>Who is staff, remembered\<close>

definition CLASSIFICATION_TTL_MS :: int where "CLASSIFICATION_TTL_MS = 30000"
definition CLASSIFICATION_MAX :: nat where "CLASSIFICATION_MAX = 10000"

text \<open>The memo is a \<open>Map\<close>: entries in the order their keys were first set; setting a key again keeps its place.\<close>

type_synonym staff_memo = "(string \<times> bool \<times> int) list"

definition remember_staff :: "string \<Rightarrow> bool \<Rightarrow> int \<Rightarrow> staff_memo \<Rightarrow> staff_memo" where
  "remember_staff userId staff now memo =
     (let memo' = (if CLASSIFICATION_MAX \<le> length memo then tl memo else memo)
      in AList.update userId (staff, now + CLASSIFICATION_TTL_MS) memo')"

text \<open>The user of a loaded session; its id is a text or not.\<close>

definition classify_staff ::
  "'w adapter \<Rightarrow> string list \<Rightarrow> string option \<Rightarrow> string \<Rightarrow> int \<Rightarrow> 'w \<Rightarrow> staff_memo \<Rightarrow> bool \<times> staff_memo" where
  "classify_staff ad staffDomains userId email now w memo =
     (if staffEmailIn email staffDomains then (True, memo)
      else case userId of
        None \<Rightarrow> (False, memo)
      | Some i \<Rightarrow>
          (case map_of memo i of
             Some (staff, deadline) \<Rightarrow>
               if now < deadline then (staff, memo)
               else (let s = list_ex is_microsoft (ad_accounts ad i w) in (s, remember_staff i s now memo))
           | None \<Rightarrow> (let s = list_ex is_microsoft (ad_accounts ad i w) in (s, remember_staff i s now memo))))"

section \<open>The wrapped reads\<close>

text \<open>
  A loaded session with its user. The settings are Better Auth's lifetime and refresh age, in seconds. The answer is the
  session handed on, whether the refresh is switched off for the request, and the memo.
\<close>

record loaded =
  ld_session :: auth_session
  ld_userId :: "string option"
  ld_email :: string

definition guarded_findSession ::
  "'w adapter \<Rightarrow> string list \<Rightarrow> int \<Rightarrow> int \<Rightarrow> bool \<Rightarrow> int \<Rightarrow> 'w \<Rightarrow> loaded option \<Rightarrow> staff_memo \<Rightarrow>
   loaded option \<times> bool \<times> staff_memo" where
  "guarded_findSession ad staffDomains expiresIn updateAge in_request now w found memo =
     (case found of
        None \<Rightarrow> (None, False, memo)
      | Some l \<Rightarrow>
          let expiresAt = se_expiresAt (ld_session l);
              capAt = se_createdAt (ld_session l) + STAFF_CAP;
              overCap = expiresAt > capAt; pastCap = capAt < now;
              due = expiresAt - (expiresIn - updateAge) * 1000 \<le> now;
              mustDie = overCap \<and> pastCap; skippable = \<not> overCap \<and> due
          in if \<not> mustDie \<and> \<not> skippable then (Some l, False, memo)
             else
               let (staff, memo') = classify_staff ad staffDomains (ld_userId l) (ld_email l) now w memo in
               if \<not> staff then (Some l, False, memo')
               else if mustDie then (Some (l\<lparr>ld_session := (ld_session l)\<lparr>se_expiresAt := capAt\<rparr>\<rparr>), False, memo')
               else (Some l, in_request, memo'))"

definition guarded_listSessions ::
  "'w adapter \<Rightarrow> string list \<Rightarrow> string \<Rightarrow> int \<Rightarrow> 'w \<Rightarrow> auth_session list \<Rightarrow> staff_memo \<Rightarrow> auth_session list \<times> staff_memo" where
  "guarded_listSessions ad staffDomains userId now w sessions memo =
     (let pastCap = (\<lambda>s. se_createdAt s + STAFF_CAP < now) in
      if \<not> list_ex pastCap sessions then (sessions, memo)
      else case ad_userById ad userId w of
        None \<Rightarrow> (sessions, memo)
      | Some u \<Rightarrow>
          let (staff, memo') = classify_staff ad staffDomains (Some userId) (u_email u) now w memo in
          (if staff then filter (\<lambda>s. \<not> pastCap s) sessions else sessions, memo'))"

section \<open>Becoming staff\<close>

definition revokeUncapped :: "'w adapter \<Rightarrow> string \<Rightarrow> 'w \<Rightarrow> 'w" where
  "revokeUncapped ad userId w =
     (let tokens = map se_token (filter (\<lambda>s. se_expiresAt s > se_createdAt s + STAFF_CAP) (ad_sessions ad userId w))
      in if tokens = [] then w else ad_deleteSessions ad tokens w)"

definition account_create_after ::
  "'w adapter \<Rightarrow> string \<Rightarrow> string option \<Rightarrow> int \<Rightarrow> 'w \<times> staff_memo \<Rightarrow> 'w \<times> staff_memo" where
  "account_create_after ad provider userId now wm =
     (case userId of
        Some i \<Rightarrow>
          if provider \<noteq> ''microsoft'' then wm
          else (revokeUncapped ad i (fst wm), remember_staff i True now (snd wm))
      | None \<Rightarrow> wm)"

definition user_update_after :: "'w adapter \<Rightarrow> string list \<Rightarrow> (string \<times> string) option \<Rightarrow> 'w \<Rightarrow> 'w" where
  "user_update_after ad staffDomains user w =
     (case user of
        Some (i, email) \<Rightarrow> if staffEmailIn email staffDomains then revokeUncapped ad i w else w
      | None \<Rightarrow> w)"

section \<open>What is written\<close>

lemma capped_write_bound:
  assumes "sr_userId row = Some userId" "isStaff ad staffDomains userId w"
  obtains e where "capped_write ad staffDomains row now w = WriteExpiry e" "e \<le> or_else_int (sr_createdAt row) now + STAFF_CAP"
  using assms by (auto simp: capped_write_def earliest_def)

text \<open>A session written for a user who is staff once the product's hook ran expires within the cap, or is refused.\<close>

lemma created_session_capped:
  assumes "session_create_before ad policy callback fails row now slot wl = (r, slot', wl')"
    and "sr_userId row = Some userId" "isStaff ad (sp_staffDomains policy) userId (fst wl')"
  shows "r = RefusedWrite \<or> (\<exists>e. r = WriteExpiry e \<and> e \<le> or_else_int (sr_createdAt row) now + STAFF_CAP)"
  using assms capped_write_bound [OF assms(2,3), of now]
  by (auto simp: session_create_before_def split: prod.splits option.splits if_splits)

lemma refreshed_session_capped:
  assumes "ad_sessionRow ad token w = Some row" "token \<noteq> []" "isStaff ad staffDomains (se_userId row) w"
  shows "\<exists>e'. session_update_before ad staffDomains (Some e) (Some token) w = WriteExpiry e' \<and> e' \<le> e \<and>
    e' \<le> se_createdAt row + STAFF_CAP"
  using assms by (auto simp: session_update_before_def earliest_def)

text \<open>
  With a product hook, a session of the Microsoft callback is written only after the hook ran, without throwing, for a user
  who holds the identity the token named.
\<close>

lemma staff_sign_in_fails_closed:
  assumes "session_create_before ad policy True fails row now slot wl = (r, slot', wl')" "r \<noteq> RefusedWrite"
    and "sp_onStaffSignIn policy = Some hook"
  shows "\<exists>claims userId user w'. fst (takeStaffSignIn slot) = Some claims \<and> sr_userId row = Some userId \<and>
    ad_userById ad userId (fst wl) = Some user \<and>
    list_ex (\<lambda>a. is_microsoft a \<and> ac_accountId a = sc_oid claims) (ad_accounts ad userId (fst wl)) \<and>
    hook user claims (fst wl) = (False, w') \<and> wl' = (w', snd wl)"
  using assms
  by (auto simp: session_create_before_def runStaffSignIn_def Let_def split: prod.splits option.splits if_splits)

text \<open>
  A refused sign-in removes nobody but a user this request created, who holds one Microsoft account and no session.
\<close>

lemma forgets_only_its_own:
  assumes "forgetUser ad fails userId claims slot (w, lg) = (w', lg')" "w' \<noteq> w"
  shows "wasCreatedInThisRequest userId slot \<and> w' = ad_deleteUser ad userId w \<and> ad_sessions ad userId w = [] \<and>
    (\<exists>a. ad_accounts ad userId w = [a] \<and> is_microsoft a)"
  using assms by (auto simp: forgetUser_def Let_def split: if_splits list.splits)

context auth_adapter begin

lemma revoked_all_capped:
  "s \<in> set (ad_sessions ad userId (revokeUncapped ad userId w)) \<Longrightarrow> se_expiresAt s \<le> se_createdAt s + STAFF_CAP"
proof -
  assume s: "s \<in> set (ad_sessions ad userId (revokeUncapped ad userId w))"
  let ?over = "filter (\<lambda>s. se_expiresAt s > se_createdAt s + STAFF_CAP) (ad_sessions ad userId w)"
  have "s \<in> set (ad_sessions ad userId w) \<and> se_token s \<notin> se_token ` set ?over"
  proof (cases "map se_token ?over = []")
    case True
    with s show ?thesis by (simp add: revokeUncapped_def Let_def)
  next
    case False
    with s show ?thesis
      by (simp add: revokeUncapped_def Let_def sessions_deleteSessions image_image)
  qed
  then show ?thesis
    by (auto simp: not_less [symmetric])
qed

end

lemmas revoked_all_capped_rows = mem_auth.revoked_all_capped

section \<open>What is read\<close>

text \<open>
  The memo of one process over a run: reads, lists and accounts linked, each at its time; the world at a time is a function
  of it.
\<close>

datatype staff_event = ReadSession int "loaded option" | ListUser int string "auth_session list" | Linked int string "string option"

fun staff_event_time :: "staff_event \<Rightarrow> int" where
  "staff_event_time (ReadSession t l) = t"
| "staff_event_time (ListUser t i ss) = t"
| "staff_event_time (Linked t p i) = t"

fun memo_step :: "'w adapter \<Rightarrow> string list \<Rightarrow> int \<Rightarrow> int \<Rightarrow> (int \<Rightarrow> 'w) \<Rightarrow> staff_event \<Rightarrow> staff_memo \<Rightarrow> staff_memo" where
  "memo_step ad ds expiresIn updateAge world (ReadSession t l) memo =
     snd (snd (guarded_findSession ad ds expiresIn updateAge True t (world t) l memo))"
| "memo_step ad ds expiresIn updateAge world (ListUser t i ss) memo =
     snd (guarded_listSessions ad ds i t (world t) ss memo)"
| "memo_step ad ds expiresIn updateAge world (Linked t p i) memo =
     snd (account_create_after ad p i t (world t, memo))"

fun memo_run :: "'w adapter \<Rightarrow> string list \<Rightarrow> int \<Rightarrow> int \<Rightarrow> (int \<Rightarrow> 'w) \<Rightarrow> staff_event list \<Rightarrow> staff_memo \<Rightarrow> staff_memo" where
  "memo_run ad ds expiresIn updateAge world [] memo = memo"
| "memo_run ad ds expiresIn updateAge world (e # es) memo =
     memo_run ad ds expiresIn updateAge world es (memo_step ad ds expiresIn updateAge world e memo)"

definition has_microsoft :: "'w adapter \<Rightarrow> string \<Rightarrow> 'w \<Rightarrow> bool" where
  "has_microsoft ad i w \<longleftrightarrow> list_ex is_microsoft (ad_accounts ad i w)"

text \<open>Every entry was set no later than \<open>t\<close>, and one that says "not staff" was right when it was set.\<close>

definition memo_ok :: "'w adapter \<Rightarrow> (int \<Rightarrow> 'w) \<Rightarrow> int \<Rightarrow> staff_memo \<Rightarrow> bool" where
  "memo_ok ad world t memo \<longleftrightarrow>
     (\<forall>(i, s, d)\<in>set memo. d \<le> t + CLASSIFICATION_TTL_MS \<and>
        (\<not> s \<longrightarrow> \<not> has_microsoft ad i (world (d - CLASSIFICATION_TTL_MS))))"

lemma set_alist_upd: "x \<in> set (AList.update k v xs) \<Longrightarrow> x = (k, v) \<or> x \<in> set xs"
  by (induction xs) (auto split: if_splits)

lemma memo_ok_remember:
  assumes "memo_ok ad world t memo" "s \<or> \<not> has_microsoft ad i (world t)"
  shows "memo_ok ad world t (remember_staff i s t memo)"
proof -
  have "memo_ok ad world t (if CLASSIFICATION_MAX \<le> length memo then tl memo else memo)"
    using assms(1) by (cases memo) (auto simp: memo_ok_def)
  with assms(2) show ?thesis
    unfolding remember_staff_def Let_def memo_ok_def by (auto dest!: set_alist_upd)
qed

lemma memo_ok_later: "memo_ok ad world t memo \<Longrightarrow> t \<le> t' \<Longrightarrow> memo_ok ad world t' memo"
  by (fastforce simp: memo_ok_def)

lemma memo_ok_classify:
  "memo_ok ad world t memo \<Longrightarrow> memo_ok ad world t (snd (classify_staff ad ds userId email t (world t) memo))"
  by (auto simp: classify_staff_def Let_def has_microsoft_def intro: memo_ok_remember split: option.split)

lemma memo_ok_step:
  "memo_ok ad world t0 memo \<Longrightarrow> t0 \<le> staff_event_time e \<Longrightarrow>
   memo_ok ad world (staff_event_time e) (memo_step ad ds expiresIn updateAge world e memo)"
proof -
  assume "memo_ok ad world t0 memo" "t0 \<le> staff_event_time e"
  then have ok: "memo_ok ad world (staff_event_time e) memo"
    by (rule memo_ok_later)
  have cl: "classify_staff ad ds userId email (staff_event_time e) (world (staff_event_time e)) memo = (s, memo') \<Longrightarrow>
      memo_ok ad world (staff_event_time e) memo'" for userId email s memo'
    using memo_ok_classify [OF ok, of ds userId email] by simp
  show ?thesis
    using ok cl
    by (cases e) (auto simp: guarded_findSession_def guarded_listSessions_def account_create_after_def Let_def
        intro: memo_ok_remember split: option.split prod.split)
qed

lemma memo_ok_run:
  "memo_ok ad world t0 memo \<Longrightarrow> sorted (t0 # map staff_event_time es @ [t]) \<Longrightarrow>
   memo_ok ad world t (memo_run ad ds expiresIn updateAge world es memo)"
proof (induction es arbitrary: t0 memo)
  case Nil
  then show ?case by (auto intro: memo_ok_later)
next
  case (Cons e es)
  then have "memo_ok ad world (staff_event_time e) (memo_step ad ds expiresIn updateAge world e memo)"
    by (intro memo_ok_step) auto
  with Cons show ?case by simp
qed

text \<open>Whoever has been staff for thirty seconds is classified as staff.\<close>

definition staff_for_a_while :: "'w adapter \<Rightarrow> string list \<Rightarrow> (int \<Rightarrow> 'w) \<Rightarrow> int \<Rightarrow> loaded \<Rightarrow> bool" where
  "staff_for_a_while ad ds world t l \<longleftrightarrow>
     staffEmailIn (ld_email l) ds \<or>
     (\<exists>i. ld_userId l = Some i \<and> (\<forall>u. t - CLASSIFICATION_TTL_MS < u \<and> u \<le> t \<longrightarrow> has_microsoft ad i (world u)))"

lemma classified_staff:
  assumes "memo_ok ad world t memo" "staff_for_a_while ad ds world t l"
  shows "fst (classify_staff ad ds (ld_userId l) (ld_email l) t (world t) memo)"
proof (cases "staffEmailIn (ld_email l) ds")
  case True
  then show ?thesis by (simp add: classify_staff_def)
next
  case False
  then obtain i where i: "ld_userId l = Some i"
      "\<And>u. t - CLASSIFICATION_TTL_MS < u \<Longrightarrow> u \<le> t \<Longrightarrow> has_microsoft ad i (world u)"
    using assms(2) by (auto simp: staff_for_a_while_def)
  have now: "has_microsoft ad i (world t)"
    using i(2) by (simp add: CLASSIFICATION_TTL_MS_def)
  show ?thesis
  proof (cases "map_of memo i")
    case None
    then show ?thesis
      using now False i(1) by (simp add: classify_staff_def Let_def has_microsoft_def)
  next
    case (Some sd)
    obtain s d where sd: "sd = (s, d)" by fastforce
    then have "(i, s, d) \<in> set memo"
      using Some by (simp add: map_of_SomeD)
    then have "d \<le> t + CLASSIFICATION_TTL_MS" "s \<or> \<not> has_microsoft ad i (world (d - CLASSIFICATION_TTL_MS))"
      using assms(1) by (auto simp: memo_ok_def)
    then have "t < d \<longrightarrow> s"
      using i(2) [of "d - CLASSIFICATION_TTL_MS"] by auto
    then show ?thesis
      using Some sd now False i(1) by (auto simp: classify_staff_def Let_def has_microsoft_def)
  qed
qed

text \<open>
  C28. Whatever was read, listed and linked before in a process, a session read more than twelve hours after its creation by
  a user who has been staff for the last thirty seconds comes back with an expiry that has passed, whatever expiry is
  stored, so Better Auth deletes it and answers that there is no session.
\<close>

theorem staff_session_capped:
  assumes "sorted (map staff_event_time es @ [t])"
    and "staff_for_a_while ad ds world t l"
    and "se_createdAt (ld_session l) + STAFF_CAP < t"
  shows "\<exists>l'. fst (guarded_findSession ad ds expiresIn updateAge in_request t (world t) (Some l)
      (memo_run ad ds expiresIn updateAge world es [])) = Some l' \<and> se_expiresAt (ld_session l') < t"
proof -
  obtain t0 where "sorted (t0 # map staff_event_time es @ [t])"
  proof (cases es)
    case Nil
    then show ?thesis using that [of t] by simp
  next
    case (Cons e es')
    then show ?thesis using that [of "staff_event_time e"] assms(1) by auto
  qed
  then have ok: "memo_ok ad world t (memo_run ad ds expiresIn updateAge world es [])"
    by (rule memo_ok_run [rotated]) (simp add: memo_ok_def)
  show ?thesis
    using classified_staff [OF ok assms(2)] assms(3)
    by (auto simp: guarded_findSession_def Let_def split: prod.split)
qed

definition example_staff_world :: "int \<Rightarrow> mem_auth" where
  "example_staff_world t =
     \<lparr>ma_users = [], ma_accounts = [\<lparr>ac_userId = ''u1'', ac_providerId = ''microsoft'', ac_accountId = ''o1'', ac_password = None,
        ac_updatedAt = 0\<rparr>], ma_sessions = []\<rparr>"

definition example_loaded :: loaded where
  "example_loaded =
     \<lparr>ld_session = \<lparr>se_token = ''t'', se_userId = ''u1'', se_createdAt = 0, se_expiresAt = 604800000, se_contextId = None\<rparr>,
      ld_userId = Some ''u1'', ld_email = ''jane@example.org''\<rparr>"

theorem staff_session_capped_witness:
  "\<exists>l'. fst (guarded_findSession mem_adapter [''qnsc.vn''] 604800 86400 True 43200001 (example_staff_world 43200001)
      (Some example_loaded)
      (memo_run mem_adapter [''qnsc.vn''] 604800 86400 example_staff_world [ReadSession 5 (Some example_loaded)] [])) = Some l' \<and>
     se_expiresAt (ld_session l') < 43200001"
  by (rule staff_session_capped)
    (simp_all add: staff_for_a_while_def has_microsoft_def example_staff_world_def example_loaded_def mem_adapter_def
      is_microsoft_def STAFF_CAP_def)

end
