(* ===== verification/SessionGuards.thy ===== *)
theory SessionGuards
  imports StaffSession
begin

text \<open>
  What is checked when a session is read: the ban of its user (\<open>identity/src/banned-guard.ts\<close>) and the membership of the
  context it holds (\<open>identity/src/context.ts\<close>). Both believe an answer for a while, per process: the locale \<open>belief\<close> says
  what such a memo promises, and both memos interpret it.
\<close>

section \<open>Answers believed for a while\<close>

text \<open>A memo is a \<open>Map\<close> from keys to the time an answer is believed until, in insertion order.\<close>

type_synonym belief_memo = "(string \<times> int) list"

definition believed_until :: "int \<Rightarrow> string \<Rightarrow> belief_memo \<Rightarrow> bool" where
  "believed_until now key memo = (case map_of memo key of None \<Rightarrow> False | Some d \<Rightarrow> now < d)"

definition memo_delete :: "string \<Rightarrow> belief_memo \<Rightarrow> belief_memo" where
  "memo_delete key = filter (\<lambda>(k, d). k \<noteq> key)"

locale belief =
  fixes ttl :: int and add :: "string \<Rightarrow> int \<Rightarrow> belief_memo \<Rightarrow> belief_memo"
  assumes add_new: "x \<in> set (add k now memo) \<Longrightarrow> x = (k, now + ttl) \<or> x \<in> set memo"
    and ttl_nonneg: "0 \<le> ttl"
begin

text \<open>Every entry was added no later than \<open>now\<close>, at a time its fact held.\<close>

definition sound :: "(string \<Rightarrow> int \<Rightarrow> bool) \<Rightarrow> int \<Rightarrow> belief_memo \<Rightarrow> bool" where
  "sound holds now memo \<longleftrightarrow> (\<forall>(k, d)\<in>set memo. d \<le> now + ttl \<and> holds k (d - ttl))"

lemma sound_Nil [simp]: "sound holds now []"
  by (simp add: sound_def)

lemma sound_add: "sound holds now memo \<Longrightarrow> holds k now \<Longrightarrow> sound holds now (add k now memo)"
  by (auto simp: sound_def dest!: add_new)

lemma sound_sub: "sound holds now memo \<Longrightarrow> set memo' \<subseteq> set memo \<Longrightarrow> sound holds now memo'"
  by (auto simp: sound_def)

lemma sound_delete: "sound holds now memo \<Longrightarrow> sound holds now (memo_delete k memo)"
  by (rule sound_sub) (auto simp: memo_delete_def)

lemma sound_later: "sound holds now memo \<Longrightarrow> now \<le> now' \<Longrightarrow> sound holds now' memo"
  by (fastforce simp: sound_def)

lemma believed_recently:
  assumes "sound holds now memo" "believed_until now k memo"
  obtains u where "now - ttl < u" "u \<le> now" "holds k u"
proof -
  obtain d where "map_of memo k = Some d" "now < d"
    using assms(2) by (auto simp: believed_until_def split: option.splits)
  then have "(k, d) \<in> set memo" by (simp add: map_of_SomeD)
  then have "d \<le> now + ttl" "holds k (d - ttl)"
    using assms(1) by (auto simp: sound_def)
  with \<open>now < d\<close> show thesis
    using that [of "d - ttl"] by simp
qed

end

definition MEMO_MAX :: nat where "MEMO_MAX = 10000"

definition evict_oldest :: "belief_memo \<Rightarrow> belief_memo" where
  "evict_oldest memo = (if MEMO_MAX \<le> length memo then tl memo else memo)"

lemma evict_sub: "x \<in> set (evict_oldest memo) \<Longrightarrow> x \<in> set memo"
  by (cases memo) (auto simp: evict_oldest_def split: if_splits)

section \<open>Banned users\<close>

definition NOT_BANNED_TTL_MS :: int where "NOT_BANNED_TTL_MS = 30000"

definition isBannedRow :: "auth_user \<Rightarrow> int \<Rightarrow> bool" where
  "isBannedRow u now \<longleftrightarrow> u_banned u \<and> (case u_banExpires u of None \<Rightarrow> True | Some e \<Rightarrow> now < e)"

definition believe_not_banned :: "string \<Rightarrow> int \<Rightarrow> belief_memo \<Rightarrow> belief_memo" where
  "believe_not_banned userId now memo = AList.update userId (now + NOT_BANNED_TTL_MS) (evict_oldest memo)"

interpretation ban_memo: belief NOT_BANNED_TTL_MS believe_not_banned
proof
  fix x k now memo
  assume "x \<in> set (believe_not_banned k now memo)"
  then show "x = (k, now + NOT_BANNED_TTL_MS) \<or> x \<in> set memo"
    by (auto simp: believe_not_banned_def dest!: set_alist_upd evict_sub)
qed (simp add: NOT_BANNED_TTL_MS_def)

text \<open>A loaded session with the user it carries; whether the user's id is a text.\<close>

record ban_loaded =
  bl_session :: auth_session
  bl_user :: auth_user
  bl_hasId :: bool

definition dead_session :: "ban_loaded \<Rightarrow> ban_loaded" where
  "dead_session l = l\<lparr>bl_session := (bl_session l)\<lparr>se_expiresAt := 0\<rparr>\<rparr>"

definition ban_findSession ::
  "'w adapter \<Rightarrow> int \<Rightarrow> 'w \<Rightarrow> ban_loaded option \<Rightarrow> belief_memo \<Rightarrow> ban_loaded option \<times> belief_memo" where
  "ban_findSession ad now w found memo =
     (case found of
        None \<Rightarrow> (None, memo)
      | Some l \<Rightarrow>
          if isBannedRow (bl_user l) now then (Some (dead_session l), memo)
          else if \<not> bl_hasId l then (Some l, memo)
          else let i = u_id (bl_user l) in
            if believed_until now i memo then (Some l, memo)
            else if (case ad_userById ad i w of Some fresh \<Rightarrow> isBannedRow fresh now | None \<Rightarrow> False)
            then (Some (dead_session l), memo_delete i memo)
            else (Some l, believe_not_banned i now memo))"

definition isBanned :: "'w adapter \<Rightarrow> string \<Rightarrow> int \<Rightarrow> 'w \<Rightarrow> belief_memo \<Rightarrow> bool \<times> belief_memo" where
  "isBanned ad userId now w memo =
     (if believed_until now userId memo then (False, memo)
      else if (case ad_userById ad userId w of Some fresh \<Rightarrow> isBannedRow fresh now | None \<Rightarrow> False)
      then (True, memo_delete userId memo)
      else (False, believe_not_banned userId now memo))"

definition forget_ban :: "string \<Rightarrow> belief_memo \<Rightarrow> belief_memo" where
  "forget_ban userId memo = memo_delete userId memo"

definition not_banned_at :: "'w adapter \<Rightarrow> (int \<Rightarrow> 'w) \<Rightarrow> string \<Rightarrow> int \<Rightarrow> bool" where
  "not_banned_at ad world i t \<longleftrightarrow>
     \<not> (case ad_userById ad i (world t) of Some fresh \<Rightarrow> isBannedRow fresh t | None \<Rightarrow> False)"

lemma ban_findSession_sound:
  "ban_memo.sound (not_banned_at ad world) now memo \<Longrightarrow>
   ban_memo.sound (not_banned_at ad world) now (snd (ban_findSession ad now (world now) found memo))"
  by (auto simp: ban_findSession_def Let_def not_banned_at_def intro: ban_memo.sound_add ban_memo.sound_delete split: option.split)

lemma isBanned_sound:
  "ban_memo.sound (not_banned_at ad world) now memo \<Longrightarrow>
   ban_memo.sound (not_banned_at ad world) now (snd (isBanned ad userId now (world now) memo))"
  by (auto simp: isBanned_def not_banned_at_def intro: ban_memo.sound_add ban_memo.sound_delete split: option.split)

text \<open>
  The session of a user who has been banned for thirty seconds comes back dead, whatever the process believed before; and
  \<open>isBanned\<close> says so.
\<close>

lemma banned_session_dead:
  assumes "ban_memo.sound (not_banned_at ad world) now memo" "bl_hasId l"
    and "\<And>u. now - NOT_BANNED_TTL_MS < u \<Longrightarrow> u \<le> now \<Longrightarrow> \<not> not_banned_at ad world (u_id (bl_user l)) u"
  shows "fst (ban_findSession ad now (world now) (Some l) memo) = Some (dead_session l)"
proof -
  have "\<not> believed_until now (u_id (bl_user l)) memo"
    using ban_memo.believed_recently [OF assms(1)] assms(3) by metis
  moreover have "\<not> not_banned_at ad world (u_id (bl_user l)) now"
    using assms(3) by (simp add: NOT_BANNED_TTL_MS_def)
  ultimately show ?thesis
    using assms(2) by (simp add: ban_findSession_def Let_def not_banned_at_def)
qed

lemma banned_is_banned:
  assumes "ban_memo.sound (not_banned_at ad world) now memo"
    and "\<And>u. now - NOT_BANNED_TTL_MS < u \<Longrightarrow> u \<le> now \<Longrightarrow> \<not> not_banned_at ad world i u"
  shows "fst (isBanned ad i now (world now) memo)"
proof -
  have "\<not> believed_until now i memo"
    using ban_memo.believed_recently [OF assms(1)] assms(2) by metis
  moreover have "\<not> not_banned_at ad world i now"
    using assms(2) by (simp add: NOT_BANNED_TTL_MS_def)
  ultimately show ?thesis
    by (simp add: isBanned_def not_banned_at_def)
qed

end
