(* ===== verification/SessionContext.thy ===== *)
theory SessionContext
  imports SessionGuards
begin

text \<open>
  The active context of a session (\<open>identity/src/context.ts\<close>): checking the options, where a session starts, the read that
  moves a session out of a context its user lost, setting a context, dropping a stale cached copy, and chaining the hooks on
  session creation. The product's ports and Better Auth's \<open>updateSession\<close> are functions on the world; \<open>None\<close> says they threw.
\<close>

section \<open>Identifiers\<close>

text \<open>\<open>UUID_RE\<close>: hexadecimal digits in groups of 8, 4, 4, 4 and 12.\<close>

definition isUuid :: "string \<Rightarrow> bool" where
  "isUuid s \<longleftrightarrow> map length (js_split CHR ''-'' s) = [8, 4, 4, 4, 12] \<and> list_all (list_all is_hex) (js_split CHR ''-'' s)"

definition uuid_value :: "jsval \<Rightarrow> string option" where
  "uuid_value v = (case v of JStr s \<Rightarrow> if isUuid s then Some s else None | _ \<Rightarrow> None)"

lemma uuid_no_nul: "isUuid s \<Longrightarrow> CHR 0x00 \<notin> set s"
proof -
  assume u: "isUuid s"
  have "c = CHR ''-'' \<or> (\<exists>p\<in>set (js_split CHR ''-'' s). c \<in> set p)" if "c \<in> set s" for c
    using that by (induction s rule: js_split.induct [of _ "CHR ''-''", case_names Nil Cons])
      (auto split: list.splits if_splits)
  then show ?thesis
    using u by (fastforce simp: isUuid_def list_all_iff is_hex_def is_digit_def)
qed

section \<open>The options\<close>

datatype option_value = Absent | Callable | OtherValue

record context_options =
  co_membership :: option_value
  co_initial :: option_value
  co_revalidateSeconds :: "rat option"

definition DEFAULT_REVALIDATE_SECONDS :: nat where "DEFAULT_REVALIDATE_SECONDS = 60"
definition MAX_REVALIDATE_SECONDS :: rat where "MAX_REVALIDATE_SECONDS = 3600"

datatype context_error = NeedsMembership | InitialNotFunction | BadRevalidateSeconds

text \<open>\<open>None\<close> is no options at all; \<open>Some None\<close> something that is not an object.\<close>

definition validateContextOptions :: "context_options option option \<Rightarrow> context_error + unit" where
  "validateContextOptions options =
     (case options of
        None \<Rightarrow> Inr ()
      | Some None \<Rightarrow> Inl NeedsMembership
      | Some (Some opts) \<Rightarrow>
          if co_membership opts \<noteq> Callable then Inl NeedsMembership
          else if co_initial opts = OtherValue then Inl InitialNotFunction
          else (case co_revalidateSeconds opts of
                  None \<Rightarrow> Inr ()
                | Some r \<Rightarrow>
                    if of_int \<lfloor>r\<rfloor> \<noteq> r \<or> r < 0 \<or> MAX_REVALIDATE_SECONDS < r then Inl BadRevalidateSeconds else Inr ()))"

lemma accepted_window:
  "validateContextOptions (Some (Some opts)) = Inr () \<Longrightarrow> co_revalidateSeconds opts = Some r \<Longrightarrow>
   0 \<le> r \<and> r \<le> 3600 \<and> r \<in> \<int>"
  by (auto simp: validateContextOptions_def MAX_REVALIDATE_SECONDS_def split: if_splits)

section \<open>The memo of memberships\<close>

definition context_key :: "string \<Rightarrow> string \<Rightarrow> string" where
  "context_key userId contextId = userId @ CHR 0x00 # contextId"

definition believe_member :: "int \<Rightarrow> string \<Rightarrow> int \<Rightarrow> belief_memo \<Rightarrow> belief_memo" where
  "believe_member ttlMs key now memo =
     (if ttlMs = 0 then memo else evict_oldest (memo_delete key memo) @ [(key, now + ttlMs)])"

definition forget_context :: "string \<Rightarrow> string option \<Rightarrow> belief_memo \<Rightarrow> belief_memo" where
  "forget_context userId contextId memo =
     (case contextId of
        Some c \<Rightarrow> memo_delete (context_key userId c) memo
      | None \<Rightarrow> filter (\<lambda>(k, d). take (length userId + 1) k \<noteq> userId @ [CHR 0x00]) memo)"

interpretation member_memo: belief "int ttl" "believe_member (int ttl)" for ttl :: nat
proof
  fix x k now memo
  assume "x \<in> set (believe_member (int ttl) k now memo)"
  then show "x = (k, now + int ttl) \<or> x \<in> set memo"
    by (auto simp: believe_member_def memo_delete_def split: if_splits dest!: evict_sub)
qed simp

lemma context_key_inj:
  assumes "CHR 0x00 \<notin> set u" "CHR 0x00 \<notin> set u'" "context_key u c = context_key u' c'"
  shows "u = u' \<and> c = c'"
proof -
  have "\<forall>x\<in>set u. x \<noteq> CHR 0x00" "\<forall>x\<in>set u'. x \<noteq> CHR 0x00"
    using assms(1,2) by auto
  then show ?thesis
    using assms(3) unfolding context_key_def by (rule split_at_sep)
qed

lemma forgets_every_context: "context_key userId c \<notin> fst ` set (forget_context userId None memo)"
  by (auto simp: forget_context_def context_key_def)

section \<open>The ports\<close>

text \<open>
  \<open>cp_membership\<close> and \<open>cp_initial\<close> are the product's; \<open>cp_update\<close> is Better Auth's \<open>updateSession\<close> of a token's context, answering
  whether it returned a row.
\<close>

record 'w context_port =
  cp_membership :: "string \<Rightarrow> string \<Rightarrow> 'w \<Rightarrow> bool option"
  cp_initial :: "(string \<Rightarrow> 'w \<Rightarrow> jsval option) option"
  cp_update :: "string \<Rightarrow> string option \<Rightarrow> 'w \<Rightarrow> (bool \<times> 'w) option"
  cp_ttlMs :: nat

datatype context_log = PortFailed | StaleCache | ContextRefused string | ContextSwitched string "string option" "string option"
  | ContextRevoked string "string option"

record 'w context_state =
  cx_world :: 'w
  cx_memo :: belief_memo
  cx_log :: "context_log list"

definition cx_note :: "context_log \<Rightarrow> 'w context_state \<Rightarrow> 'w context_state" where
  "cx_note l st = st\<lparr>cx_log := cx_log st @ [l]\<rparr>"

definition cx_believe :: "'w context_port \<Rightarrow> int \<Rightarrow> string \<Rightarrow> string \<Rightarrow> 'w context_state \<Rightarrow> 'w context_state" where
  "cx_believe port now userId c st =
     st\<lparr>cx_memo := believe_member (int (cp_ttlMs port)) (context_key userId c) now (cx_memo st)\<rparr>"

definition context_fallback :: "'w context_port \<Rightarrow> int \<Rightarrow> string \<Rightarrow> 'w context_state \<Rightarrow> string option \<times> 'w context_state" where
  "context_fallback port now userId st =
     (case cp_initial port of
        None \<Rightarrow> (None, st)
      | Some initial \<Rightarrow>
          (case initial userId (cx_world st) of
             None \<Rightarrow> (None, cx_note PortFailed st)
           | Some v \<Rightarrow>
               (case uuid_value v of
                  None \<Rightarrow> (None, st)
                | Some c \<Rightarrow>
                    (case cp_membership port userId c (cx_world st) of
                       None \<Rightarrow> (None, cx_note PortFailed st)
                     | Some False \<Rightarrow> (None, st)
                     | Some True \<Rightarrow> (Some c, cx_believe port now userId c st)))))"

text \<open>The hook on session creation: \<open>None\<close> leaves the row as it is, \<open>Some c\<close> sets its context to \<open>c\<close>.\<close>

definition context_createBefore ::
  "'w context_port \<Rightarrow> int \<Rightarrow> string option \<Rightarrow> 'w context_state \<Rightarrow> string option option \<times> 'w context_state" where
  "context_createBefore port now userId st =
     (case userId of
        None \<Rightarrow> (None, st)
      | Some i \<Rightarrow> (let (c, st') = context_fallback port now i st in (Some c, st')))"

text \<open>
  The wrapped read. The row's token may differ from the one asked with (it is \<open>se_token\<close>); \<open>cl_expires\<close> says whether the loaded row
  carries an expiry.
\<close>

record context_loaded =
  cl_session :: auth_session
  cl_userId :: "string option"
  cl_expires :: bool

definition context_findSession ::
  "'w context_port \<Rightarrow> int \<Rightarrow> context_loaded option \<Rightarrow> 'w context_state \<Rightarrow> context_loaded option \<times> 'w context_state" where
  "context_findSession port now found st =
     (case found of
        None \<Rightarrow> (None, st)
      | Some l \<Rightarrow>
          (case (se_contextId (cl_session l), cl_userId l) of
             (Some c, Some userId) \<Rightarrow>
               if \<not> isUuid c then (Some l, st)
               else if cl_expires l \<and> se_expiresAt (cl_session l) \<le> now then (Some l, st)
               else if believed_until now (context_key userId c) (cx_memo st) then (Some l, st)
               else
                 (case cp_membership port userId c (cx_world st) of
                    None \<Rightarrow> (Some l, cx_note PortFailed st)
                  | Some True \<Rightarrow> (Some l, cx_believe port now userId c st)
                  | Some False \<Rightarrow>
                      (let st1 = st\<lparr>cx_memo := forget_context userId (Some c) (cx_memo st)\<rparr>;
                           (replacement, st2) = context_fallback port now userId st1;
                           st3 = (case cp_update port (se_token (cl_session l)) replacement (cx_world st2) of
                                    None \<Rightarrow> cx_note PortFailed st2
                                  | Some (_, w') \<Rightarrow> st2\<lparr>cx_world := w'\<rparr>)
                       in (Some (l\<lparr>cl_session := (cl_session l)\<lparr>se_contextId := replacement\<rparr>\<rparr>),
                           cx_note (ContextRevoked userId replacement) st3)))
           | _ \<Rightarrow> (Some l, st)))"

text \<open>
  After a write: \<open>degraded\<close> says whether the store failed during it, \<open>dropped\<close> whether the delete of the cached copy went
  through; \<open>storage\<close> whether there is a store.
\<close>

definition reconcile :: "bool \<Rightarrow> bool \<Rightarrow> bool \<Rightarrow> 'w context_state \<Rightarrow> 'w context_state" where
  "reconcile degraded storage dropped st =
     (if \<not> degraded \<or> \<not> storage then st else if \<not> dropped then cx_note StaleCache st else st)"

datatype set_error = ContextCheckFailed | ContextForbidden | UpdateThrew

definition setContext ::
  "'w context_port \<Rightarrow> int \<Rightarrow> string \<Rightarrow> string \<Rightarrow> string option \<Rightarrow> string option \<Rightarrow> bool \<Rightarrow> bool \<Rightarrow> bool \<Rightarrow> 'w context_state \<Rightarrow>
   (set_error + string option) \<times> 'w context_state" where
  "setContext port now userId token current next degraded storage dropped st =
     (let previous = (case current of Some c \<Rightarrow> if isUuid c then Some c else None | None \<Rightarrow> None);
          checked = (case next of
                       None \<Rightarrow> (Inr (), st)
                     | Some c \<Rightarrow>
                         (case cp_membership port userId c (cx_world st) of
                            None \<Rightarrow> (Inl ContextCheckFailed, cx_note PortFailed st)
                          | Some False \<Rightarrow> (Inl ContextForbidden, cx_note (ContextRefused userId) st)
                          | Some True \<Rightarrow> (Inr (), st)))
      in case checked of
           (Inl e, st1) \<Rightarrow> (Inl e, st1)
         | (Inr _, st1) \<Rightarrow>
             (case cp_update port token next (cx_world st1) of
                None \<Rightarrow> (Inl UpdateThrew, st1)
              | Some (updated, w') \<Rightarrow>
                  let st2 = reconcile degraded storage dropped (st1\<lparr>cx_world := w'\<rparr>);
                      st3 = (case next of
                               None \<Rightarrow> st2\<lparr>cx_memo := forget_context userId previous (cx_memo st2)\<rparr>
                             | Some c \<Rightarrow> if updated then cx_believe port now userId c st2 else st2)
                  in (Inr next, cx_note (ContextSwitched userId previous next) st3)))"

definition contextIdOf :: "jsval \<Rightarrow> string option" where
  "contextIdOf session = uuid_value (property_of ''contextId'' (property_of ''session'' session))"

section \<open>Chained hooks\<close>

text \<open>
  The rows and the data the hooks add are objects, as lists of fields; a hook throws (\<open>None\<close>), refuses, or answers data or
  nothing. Spreading an object over another is \<open>merge\<close>.
\<close>

datatype 'd hook_answer = HookRefuses | HookData 'd | HookNothing

fun chainCreateBefore ::
  "('d \<Rightarrow> 'd \<Rightarrow> 'd) \<Rightarrow> ('d \<Rightarrow> 'd hook_answer option) list \<Rightarrow> 'd \<Rightarrow> 'd option \<Rightarrow> 'd hook_answer option" where
  "chainCreateBefore merge [] current merged =
     Some (case merged of None \<Rightarrow> HookNothing | Some d \<Rightarrow> HookData d)"
| "chainCreateBefore merge (h # hs) current merged =
     (case h current of
        None \<Rightarrow> None
      | Some HookRefuses \<Rightarrow> Some HookRefuses
      | Some HookNothing \<Rightarrow> chainCreateBefore merge hs current merged
      | Some (HookData d) \<Rightarrow>
          chainCreateBefore merge hs (merge current d) (Some (case merged of None \<Rightarrow> d | Some m \<Rightarrow> merge m d)))"

section \<open>What the runtime promises\<close>

lemma fallback_approved:
  assumes "context_fallback port now userId st = (Some c, st')"
  shows "isUuid c \<and> cp_membership port userId c (cx_world st) = Some True \<and> cx_world st' = cx_world st \<and>
    st' = cx_believe port now userId c st"
  using assms
  by (auto simp: context_fallback_def uuid_value_def cx_believe_def split: option.splits bool.splits jsval.splits if_splits)

lemma fallback_memo:
  "cx_memo (snd (context_fallback port now userId st)) = cx_memo st \<or>
   (\<exists>c. cp_membership port userId c (cx_world st) = Some True \<and>
        cx_memo (snd (context_fallback port now userId st)) = believe_member (int (cp_ttlMs port)) (context_key userId c) now (cx_memo st))"
  by (auto simp: context_fallback_def cx_note_def cx_believe_def split: option.split bool.split)

lemma fallback_world: "cx_world (snd (context_fallback port now userId st)) = cx_world st"
  by (auto simp: context_fallback_def cx_note_def cx_believe_def split: option.split bool.split)

text \<open>A context is set only if the product approved it now; a refused one changes nothing.\<close>

lemma set_only_approved:
  assumes "setContext port now userId token current next degraded storage dropped st = (Inr (Some c), st')"
  shows "cp_membership port userId c (cx_world st) = Some True \<and> next = Some c"
  using assms by (auto simp: setContext_def Let_def split: option.splits bool.splits sum.splits prod.splits)

lemma set_refused_keeps:
  assumes "setContext port now userId token current next degraded storage dropped st = (Inl e, st')"
  shows "cx_world st' = cx_world st \<and> cx_memo st' = cx_memo st"
  using assms by (auto simp: setContext_def Let_def cx_note_def split: option.splits bool.splits sum.splits prod.splits)

definition member_at :: "'w context_port \<Rightarrow> (int \<Rightarrow> 'w) \<Rightarrow> string \<Rightarrow> int \<Rightarrow> bool" where
  "member_at port world key t \<longleftrightarrow>
     (\<exists>u c. key = context_key u c \<and> cp_membership port u c (world t) = Some True)"

abbreviation memo_sound :: "'w context_port \<Rightarrow> (int \<Rightarrow> 'w) \<Rightarrow> int \<Rightarrow> belief_memo \<Rightarrow> bool" where
  "memo_sound port world now memo \<equiv> belief.sound (int (cp_ttlMs port)) (member_at port world) now memo"

lemma sound_believed:
  "memo_sound port world now memo \<Longrightarrow> cp_membership port u c (world now) = Some True \<Longrightarrow>
   memo_sound port world now (believe_member (int (cp_ttlMs port)) (context_key u c) now memo)"
  by (rule member_memo.sound_add) (auto simp: member_at_def)

lemma sound_forgot: "memo_sound port world now memo \<Longrightarrow> memo_sound port world now (forget_context u c memo)"
  by (rule member_memo.sound_sub) (auto simp: forget_context_def memo_delete_def split: option.split)

lemma sound_fallback:
  "memo_sound port world now (cx_memo st) \<Longrightarrow> cx_world st = world now \<Longrightarrow>
   memo_sound port world now (cx_memo (snd (context_fallback port now userId st)))"
  using fallback_memo [of port now userId st] sound_believed by fastforce

text \<open>
  A user who has not been a member of a context for the time an answer is believed does not keep it past a read, as long as
  the product's port answers; the session stays.
\<close>

lemma lost_context_left:
  assumes sound: "memo_sound port world now (cx_memo st)" and w: "cx_world st = world now"
    and l: "se_contextId (cl_session l) = Some c" "cl_userId l = Some u" "isUuid c" "CHR 0x00 \<notin> set u"
    and alive: "now < se_expiresAt (cl_session l)"
    and lost: "\<And>t. now - int (cp_ttlMs port) \<le> t \<Longrightarrow> t \<le> now \<Longrightarrow> cp_membership port u c (world t) \<noteq> Some True"
    and answers: "cp_membership port u c (world now) \<noteq> None"
    and ids: "\<And>u' t c'. cp_membership port u' c' (world t) = Some True \<Longrightarrow> CHR 0x00 \<notin> set u'"
  shows "\<exists>r st'. context_findSession port now (Some l) st = (Some (l\<lparr>cl_session := (cl_session l)\<lparr>se_contextId := r\<rparr>\<rparr>), st') \<and>
    r \<noteq> Some c"
proof -
  have now: "cp_membership port u c (world now) = Some False"
    using lost [of now] answers by auto
  have "\<not> believed_until now (context_key u c) (cx_memo st)"
  proof
    assume "believed_until now (context_key u c) (cx_memo st)"
    then obtain t where t: "now - int (cp_ttlMs port) < t" "t \<le> now" "member_at port world (context_key u c) t"
      using member_memo.believed_recently [OF sound] by metis
    then obtain u' c' where "context_key u c = context_key u' c'" "cp_membership port u' c' (world t) = Some True"
      by (auto simp: member_at_def)
    moreover from this have "u = u'" "c = c'"
      using context_key_inj [OF l(4) ids] by blast+
    ultimately show False
      using lost [of t] t by simp
  qed
  moreover obtain r st2 where fb: "context_fallback port now u (st\<lparr>cx_memo := forget_context u (Some c) (cx_memo st)\<rparr>) = (r, st2)"
    by (rule prod.exhaust)
  moreover have "r \<noteq> Some c"
  proof
    assume "r = Some c"
    then have "cp_membership port u c (world now) = Some True"
      using fallback_approved [of port now u "st\<lparr>cx_memo := forget_context u (Some c) (cx_memo st)\<rparr>" c st2] fb w by simp
    with now show False by simp
  qed
  ultimately show ?thesis
    using l alive now w by (intro exI [of _ r]) (simp add: context_findSession_def Let_def)
qed

text \<open>Reads keep the memo sound.\<close>

lemma read_memo:
  "cx_memo (snd (context_findSession port now found st)) = cx_memo st \<or>
   (\<exists>u c. cp_membership port u c (cx_world st) = Some True \<and>
      cx_memo (snd (context_findSession port now found st)) = believe_member (int (cp_ttlMs port)) (context_key u c) now (cx_memo st)) \<or>
   (\<exists>u c. cx_memo (snd (context_findSession port now found st)) =
      cx_memo (snd (context_fallback port now u (st\<lparr>cx_memo := forget_context u (Some c) (cx_memo st)\<rparr>))))"
proof (cases found)
  case None
  then show ?thesis by (simp add: context_findSession_def)
next
  case (Some l)
  show ?thesis
  proof (cases "\<exists>c u. se_contextId (cl_session l) = Some c \<and> cl_userId l = Some u")
    case False
    with Some show ?thesis
      by (auto simp: context_findSession_def split: option.split)
  next
    case True
    then obtain c u where cu: "se_contextId (cl_session l) = Some c" "cl_userId l = Some u" by blast
    consider "cp_membership port u c (cx_world st) = None" | "cp_membership port u c (cx_world st) = Some True"
      | "cp_membership port u c (cx_world st) = Some False"
      by (metis (full_types) option.exhaust)
    then show ?thesis
    proof cases
      case 3
      then show ?thesis
        by (simp add: Some cu context_findSession_def Let_def cx_note_def split_beta split: option.split) blast
    qed (auto simp: Some cu context_findSession_def cx_note_def cx_believe_def)
  qed
qed

lemma read_keeps_sound:
  assumes "memo_sound port world now (cx_memo st)" "cx_world st = world now"
  shows "memo_sound port world now (cx_memo (snd (context_findSession port now found st)))"
proof -
  have "memo_sound port world now
      (cx_memo (snd (context_fallback port now u (st\<lparr>cx_memo := forget_context u (Some c) (cx_memo st)\<rparr>))))" for u c
    using assms by (intro sound_fallback) (simp_all add: sound_forgot)
  moreover have "memo_sound port world now (believe_member (int (cp_ttlMs port)) (context_key u c) now (cx_memo st))"
    if "cp_membership port u c (cx_world st) = Some True" for u c
    using sound_believed [OF assms(1)] that assms(2) by simp
  ultimately show ?thesis
    using read_memo [of port now found st] assms(1) by metis
qed

text \<open>A hook that refuses or throws ends the chain: no later hook runs.\<close>

lemma refusal_ends_chain:
  "h current = Some HookRefuses \<Longrightarrow> chainCreateBefore merge (h # hs) current merged = Some HookRefuses"
  "h current = None \<Longrightarrow> chainCreateBefore merge (h # hs) current merged = None"
  by simp_all

end
