(* ===== verification/ReadGuards.thy ===== *)
theory ReadGuards
  imports SessionContext
begin

text \<open>
  The two guards on a session read over the life of a process: whatever it read, asked, set and forgot before, a ban and a
  lost membership reach a session within the time an answer is believed.
\<close>

section \<open>A memo over a run\<close>

context belief
begin

lemma sound_fold:
  assumes step: "\<And>t a memo. sound holds t memo \<Longrightarrow> sound holds t (step (t, a) memo)"
  shows "sorted (map fst ops) \<Longrightarrow> \<forall>t\<in>fst ` set ops. begun \<le> t \<and> t \<le> now \<Longrightarrow> begun \<le> now \<Longrightarrow> sound holds begun memo \<Longrightarrow>
    sound holds now (fold step ops memo)"
proof (induction ops arbitrary: begun memo)
  case Nil
  then show ?case by (simp add: sound_later)
next
  case (Cons op ops)
  obtain t a where op: "op = (t, a)" by (rule prod.exhaust)
  have "sound holds t (step (t, a) memo)"
    using Cons.prems(2,4) op by (intro step) (simp add: sound_later)
  then show ?case
    using Cons.prems op by (simp, intro Cons.IH [of t]) auto
qed

lemma sound_run:
  assumes "\<And>t a memo. sound holds t memo \<Longrightarrow> sound holds t (step (t, a) memo)"
    and "sorted (map fst ops)" "\<forall>t\<in>fst ` set ops. t \<le> now"
  shows "sound holds now (fold step ops [])"
proof (cases ops)
  case (Cons op rest)
  then have "\<forall>t\<in>fst ` set ops. fst op \<le> t \<and> t \<le> now" "fst op \<le> now"
    using assms(2,3) by auto
  then show ?thesis
    by - (rule sound_fold [of holds step, OF assms(1,2)], simp_all)
qed simp

end

section \<open>Bans\<close>

datatype ban_op = ReadLoaded "ban_loaded option" | AskBanned string | ForgetBan string

fun ban_step :: "'w adapter \<Rightarrow> (int \<Rightarrow> 'w) \<Rightarrow> int \<times> ban_op \<Rightarrow> belief_memo \<Rightarrow> belief_memo" where
  "ban_step ad world (t, ReadLoaded found) memo = snd (ban_findSession ad t (world t) found memo)"
| "ban_step ad world (t, AskBanned userId) memo = snd (isBanned ad userId t (world t) memo)"
| "ban_step ad world (t, ForgetBan userId) memo = forget_ban userId memo"

lemma ban_step_sound:
  "ban_memo.sound (not_banned_at ad world) t memo \<Longrightarrow> ban_memo.sound (not_banned_at ad world) t (ban_step ad world (t, op) memo)"
  by (cases op) (simp_all add: ban_findSession_sound isBanned_sound forget_ban_def ban_memo.sound_delete)

text \<open>
  C32. A ban reaches every session within thirty seconds: whatever a process read, was asked and forgot before, in any order
  of users and sessions, once a user's row has said banned for the thirty seconds an answer is believed, reading any session
  that names the user gives it back expired, which ends it, and \<open>isBanned\<close> says so.
\<close>

theorem ban_reaches_sessions:
  assumes "sorted (map fst ops)" and "\<forall>t\<in>fst ` set ops. t \<le> now"
    and "\<And>t. now - NOT_BANNED_TTL_MS < t \<Longrightarrow> t \<le> now \<Longrightarrow>
      \<exists>u. ad_userById ad i (world t) = Some u \<and> isBannedRow u t"
  shows "fst (isBanned ad i now (world now) (fold (ban_step ad world) ops [])) \<and>
    (\<forall>l. bl_hasId l \<longrightarrow> u_id (bl_user l) = i \<longrightarrow>
      fst (ban_findSession ad now (world now) (Some l) (fold (ban_step ad world) ops [])) = Some (dead_session l))"
proof -
  have sound: "ban_memo.sound (not_banned_at ad world) now (fold (ban_step ad world) ops [])"
    using assms(1,2) by (intro ban_memo.sound_run) (rule ban_step_sound)
  have banned: "\<not> not_banned_at ad world i t" if "now - NOT_BANNED_TTL_MS < t" "t \<le> now" for t
    using assms(3) [OF that] by (auto simp: not_banned_at_def)
  show ?thesis
    using banned_is_banned [OF sound banned] banned_session_dead [OF sound] banned by blast
qed

definition example_user :: "bool \<Rightarrow> auth_user" where
  "example_user banned = \<lparr>u_id = ''u1'', u_email = ''u@example.org'', u_emailVerified = True, u_banned = banned, u_banExpires = None,
     u_createdAt = 0, u_updatedAt = 0\<rparr>"

definition example_ban_world :: "int \<Rightarrow> mem_auth" where
  "example_ban_world t = \<lparr>ma_users = [example_user (0 < t)], ma_accounts = [], ma_sessions = []\<rparr>"

definition example_session :: "string option \<Rightarrow> auth_session" where
  "example_session c = \<lparr>se_token = ''t'', se_userId = ''u1'', se_createdAt = 0, se_expiresAt = 604800000, se_contextId = c\<rparr>"

definition example_read :: ban_loaded where
  "example_read = \<lparr>bl_session = example_session None, bl_user = example_user False, bl_hasId = True\<rparr>"

theorem ban_reaches_sessions_witness:
  "fst (isBanned mem_adapter ''u1'' 30001 (example_ban_world 30001)
      (fold (ban_step mem_adapter example_ban_world) [(0, ReadLoaded (Some example_read))] [])) \<and>
    fst (ban_findSession mem_adapter 30001 (example_ban_world 30001) (Some example_read)
      (fold (ban_step mem_adapter example_ban_world) [(0, ReadLoaded (Some example_read))] [])) = Some (dead_session example_read) \<and>
    fold (ban_step mem_adapter example_ban_world) [(0, ReadLoaded (Some example_read))] [] = [(''u1'', 30000)]"
proof -
  have run: "fold (ban_step mem_adapter example_ban_world) [(0, ReadLoaded (Some example_read))] [] = [(''u1'', 30000)]"
    by (simp add: ban_findSession_def example_read_def example_user_def isBannedRow_def believed_until_def mem_adapter_def
        ma_user_def example_ban_world_def believe_not_banned_def evict_oldest_def MEMO_MAX_def NOT_BANNED_TTL_MS_def Let_def)
  have "\<exists>u. ad_userById mem_adapter ''u1'' (example_ban_world t) = Some u \<and> isBannedRow u t" if "0 < t" for t
    using that by (simp add: mem_adapter_def ma_user_def example_ban_world_def example_user_def isBannedRow_def)
  then show ?thesis
    using ban_reaches_sessions [of "[(0, ReadLoaded (Some example_read))]" 30001 mem_adapter "''u1''" example_ban_world] run
    by (simp add: NOT_BANNED_TTL_MS_def example_read_def example_user_def)
qed

section \<open>Contexts\<close>

datatype context_op =
    ReadContext "context_loaded option"
  | StartSession "string option"
  | SwitchContext string string "string option" "string option" bool bool bool
  | ForgetContext string "string option"

abbreviation context_at :: "(int \<Rightarrow> 'w) \<Rightarrow> int \<Rightarrow> belief_memo \<Rightarrow> 'w context_state" where
  "context_at world t memo \<equiv> \<lparr>cx_world = world t, cx_memo = memo, cx_log = []\<rparr>"

fun context_step :: "'w context_port \<Rightarrow> (int \<Rightarrow> 'w) \<Rightarrow> int \<times> context_op \<Rightarrow> belief_memo \<Rightarrow> belief_memo" where
  "context_step port world (t, ReadContext found) memo = cx_memo (snd (context_findSession port t found (context_at world t memo)))"
| "context_step port world (t, StartSession userId) memo = cx_memo (snd (context_createBefore port t userId (context_at world t memo)))"
| "context_step port world (t, SwitchContext userId token current chosen degraded storage dropped) memo =
     cx_memo (snd (setContext port t userId token current chosen degraded storage dropped (context_at world t memo)))"
| "context_step port world (t, ForgetContext userId c) memo = forget_context userId c memo"

lemma reconcile_memo [simp]: "cx_memo (reconcile degraded storage dropped st) = cx_memo st"
  by (simp add: reconcile_def cx_note_def)

lemma set_keeps_sound:
  assumes "memo_sound port world t (cx_memo st)" "cx_world st = world t"
  shows "memo_sound port world t (cx_memo (snd (setContext port t userId token current chosen degraded storage dropped st)))"
proof (cases chosen)
  case None
  then show ?thesis
    using assms(1) sound_forgot [OF assms(1)] by (simp add: setContext_def Let_def cx_note_def split: option.split)
next
  case (Some c)
  consider "cp_membership port userId c (cx_world st) = None" | "cp_membership port userId c (cx_world st) = Some True"
    | "cp_membership port userId c (cx_world st) = Some False"
    by (metis (full_types) option.exhaust)
  then show ?thesis
  proof cases
    case 2
    with assms have "memo_sound port world t (believe_member (int (cp_ttlMs port)) (context_key userId c) t (cx_memo st))"
      by (intro sound_believed) simp_all
    with 2 Some assms(1) show ?thesis
      by (simp add: setContext_def Let_def cx_note_def cx_believe_def split: option.split)
  qed (use Some assms(1) in \<open>simp_all add: setContext_def cx_note_def\<close>)
qed

lemma context_step_sound:
  "memo_sound port world t memo \<Longrightarrow> memo_sound port world t (context_step port world (t, op) memo)"
proof (cases op)
  case (StartSession userId)
  then show "memo_sound port world t memo \<Longrightarrow> ?thesis"
    using sound_fallback [of port world t "context_at world t memo"]
    by (cases userId) (simp_all add: context_createBefore_def split_beta)
qed (simp_all add: read_keeps_sound set_keeps_sound sound_forgot)

lemma moved_approved:
  assumes "context_findSession port now (Some l) st = (Some l', st')" "se_contextId (cl_session l') = Some d"
    and "se_contextId (cl_session l) \<noteq> Some d" "cl_userId l = Some u"
  shows "cp_membership port u d (cx_world st) = Some True"
proof -
  obtain c where c: "se_contextId (cl_session l) = Some c"
    using assms by (cases "se_contextId (cl_session l)") (auto simp: context_findSession_def)
  let ?st = "st\<lparr>cx_memo := forget_context u (Some c) (cx_memo st)\<rparr>"
  obtain r st2 where fb: "context_fallback port now u ?st = (r, st2)" by (rule prod.exhaust)
  have "r = Some d"
    using assms c fb
    by (simp add: context_findSession_def Let_def split: if_split_asm option.split_asm bool.split_asm) auto
  then show ?thesis
    using fallback_approved [of port now u ?st d st2] fb by simp
qed

text \<open>
  A lost membership reaches every session within the time an answer is believed: whatever a process read, started, switched
  and forgot before, once the product's port has answered for that time that a user is no member of a context, reading a
  live session that holds the context moves it to another context the port approves of, or to none; and the session
  stays, for a context is not authentication.
\<close>

theorem lost_membership_reaches_sessions:
  assumes "sorted (map fst ops)" and "\<forall>t\<in>fst ` set ops. t \<le> now"
    and "\<And>t. now - int (cp_ttlMs port) \<le> t \<Longrightarrow> t \<le> now \<Longrightarrow> cp_membership port u c (world t) = Some False"
    and "\<And>u' t c'. cp_membership port u' c' (world t) = Some True \<Longrightarrow> CHR 0x00 \<notin> set u'"
    and "se_contextId (cl_session l) = Some c" and "cl_userId l = Some u" and "isUuid c" and "CHR 0x00 \<notin> set u"
    and "now < se_expiresAt (cl_session l)"
  shows "\<exists>r st'. context_findSession port now (Some l) (context_at world now (fold (context_step port world) ops [])) =
      (Some (l\<lparr>cl_session := (cl_session l)\<lparr>se_contextId := r\<rparr>\<rparr>), st') \<and>
    r \<noteq> Some c \<and> (\<forall>d. r = Some d \<longrightarrow> cp_membership port u d (world now) = Some True)"
proof -
  let ?st = "context_at world now (fold (context_step port world) ops [])"
  have sound: "memo_sound port world now (cx_memo ?st)"
    using assms(1,2) by (simp, intro member_memo.sound_run) (rule context_step_sound)
  obtain r st' where r: "context_findSession port now (Some l) ?st = (Some (l\<lparr>cl_session := (cl_session l)\<lparr>se_contextId := r\<rparr>\<rparr>), st')"
      "r \<noteq> Some c"
    using lost_context_left [OF sound _ assms(5-9) _ _ assms(4)] assms(3) by fastforce
  moreover have "cp_membership port u d (world now) = Some True" if "r = Some d" for d
    using moved_approved [OF r(1) _ _ assms(6)] that r(2) assms(5) by simp
  ultimately show ?thesis by blast
qed

definition example_context_id :: string where
  "example_context_id = ''0190a0b0-c0d0-7000-8000-0123456789ab''"

definition example_port :: "bool context_port" where
  "example_port = \<lparr>cp_membership = (\<lambda>u c member. Some (member \<and> u = ''u1'')), cp_initial = None,
     cp_update = (\<lambda>token c member. Some (True, member)), cp_ttlMs = 60000\<rparr>"

definition example_held :: context_loaded where
  "example_held = \<lparr>cl_session = example_session (Some example_context_id), cl_userId = Some ''u1'', cl_expires = True\<rparr>"

lemma example_uuid: "isUuid example_context_id"
  by (simp add: isUuid_def example_context_id_def is_hex_def is_digit_def)

theorem lost_membership_reaches_sessions_witness:
  "\<exists>st'. context_findSession example_port 60001 (Some example_held)
      (context_at (\<lambda>t. t \<le> 0) 60001 (fold (context_step example_port (\<lambda>t. t \<le> 0)) [(0, ReadContext (Some example_held))] [])) =
      (Some (example_held\<lparr>cl_session := (cl_session example_held)\<lparr>se_contextId := None\<rparr>\<rparr>), st')"
proof -
  obtain r st' where r: "context_findSession example_port 60001 (Some example_held)
      (context_at (\<lambda>t. t \<le> 0) 60001 (fold (context_step example_port (\<lambda>t. t \<le> 0)) [(0, ReadContext (Some example_held))] [])) =
      (Some (example_held\<lparr>cl_session := (cl_session example_held)\<lparr>se_contextId := r\<rparr>\<rparr>), st')"
      "\<forall>d. r = Some d \<longrightarrow> cp_membership example_port ''u1'' d (60001 \<le> (0 :: int)) = Some True"
    using lost_membership_reaches_sessions [of "[(0, ReadContext (Some example_held))]" 60001 example_port "''u1''" example_context_id
        "\<lambda>t. t \<le> 0" example_held] example_uuid
    by (auto simp: example_port_def example_held_def example_session_def split: if_splits)
  have "r = None"
    using r(2) by (cases r) (simp_all add: example_port_def)
  then show ?thesis
    using r(1) by blast
qed

end
