(* ===== verification/Revocation.thy ===== *)
theory Revocation
  imports ReadGuards Lockout
begin

text \<open>
  Ending sessions, service side (\<open>identity/src/create-identity.ts\<close>): revoking everyone's sessions or one user's, banning, taking a
  context away, detaching a Microsoft identity. Sessions live twice, as rows of the database and as copies in the cache, which
  is asked first: a row deleted while its copy survives would come back to life. The database and the server's commands are
  parameters; every call of the storage may fail, as the environment says.
\<close>

section \<open>The two stores\<close>

text \<open>
  Better Auth's calls on top of those of \<open>BetterAuth\<close>: \<open>sd_find\<close> finds at most so many rows, of one user or all, \<open>sd_findContext\<close>
  those that hold a context, as token and user; \<open>sd_setBan\<close> updates the ban of a user and the time of the change.
\<close>

record 'w session_db = "'w adapter" +
  sd_find :: "string option \<Rightarrow> nat \<Rightarrow> 'w \<Rightarrow> auth_session list"
  sd_findContext :: "string \<Rightarrow> string option \<Rightarrow> nat \<Rightarrow> 'w \<Rightarrow> auth_session list"
  sd_updateContext :: "string \<Rightarrow> string option \<Rightarrow> 'w \<Rightarrow> 'w"
  sd_setBan :: "string \<Rightarrow> bool \<Rightarrow> string option \<Rightarrow> int \<Rightarrow> 'w \<Rightarrow> 'w"
  sd_deleteAccount :: "auth_account \<Rightarrow> 'w \<Rightarrow> 'w"

text \<open>
  What surrounds the calls, by the number of storage calls made so far: how the next one fares, whether the cache says it is
  available, the time.
\<close>

record 's rv_env =
  re_ct :: "'s counters"
  re_reach :: "nat \<Rightarrow> reach"
  re_available :: "nat \<Rightarrow> bool"
  re_time :: "nat \<Rightarrow> msec"

datatype rv_event = SessionsRevoked string nat | UserBanned string | MicrosoftUnlinked string nat "string option"

record ('w, 's) rv_state =
  rv_world :: 'w
  rv_store :: "'s storage"
  rv_calls :: nat
  rv_memo :: belief_memo
  rv_events :: "rv_event list"

datatype rv_error = NotAUuid | NotConnected | FailedAfter nat | NoSuchUser | BadActorId

definition degraded_count :: "('w, 's) rv_state \<Rightarrow> nat" where
  "degraded_count st = length (snd (rv_store st))"

definition available_now :: "'s rv_env \<Rightarrow> ('w, 's) rv_state \<Rightarrow> bool" where
  "available_now env st = re_available env (rv_calls st)"

definition rv_delete :: "'s rv_env \<Rightarrow> string \<Rightarrow> ('w, 's) rv_state \<Rightarrow> ('w, 's) rv_state" where
  "rv_delete env key st =
     (let n = rv_calls st; (_, s') = storage_delete (re_ct env) (re_reach env n) (re_time env n) key (rv_store st)
      in st\<lparr>rv_store := s', rv_calls := n + 1\<rparr>)"

definition rv_get :: "'s rv_env \<Rightarrow> string \<Rightarrow> ('w, 's) rv_state \<Rightarrow> string option \<times> ('w, 's) rv_state" where
  "rv_get env key st =
     (let n = rv_calls st; (v, s') = storage_get (re_ct env) (re_reach env n) (re_time env n) key (rv_store st)
      in (v, st\<lparr>rv_store := s', rv_calls := n + 1\<rparr>))"

section \<open>Purging\<close>

text \<open>
  The batches: the cache first, then the rows. The deletes of a batch run at once; they are taken in order here, each with its
  own fate. \<open>None\<close> is a loop that has not ended within the fuel.
\<close>

fun purge_batches ::
  "nat \<Rightarrow> 'w session_db \<Rightarrow> 's rv_env \<Rightarrow> string option \<Rightarrow> nat \<Rightarrow> string \<Rightarrow> ('w, 's) rv_state \<Rightarrow>
   ((rv_error + nat) \<times> ('w, 's) rv_state) option" where
  "purge_batches 0 db env who revoked previous st = None"
| "purge_batches (Suc fuel) db env who revoked previous st =
     (let tokens = map se_token (sd_find db who 500 (rv_world st)) in
      if tokens = [] \<or> hd tokens = previous then Some (Inr revoked, st)
      else
        let st1 = fold (rv_delete env) tokens st in
        if degraded_count st1 \<noteq> degraded_count st \<or> \<not> available_now env st1 then Some (Inl (FailedAfter revoked), st1)
        else purge_batches fuel db env who (revoked + length tokens) (hd tokens)
               (st1\<lparr>rv_world := ad_deleteSessions db tokens (rv_world st1)\<rparr>))"

definition list_key :: "string \<Rightarrow> string" where
  "list_key userId = ''active-sessions-'' @ userId"

text \<open>The tokens of the list kept per user: each once, in order.\<close>

definition listed_tokens :: "string option \<Rightarrow> string list" where
  "listed_tokens raw =
     (case raw of
        None \<Rightarrow> []
      | Some t \<Rightarrow>
          (case json_parse t of
             Some (JArr es) \<Rightarrow>
               rev (remdups (rev (List.map_filter (\<lambda>e. case property_of ''token'' e of JStr s \<Rightarrow> Some s | _ \<Rightarrow> None) es)))
           | _ \<Rightarrow> []))"

definition drop_listed :: "'s rv_env \<Rightarrow> string \<Rightarrow> nat \<times> ('w, 's) rv_state \<Rightarrow> nat \<times> ('w, 's) rv_state" where
  "drop_listed env token r =
     (let (v, st) = rv_get env token (snd r) in
      if v = None then (fst r, st) else (fst r + 1, rv_delete env token st))"

definition purge_list :: "'s rv_env \<Rightarrow> string \<Rightarrow> nat \<Rightarrow> ('w, 's) rv_state \<Rightarrow> (rv_error + nat) \<times> ('w, 's) rv_state" where
  "purge_list env userId revoked st =
     (let (raw, st1) = rv_get env (list_key userId) st;
          (revoked', st2) = fold (drop_listed env) (listed_tokens raw) (revoked, st1);
          st3 = rv_delete env (list_key userId) st2 in
      if degraded_count st3 \<noteq> degraded_count st \<or> \<not> available_now env st3 then (Inl (FailedAfter revoked'), st3)
      else (Inr revoked', st3))"

definition purgeSessions ::
  "nat \<Rightarrow> 'w session_db \<Rightarrow> 's rv_env \<Rightarrow> string option \<Rightarrow> ('w, 's) rv_state \<Rightarrow> ((rv_error + nat) \<times> ('w, 's) rv_state) option" where
  "purgeSessions fuel db env who st =
     (if \<not> available_now env st then Some (Inl NotConnected, st)
      else
        (case purge_batches fuel db env who 0 [] st of
           None \<Rightarrow> None
         | Some (Inl e, st1) \<Rightarrow> Some (Inl e, st1)
         | Some (Inr revoked, st1) \<Rightarrow>
             (case who of None \<Rightarrow> Some (Inr revoked, st1) | Some userId \<Rightarrow> Some (purge_list env userId revoked st1))))"

definition revokeAllSessions where
  "revokeAllSessions fuel db env st = purgeSessions fuel db env None st"

definition rv_note :: "rv_event \<Rightarrow> ('w, 's) rv_state \<Rightarrow> ('w, 's) rv_state" where
  "rv_note e st = st\<lparr>rv_events := rv_events st @ [e]\<rparr>"

definition revokeUserSessions ::
  "nat \<Rightarrow> 'w session_db \<Rightarrow> 's rv_env \<Rightarrow> string \<Rightarrow> ('w, 's) rv_state \<Rightarrow> ((rv_error + nat) \<times> ('w, 's) rv_state) option" where
  "revokeUserSessions fuel db env userId st =
     (if \<not> isUuid userId then Some (Inl NotAUuid, st)
      else
        (case purgeSessions fuel db env (Some userId) st of
           None \<Rightarrow> None
         | Some (Inl e, st1) \<Rightarrow> Some (Inl e, st1)
         | Some (Inr revoked, st1) \<Rightarrow>
             let st2 = (if ad_userById db userId (rv_world st1) = None then st1
                        else st1\<lparr>rv_world := ad_touchUser db userId (int (re_time env (rv_calls st1))) (rv_world st1)\<rparr>)
             in Some (Inr revoked, rv_note (SessionsRevoked userId revoked) st2)))"

definition isUserBanned :: "'w session_db \<Rightarrow> 's rv_env \<Rightarrow> string \<Rightarrow> ('w, 's) rv_state \<Rightarrow> (rv_error + bool) \<times> ('w, 's) rv_state" where
  "isUserBanned db env userId st =
     (if \<not> isUuid userId then (Inl NotAUuid, st)
      else
        let (b, memo) = isBanned (adapter.truncate db) userId (int (re_time env (rv_calls st))) (rv_world st) (rv_memo st)
        in (Inr b, st\<lparr>rv_memo := memo\<rparr>))"

definition setUserBanned ::
  "nat \<Rightarrow> 'w session_db \<Rightarrow> 's rv_env \<Rightarrow> string \<Rightarrow> bool \<Rightarrow> string option \<Rightarrow> ('w, 's) rv_state \<Rightarrow>
   ((rv_error + unit) \<times> ('w, 's) rv_state) option" where
  "setUserBanned fuel db env userId banned reason st =
     (if \<not> isUuid userId then Some (Inl NotAUuid, st)
      else if banned \<and> \<not> available_now env st then Some (Inl NotConnected, st)
      else if ad_userById db userId (rv_world st) = None then Some (Inl NoSuchUser, st)
      else
        let w1 = sd_setBan db userId banned (if banned then map_option (take 500) reason else None)
                   (int (re_time env (rv_calls st))) (rv_world st);
            st1 = st\<lparr>rv_world := w1, rv_memo := forget_ban userId (rv_memo st)\<rparr> in
        if \<not> banned then Some (Inr (), st1)
        else
          (case revokeUserSessions fuel db env userId (rv_note (UserBanned userId) st1) of
             None \<Rightarrow> None
           | Some (Inl e, st2) \<Rightarrow> Some (Inl e, st2)
           | Some (Inr _, st2) \<Rightarrow> Some (Inr (), st2)))"

section \<open>Contexts and Microsoft identities\<close>

text \<open>
  Taking a context away: each row once (\<open>seen\<close>), its cached copy dropped if the storage degraded during the write, the user's
  membership forgotten. \<open>sd_updateContext\<close> writes the row; how its write of the cached copy fared is the next call's fate.
\<close>

definition clear_one :: "'w session_db \<Rightarrow> 's rv_env \<Rightarrow> string \<Rightarrow> auth_session \<Rightarrow> ('w, 's) rv_state \<Rightarrow> ('w, 's) rv_state" where
  "clear_one db env contextId row st =
     (let st1 = st\<lparr>rv_world := sd_updateContext db (se_token row) None (rv_world st), rv_calls := rv_calls st + 1\<rparr>;
          st2 = (if re_reach env (rv_calls st) = Fine then st1
                 else rv_delete env (se_token row) (st1\<lparr>rv_store := (fst (rv_store st1), snd (rv_store st1) @ [''set''])\<rparr>))
      in st2\<lparr>rv_memo := forget_context (se_userId row) (Some contextId) (rv_memo st2)\<rparr>)"

fun clear_batches ::
  "nat \<Rightarrow> 'w session_db \<Rightarrow> 's rv_env \<Rightarrow> string \<Rightarrow> string option \<Rightarrow> string list \<Rightarrow> nat \<Rightarrow> ('w, 's) rv_state \<Rightarrow>
   (nat \<times> ('w, 's) rv_state) option" where
  "clear_batches 0 db env contextId who seen cleared st = None"
| "clear_batches (Suc fuel) db env contextId who seen cleared st =
     (let batch = filter (\<lambda>r. se_token r \<notin> set seen) (sd_findContext db contextId who 500 (rv_world st)) in
      if batch = [] then Some (cleared, st)
      else clear_batches fuel db env contextId who (seen @ map se_token batch) (cleared + length batch)
             (fold (clear_one db env contextId) batch st))"

definition clearContext ::
  "nat \<Rightarrow> 'w session_db \<Rightarrow> 's rv_env \<Rightarrow> string \<Rightarrow> string \<Rightarrow> ('w, 's) rv_state \<Rightarrow> ((rv_error + nat) \<times> ('w, 's) rv_state) option" where
  "clearContext fuel db env userId contextId st =
     (if \<not> isUuid userId \<or> \<not> isUuid contextId then Some (Inl NotAUuid, st)
      else
        (case clear_batches fuel db env contextId (Some userId) [] 0 st of
           None \<Rightarrow> None
         | Some (n, st1) \<Rightarrow> Some (Inr n, st1\<lparr>rv_memo := forget_context userId (Some contextId) (rv_memo st1)\<rparr>)))"

definition clearContextEverywhere ::
  "nat \<Rightarrow> 'w session_db \<Rightarrow> 's rv_env \<Rightarrow> string \<Rightarrow> ('w, 's) rv_state \<Rightarrow> ((rv_error + nat) \<times> ('w, 's) rv_state) option" where
  "clearContextEverywhere fuel db env contextId st =
     (if \<not> isUuid contextId then Some (Inl NotAUuid, st)
      else map_option (\<lambda>(n, st1). (Inr n, st1)) (clear_batches fuel db env contextId None [] 0 st))"

definition actor_ok :: "string option \<Rightarrow> bool" where
  "actor_ok actorId =
     (case actorId of
        None \<Rightarrow> True
      | Some a \<Rightarrow> a \<noteq> [] \<and> length a \<le> 128 \<and> list_all (\<lambda>c. \<not> code_unit c < 32 \<and> code_unit c \<noteq> 127) a)"

definition unlinkMicrosoftAccount ::
  "nat \<Rightarrow> 'w session_db \<Rightarrow> 's rv_env \<Rightarrow> string \<Rightarrow> string option \<Rightarrow> ('w, 's) rv_state \<Rightarrow>
   ((rv_error + nat) \<times> ('w, 's) rv_state) option" where
  "unlinkMicrosoftAccount fuel db env userId actorId st =
     (if \<not> isUuid userId then Some (Inl NotAUuid, st)
      else if \<not> actor_ok actorId then Some (Inl BadActorId, st)
      else if \<not> available_now env st then Some (Inl NotConnected, st)
      else if ad_userById db userId (rv_world st) = None then Some (Inr 0, st)
      else
        let accounts = filter is_microsoft (ad_accounts db userId (rv_world st)) in
        if accounts = [] then Some (Inr 0, st)
        else
          (case revokeUserSessions fuel db env userId st of
             None \<Rightarrow> None
           | Some (Inl e, st1) \<Rightarrow> Some (Inl e, st1)
           | Some (Inr _, st1) \<Rightarrow>
               let st2 = rv_note (MicrosoftUnlinked userId (length accounts) actorId)
                           (st1\<lparr>rv_world := fold (sd_deleteAccount db) accounts (rv_world st1)\<rparr>) in
               (case purgeSessions fuel db env (Some userId) st2 of
                  None \<Rightarrow> None
                | Some (Inl e, st3) \<Rightarrow> Some (Inl e, st3)
                | Some (Inr _, st3) \<Rightarrow> Some (Inr (length accounts), st3))))"

section \<open>What is relied on\<close>

text \<open>From a time on, the cache holds nothing under the key.\<close>

definition gone :: "'s counters \<Rightarrow> msec \<Rightarrow> string \<Rightarrow> 's \<Rightarrow> bool" where
  "gone ct t k s \<longleftrightarrow> (\<forall>t'\<ge>t. ct_get ct t' k s = None)"

lemma gone_later: "gone ct t k s \<Longrightarrow> t \<le> t' \<Longrightarrow> gone ct t' k s"
  by (auto simp: gone_def)

abbreviation rv_cache :: "('w, 's) rv_state \<Rightarrow> 's" where
  "rv_cache st \<equiv> fst (rv_store st)"

lemma rv_delete_same [simp]:
  "rv_world (rv_delete env k st) = rv_world st" "rv_memo (rv_delete env k st) = rv_memo st"
  "rv_events (rv_delete env k st) = rv_events st" "rv_calls (rv_delete env k st) = Suc (rv_calls st)"
  by (simp_all add: rv_delete_def Let_def split_beta)

lemma rv_get_same [simp]:
  "rv_world (snd (rv_get env k st)) = rv_world st" "rv_memo (snd (rv_get env k st)) = rv_memo st"
  "rv_events (snd (rv_get env k st)) = rv_events st" "rv_calls (snd (rv_get env k st)) = Suc (rv_calls st)"
  "rv_cache (snd (rv_get env k st)) = rv_cache st"
  by (simp_all add: rv_get_def Let_def split_beta storage_get_def storage_guard_def split: reach.split)

lemma rv_get_degraded:
  "degraded_count st \<le> degraded_count (snd (rv_get env k st))"
  "degraded_count (snd (rv_get env k st)) = degraded_count st \<Longrightarrow>
    fst (rv_get env k st) = ct_get (re_ct env) (re_time env (rv_calls st)) k (rv_cache st)"
  by (cases "re_reach env (rv_calls st)";
      simp add: rv_get_def Let_def split_beta storage_get_def storage_guard_def degraded_count_def)+

lemma rv_delete_degraded: "degraded_count st \<le> degraded_count (rv_delete env k st)"
  by (cases "re_reach env (rv_calls st)")
    (simp_all add: rv_delete_def Let_def split_beta storage_delete_def storage_guard_def degraded_count_def)

lemma fold_delete_degraded: "degraded_count st \<le> degraded_count (fold (rv_delete env) ks st)"
  by (induction ks arbitrary: st) (simp, metis fold_simps(2) le_trans rv_delete_degraded)

lemma fold_delete_same [simp]:
  "rv_world (fold (rv_delete env) ks st) = rv_world st" "rv_memo (fold (rv_delete env) ks st) = rv_memo st"
  "rv_events (fold (rv_delete env) ks st) = rv_events st" "rv_calls (fold (rv_delete env) ks st) = rv_calls st + length ks"
  by (induction ks arbitrary: st) simp_all

locale two_stores =
  fixes db :: "'w session_db" and ct :: "'s counters" and rows :: "'w \<Rightarrow> auth_session list"
  assumes find_rows: "s \<in> set (sd_find db who n w) \<Longrightarrow> s \<in> set (rows w) \<and> (\<forall>i. who = Some i \<longrightarrow> se_userId s = i)"
    and find_none: "sd_find db who n w = [] \<Longrightarrow> 0 < n \<Longrightarrow> s \<in> set (rows w) \<Longrightarrow> \<exists>i. who = Some i \<and> se_userId s \<noteq> i"
    and rows_delete: "rows (ad_deleteSessions db ts w) = filter (\<lambda>s. se_token s \<notin> set ts) (rows w)"
    and rows_touch: "rows (ad_touchUser db i d w) = rows w"
    and rows_setBan: "rows (sd_setBan db i b r d w) = rows w"
    and byId_delete: "ad_userById db i (ad_deleteSessions db ts w) = ad_userById db i w"
    and byId_touch: "ad_userById db i (ad_touchUser db j d w) =
      (if i = j then map_option (u_updatedAt_update (\<lambda>_. d)) (ad_userById db i w) else ad_userById db i w)"
    and byId_setBan: "ad_userById db i (sd_setBan db j b r d w) =
      (if i = j then map_option (\<lambda>u. u\<lparr>u_banned := b, u_banExpires := None, u_updatedAt := d\<rparr>) (ad_userById db i w)
       else ad_userById db i w)"
    and get_del: "ct_get ct t' k (ct_del ct t k v) = None"
    and get_del_other: "k' \<noteq> k \<Longrightarrow> ct_get ct t' k' (ct_del ct t k v) = ct_get ct t' k' v"
    and get_later: "ct_get ct t k v = None \<Longrightarrow> t \<le> t' \<Longrightarrow> ct_get ct t' k v = None"
begin

lemma delete_gone:
  assumes "re_ct env = ct" "degraded_count (rv_delete env k st) = degraded_count st"
  shows "gone ct t k (rv_cache (rv_delete env k st))"
  using assms get_del
  by (cases "re_reach env (rv_calls st)")
    (simp_all add: rv_delete_def Let_def split_beta storage_delete_def storage_guard_def degraded_count_def gone_def)

lemma delete_get:
  assumes "re_ct env = ct"
  shows "ct_get ct t k' (rv_cache (rv_delete env k st)) = ct_get ct t k' (rv_cache st) \<or>
    ct_get ct t k' (rv_cache (rv_delete env k st)) = None \<and> k' = k"
  using assms get_del get_del_other [of k' k]
  by (cases "re_reach env (rv_calls st)"; cases "k' = k")
    (auto simp: rv_delete_def Let_def split_beta storage_delete_def storage_guard_def)

lemma delete_keeps_gone: "re_ct env = ct \<Longrightarrow> gone ct t k' (rv_cache st) \<Longrightarrow> gone ct t k' (rv_cache (rv_delete env k st))"
  unfolding gone_def using delete_get [of env _ k' k st] by metis

lemma fold_delete_keeps_gone:
  "re_ct env = ct \<Longrightarrow> gone ct t k (rv_cache st) \<Longrightarrow> gone ct t k (rv_cache (fold (rv_delete env) ks st))"
  by (induction ks arbitrary: st) (simp_all add: delete_keeps_gone)

lemma fold_delete_gone:
  "re_ct env = ct \<Longrightarrow> degraded_count (fold (rv_delete env) ks st) = degraded_count st \<Longrightarrow> k \<in> set ks \<Longrightarrow>
   gone ct t k (rv_cache (fold (rv_delete env) ks st))"
proof (induction ks arbitrary: st)
  case (Cons k' ks)
  have "degraded_count (rv_delete env k' st) = degraded_count st"
    using Cons.prems(2) fold_delete_degraded [of "rv_delete env k' st" env ks] rv_delete_degraded [of st env k'] by simp
  then show ?case
  proof (cases "k = k'")
    case True
    then show ?thesis
      using \<open>degraded_count (rv_delete env k' st) = degraded_count st\<close>
      by (simp add: fold_delete_keeps_gone [OF Cons.prems(1)] delete_gone [OF Cons.prems(1)])
  next
    case False
    then show ?thesis
      using \<open>degraded_count (rv_delete env k' st) = degraded_count st\<close> Cons.prems Cons.IH [of "rv_delete env k' st"] by simp
  qed
qed simp

lemma fold_delete_get:
  "re_ct env = ct \<Longrightarrow> k \<notin> set ks \<Longrightarrow> ct_get ct t k (rv_cache (fold (rv_delete env) ks st)) = ct_get ct t k (rv_cache st)"
proof (induction ks arbitrary: st)
  case (Cons k' ks)
  then have "ct_get ct t k (rv_cache (rv_delete env k' st)) = ct_get ct t k (rv_cache st)"
    using delete_get [OF Cons.prems(1), of t k k' st] by auto
  then show ?case
    using Cons.IH [OF Cons.prems(1), of "rv_delete env k' st"] Cons.prems(2) by simp
qed simp

text \<open>Every row of \<open>R\<close> is still there or has lost its copy.\<close>

definition kept :: "auth_session set \<Rightarrow> msec \<Rightarrow> ('w, 's) rv_state \<Rightarrow> bool" where
  "kept R t st \<longleftrightarrow> (\<forall>s\<in>R. s \<in> set (rows (rv_world st)) \<or> gone ct t (se_token s) (rv_cache st))"

lemma kept_deletes: "re_ct env = ct \<Longrightarrow> kept R t st \<Longrightarrow> kept R t (fold (rv_delete env) ks st)"
  unfolding kept_def using fold_delete_keeps_gone fold_delete_same(1) by metis

lemma kept_rows:
  assumes "kept R t st" "\<And>k. k \<in> set ts \<Longrightarrow> gone ct t k (rv_cache st)"
  shows "kept R t (st\<lparr>rv_world := ad_deleteSessions db ts (rv_world st)\<rparr>)"
  using assms by (auto simp: kept_def rows_delete)

lemma batches:
  assumes env: "re_ct env = ct"
  shows "kept R t st \<Longrightarrow> \<forall>s\<in>set (rows (rv_world st)). se_token s \<noteq> previous \<Longrightarrow> length (rows (rv_world st)) < fuel \<Longrightarrow>
    \<exists>r st'. purge_batches fuel db env who revoked previous st = Some (r, st') \<and> kept R t st' \<and>
      set (rows (rv_world st')) \<subseteq> set (rows (rv_world st)) \<and> (\<forall>i. ad_userById db i (rv_world st') = ad_userById db i (rv_world st)) \<and>
      rv_memo st' = rv_memo st \<and> rv_calls st \<le> rv_calls st' \<and>
      (\<forall>k t. k \<notin> se_token ` set (rows (rv_world st)) \<longrightarrow> ct_get ct t k (rv_cache st') = ct_get ct t k (rv_cache st)) \<and>
      (is_ok r \<longrightarrow> (\<forall>s\<in>set (rows (rv_world st')). \<exists>i. who = Some i \<and> se_userId s \<noteq> i))"
proof (induction fuel arbitrary: st previous revoked)
  case (Suc fuel)
  let ?found = "sd_find db who 500 (rv_world st)"
  let ?tokens = "map se_token ?found"
  show ?case
  proof (cases "?found = []")
    case True
    then show ?thesis
      using Suc.prems(1) find_none [of who 500 "rv_world st"] by simp
  next
    case False
    have sub: "set ?found \<subseteq> set (rows (rv_world st))"
      using find_rows by blast
    with False have "hd ?tokens \<noteq> previous"
      using Suc.prems(2) by (cases ?found) auto
    let ?st1 = "fold (rv_delete env) ?tokens st"
    have other: "ct_get ct t k (rv_cache ?st1) = ct_get ct t k (rv_cache st)" if "k \<notin> se_token ` set (rows (rv_world st))" for k t
      using that sub by (intro fold_delete_get [OF env]) auto
    show ?thesis
    proof (cases "degraded_count ?st1 \<noteq> degraded_count st \<or> \<not> available_now env ?st1")
      case True
      then show ?thesis
        using False \<open>hd ?tokens \<noteq> previous\<close> kept_deletes [OF env Suc.prems(1)] other by (simp add: Let_def)
    next
      case fine: False
      let ?st2 = "?st1\<lparr>rv_world := ad_deleteSessions db ?tokens (rv_world ?st1)\<rparr>"
      have g: "gone ct t k (rv_cache ?st1)" if "k \<in> set ?tokens" for k
        using fold_delete_gone [OF env _ that, of st t] fine by simp
      have k2: "kept R t ?st2"
        by (rule kept_rows [OF kept_deletes [OF env Suc.prems(1)] g])
      have rows2: "rows (rv_world ?st2) = filter (\<lambda>s. se_token s \<notin> set ?tokens) (rows (rv_world st))"
        by (simp add: rows_delete)
      have "hd ?found \<in> set (rows (rv_world st))" "se_token (hd ?found) \<in> set ?tokens"
        using False sub by auto
      then have "length (rows (rv_world ?st2)) < length (rows (rv_world st))"
        unfolding rows2 by (intro length_filter_less) auto
      then have "length (rows (rv_world ?st2)) < fuel"
        using Suc.prems(3) by simp
      moreover have "\<forall>s\<in>set (rows (rv_world ?st2)). se_token s \<noteq> hd ?tokens"
        unfolding rows2 using False by (cases ?found) auto
      ultimately obtain r st' where ih: "purge_batches fuel db env who (revoked + length ?tokens) (hd ?tokens) ?st2 = Some (r, st')"
          "kept R t st'" "set (rows (rv_world st')) \<subseteq> set (rows (rv_world ?st2))"
          "\<forall>i. ad_userById db i (rv_world st') = ad_userById db i (rv_world ?st2)"
          "rv_memo st' = rv_memo ?st2" "rv_calls ?st2 \<le> rv_calls st'"
          "\<forall>k t. k \<notin> se_token ` set (rows (rv_world ?st2)) \<longrightarrow> ct_get ct t k (rv_cache st') = ct_get ct t k (rv_cache ?st2)"
          "is_ok r \<longrightarrow> (\<forall>s\<in>set (rows (rv_world st')). \<exists>i. who = Some i \<and> se_userId s \<noteq> i)"
        using Suc.IH [OF k2, of "hd ?tokens" "revoked + length ?tokens"] by blast
      have "purge_batches (Suc fuel) db env who revoked previous st = Some (r, st')"
        using ih(1) False fine \<open>hd ?tokens \<noteq> previous\<close> by (simp add: Let_def)
      moreover have "set (rows (rv_world st')) \<subseteq> set (rows (rv_world st))"
        using ih(3) rows2 by auto
      moreover have "\<forall>i. ad_userById db i (rv_world st') = ad_userById db i (rv_world st)"
        using ih(4) byId_delete by simp
      moreover have "ct_get ct t k (rv_cache st') = ct_get ct t k (rv_cache st)" if "k \<notin> se_token ` set (rows (rv_world st))" for k t
      proof -
        have "k \<notin> set ?tokens" "k \<notin> se_token ` set (rows (rv_world ?st2))"
          using that sub rows2 by auto
        then show ?thesis
          using ih(7) fold_delete_get [OF env, of k ?tokens t st] by simp
      qed
      ultimately show ?thesis
        using ih(2,5,6,8) by simp
    qed
  qed
qed simp

lemma drop_one:
  assumes env: "re_ct env = ct" "mono (re_time env)" and r: "drop_listed env k (n, st) = (n', st')"
  shows "rv_world st' = rv_world st \<and> rv_memo st' = rv_memo st \<and> degraded_count st \<le> degraded_count st' \<and> rv_calls st \<le> rv_calls st' \<and>
    (\<forall>t k'. gone ct t k' (rv_cache st) \<longrightarrow> gone ct t k' (rv_cache st')) \<and>
    (degraded_count st' = degraded_count st \<longrightarrow> gone ct (re_time env (rv_calls st')) k (rv_cache st'))"
proof -
  obtain v st1 where g: "rv_get env k st = (v, st1)" by (rule prod.exhaust)
  then have same: "rv_world st1 = rv_world st" "rv_memo st1 = rv_memo st" "rv_calls st1 = Suc (rv_calls st)" "rv_cache st1 = rv_cache st"
      "degraded_count st \<le> degraded_count st1"
      "degraded_count st1 = degraded_count st \<Longrightarrow> v = ct_get ct (re_time env (rv_calls st)) k (rv_cache st)"
    using rv_get_same [of env k st] rv_get_degraded [where st = st and env = env and k = k] env(1) by simp_all
  show ?thesis
  proof (cases "v = None")
    case True
    then have st': "st' = st1"
      using r g by (simp add: drop_listed_def)
    have "re_time env (rv_calls st) \<le> re_time env (rv_calls st1)"
      using same(3) by (intro monoD [OF env(2)]) simp
    then have "gone ct (re_time env (rv_calls st1)) k (rv_cache st1)" if "degraded_count st1 = degraded_count st"
      using same(4,6) True that get_later unfolding gone_def by (metis le_trans)
    then show ?thesis
      using same st' by simp
  next
    case False
    have st': "st' = rv_delete env k st1"
      using r g False unfolding drop_listed_def by (auto simp del: not_None_eq)
    have "gone ct (re_time env (rv_calls st')) k (rv_cache st')" if "degraded_count st' = degraded_count st"
    proof -
      have "degraded_count (rv_delete env k st1) = degraded_count st1"
        using that same(5) rv_delete_degraded [of st1 env k] st' by simp
      from delete_gone [OF env(1) this] show ?thesis
        unfolding st' .
    qed
    moreover have "degraded_count st \<le> degraded_count st'"
      using same(5) rv_delete_degraded [of st1 env k] st' by simp
    ultimately show ?thesis
      using same(1-4) st' delete_keeps_gone [OF env(1), of _ _ st1 k] by simp
  qed
qed

lemma drop_all:
  assumes env: "re_ct env = ct" "mono (re_time env)"
  shows "fold (drop_listed env) ks (n, st) = (n', st') \<Longrightarrow>
    rv_world st' = rv_world st \<and> rv_memo st' = rv_memo st \<and> degraded_count st \<le> degraded_count st' \<and> rv_calls st \<le> rv_calls st' \<and>
    (\<forall>t k'. gone ct t k' (rv_cache st) \<longrightarrow> gone ct t k' (rv_cache st')) \<and>
    (degraded_count st' = degraded_count st \<longrightarrow> (\<forall>k\<in>set ks. gone ct (re_time env (rv_calls st')) k (rv_cache st')))"
proof (induction ks arbitrary: n st)
  case (Cons k ks)
  obtain n1 st1 where d: "drop_listed env k (n, st) = (n1, st1)" by (rule prod.exhaust)
  note one = drop_one [OF env d]
  have "fold (drop_listed env) ks (n1, st1) = (n', st')"
    using Cons.prems d by simp
  note rest = Cons.IH [OF this]
  have "gone ct (re_time env (rv_calls st')) k (rv_cache st')" if "degraded_count st' = degraded_count st"
  proof -
    have "gone ct (re_time env (rv_calls st1)) k (rv_cache st1)"
      using one rest that by simp
    then have "gone ct (re_time env (rv_calls st1)) k (rv_cache st')"
      using rest by blast
    moreover have "re_time env (rv_calls st1) \<le> re_time env (rv_calls st')"
      using rest by (intro monoD [OF env(2)]) simp
    ultimately show ?thesis
      by (rule gone_later)
  qed
  then show ?case
    using one rest by auto
qed simp

lemma list_purged:
  assumes env: "re_ct env = ct" "mono (re_time env)" and r: "purge_list env u n st = (r, st')"
  shows "rv_world st' = rv_world st \<and> rv_memo st' = rv_memo st \<and> rv_calls st \<le> rv_calls st' \<and>
    (\<forall>t k. gone ct t k (rv_cache st) \<longrightarrow> gone ct t k (rv_cache st')) \<and>
    (is_ok r \<longrightarrow> gone ct (re_time env (rv_calls st')) (list_key u) (rv_cache st') \<and>
      (\<forall>k\<in>set (listed_tokens (ct_get ct (re_time env (rv_calls st)) (list_key u) (rv_cache st))).
         gone ct (re_time env (rv_calls st')) k (rv_cache st')))"
proof -
  obtain raw st1 where g: "rv_get env (list_key u) st = (raw, st1)" by (rule prod.exhaust)
  obtain n2 st2 where d: "fold (drop_listed env) (listed_tokens raw) (n, st1) = (n2, st2)" by (rule prod.exhaust)
  have same: "rv_world st1 = rv_world st" "rv_memo st1 = rv_memo st" "rv_calls st1 = Suc (rv_calls st)" "rv_cache st1 = rv_cache st"
      "degraded_count st \<le> degraded_count st1"
      "degraded_count st1 = degraded_count st \<Longrightarrow> raw = ct_get ct (re_time env (rv_calls st)) (list_key u) (rv_cache st)"
    using rv_get_same [of env "list_key u" st] rv_get_degraded [where st = st and env = env and k = "list_key u"] env(1) g by simp_all
  note all = drop_all [OF env d]
  let ?st3 = "rv_delete env (list_key u) st2"
  have st': "st' = ?st3" and ok: "is_ok r \<Longrightarrow> degraded_count ?st3 = degraded_count st"
    using r g d by (simp_all add: purge_list_def Let_def split: if_split_asm) (metis is_ok_simps(1))
  have "gone ct (re_time env (rv_calls ?st3)) (list_key u) (rv_cache ?st3) \<and>
      (\<forall>k\<in>set (listed_tokens (ct_get ct (re_time env (rv_calls st)) (list_key u) (rv_cache st))).
         gone ct (re_time env (rv_calls ?st3)) k (rv_cache ?st3))" if "is_ok r"
  proof -
    have d3: "degraded_count ?st3 = degraded_count st2" "degraded_count st2 = degraded_count st1" "degraded_count st1 = degraded_count st"
      using ok [OF that] all same(5) rv_delete_degraded [of st2 env "list_key u"] by simp_all
    have later: "re_time env (rv_calls st2) \<le> re_time env (rv_calls ?st3)"
      by (intro monoD [OF env(2)]) simp
    have "gone ct (re_time env (rv_calls ?st3)) k (rv_cache ?st3)" if "k \<in> set (listed_tokens raw)" for k
    proof -
      have "gone ct (re_time env (rv_calls st2)) k (rv_cache st2)"
        using all d3(2) that by simp
      from gone_later [OF delete_keeps_gone [OF env(1) this] later] show ?thesis .
    qed
    then show ?thesis
      using delete_gone [OF env(1) d3(1)] same(6) [OF d3(3)] by simp
  qed
  moreover have "gone ct t k (rv_cache ?st3)" if "gone ct t k (rv_cache st)" for t k
    using that same(4) all by (intro delete_keeps_gone [OF env(1)]) simp
  ultimately show ?thesis
    using st' same(1-3) all by simp
qed

lemma purged:
  assumes env: "re_ct env = ct" "mono (re_time env)"
    and "kept R t st" "\<forall>s\<in>set (rows (rv_world st)). se_token s \<noteq> []" "length (rows (rv_world st)) < fuel"
  shows "\<exists>r st'. purgeSessions fuel db env who st = Some (r, st') \<and> kept R t st' \<and>
      set (rows (rv_world st')) \<subseteq> set (rows (rv_world st)) \<and> (\<forall>i. ad_userById db i (rv_world st') = ad_userById db i (rv_world st)) \<and>
      rv_memo st' = rv_memo st \<and>
      (is_ok r \<longrightarrow> (\<forall>s\<in>set (rows (rv_world st')). \<exists>i. who = Some i \<and> se_userId s \<noteq> i)) \<and>
      (\<forall>u raw k. is_ok r \<longrightarrow> who = Some u \<longrightarrow> list_key u \<notin> se_token ` set (rows (rv_world st)) \<longrightarrow>
         (\<forall>t. ct_get ct t (list_key u) (rv_cache st) = Some raw) \<longrightarrow> k \<in> set (listed_tokens (Some raw)) \<longrightarrow>
         gone ct (re_time env (rv_calls st')) k (rv_cache st'))"
proof (cases "available_now env st")
  case True
  obtain r1 st1 where b: "purge_batches fuel db env who 0 [] st = Some (r1, st1)" "kept R t st1"
      "set (rows (rv_world st1)) \<subseteq> set (rows (rv_world st))" "\<forall>i. ad_userById db i (rv_world st1) = ad_userById db i (rv_world st)"
      "rv_memo st1 = rv_memo st"
      "\<forall>k t. k \<notin> se_token ` set (rows (rv_world st)) \<longrightarrow> ct_get ct t k (rv_cache st1) = ct_get ct t k (rv_cache st)"
      "is_ok r1 \<longrightarrow> (\<forall>s\<in>set (rows (rv_world st1)). \<exists>i. who = Some i \<and> se_userId s \<noteq> i)"
    using batches [OF env(1) assms(3-5)] by blast
  show ?thesis
  proof (cases r1)
    case (Inl e)
    then show ?thesis
      using b True by (simp add: purgeSessions_def)
  next
    case (Inr n)
    show ?thesis
    proof (cases who)
      case None
      then show ?thesis
        using b True Inr by (simp add: purgeSessions_def)
    next
      case (Some u)
      obtain r st' where l: "purge_list env u n st1 = (r, st')" by (rule prod.exhaust)
      note p = list_purged [OF env l]
      have "purgeSessions fuel db env who st = Some (r, st')"
        using b(1) True Inr Some l by (simp add: purgeSessions_def)
      moreover have "kept R t st'"
        using b(2) p by (auto simp: kept_def)
      moreover have "gone ct (re_time env (rv_calls st')) k (rv_cache st')"
        if "is_ok r" "who = Some u'" "list_key u' \<notin> se_token ` set (rows (rv_world st))"
          "\<forall>t. ct_get ct t (list_key u') (rv_cache st) = Some raw" "k \<in> set (listed_tokens (Some raw))" for u' raw k
        using that Some p b(6) by auto
      ultimately show ?thesis
        using b(3-5,7) p Inr by (intro exI [of _ r] exI [of _ st']) auto
    qed
  qed
qed (use assms(3) in \<open>simp add: purgeSessions_def\<close>)

end

section \<open>A database in memory\<close>

definition mem_session_db :: "mem_auth session_db" where
  "mem_session_db = adapter.extend mem_adapter (session_db.fields
     (\<lambda>who n w. take n (filter (\<lambda>s. who = None \<or> who = Some (se_userId s)) (ma_sessions w)))
     (\<lambda>c who n w. take n (filter (\<lambda>s. se_contextId s = Some c \<and> (who = None \<or> who = Some (se_userId s))) (ma_sessions w)))
     (\<lambda>token c w. w\<lparr>ma_sessions := map (\<lambda>s. if se_token s = token then s\<lparr>se_contextId := c\<rparr> else s) (ma_sessions w)\<rparr>)
     (\<lambda>i b r t w. w\<lparr>ma_users := map (\<lambda>u. if u_id u = i then u\<lparr>u_banned := b, u_banExpires := None, u_updatedAt := t\<rparr> else u) (ma_users w)\<rparr>)
     (\<lambda>a w. w\<lparr>ma_accounts := removeAll a (ma_accounts w)\<rparr>))"

lemma mem_session_db_adapter [simp]:
  "ad_userById mem_session_db = ma_user" "ad_touchUser mem_session_db = ma_touch"
  "ad_deleteSessions mem_session_db = (\<lambda>ts w. w\<lparr>ma_sessions := filter (\<lambda>s. se_token s \<notin> set ts) (ma_sessions w)\<rparr>)"
  by (simp_all add: mem_session_db_def adapter.defs session_db.defs mem_adapter_def)

lemma ma_user_map:
  "(\<And>u. u_id (f u) = u_id u) \<Longrightarrow> ma_user i (w\<lparr>ma_users := map f (ma_users w)\<rparr>) = map_option f (ma_user i w)"
  by (simp add: ma_user_def find_map_same)

interpretation mem_stores: two_stores mem_session_db mem_counters ma_sessions
proof
  fix s who n w
  show "s \<in> set (sd_find mem_session_db who n w) \<Longrightarrow> s \<in> set (ma_sessions w) \<and> (\<forall>i. who = Some i \<longrightarrow> se_userId s = i)"
    by (auto simp: mem_session_db_def adapter.defs session_db.defs dest!: in_set_takeD)
  show "sd_find mem_session_db who n w = [] \<Longrightarrow> 0 < n \<Longrightarrow> s \<in> set (ma_sessions w) \<Longrightarrow> \<exists>i. who = Some i \<and> se_userId s \<noteq> i"
    by (auto simp: mem_session_db_def adapter.defs session_db.defs filter_empty_conv)
next
  fix i j w d
  show "ad_userById mem_session_db i (ad_touchUser mem_session_db j d w) =
      (if i = j then map_option (u_updatedAt_update (\<lambda>_. d)) (ad_userById mem_session_db i w) else ad_userById mem_session_db i w)"
    using mem_auth.byId_touch [of i j d w] by (simp add: mem_adapter_def)
next
  fix i j b r w d
  have "ma_user i (w\<lparr>ma_users := map (\<lambda>u. if u_id u = j then u\<lparr>u_banned := b, u_banExpires := None, u_updatedAt := d\<rparr> else u) (ma_users w)\<rparr>) =
      map_option (\<lambda>u. if u_id u = j then u\<lparr>u_banned := b, u_banExpires := None, u_updatedAt := d\<rparr> else u) (ma_user i w)"
    by (rule ma_user_map) simp
  then show "ad_userById mem_session_db i (sd_setBan mem_session_db j b r d w) =
      (if i = j then map_option (\<lambda>u. u\<lparr>u_banned := b, u_banExpires := None, u_updatedAt := d\<rparr>) (ad_userById mem_session_db i w)
       else ad_userById mem_session_db i w)"
    using ma_user_id [of i w] by (cases "ma_user i w") (auto simp: mem_session_db_def adapter.defs session_db.defs mem_adapter_def)
qed (auto simp: mem_session_db_def adapter.defs session_db.defs mem_adapter_def ma_touch_def ma_user_def mem_counters_def mc_get_def
    live_def split: option.splits prod.splits)

section \<open>Revoked is revoked\<close>

lemma map_of_filter_other: "map_of (filter (\<lambda>(k, d). k \<noteq> x) memo) x = None"
  by (induction memo) auto

text \<open>
  C34. A revoked session does not come back: whatever calls of the cache fail and however, revoking returns, and of every
  session there was, either the row is still in the database, where a re-run finds it, or the cache holds no copy of it any
  more; never is a row deleted that the cache could revive. When it answers a count, all rows it was asked about are gone, and
  so are the copies of every session that the user's own list in the cache named.
\<close>

theorem revoked_stays_revoked:
  assumes "two_stores db ct rows" and "re_ct env = ct" and "mono (re_time env)"
    and "\<forall>s\<in>set (rows (rv_world st)). se_token s \<noteq> []" and "length (rows (rv_world st)) < fuel"
  shows "\<exists>r st'. purgeSessions fuel db env who st = Some (r, st') \<and>
    (\<forall>s\<in>set (rows (rv_world st)). s \<in> set (rows (rv_world st')) \<or> gone ct 0 (se_token s) (rv_cache st')) \<and>
    (is_ok r \<longrightarrow> (\<forall>s\<in>set (rows (rv_world st)). who = None \<or> who = Some (se_userId s) \<longrightarrow>
      s \<notin> set (rows (rv_world st')) \<and> gone ct 0 (se_token s) (rv_cache st'))) \<and>
    (\<forall>u raw k. is_ok r \<longrightarrow> who = Some u \<longrightarrow> list_key u \<notin> se_token ` set (rows (rv_world st)) \<longrightarrow>
      (\<forall>t. ct_get ct t (list_key u) (rv_cache st) = Some raw) \<longrightarrow> k \<in> set (listed_tokens (Some raw)) \<longrightarrow>
      gone ct (re_time env (rv_calls st')) k (rv_cache st'))"
proof -
  have "two_stores.kept ct rows (set (rows (rv_world st))) 0 st"
    by (simp add: two_stores.kept_def [OF assms(1)])
  from two_stores.purged [OF assms(1-3) this assms(4,5), of who] obtain r st' where p:
      "purgeSessions fuel db env who st = Some (r, st')" "two_stores.kept ct rows (set (rows (rv_world st))) 0 st'"
      "is_ok r \<longrightarrow> (\<forall>s\<in>set (rows (rv_world st')). \<exists>i. who = Some i \<and> se_userId s \<noteq> i)"
      "\<forall>u raw k. is_ok r \<longrightarrow> who = Some u \<longrightarrow> list_key u \<notin> se_token ` set (rows (rv_world st)) \<longrightarrow>
        (\<forall>t. ct_get ct t (list_key u) (rv_cache st) = Some raw) \<longrightarrow> k \<in> set (listed_tokens (Some raw)) \<longrightarrow>
        gone ct (re_time env (rv_calls st')) k (rv_cache st')"
    by blast
  have kept: "\<forall>s\<in>set (rows (rv_world st)). s \<in> set (rows (rv_world st')) \<or> gone ct 0 (se_token s) (rv_cache st')"
    using p(2) by (simp add: two_stores.kept_def [OF assms(1)])
  moreover have "s \<notin> set (rows (rv_world st'))" if "is_ok r" "who = None \<or> who = Some (se_userId s)" for s
    using p(3) that by auto
  ultimately show ?thesis
    using p(1,4) by (intro exI [of _ r] exI [of _ st']) blast
qed

text \<open>A batch whose delete fails after the row of another user was found: nothing but the cache has changed.\<close>

definition example_env :: "(nat \<Rightarrow> reach) \<Rightarrow> mem_counts rv_env" where
  "example_env reach = \<lparr>re_ct = mem_counters, re_reach = reach, re_available = (\<lambda>_. True), re_time = (\<lambda>n. n)\<rparr>"

definition example_rv :: "(mem_auth, mem_counts) rv_state" where
  "example_rv = \<lparr>rv_world = \<lparr>ma_users = [example_user False], ma_accounts = [], ma_sessions = [example_session None]\<rparr>,
     rv_store = (mc_empty\<lparr>mc_strings := [''t'' \<mapsto> (''{}'', None)]\<rparr>, []), rv_calls = 0, rv_memo = [], rv_events = []\<rparr>"

theorem revoked_stays_revoked_witness:
  "\<exists>r st'. purgeSessions 2 mem_session_db (example_env (\<lambda>_. Fine)) None example_rv = Some (r, st') \<and> r = Inr 1 \<and>
     ma_sessions (rv_world st') = [] \<and> gone mem_counters 0 ''t'' (rv_cache st')"
proof -
  have run: "map_option (map_prod id (\<lambda>st. ma_sessions (rv_world st))) (purgeSessions 2 mem_session_db (example_env (\<lambda>_. Fine)) None example_rv)
      = Some (Inr 1, [])"
    by (simp add: purgeSessions_def numeral_2_eq_2 example_rv_def example_env_def available_now_def rv_delete_def storage_delete_def
        storage_guard_def degraded_count_def mem_session_db_def adapter.defs session_db.defs mem_adapter_def example_session_def Let_def)
  moreover obtain r st' where "purgeSessions 2 mem_session_db (example_env (\<lambda>_. Fine)) None example_rv = Some (r, st')"
      "\<forall>s\<in>set (ma_sessions (rv_world example_rv)). s \<in> set (ma_sessions (rv_world st')) \<or> gone mem_counters 0 (se_token s) (rv_cache st')"
    using revoked_stays_revoked [OF mem_stores.two_stores_axioms, of "example_env (\<lambda>_. Fine)" example_rv 2 None]
    by (auto simp: example_env_def mono_def example_rv_def example_session_def)
  ultimately show ?thesis
    by (auto simp: example_rv_def example_session_def)
qed

text \<open>
  A ban takes hold at once in the process that makes it and ends the user's sessions: for a known user, with the cache
  available when it is asked, the user's row says banned and \<open>isUserBanned\<close> answers so from then on, whatever the process
  believed; if it returns, no session of the user is left in either store; and if the cache fails under it, it says so, the
  ban stands, and no session has lost its row but kept its copy.
\<close>

theorem ban_takes_hold:
  assumes "two_stores db ct rows" and "re_ct env = ct" and "mono (re_time env)"
    and "\<forall>s\<in>set (rows (rv_world st)). se_token s \<noteq> []" and "length (rows (rv_world st)) < fuel"
    and "isUuid u" and "available_now env st" and "ad_userById db u (rv_world st) \<noteq> None"
  shows "\<exists>r st'. setUserBanned fuel db env u True reason st = Some (r, st') \<and> fst (isUserBanned db env u st') = Inr True \<and>
    (\<forall>s\<in>set (rows (rv_world st)). s \<in> set (rows (rv_world st')) \<or> gone ct 0 (se_token s) (rv_cache st')) \<and>
    (is_ok r \<longrightarrow> (\<forall>s\<in>set (rows (rv_world st)). se_userId s = u \<longrightarrow>
      s \<notin> set (rows (rv_world st')) \<and> gone ct 0 (se_token s) (rv_cache st')))"
proof -
  let ?w1 = "sd_setBan db u True (map_option (take 500) reason) (int (re_time env (rv_calls st))) (rv_world st)"
  let ?st1 = "rv_note (UserBanned u) (st\<lparr>rv_world := ?w1, rv_memo := forget_ban u (rv_memo st)\<rparr>)"
  have same: "rows (rv_world ?st1) = rows (rv_world st)" "available_now env ?st1" "rv_memo ?st1 = forget_ban u (rv_memo st)"
    using assms(7) by (simp_all add: rv_note_def two_stores.rows_setBan [OF assms(1)] available_now_def)
  have "two_stores.kept ct rows (set (rows (rv_world st))) 0 ?st1"
    using same(1) by (simp add: two_stores.kept_def [OF assms(1)])
  from two_stores.purged [OF assms(1-3) this, of fuel "Some u"] assms(4,5) same(1) obtain r2 st2 where p:
      "purgeSessions fuel db env (Some u) ?st1 = Some (r2, st2)" "two_stores.kept ct rows (set (rows (rv_world st))) 0 st2"
      "\<forall>i. ad_userById db i (rv_world st2) = ad_userById db i (rv_world ?st1)" "rv_memo st2 = rv_memo ?st1"
      "is_ok r2 \<longrightarrow> (\<forall>s\<in>set (rows (rv_world st2)). se_userId s \<noteq> u)"
    by auto
  obtain usr0 where usr0: "ad_userById db u (rv_world st) = Some usr0"
    using assms(8) by blast
  obtain usr where usr: "ad_userById db u (rv_world st2) = Some usr" "u_banned usr" "u_banExpires usr = None"
    using assms(8) p(3) two_stores.byId_setBan [OF assms(1), of u u] by (auto simp: rv_note_def)
  define st3 where "st3 = (if is_ok r2 then rv_note (SessionsRevoked u (projr r2))
      (st2\<lparr>rv_world := ad_touchUser db u (int (re_time env (rv_calls st2))) (rv_world st2)\<rparr>) else st2)"
  define r where "r = (case r2 of Inl e \<Rightarrow> Inl e | Inr n \<Rightarrow> Inr ())"
  have run: "setUserBanned fuel db env u True reason st = Some (r, st3)"
    using assms(6,7) usr0 p(1) usr(1) by (cases r2) (simp_all add: setUserBanned_def revokeUserSessions_def Let_def st3_def r_def)
  have st3: "rows (rv_world st3) = rows (rv_world st2)" "rv_memo st3 = forget_ban u (rv_memo st)" "rv_cache st3 = rv_cache st2"
    using same(3) p(4) by (simp_all add: st3_def rv_note_def two_stores.rows_touch [OF assms(1)])
  have "\<exists>usr. ad_userById db u (rv_world st3) = Some usr \<and> u_banned usr \<and> u_banExpires usr = None"
    using usr two_stores.byId_touch [OF assms(1), of u u] by (auto simp: st3_def rv_note_def)
  then have "fst (isUserBanned db env u st3) = Inr True"
    using assms(6) st3(2)
    by (auto simp: isUserBanned_def isBanned_def believed_until_def forget_ban_def memo_delete_def map_of_filter_other isBannedRow_def
        adapter.defs split: option.split)
  moreover have "is_ok r = is_ok r2"
    by (cases r2) (simp_all add: r_def)
  ultimately show ?thesis
    using run st3 p(2,5) by (intro exI [of _ r] exI [of _ st3]) (auto simp: two_stores.kept_def [OF assms(1)])
qed

theorem ban_takes_hold_witness:
  "\<exists>r st'. setUserBanned 2 mem_session_db (example_env (\<lambda>n. if n = 0 then Failed False else Fine)) example_context_id True None
       (example_rv\<lparr>rv_world := \<lparr>ma_users = [(example_user False)\<lparr>u_id := example_context_id\<rparr>], ma_accounts = [],
          ma_sessions = [(example_session None)\<lparr>se_userId := example_context_id\<rparr>]\<rparr>\<rparr>) = Some (r, st') \<and>
     \<not> is_ok r \<and> fst (isUserBanned mem_session_db (example_env (\<lambda>n. if n = 0 then Failed False else Fine)) example_context_id st') = Inr True"
proof -
  let ?env = "example_env (\<lambda>n. if n = 0 then Failed False else Fine)"
  let ?st = "example_rv\<lparr>rv_world := \<lparr>ma_users = [(example_user False)\<lparr>u_id := example_context_id\<rparr>], ma_accounts = [],
          ma_sessions = [(example_session None)\<lparr>se_userId := example_context_id\<rparr>]\<rparr>\<rparr>"
  have "\<not> is_ok (fst (the (setUserBanned 2 mem_session_db ?env example_context_id True None ?st)))"
    by (simp add: example_uuid setUserBanned_def revokeUserSessions_def rv_note_def purgeSessions_def numeral_2_eq_2 example_rv_def
        example_env_def available_now_def rv_delete_def storage_delete_def storage_guard_def degraded_count_def mem_session_db_def
        adapter.defs session_db.defs mem_adapter_def example_session_def example_user_def ma_user_def Let_def)
  moreover obtain r st' where "setUserBanned 2 mem_session_db ?env example_context_id True None ?st = Some (r, st')"
      "fst (isUserBanned mem_session_db ?env example_context_id st') = Inr True"
    using ban_takes_hold [OF mem_stores.two_stores_axioms _ _ _ _ example_uuid, of ?env ?st 2 None]
    by (auto simp: example_env_def mono_def example_rv_def example_session_def available_now_def ma_user_def example_user_def)
  ultimately show ?thesis
    by auto
qed

end
