(* ===== verification/AuthEnvelope.thy ===== *)
theory AuthEnvelope
  imports SessionContext Lockout
begin

text \<open>
  What leaves the authentication routes: the platform's envelope on errors (\<open>identity/src/error-envelope.ts\<close>), the correlation id
  it carries (\<open>correlation.ts\<close>) and the floor under response times (\<open>timing.ts\<close>). Better Auth's handler is a parameter: what it
  answered, or the error it threw.
\<close>

section \<open>Correlation ids\<close>

definition validCorrelationId :: "jsval \<Rightarrow> string option" where
  "validCorrelationId v = (case v of JStr s \<Rightarrow> if SAFE_CORRELATION_ID s then Some s else None | _ \<Rightarrow> None)"

text \<open>\<open>store\<close> is what the request context holds under \<open>correlationId\<close>; \<open>None\<close> without a store or outside a request.\<close>

definition requestCorrelationId :: "jsval option \<Rightarrow> string option" where
  "requestCorrelationId store = (case store of None \<Rightarrow> None | Some v \<Rightarrow> validCorrelationId v)"

section \<open>The body\<close>

definition STATUS_CODES :: "(nat \<times> string) list" where
  "STATUS_CODES =
     [(400, ''BAD_REQUEST''), (401, ''UNAUTHORIZED''), (403, ''FORBIDDEN''), (404, ''NOT_FOUND''), (405, ''METHOD_NOT_ALLOWED''),
      (409, ''CONFLICT''), (412, ''PRECONDITION_FAILED''), (413, ''PAYLOAD_TOO_LARGE''), (415, ''UNSUPPORTED_MEDIA_TYPE''),
      (422, ''VALIDATION_FAILED''), (429, ''RATE_LIMITED''), (503, ''SERVICE_UNAVAILABLE'')]"

definition MACHINE_CODE :: "string \<Rightarrow> bool" where
  "MACHINE_CODE s \<longleftrightarrow> 1 \<le> length s \<and> length s \<le> 64 \<and> list_all field_char s"

definition MAX_MESSAGE :: nat where "MAX_MESSAGE = 300"

text \<open>The message is cut before every opening bracket that follows a semicolon and spaces.\<close>

function split_issues :: "string \<Rightarrow> string list" where
  "split_issues [] = [[]]"
| "split_issues (c # cs) =
     (if c = CHR '';'' \<and> take 1 (dropWhile is_space cs) = ''['' then [] # split_issues (dropWhile is_space cs)
      else (case split_issues cs of [] \<Rightarrow> [[c]] | p # ps \<Rightarrow> (c # p) # ps))"
  by pat_completeness auto

termination
  by (relation "measure length") (simp_all add: le_imp_less_Suc length_dropWhile_le)

definition issue_of :: "string \<Rightarrow> jsval option" where
  "issue_of part =
     (case js_trim part of
        [] \<Rightarrow> None
      | c # r \<Rightarrow>
          let path = takeWhile (\<lambda>x. x \<noteq> CHR '']'') r; m = dropWhile is_space (tl (dropWhile (\<lambda>x. x \<noteq> CHR '']'') r)) in
          if c = CHR ''['' \<and> path \<noteq> [] \<and> CHR '']'' \<in> set r \<and> list_all (\<lambda>x. x \<noteq> CHR 0x0A \<and> x \<noteq> CHR 0x0D) m
          then Some (JObj [(''path'', JStr path), (''message'', JStr m)]) else None)"

definition validationIssues :: "string \<Rightarrow> jsval list" where
  "validationIssues message = List.map_filter issue_of (split_issues message)"

definition isMachineCode :: "jsval \<Rightarrow> bool" where
  "isMachineCode v = (case v of JStr s \<Rightarrow> MACHINE_CODE s | _ \<Rightarrow> False)"

definition envelope :: "string \<Rightarrow> string \<Rightarrow> string \<Rightarrow> jsval list \<Rightarrow> jsval" where
  "envelope correlationId code message details =
     JObj [(''code'', JStr code), (''message'', JStr message), (''details'', JArr details), (''correlationId'', JStr correlationId)]"

text \<open>\<open>None\<close> leaves the response as Better Auth made it.\<close>

definition hybridErrorBody :: "jsval option \<Rightarrow> nat \<Rightarrow> string \<Rightarrow> (string \<times> jsval) list option" where
  "hybridErrorBody store status original =
     (let cid = (case requestCorrelationId store of Some i \<Rightarrow> i | None \<Rightarrow> ''unknown'') in
      if 500 \<le> status then
        let code = (if status = 503 then ''SERVICE_UNAVAILABLE'' else ''INTERNAL_ERROR'');
            message = (if status = 503 then ''The service is temporarily unavailable'' else ''An unexpected error occurred'')
        in Some [(''code'', JStr code), (''message'', JStr message), (''error'', envelope cid code message [])]
      else
        let ba = (case json_parse original of Some (JObj ps) \<Rightarrow> ps | _ \<Rightarrow> []) in
        if ''error'' \<in> fst ` set ba then None
        else
          let fallback = (case map_of STATUS_CODES status of Some c \<Rightarrow> c | None \<Rightarrow> ''BAD_REQUEST'');
              topCode = (case member_of ''code'' ba of JStr s \<Rightarrow> Some s | _ \<Rightarrow> None);
              topMessage = (case member_of ''message'' ba of JStr s \<Rightarrow> if s = [] then None else Some s | _ \<Rightarrow> None);
              code = (case topCode of Some c \<Rightarrow> c | None \<Rightarrow> fallback);
              message = (case topMessage of Some m \<Rightarrow> m | None \<Rightarrow> ''The request could not be completed'');
              envelopeCode = (case topCode of Some c \<Rightarrow> if MACHINE_CODE c then c else fallback | None \<Rightarrow> fallback);
              e = (if envelopeCode = ''VALIDATION_ERROR''
                   then envelope cid ''VALIDATION_FAILED'' ''Validation failed'' (validationIssues message)
                   else envelope cid envelopeCode (take MAX_MESSAGE message) [])
          in Some (put ''error'' e (put ''message'' (JStr message) (put ''code'' (JStr code) ba))))"

section \<open>The response\<close>

text \<open>\<open>body\<close> is \<open>None\<close> where it cannot be read; a null body reads as the empty text. Header names are in lower case.\<close>

record auth_response =
  ar_status :: nat
  ar_headers :: "(string \<times> string) list"
  ar_body :: "string option"

datatype auth_answer = Answers auth_response | Throws thrown_cause

datatype auth_log =
    HandlerThrew "(string \<times> string) list"
  | ServerError nat "string option" "(string \<times> string) list"

definition bodyCode :: "string option \<Rightarrow> string option" where
  "bodyCode body =
     (case body of
        None \<Rightarrow> None
      | Some t \<Rightarrow>
          (case json_parse t of
             None \<Rightarrow> None
           | Some v \<Rightarrow> (case property_of ''code'' v of JStr c \<Rightarrow> if MACHINE_CODE c then Some c else None | _ \<Rightarrow> None)))"

definition withErrorEnvelope :: "jsval option \<Rightarrow> auth_answer \<Rightarrow> (type_error + auth_response) \<times> auth_log list" where
  "withErrorEnvelope store answer =
     (let cid = requestCorrelationId store;
          (response, threw, logs) =
            (case answer of
               Answers r \<Rightarrow> (r, False, [])
             | Throws e \<Rightarrow> (\<lparr>ar_status = 500, ar_headers = [], ar_body = Some []\<rparr>, True,
                            [HandlerThrew (errorFields SAFE_CORRELATION_ID (Some e) cid)])) in
      if ar_status response < 400 then (Inr response, logs)
      else
        let logs' = (if \<not> threw \<and> 500 \<le> ar_status response
                     then logs @ [ServerError (ar_status response) (bodyCode (ar_body response)) (errorFields SAFE_CORRELATION_ID None cid)]
                     else logs);
            original = (if 500 \<le> ar_status response then [] else case ar_body response of None \<Rightarrow> [] | Some t \<Rightarrow> t) in
        (case hybridErrorBody store (ar_status response) original of
           None \<Rightarrow> Inr response
         | Some body \<Rightarrow>
             and_then (stringify (JObj body)) (\<lambda>t.
               Inr \<lparr>ar_status = ar_status response,
                    ar_headers = filter (\<lambda>(k, v). k \<noteq> ''content-length'' \<and> k \<noteq> ''content-type'') (ar_headers response) @
                      [(''content-type'', ''application/json; charset=utf-8'')],
                    ar_body = Some (case t of Some t' \<Rightarrow> t' | None \<Rightarrow> [])\<rparr>), logs'))"

section \<open>Response times\<close>

definition TIMING_FLOOR_MS :: rat where "TIMING_FLOOR_MS = 150"

definition PADDED :: "string list" where
  "PADDED = [''/request-password-reset'', ''/send-verification-email'', ''/sign-up/email'']"

text \<open>
  The time a request that came at \<open>started\<close> is answered, when its handler had answered by \<open>handled\<close>; a timer fires \<open>late\<close> by so
  much.
\<close>

definition withTimingFloor :: "string \<Rightarrow> rat \<Rightarrow> string \<Rightarrow> string \<Rightarrow> rat \<Rightarrow> rat \<Rightarrow> rat \<Rightarrow> rat" where
  "withTimingFloor basePath floorMs meth path started handled late =
     (let relative = (if take (length basePath) path = basePath then drop (length basePath) path else path) in
      if meth = ''POST'' \<and> relative \<in> set PADDED then
        let remaining = floorMs - (handled - started) in
        if 0 < remaining then handled + remaining + late else handled
      else handled)"

text \<open>
  Two requests to a padded path that the handler serves within the floor are answered by the clock alone: the answer says
  nothing of how long the handler took.
\<close>

lemma padded_times_alike:
  assumes "relative \<in> set PADDED" "handled - started < floorMs" "handled' - started < floorMs"
  shows "withTimingFloor basePath floorMs ''POST'' (basePath @ relative) started handled late =
    withTimingFloor basePath floorMs ''POST'' (basePath @ relative) started handled' late \<and>
    withTimingFloor basePath floorMs ''POST'' (basePath @ relative) started handled late = started + floorMs + late"
  using assms by (simp add: withTimingFloor_def Let_def)

section \<open>What is on the wire\<close>

lemma server_error_body:
  "500 \<le> status \<Longrightarrow> hybridErrorBody store status original = hybridErrorBody store status []"
  by (simp add: hybridErrorBody_def)

lemma server_error_serializes:
  assumes "500 \<le> status"
  shows "\<exists>body t. hybridErrorBody store status original = Some body \<and> stringify (JObj body) = Inr (Some t)"
  using assms by (auto simp: hybridErrorBody_def Let_def stringify_def envelope_def)

lemma status_code_machine: "MACHINE_CODE (case map_of STATUS_CODES status of Some c \<Rightarrow> c | None \<Rightarrow> ''BAD_REQUEST'')"
proof -
  have "list_all MACHINE_CODE (''BAD_REQUEST'' # map snd STATUS_CODES)"
    by (simp add: MACHINE_CODE_def STATUS_CODES_def field_char_def char_class_defs)
  then show ?thesis
    by (auto simp: list_all_iff dest!: map_of_SomeD split: option.split)
qed

lemma put_other: "k \<noteq> k' \<Longrightarrow> map_of (put k v ps) k' = map_of ps k'"
  by (induction ps) auto

lemma put_same: "map_of (put k v ps) k = Some v"
  by (induction ps) auto

definition envelope_ok :: "jsval \<Rightarrow> bool" where
  "envelope_ok e \<longleftrightarrow> (\<exists>cid code message details. e = envelope cid code message details \<and> MACHINE_CODE code \<and>
     length message \<le> MAX_MESSAGE \<and> SAFE_CORRELATION_ID cid)"

lemma envelope_okI:
  "MACHINE_CODE code \<Longrightarrow> length message \<le> MAX_MESSAGE \<Longrightarrow> SAFE_CORRELATION_ID cid \<Longrightarrow> envelope_ok (envelope cid code message details)"
  by (auto simp: envelope_ok_def)

lemma cid_ok: "SAFE_CORRELATION_ID (case requestCorrelationId store of Some i \<Rightarrow> i | None \<Rightarrow> ''unknown'')"
proof -
  have "SAFE_CORRELATION_ID ''unknown''"
    by code_simp
  then show ?thesis
    by (auto simp: requestCorrelationId_def validCorrelationId_def split: option.splits jsval.splits if_splits)
qed

lemma client_error_body:
  assumes "hybridErrorBody store status original = Some body" "status < 500"
  defines "ba \<equiv> (case json_parse original of Some (JObj ps) \<Rightarrow> ps | _ \<Rightarrow> [])"
  shows "(\<exists>e. map_of body ''error'' = Some e \<and> envelope_ok e) \<and> ''error'' \<notin> fst ` set ba \<and>
    (\<forall>k v. map_of ba k = Some v \<longrightarrow> k \<noteq> ''code'' \<longrightarrow> k \<noteq> ''message'' \<longrightarrow> map_of body k = Some v) \<and>
    (\<forall>c. map_of ba ''code'' = Some (JStr c) \<longrightarrow> map_of body ''code'' = Some (JStr c)) \<and>
    (\<forall>m. map_of ba ''message'' = Some (JStr m) \<longrightarrow> m \<noteq> [] \<longrightarrow> map_of body ''message'' = Some (JStr m))"
proof -
  let ?cid = "case requestCorrelationId store of Some i \<Rightarrow> i | None \<Rightarrow> ''unknown''"
  let ?fallback = "case map_of STATUS_CODES status of Some c \<Rightarrow> c | None \<Rightarrow> ''BAD_REQUEST''"
  let ?topCode = "case member_of ''code'' ba of JStr s \<Rightarrow> Some s | _ \<Rightarrow> None"
  let ?topMessage = "case member_of ''message'' ba of JStr s \<Rightarrow> if s = [] then None else Some s | _ \<Rightarrow> None"
  let ?code = "case ?topCode of Some c \<Rightarrow> c | None \<Rightarrow> ?fallback"
  let ?message = "case ?topMessage of Some m \<Rightarrow> m | None \<Rightarrow> ''The request could not be completed''"
  let ?ec = "case ?topCode of Some c \<Rightarrow> if MACHINE_CODE c then c else ?fallback | None \<Rightarrow> ?fallback"
  let ?e = "if ?ec = ''VALIDATION_ERROR''
    then envelope ?cid ''VALIDATION_FAILED'' ''Validation failed'' (validationIssues ?message)
    else envelope ?cid ?ec (take MAX_MESSAGE ?message) []"
  have fresh: "''error'' \<notin> fst ` set ba"
    using assms(1,2) unfolding hybridErrorBody_def Let_def ba_def by (simp split: if_split_asm)
  then have body: "body = put ''error'' ?e (put ''message'' (JStr ?message) (put ''code'' (JStr ?code) ba))"
    using assms(1,2) unfolding hybridErrorBody_def Let_def ba_def by simp
  have v: "MACHINE_CODE ''VALIDATION_FAILED''"
    by code_simp
  have ec: "MACHINE_CODE ?ec"
    using status_code_machine [of status] by (simp split: option.split)
  have "envelope_ok ?e"
  proof (cases "?ec = ''VALIDATION_ERROR''")
    case True
    show ?thesis
      unfolding if_P [OF True] by (rule envelope_okI [OF v _ cid_ok]) (simp add: MAX_MESSAGE_def)
  next
    case False
    show ?thesis
      unfolding if_not_P [OF False] by (rule envelope_okI [OF ec _ cid_ok]) (simp add: MAX_MESSAGE_def)
  qed
  then obtain e code message where body': "body = put ''error'' e (put ''message'' (JStr message) (put ''code'' (JStr code) ba))"
      "envelope_ok e" "code = ?code" "message = ?message"
    by (rule that [OF body _ refl refl])
  have none: "map_of ba ''error'' = None"
    using fresh by (simp add: map_of_eq_None_iff)
  have "code = c" if "map_of ba ''code'' = Some (JStr c)" for c
    using body'(3) that by (simp add: member_of_def)
  moreover have "message = m" if "map_of ba ''message'' = Some (JStr m)" "m \<noteq> []" for m
    using body'(4) that by (simp add: member_of_def)
  moreover have at: "map_of body ''error'' = Some e" "map_of body ''message'' = Some (JStr message)" "map_of body ''code'' = Some (JStr code)"
    "\<And>k. k \<noteq> ''error'' \<Longrightarrow> k \<noteq> ''message'' \<Longrightarrow> k \<noteq> ''code'' \<Longrightarrow> map_of body k = map_of ba k"
    unfolding body'(1) by (simp_all add: put_other put_same)
  moreover have "map_of body k = Some v" if "map_of ba k = Some v" "k \<noteq> ''code''" "k \<noteq> ''message''" for k v
    using at(4) [of k] that none by (cases "k = ''error''") simp_all
  ultimately have "\<forall>k v. map_of ba k = Some v \<longrightarrow> k \<noteq> ''code'' \<longrightarrow> k \<noteq> ''message'' \<longrightarrow> map_of body k = Some v"
    "\<forall>c. map_of ba ''code'' = Some (JStr c) \<longrightarrow> map_of body ''code'' = Some (JStr c)"
    "\<forall>m. map_of ba ''message'' = Some (JStr m) \<longrightarrow> m \<noteq> [] \<longrightarrow> map_of body ''message'' = Some (JStr m)"
    by blast+
  then show ?thesis
    using fresh body'(2) at(1) by (intro conjI exI [of _ e])
qed

lemma stringify_object: "stringify (JObj ps) = Inr t \<Longrightarrow> t \<noteq> None"
  by (auto simp: stringify_def and_then_Inr_iff split: sum.splits)

lemma answered_forms:
  assumes "withErrorEnvelope store (Answers r) = (Inr r', logs)"
  shows "ar_status r' = ar_status r \<and> (ar_status r < 400 \<longrightarrow> r' = r)"
  using assms by (cases "ar_status r < 400"; cases "hybridErrorBody store (ar_status r) (if 500 \<le> ar_status r then [] else case ar_body r of None \<Rightarrow> [] | Some t \<Rightarrow> t)")
    (auto simp: withErrorEnvelope_def Let_def and_then_Inr_iff)

definition server_error_text :: "jsval option \<Rightarrow> nat \<Rightarrow> string" where
  "server_error_text store status =
     (case stringify (JObj (the (hybridErrorBody store status []))) of Inr (Some t) \<Rightarrow> t | _ \<Rightarrow> [])"

lemma server_error_answer:
  assumes "500 \<le> ar_status r"
  shows "\<exists>r' logs. withErrorEnvelope store (Answers r) = (Inr r', logs) \<and> ar_body r' = Some (server_error_text store (ar_status r))"
proof -
  obtain body t where "hybridErrorBody store (ar_status r) [] = Some body" "stringify (JObj body) = Inr (Some t)"
    using server_error_serializes [OF assms] by metis
  then show ?thesis
    using assms by (simp add: withErrorEnvelope_def Let_def server_error_text_def)
qed

lemma throw_answer:
  "\<exists>r' logs. withErrorEnvelope store (Throws e) = (Inr r', logs) \<and> ar_body r' = Some (server_error_text store 500)"
proof -
  have "(500 :: nat) \<le> 500" by simp
  then obtain body t where "hybridErrorBody store 500 [] = Some body" "stringify (JObj body) = Inr (Some t)"
    using server_error_serializes by metis
  then show ?thesis
    by (simp add: withErrorEnvelope_def Let_def server_error_text_def)
qed

abbreviation answered_object :: "auth_response \<Rightarrow> (string \<times> jsval) list" where
  "answered_object r \<equiv> (case json_parse (case ar_body r of None \<Rightarrow> [] | Some t \<Rightarrow> t) of Some (JObj ps) \<Rightarrow> ps | _ \<Rightarrow> [])"

lemma client_error_answer:
  assumes "withErrorEnvelope store (Answers r) = (Inr r', logs)" "400 \<le> ar_status r \<and> ar_status r < 500"
  shows "let ba = answered_object r in
       if ''error'' \<in> fst ` set ba then r' = r
       else \<exists>body e. stringify (JObj body) = Inr (ar_body r') \<and> map_of body ''error'' = Some e \<and> envelope_ok e \<and>
         (\<forall>k v. map_of ba k = Some v \<longrightarrow> k \<noteq> ''code'' \<longrightarrow> k \<noteq> ''message'' \<longrightarrow> map_of body k = Some v) \<and>
         (\<forall>c. map_of ba ''code'' = Some (JStr c) \<longrightarrow> map_of body ''code'' = Some (JStr c)) \<and>
         (\<forall>m. map_of ba ''message'' = Some (JStr m) \<longrightarrow> m \<noteq> [] \<longrightarrow> map_of body ''message'' = Some (JStr m))"
proof (cases "hybridErrorBody store (ar_status r) (case ar_body r of None \<Rightarrow> [] | Some t \<Rightarrow> t)")
  case None
  then have "''error'' \<in> fst ` set (answered_object r)"
    using assms(2) unfolding hybridErrorBody_def Let_def by (simp split: if_split_asm)
  moreover have "r' = r"
    using assms None by (simp add: withErrorEnvelope_def Let_def)
  ultimately show ?thesis
    by (simp add: Let_def)
next
  case (Some body)
  have "status < 500" if "status = ar_status r" for status
    using assms(2) that by simp
  note b = client_error_body [OF Some this [OF refl]]
  obtain t where "stringify (JObj body) = Inr (Some t)" "ar_body r' = Some t"
    using assms Some stringify_object [of body] by (auto simp: withErrorEnvelope_def Let_def and_then_Inr_iff)
  with b show ?thesis
    by (simp only: Let_def if_False) blast
qed

text \<open>
  C33. Every error of the authentication routes keeps its status and wears the envelope, and a server error says nothing: an
  answer below 400 passes untouched; an answer of 500 or more, or a throw, is given a body that depends on the status and
  the correlation id alone, whatever Better Auth had put there; any other error whose body has no \<open>error\<close> of its own keeps
  all its other fields, its code and its message, and gains an \<open>error\<close> with a machine code, a bounded message and a safe
  correlation id; one that has an \<open>error\<close> is left alone.
\<close>

theorem auth_errors_enveloped:
  assumes "withErrorEnvelope store (Answers r) = (Inr r', logs)"
  shows "ar_status r' = ar_status r \<and> (ar_status r < 400 \<longrightarrow> r' = r) \<and>
    (500 \<le> ar_status r \<longrightarrow>
      (\<forall>r2. ar_status r2 = ar_status r \<longrightarrow>
        (\<exists>r2' logs2. withErrorEnvelope store (Answers r2) = (Inr r2', logs2) \<and> ar_body r2' = ar_body r')) \<and>
      (\<forall>e. \<exists>r2' logs2. ar_status r = 500 \<longrightarrow> withErrorEnvelope store (Throws e) = (Inr r2', logs2) \<and> ar_body r2' = ar_body r')) \<and>
    (400 \<le> ar_status r \<and> ar_status r < 500 \<longrightarrow>
      (let ba = (case json_parse (case ar_body r of None \<Rightarrow> [] | Some t \<Rightarrow> t) of Some (JObj ps) \<Rightarrow> ps | _ \<Rightarrow> []) in
       if ''error'' \<in> fst ` set ba then r' = r
       else \<exists>body e. stringify (JObj body) = Inr (ar_body r') \<and> map_of body ''error'' = Some e \<and> envelope_ok e \<and>
         (\<forall>k v. map_of ba k = Some v \<longrightarrow> k \<noteq> ''code'' \<longrightarrow> k \<noteq> ''message'' \<longrightarrow> map_of body k = Some v) \<and>
         (\<forall>c. map_of ba ''code'' = Some (JStr c) \<longrightarrow> map_of body ''code'' = Some (JStr c)) \<and>
         (\<forall>m. map_of ba ''message'' = Some (JStr m) \<longrightarrow> m \<noteq> [] \<longrightarrow> map_of body ''message'' = Some (JStr m))))"
proof (intro conjI impI)
  show "ar_status r' = ar_status r" "ar_status r < 400 \<Longrightarrow> r' = r"
    using answered_forms [OF assms] by auto
next
  assume "500 \<le> ar_status r"
  then show "\<forall>r2. ar_status r2 = ar_status r \<longrightarrow>
      (\<exists>r2' logs2. withErrorEnvelope store (Answers r2) = (Inr r2', logs2) \<and> ar_body r2' = ar_body r')"
    using server_error_answer [of r store] server_error_answer [of _ store] assms by (metis Pair_inject sum.inject(2))
next
  assume "500 \<le> ar_status r"
  then show "\<forall>e. \<exists>r2' logs2. ar_status r = 500 \<longrightarrow> withErrorEnvelope store (Throws e) = (Inr r2', logs2) \<and> ar_body r2' = ar_body r'"
    using server_error_answer [of r store] throw_answer [of store] assms by (metis Pair_inject sum.inject(2))
next
  assume "400 \<le> ar_status r \<and> ar_status r < 500"
  then show "let ba = (case json_parse (case ar_body r of None \<Rightarrow> [] | Some t \<Rightarrow> t) of Some (JObj ps) \<Rightarrow> ps | _ \<Rightarrow> []) in
       if ''error'' \<in> fst ` set ba then r' = r
       else \<exists>body e. stringify (JObj body) = Inr (ar_body r') \<and> map_of body ''error'' = Some e \<and> envelope_ok e \<and>
         (\<forall>k v. map_of ba k = Some v \<longrightarrow> k \<noteq> ''code'' \<longrightarrow> k \<noteq> ''message'' \<longrightarrow> map_of body k = Some v) \<and>
         (\<forall>c. map_of ba ''code'' = Some (JStr c) \<longrightarrow> map_of body ''code'' = Some (JStr c)) \<and>
         (\<forall>m. map_of ba ''message'' = Some (JStr m) \<longrightarrow> m \<noteq> [] \<longrightarrow> map_of body ''message'' = Some (JStr m))"
    using client_error_answer [OF assms] by blast
qed

definition example_refusal :: auth_response where
  "example_refusal = \<lparr>ar_status = 401, ar_headers = [(''content-length'', ''17'')], ar_body = Some ''{\"code\":\"LOCKED\"}''\<rparr>"

theorem auth_errors_enveloped_witness:
  "\<exists>r' logs body e. withErrorEnvelope None (Answers example_refusal) = (Inr r', logs) \<and> ar_status r' = 401 \<and>
     stringify (JObj body) = Inr (ar_body r') \<and> map_of body ''error'' = Some e \<and> envelope_ok e \<and>
     map_of body ''code'' = Some (JStr ''LOCKED'')"
proof -
  have parsed: "json_parse ''{\"code\":\"LOCKED\"}'' = Some (JObj [(''code'', JStr ''LOCKED'')])"
    by code_simp
  then have "is_ok (fst (withErrorEnvelope None (Answers example_refusal)))"
    by (simp add: withErrorEnvelope_def example_refusal_def hybridErrorBody_def requestCorrelationId_def Let_def member_of_def
        MACHINE_CODE_def field_char_def char_class_defs envelope_def stringify_def)
  then obtain r' logs where r: "withErrorEnvelope None (Answers example_refusal) = (Inr r', logs)"
    by (cases "withErrorEnvelope None (Answers example_refusal)"; cases "fst (withErrorEnvelope None (Answers example_refusal))") auto
  show ?thesis
    using auth_errors_enveloped [OF r] r parsed by (simp add: example_refusal_def Let_def) metis
qed

end
