(* ===== verification/AuthMail.thy ===== *)
theory AuthMail
  imports AuthEnvelope
begin

text \<open>
  The emails of the authentication routes (\<open>identity/src/mail-port.ts\<close>, \<open>mail-limit.ts\<close>), the transaction they join
  (\<open>tx-context.ts\<close>). The job queue, the templates' output, PostgreSQL's transaction and SHA-256 are parameters.
\<close>

section \<open>The limit on an address\<close>

datatype auth_mail_purpose = VerifyEmail | ResetPassword

fun purpose_text :: "auth_mail_purpose \<Rightarrow> string" where
  "purpose_text VerifyEmail = ''verify-email''"
| "purpose_text ResetPassword = ''reset-password''"

definition MAIL_PER_EMAIL_MAX :: nat where "MAIL_PER_EMAIL_MAX = 3"
definition MAIL_PER_EMAIL_WINDOW :: nat where "MAIL_PER_EMAIL_WINDOW = 3600"

definition mail_limit_key :: "(string \<Rightarrow> string) \<Rightarrow> auth_mail_purpose \<Rightarrow> string \<Rightarrow> string" where
  "mail_limit_key sha purpose email = ''mail-limit:'' @ purpose_text purpose @ '':'' @ sha (trim_lower email)"

definition perEmailLimiter ::
  "(string \<Rightarrow> string) \<Rightarrow> 's counters \<Rightarrow> reach \<Rightarrow> msec \<Rightarrow> auth_mail_purpose \<Rightarrow> string \<Rightarrow> 's storage \<Rightarrow> bool \<times> 's storage" where
  "perEmailLimiter sha ct r t purpose email st =
     (let (n, st') = storage_increment ct r t (mail_limit_key sha purpose email) MAIL_PER_EMAIL_WINDOW st
      in (n \<le> MAIL_PER_EMAIL_MAX, st'))"

section \<open>Enqueueing\<close>

record auth_mail_job =
  aj_queue :: string
  aj_to :: string
  aj_subject :: string
  aj_html :: string
  aj_text :: string
  aj_category :: string
  aj_idempotencyKey :: string
  aj_correlationId :: "string option"
  aj_inTx :: bool
  aj_priority :: nat

record rendered_mail =
  rm_subject :: string
  rm_html :: string
  rm_text :: string

record mail_recipient =
  mr_id :: string
  mr_email :: string

definition AUTH_MAIL_QUEUE :: string where "AUTH_MAIL_QUEUE = ''mail.send''"
definition AUTH_MAIL_PRIORITY :: nat where "AUTH_MAIL_PRIORITY = 10"

definition mailIdempotencyKey :: "(string \<Rightarrow> string) \<Rightarrow> auth_mail_purpose \<Rightarrow> string \<Rightarrow> string \<Rightarrow> string" where
  "mailIdempotencyKey sha purpose userId token = purpose_text purpose @ '':'' @ userId @ '':'' @ sha token"

datatype auth_mail_log = MailEnqueueFailed string auth_mail_purpose string

text \<open>
  \<open>allow\<close> is what the limiter answered, \<open>inTx\<close> whether a transaction of Better Auth is open around the call, \<open>enq\<close> the queue:
  it changes the world it is called in, or throws an error of some name (none for a value that is not an \<open>Error\<close>).
\<close>

definition AuthMail_enqueue ::
  "(string \<Rightarrow> string) \<Rightarrow> (auth_mail_job \<Rightarrow> 'w \<Rightarrow> (string option + unit) \<times> 'w) \<Rightarrow> jsval option \<Rightarrow> bool \<Rightarrow> bool \<Rightarrow> auth_mail_purpose \<Rightarrow> string \<Rightarrow>
   mail_recipient \<Rightarrow> string \<Rightarrow> rendered_mail \<Rightarrow> 'w \<Rightarrow> (string option + unit) \<times> 'w \<times> auth_mail_log list" where
  "AuthMail_enqueue sha enq store inTx allow purpose category user token rendered w =
     (if \<not> allow then (Inr (), w, [])
      else
        let job = \<lparr>aj_queue = AUTH_MAIL_QUEUE, aj_to = mr_email user, aj_subject = rm_subject rendered, aj_html = rm_html rendered,
                   aj_text = rm_text rendered, aj_category = category,
                   aj_idempotencyKey = mailIdempotencyKey sha purpose (mr_id user) token,
                   aj_correlationId = requestCorrelationId store, aj_inTx = inTx, aj_priority = AUTH_MAIL_PRIORITY\<rparr> in
        (case enq job w of
           (Inr _, w') \<Rightarrow> (Inr (), w', [])
         | (Inl e, w') \<Rightarrow>
             (Inl e, w', [MailEnqueueFailed AUTH_MAIL_QUEUE purpose (case e of Some n \<Rightarrow> n | None \<Rightarrow> ''unknown'')])))"

definition sendVerification where
  "sendVerification sha enq store inTx allow user token rendered w =
     AuthMail_enqueue sha enq store inTx allow VerifyEmail ''auth.verify-email'' user token rendered w"

definition sendPasswordReset where
  "sendPasswordReset sha enq store inTx allow user token rendered w =
     AuthMail_enqueue sha enq store inTx allow ResetPassword ''auth.reset-password'' user token rendered w"

text \<open>One message, one key: a key names the purpose, the user and, if SHA-256 tells the tokens apart, the token.\<close>

lemma mail_key_binds:
  assumes "mailIdempotencyKey sha purpose u token = mailIdempotencyKey sha purpose' u' token'"
    and "CHR '':'' \<notin> set u" "CHR '':'' \<notin> set u'"
  shows "purpose = purpose' \<and> u = u' \<and> sha token = sha token'"
proof -
  have "\<forall>c\<in>set (purpose_text purpose). c \<noteq> CHR '':''" "\<forall>c\<in>set (purpose_text purpose'). c \<noteq> CHR '':''"
    by (cases purpose; cases purpose'; simp)+
  from split_at_sep [OF this, of "u @ '':'' @ sha token" "u' @ '':'' @ sha token'"] assms(1)
  have p: "purpose_text purpose = purpose_text purpose'" "u @ CHR '':'' # sha token = u' @ CHR '':'' # sha token'"
    by (simp_all add: mailIdempotencyKey_def)
  have "\<forall>c\<in>set u. c \<noteq> CHR '':''" "\<forall>c\<in>set u'. c \<noteq> CHR '':''"
    using assms(2,3) by auto
  from split_at_sep [OF this p(2)] have "u = u' \<and> sha token = sha token'" .
  moreover have "purpose = purpose'"
    using p(1) by (cases purpose; cases purpose') simp_all
  ultimately show ?thesis by simp
qed

section \<open>The emails one address gets\<close>

type_synonym mail_ask = "msec \<times> auth_mail_purpose \<times> string"

fun allowed_in ::
  "(string \<Rightarrow> string) \<Rightarrow> 's counters \<Rightarrow> string \<Rightarrow> msec \<Rightarrow> msec \<Rightarrow> mail_ask list \<Rightarrow> 's storage \<Rightarrow> nat" where
  "allowed_in sha ct k b e [] st = 0"
| "allowed_in sha ct k b e ((t, purpose, email) # asks) st =
     (let (ok, st') = perEmailLimiter sha ct Fine t purpose email st in
      (if ok \<and> mail_limit_key sha purpose email = k \<and> b \<le> t \<and> t < e then 1 else 0) + allowed_in sha ct k b e asks st')"

lemma allowed_after: "\<forall>a\<in>set asks. e \<le> fst a \<Longrightarrow> allowed_in sha ct k b e asks st = 0"
proof (induction asks arbitrary: st)
  case (Cons a asks)
  obtain t purpose email where a: "a = (t, purpose, email)" by (metis prod.exhaust)
  obtain ok st' where "perEmailLimiter sha ct Fine t purpose email st = (ok, st')" by (rule prod.exhaust)
  then show ?case
    using Cons.IH [of st'] Cons.prems a by simp
qed simp

context counter_server
begin

lemma limiter_fine:
  "perEmailLimiter sha ct Fine t purpose email st = (ok, st') \<Longrightarrow>
   \<exists>n s'. INCREMENT_LUA ct t (mail_limit_key sha purpose email) MAIL_PER_EMAIL_WINDOW (fst st) = (n, s') \<and>
     ok = (n \<le> MAIL_PER_EMAIL_MAX) \<and> fst st' = s'"
  by (auto simp: perEmailLimiter_def storage_increment_def storage_guard_def Let_def split: prod.splits)

lemma mail_cap:
  assumes "e \<le> b + MAIL_PER_EMAIL_WINDOW * 1000"
  shows "sorted (map fst asks) \<Longrightarrow> \<forall>a\<in>set asks. now \<le> fst a \<Longrightarrow> (now < b \<Longrightarrow> c = 0) \<Longrightarrow>
    spent_ok k MAIL_PER_EMAIL_WINDOW b e MAIL_PER_EMAIL_MAX now c (fst st) \<Longrightarrow>
    c + allowed_in sha ct k b e asks st < 2 * MAIL_PER_EMAIL_MAX"
proof (induction asks arbitrary: now c st)
  case Nil
  then show ?case using spent_ok_bound by simp
next
  case (Cons a asks)
  obtain t purpose email where a: "a = (t, purpose, email)" by (metis prod.exhaust)
  obtain ok st' where l: "perEmailLimiter sha ct Fine t purpose email st = (ok, st')" by (rule prod.exhaust)
  then obtain n where n: "INCREMENT_LUA ct t (mail_limit_key sha purpose email) MAIL_PER_EMAIL_WINDOW (fst st) = (n, fst st')"
      "ok = (n \<le> MAIL_PER_EMAIL_MAX)"
    using limiter_fine by blast
  let ?key = "mail_limit_key sha purpose email"
  have t: "now \<le> t" "\<forall>a\<in>set asks. t \<le> fst a" "sorted (map fst asks)"
    using Cons.prems(1,2) a by auto
  have same: "spent_ok k MAIL_PER_EMAIL_WINDOW b e MAIL_PER_EMAIL_MAX t c (fst st)"
    using Cons.prems(4) t(1) by (rule spent_ok_later)
  consider (late) "e \<le> t" | (early) "t < b" | (other) "b \<le> t" "t < e" "?key \<noteq> k" | (own) "b \<le> t" "t < e" "?key = k"
    by linarith
  then show ?case
  proof cases
    case late
    then have "allowed_in sha ct k b e (a # asks) st = 0"
      using t(2) a by (intro allowed_after) auto
    then show ?thesis
      using spent_ok_bound [OF Cons.prems(4)] by simp
  next
    case early
    then have "c = 0" using Cons.prems(3) t(1) by simp
    moreover have "spent_ok k MAIL_PER_EMAIL_WINDOW b e MAIL_PER_EMAIL_MAX t 0 (fst st')"
      by (simp add: spent_ok_def MAIL_PER_EMAIL_MAX_def)
    ultimately show ?thesis
      using Cons.IH [OF t(3,2), of 0 st'] early a l by simp
  next
    case other
    have "spent_ok k MAIL_PER_EMAIL_WINDOW b e MAIL_PER_EMAIL_MAX t c (fst st')"
    proof (rule spent_ok_same [OF same])
      fix t' show "cnt t' k (fst st') = cnt t' k (fst st)"
        using cnt_increment_other [of k ?key t' t MAIL_PER_EMAIL_WINDOW "fst st"] other(3) n(1) by simp
    qed
    then show ?thesis
      using Cons.IH [OF t(3,2), of c st'] other a l by simp
  next
    case own
    have "spent_ok k MAIL_PER_EMAIL_WINDOW b e MAIL_PER_EMAIL_MAX t (if n \<le> MAIL_PER_EMAIL_MAX then Suc c else c) (fst st')"
      using n(1) own by (intro spent_ok_increment [OF same own(1,2) assms]) simp
    then show ?thesis
      using Cons.IH [OF t(3,2), of "if n \<le> MAIL_PER_EMAIL_MAX then Suc c else c" st'] own a l n(2) by (simp split: if_splits)
  qed
qed

end

text \<open>
  Nobody can be bombed with the emails of this package: as long as the counters' server answers, and whatever else was
  asked for other addresses in between, in any hour at most five emails of one purpose are let through for one address,
  however it is spelled in case or with spaces around it; and over the limit nothing is enqueued, nothing is logged and the
  caller sees what it sees otherwise.
\<close>

theorem mail_per_address_capped:
  assumes "counter_server ct cnt" and "sorted (map fst asks)"
  shows "allowed_in sha ct (mail_limit_key sha purpose email) b (b + 3600000) asks st \<le> 5 \<and>
    (trim_lower email' = trim_lower email \<longrightarrow> mail_limit_key sha purpose email' = mail_limit_key sha purpose email) \<and>
    AuthMail_enqueue sha enq store inTx False purpose category user token rendered w = (Inr (), w, [])"
proof -
  have "allowed_in sha ct (mail_limit_key sha purpose email) b (b + 3600000) asks st < 2 * MAIL_PER_EMAIL_MAX"
    using counter_server.mail_cap [OF assms(1), of "b + 3600000" b asks 0 0 "mail_limit_key sha purpose email" st sha] assms(2)
    by (simp add: MAIL_PER_EMAIL_WINDOW_def MAIL_PER_EMAIL_MAX_def counter_server.spent_ok_def [OF assms(1)])
  then show ?thesis
    by (simp add: MAIL_PER_EMAIL_MAX_def mail_limit_key_def AuthMail_enqueue_def)
qed

definition example_asks :: "mail_ask list" where
  "example_asks = map (\<lambda>t. (t, ResetPassword, ''jane@example.org'')) [0, 1, 2, 3, 4]"

theorem mail_per_address_capped_witness:
  "allowed_in (\<lambda>_. ''d'') mem_counters ''mail-limit:reset-password:d'' 0 3600000 example_asks (mc_empty, []) = 3 \<and>
   allowed_in (\<lambda>_. ''d'') mem_counters ''mail-limit:reset-password:d'' 1 3600001 example_asks (mc_empty, []) \<le> 5"
proof -
  have "allowed_in (\<lambda>_. ''d'') mem_counters ''mail-limit:reset-password:d'' 0 3600000 example_asks (mc_empty, []) = 3"
    by (simp add: example_asks_def perEmailLimiter_def storage_increment_def storage_guard_def INCREMENT_LUA_def mem_counters_def
        mc_empty_def mc_cnt_def live_def mail_limit_key_def MAIL_PER_EMAIL_MAX_def MAIL_PER_EMAIL_WINDOW_def)
  moreover have "sorted (map fst example_asks)"
    by (simp add: example_asks_def)
  ultimately show ?thesis
    using mail_per_address_capped [OF mem_counters.counter_server_axioms, of example_asks "\<lambda>_. ''d''" ResetPassword "''jane@example.org''" 1
        "(mc_empty, [])", THEN conjunct1] by (simp add: mail_limit_key_def)
qed

section \<open>The transaction\<close>

text \<open>
  Drizzle's transaction on PostgreSQL, as documented: the callback works on a transaction begun on the database; if it throws,
  the transaction rolls back and the error goes on; if it returns, the transaction commits, unless a failed statement has
  aborted it: then nothing is written and nobody is told.
\<close>

datatype 'e tx_failure = Raised 'e | TransactionAborted

locale pg_tx =
  fixes begins :: "'d \<Rightarrow> 't" and commits :: "'t \<Rightarrow> 'd" and aborted :: "'t \<Rightarrow> bool"
    and transact :: "('t \<Rightarrow> ('e tx_failure + 'a) \<times> 't) \<Rightarrow> 'd \<Rightarrow> ('e tx_failure + 'a) \<times> 'd"
  assumes throws: "body (begins d) = (Inl e, t) \<Longrightarrow> transact body d = (Inl e, d)"
    and returns: "body (begins d) = (Inr a, t) \<Longrightarrow> transact body d = (Inr a, if aborted t then d else commits t)"

text \<open>
  The wrapped \<open>transaction\<close>: the callback runs with the transaction published (its first argument says so), then \<open>select 1\<close>, which
  fails on an aborted transaction.
\<close>

definition withTxCapture ::
  "(('t \<Rightarrow> ('e tx_failure + 'a) \<times> 't) \<Rightarrow> 'd \<Rightarrow> ('e tx_failure + 'a) \<times> 'd) \<Rightarrow> ('t \<Rightarrow> bool) \<Rightarrow>
   (bool \<Rightarrow> 't \<Rightarrow> ('e tx_failure + 'a) \<times> 't) \<Rightarrow> 'd \<Rightarrow> ('e tx_failure + 'a) \<times> 'd" where
  "withTxCapture transact aborted callback d =
     transact (\<lambda>t. case callback True t of
         (Inl e, t') \<Rightarrow> (Inl e, t')
       | (Inr a, t') \<Rightarrow> if aborted t' then (Inl TransactionAborted, t') else (Inr a, t')) d"

context pg_tx
begin

lemma captured:
  "withTxCapture transact aborted callback d =
    (case callback True (begins d) of
       (Inl e, t) \<Rightarrow> (Inl e, d)
     | (Inr a, t) \<Rightarrow> if aborted t then (Inl TransactionAborted, d) else (Inr a, commits t))"
proof -
  let ?body = "\<lambda>t. case callback True t of
         (Inl e, t') \<Rightarrow> (Inl e, t')
       | (Inr a, t') \<Rightarrow> if aborted t' then (Inl TransactionAborted, t') else (Inr a, t')"
  obtain r t where r: "callback True (begins d) = (r, t)" by (rule prod.exhaust)
  show ?thesis
  proof (cases r)
    case (Inl e)
    then show ?thesis
      using r throws [of ?body d e t] by (simp add: withTxCapture_def)
  next
    case (Inr a)
    then show ?thesis
      using r throws [of ?body d TransactionAborted t] returns [of ?body d a t] by (simp add: withTxCapture_def)
  qed
qed

end

text \<open>A database kept in memory, with its transactions.\<close>

definition mem_transact :: "('d \<times> bool \<Rightarrow> ('e tx_failure + 'a) \<times> ('d \<times> bool)) \<Rightarrow> 'd \<Rightarrow> ('e tx_failure + 'a) \<times> 'd" where
  "mem_transact body d =
     (case body (d, False) of
        (Inl e, t) \<Rightarrow> (Inl e, d)
      | (Inr a, t) \<Rightarrow> (Inr a, if snd t then d else fst t))"

interpretation mem_tx: pg_tx "\<lambda>d. (d, False)" fst snd mem_transact
  by unfold_locales (simp_all add: mem_transact_def)

text \<open>
  An authentication request that is answered as a success was written, and one that was not written is answered as a
  failure: the wrapped transaction returns only if nothing inside it failed, with everything committed; and whatever goes
  wrong inside, an error that is thrown or a statement that fails and whose error the callback swallows (as Better Auth does
  with the enqueueing of a verification email), the caller gets an error and the database is as it was.
\<close>

theorem auth_transaction_all_or_nothing:
  assumes "pg_tx begins commits aborted transact"
  shows "(\<forall>a d'. withTxCapture transact aborted callback d = (Inr a, d') \<longleftrightarrow>
      (\<exists>t. callback True (begins d) = (Inr a, t) \<and> \<not> aborted t \<and> d' = commits t)) \<and>
    (\<forall>e d'. withTxCapture transact aborted callback d = (Inl e, d') \<longrightarrow> d' = d) \<and>
    (aborted (snd (callback True (begins d))) \<longrightarrow> \<not> is_ok (fst (withTxCapture transact aborted callback d)))"
proof -
  obtain r t where r: "callback True (begins d) = (r, t)" by (rule prod.exhaust)
  show ?thesis
    using pg_tx.captured [OF assms, of callback d] r by (cases r) auto
qed

text \<open>A sign-up that writes a user, whose email then aborts the transaction.\<close>

definition example_sign_up :: "bool \<Rightarrow> string list \<times> bool \<Rightarrow> (string tx_failure + string) \<times> (string list \<times> bool)" where
  "example_sign_up inTx t =
     (let (r, t', logs) = AuthMail_enqueue (\<lambda>_. ''d'') (\<lambda>job (d, b). (Inl (Some ''DrizzleQueryError''), d, True)) None inTx True VerifyEmail
            ''auth.verify-email'' \<lparr>mr_id = ''u1'', mr_email = ''jane@example.org''\<rparr> ''t'' \<lparr>rm_subject = ''s'', rm_html = ''h'', rm_text = ''t''\<rparr>
            (fst t @ [''jane''], snd t)
      in (Inr ''ok'', t'))"

theorem auth_transaction_all_or_nothing_witness:
  "\<not> is_ok (fst (withTxCapture mem_transact snd example_sign_up [''joe''])) \<and>
   snd (withTxCapture mem_transact snd example_sign_up [''joe'']) = [''joe'']"
proof -
  have "snd (snd (example_sign_up True ([''joe''], False)))"
    by (simp add: example_sign_up_def AuthMail_enqueue_def)
  then have "\<not> is_ok (fst (withTxCapture mem_transact snd example_sign_up [''joe'']))"
    using auth_transaction_all_or_nothing [OF mem_tx.pg_tx_axioms, of example_sign_up "[''joe'']"] by blast
  moreover have "snd (withTxCapture mem_transact snd example_sign_up [''joe'']) = [''joe'']"
    by (simp add: withTxCapture_def mem_transact_def example_sign_up_def AuthMail_enqueue_def)
  ultimately show ?thesis by blast
qed

end
