(* ===== verification/AccountPolicy.thy ===== *)
theory AccountPolicy
  imports SessionContext Lockout
begin

text \<open>
  Which account an asserted address may become (\<open>identity/src/accounts.ts\<close>, \<open>reserved.ts\<close>, \<open>providers.ts\<close>, \<open>sso.ts\<close>) and the
  guards on sign-up and on registering an identity provider (\<open>plugins.ts\<close>). Better Auth's adapter is the record of \<open>BetterAuth\<close>;
  the claims of a token are a JSON value. A security event is a value of the list a definition answers.
\<close>

datatype id_event =
    UnverifiedReplaced string | UnverifiedPurged string | LinkRefused "string option" | UpnRefused "string option"

section \<open>Accounts that prove nothing\<close>

definition replaceable :: "'w adapter \<Rightarrow> string \<Rightarrow> auth_account list \<Rightarrow> 'w \<Rightarrow> bool" where
  "replaceable ad userId accounts w \<longleftrightarrow>
     \<not> list_ex (\<lambda>a. ac_providerId a \<noteq> ''credential'') accounts \<and> ad_sessions ad userId w = []"

definition replaceUnverifiedAccount :: "'w adapter \<Rightarrow> string \<Rightarrow> 'w \<Rightarrow> bool \<times> 'w \<times> id_event list" where
  "replaceUnverifiedAccount ad email w =
     (case ad_userByEmail ad (js_lower email) w of
        None \<Rightarrow> (False, w, [])
      | Some u \<Rightarrow>
          if u_emailVerified u then (False, w, [])
          else if \<not> replaceable ad (u_id u) (ad_accounts ad (u_id u) w) w then (False, w, [])
          else (True, ad_deleteUser ad (u_id u) w, [UnverifiedReplaced (u_id u)]))"

fun purge_loop :: "'w adapter \<Rightarrow> auth_user list \<Rightarrow> nat \<times> 'w \<times> id_event list \<Rightarrow> nat \<times> 'w \<times> id_event list" where
  "purge_loop ad [] r = r"
| "purge_loop ad (u # us) (n, w, evs) =
     (if \<not> replaceable ad (u_id u) (ad_accounts ad (u_id u) w) w then purge_loop ad us (n, w, evs)
      else purge_loop ad us (n + 1, ad_deleteUser ad (u_id u) w, evs @ [UnverifiedPurged (u_id u)]))"

definition UNVERIFIED_TTL_HOURS :: int where "UNVERIFIED_TTL_HOURS = 72"

definition purgeWith :: "'w adapter \<Rightarrow> int \<Rightarrow> int option \<Rightarrow> 'w \<Rightarrow> nat \<times> 'w \<times> id_event list" where
  "purgeWith ad now olderThanHours w =
     (let cutoff = now - (case olderThanHours of Some h \<Rightarrow> h | None \<Rightarrow> UNVERIFIED_TTL_HOURS) * 3600000;
          candidates = ad_usersWhere ad (\<lambda>u. \<not> u_emailVerified u \<and> u_createdAt u < cutoff) 500 w
      in purge_loop ad candidates (0, w, []))"

section \<open>Reserved addresses\<close>

text \<open>\<open>ssoDomains\<close> are the domains of the providers whose domain is verified, each a text or absent.\<close>

definition reservedDomainCheck :: "string list \<Rightarrow> bool \<Rightarrow> string option list \<Rightarrow> string \<Rightarrow> bool" where
  "reservedDomainCheck staffDomains withSso ssoDomains email =
     (let domain = emailDomain email in
      if domain = [] \<and> CHR ''@'' \<in> set email then True
      else if domainIn domain (DomainList staffDomains) then True
      else if \<not> withSso then False
      else list_ex (\<lambda>p. let d = (case p of None \<Rightarrow> NoDomains | Some t \<Rightarrow> DomainText t)
                         in parseDomains d \<noteq> [] \<and> domainIn domain d) ssoDomains)"

section \<open>Microsoft\<close>

fun has_infix :: "string \<Rightarrow> string \<Rightarrow> bool" where
  "has_infix p [] = (p = [])"
| "has_infix p (c # cs) = (take (length p) (c # cs) = p \<or> has_infix p cs)"

definition claim_text :: "string \<Rightarrow> jsval \<Rightarrow> string option" where
  "claim_text k claims = (case property_of k claims of JStr s \<Rightarrow> Some s | _ \<Rightarrow> None)"

definition upnClaim :: "jsval \<Rightarrow> string option" where
  "upnClaim claims =
     first_some (map (\<lambda>k. case claim_text k claims of Some s \<Rightarrow> if CHR ''@'' \<in> set s then Some s else None | None \<Rightarrow> None)
       [''upn'', ''preferred_username''])"

definition upnSuffix :: "jsval \<Rightarrow> string option" where
  "upnSuffix claims =
     (case upnClaim claims of
        None \<Rightarrow> None
      | Some upn \<Rightarrow>
          let suffix = trim_lower (last (js_split CHR ''@'' upn)) in
          if suffix \<noteq> [] \<and> length suffix \<le> 100 \<and>
             list_all (\<lambda>c. is_lower c \<or> is_digit c \<or> c = CHR ''.'' \<or> c = CHR ''-'') suffix
          then Some suffix else None)"

definition upnOnStaffDomain :: "jsval \<Rightarrow> string list \<Rightarrow> bool" where
  "upnOnStaffDomain claims staffDomains \<longleftrightarrow>
     (case upnClaim claims of None \<Rightarrow> False | Some upn \<Rightarrow> staffEmailIn upn staffDomains)"

definition isEntraGuest :: "jsval \<Rightarrow> bool" where
  "isEntraGuest claims \<longleftrightarrow>
     (if property_of ''acct'' claims = JNum 1 \<or> property_of ''acct'' claims = JStr ''1'' then True
      else if claim_text ''idp'' claims \<noteq> None \<and> property_of ''idp'' claims \<noteq> property_of ''iss'' claims then True
      else list_ex (\<lambda>k. case claim_text k claims of Some v \<Rightarrow> has_infix ''#EXT#'' v | None \<Rightarrow> False) [''upn'', ''preferred_username''])"

record staff_options =
  so_tenantId :: string
  so_domains :: "string list"
  so_allowGuests :: "bool option"
  so_requireUpn :: "bool option"

record provider_user =
  pv_id :: string
  pv_name :: string
  pv_email :: string
  pv_emailVerified :: bool

text \<open>
  The provider's hooks: \<open>lookup\<close> is the existing account of an address (its user's id, if it names one, and its accounts),
  \<open>known\<close> whether an identity has its account already, \<open>verified\<close> what is done when a member's address is asserted.
\<close>

record 'w microsoft_hooks =
  mh_lookup :: "string \<Rightarrow> 'w \<Rightarrow> (string option \<times> auth_account list) option"
  mh_known :: "string \<Rightarrow> 'w \<Rightarrow> bool"
  mh_verified :: "string \<Rightarrow> 'w \<Rightarrow> 'w"

definition microsoft_getUserInfo ::
  "staff_options \<Rightarrow> 'w microsoft_hooks \<Rightarrow> jsval option \<Rightarrow> request_slot option \<Rightarrow> 'w \<Rightarrow>
   provider_user option \<times> request_slot option \<times> 'w \<times> id_event list" where
  "microsoft_getUserInfo staff hooks idToken slot w =
     (let staffDomains = normalizeStaffDomains (so_domains staff);
          requireUpn = (case so_requireUpn staff of Some b \<Rightarrow> b | None \<Rightarrow> True);
          nothing = (None, slot, w, []) in
      case idToken of
        None \<Rightarrow> nothing
      | Some claims \<Rightarrow>
          if property_of ''tid'' claims \<noteq> JStr (so_tenantId staff) then nothing
          else case (claim_text ''oid'' claims, claim_text ''email'' claims) of
            (Some oid, Some email) \<Rightarrow>
              let guest = isEntraGuest claims;
                  accept = (\<lambda>w. (Some \<lparr>pv_id = oid,
                                     pv_name = (case claim_text ''name'' claims of Some n \<Rightarrow> n | None \<Rightarrow> email),
                                     pv_email = email, pv_emailVerified = \<not> guest\<rparr>,
                                rememberStaffSignIn \<lparr>sc_oid = oid, sc_tid = so_tenantId staff, sc_email = email, sc_guest = guest,
                                     sc_roles = validRoles (property_of ''roles'' claims)\<rparr> slot, w, [])) in
              if guest \<and> so_allowGuests staff \<noteq> Some True then nothing
              else if \<not> guest \<and> \<not> staffEmailIn email staffDomains then nothing
              else if \<not> guest \<and> requireUpn \<and> \<not> upnOnStaffDomain claims staffDomains then
                (None, refuseCallbackWith ''UPN_NOT_ON_STAFF_DOMAIN'' slot, w, [UpnRefused (upnSuffix claims)])
              else if guest then
                (case mh_lookup hooks email w of
                   Some (user, accounts) \<Rightarrow>
                     if \<not> list_ex (\<lambda>a. is_microsoft a \<and> ac_accountId a = oid) accounts
                     then (None, refuseCallbackWith ''ACCOUNT_LINK_REQUIRED'' slot, w, [])
                     else accept w
                 | None \<Rightarrow> accept w)
              else
                (case (if mh_known hooks oid w then None else mh_lookup hooks email w) of
                   Some (user, accounts) \<Rightarrow>
                     if list_ex is_microsoft accounts \<and> \<not> list_ex (\<lambda>a. is_microsoft a \<and> ac_accountId a = oid) accounts
                     then (None, refuseCallbackWith ''MICROSOFT_IDENTITY_CHANGED'' slot, w, [LinkRefused user])
                     else accept (mh_verified hooks email w)
                 | None \<Rightarrow> accept (mh_verified hooks email w))
          | _ \<Rightarrow> nothing)"

section \<open>Google\<close>

text \<open>\<open>info\<close> is what Better Auth's provider answers: the address, if it has one, and whether it is verified.\<close>

definition google_getUserInfo ::
  "(string \<Rightarrow> bool) \<Rightarrow> (string \<Rightarrow> 'w \<Rightarrow> 'w) \<Rightarrow> (string option \<times> bool) option \<Rightarrow> 'w \<Rightarrow> (string option \<times> bool) option \<times> 'w" where
  "google_getUserInfo isReserved verified info w =
     (case info of
        Some (Some email, emailVerified) \<Rightarrow>
          if email = [] then (info, w)
          else if isReserved email then (None, w)
          else (info, if emailVerified then verified email w else w)
      | _ \<Rightarrow> (info, w))"

section \<open>SSO\<close>

datatype resolve_action = Continue | OutsideProviderDomain | AccountLinkRequired

text \<open>\<open>provider\<close> is the provider's row: its domain and its organization, each if it is a text; \<open>member\<close> looks a membership up.\<close>

definition sso_resolveUser ::
  "'w adapter \<Rightarrow> (string \<Rightarrow> string \<Rightarrow> 'w \<Rightarrow> bool) \<Rightarrow> (string option \<times> string option) option \<Rightarrow> string \<Rightarrow> 'w \<Rightarrow>
   resolve_action \<times> 'w \<times> id_event list" where
  "sso_resolveUser ad member provider email0 w =
     (let email = js_lower email0 in
      case provider of
        None \<Rightarrow> (OutsideProviderDomain, w, [])
      | Some (domain, organizationId) \<Rightarrow>
          if \<not> domainIn (emailDomain email) (case domain of None \<Rightarrow> NoDomains | Some d \<Rightarrow> DomainText d)
          then (OutsideProviderDomain, w, [])
          else
            let (_, w', evs) = replaceUnverifiedAccount ad email w in
            (case ad_userByEmail ad email w' of
               None \<Rightarrow> (Continue, w', evs)
             | Some existing \<Rightarrow>
                 (case organizationId of
                    Some org \<Rightarrow> if member (u_id existing) org w' then (Continue, w', evs) else (AccountLinkRequired, w', evs)
                  | None \<Rightarrow> (AccountLinkRequired, w', evs))))"

section \<open>The guards\<close>

definition companyDomainSignUpGuard :: "(string \<Rightarrow> bool) \<Rightarrow> string \<Rightarrow> jsval \<Rightarrow> bool" where
  "companyDomainSignUpGuard isReserved path body =
     (if path \<noteq> ''/sign-up/email'' then True
      else case body_string ''email'' body of None \<Rightarrow> True | Some email \<Rightarrow> \<not> isReserved email)"

definition reservedClaim :: "string list \<Rightarrow> jsval \<Rightarrow> bool" where
  "reservedClaim staffDomains domain =
     (case domain of
        JStr t \<Rightarrow>
          list_ex (\<lambda>d. domainIn d (DomainList staffDomains) \<or> list_ex (\<lambda>staff. domainIn staff (DomainText d)) staffDomains)
            (parseDomains (DomainText t))
      | _ \<Rightarrow> False)"

datatype registration_refusal =
    SamlNotFound | SamlNotSupported | OrganizationRequired | DomainReserved | UrlNotAllowed string ssrf_reason

fun check_urls :: "(string \<Rightarrow> ssrf_reason + 'u) \<Rightarrow> (string \<Rightarrow> ssrf_reason + unit) \<Rightarrow> string list \<Rightarrow> registration_refusal + unit" where
  "check_urls safe probe [] = Inr ()"
| "check_urls safe probe (url # urls) =
     (case safe url of
        Inl reason \<Rightarrow> Inl (UrlNotAllowed url reason)
      | Inr _ \<Rightarrow>
          (case probe url of
             Inl reason \<Rightarrow> Inl (UrlNotAllowed url reason)
           | Inr _ \<Rightarrow> check_urls safe probe urls))"

definition is_sso_write :: "string \<Rightarrow> bool" where
  "is_sso_write path \<longleftrightarrow> path = ''/sso/register'' \<or> path = ''/sso/update-provider''"

definition ssoRegistrationGuard ::
  "string list \<Rightarrow> (string \<Rightarrow> ssrf_reason + 'u) \<Rightarrow> (string \<Rightarrow> ssrf_reason + unit) \<Rightarrow> string \<Rightarrow> jsval \<Rightarrow> registration_refusal + unit" where
  "ssoRegistrationGuard staffDomains safe probe path body =
     (if take 9 path = ''/sso/saml'' then Inl SamlNotFound
      else if \<not> is_sso_write path then Inr ()
      else if property_of ''samlConfig'' body \<noteq> JUndef \<and> property_of ''samlConfig'' body \<noteq> JNull then Inl SamlNotSupported
      else if path = ''/sso/register'' \<and> (body_string ''organizationId'' body = None \<or> body_string ''organizationId'' body = Some [])
      then Inl OrganizationRequired
      else if reservedClaim staffDomains (property_of ''domain'' body) then Inl DomainReserved
      else check_urls safe probe (oidcFetchUrls (property_of ''issuer'' body) (property_of ''oidcConfig'' body)))"

text \<open>The after hook: the provider in the answer loses its client secret.\<close>

definition scrub_provider :: "(string \<times> jsval) list \<Rightarrow> (string \<times> jsval) list" where
  "scrub_provider answer =
     map (\<lambda>(k, v). (k, if k = ''oidcConfig'' then (case v of JObj ps \<Rightarrow> JObj (filter (\<lambda>(k', _). k' \<noteq> ''clientSecret'') ps) | _ \<Rightarrow> v) else v))
       answer"

section \<open>Nobody's account is taken or lost\<close>

text \<open>
  A user is deleted only as a squatter: unverified, holding nothing but a password account, and without a session row.
\<close>

definition squatter :: "'w adapter \<Rightarrow> string \<Rightarrow> 'w \<Rightarrow> bool" where
  "squatter ad i w \<longleftrightarrow>
     (\<exists>u. ad_userById ad i w = Some u \<and> \<not> u_emailVerified u) \<and>
     list_all (\<lambda>a. ac_providerId a = ''credential'') (ad_accounts ad i w) \<and> ad_sessions ad i w = []"

lemma replaceable_iff:
  "replaceable ad i (ad_accounts ad i w) w \<longleftrightarrow>
   list_all (\<lambda>a. ac_providerId a = ''credential'') (ad_accounts ad i w) \<and> ad_sessions ad i w = []"
  by (auto simp: replaceable_def list_ex_iff list_all_iff)

context auth_adapter begin

lemma squatter_other: "i \<noteq> j \<Longrightarrow> squatter ad i (ad_deleteUser ad j w) \<longleftrightarrow> squatter ad i w"
  by (simp add: squatter_def byId_deleteUser accounts_deleteUser sessions_deleteUser)

lemma replaced_squatter:
  assumes "replaceUnverifiedAccount ad email w = (b, w', evs)" "ad_userById ad i w = Some u" "ad_userById ad i w' = None"
  shows "squatter ad i w \<and> u_email u = js_lower email"
proof -
  obtain v where v: "ad_userByEmail ad (js_lower email) w = Some v" "\<not> u_emailVerified v"
      "replaceable ad (u_id v) (ad_accounts ad (u_id v) w) w" "w' = ad_deleteUser ad (u_id v) w"
    using assms by (auto simp: replaceUnverifiedAccount_def split: option.splits if_splits)
  have "i = u_id v"
    using assms(2,3) v(4) by (auto simp: byId_deleteUser split: if_splits)
  then show ?thesis
    using byEmail_byId [OF v(1)] v(2,3) assms(2) by (auto simp: squatter_def replaceable_iff)
qed

lemma purge_loop_deletes:
  assumes "purge_loop ad us (n, w, evs) = (n', w', evs')"
    and "\<forall>u\<in>set us. \<not> u_emailVerified u \<and> (ad_userById ad (u_id u) w = Some u \<or> ad_userById ad (u_id u) w = None)"
    and "ad_userById ad i w \<noteq> None" "ad_userById ad i w' = None"
  shows "squatter ad i w \<and> i \<in> u_id ` set us"
  using assms
proof (induction us arbitrary: n w evs)
  case Nil
  then show ?case by simp
next
  case (Cons u us)
  show ?case
  proof (cases "replaceable ad (u_id u) (ad_accounts ad (u_id u) w) w")
    case False
    then show ?thesis
      using Cons.IH [of n w evs] Cons.prems by auto
  next
    case True
    let ?w = "ad_deleteUser ad (u_id u) w"
    have run: "purge_loop ad us (n + 1, ?w, evs @ [UnverifiedPurged (u_id u)]) = (n', w', evs')"
      using Cons.prems(1) True by simp
    show ?thesis
    proof (cases "i = u_id u")
      case True': True
      then show ?thesis
        using Cons.prems(2,3) True by (auto simp: squatter_def replaceable_iff)
    next
      case False
      have "\<forall>v\<in>set us. \<not> u_emailVerified v \<and> (ad_userById ad (u_id v) ?w = Some v \<or> ad_userById ad (u_id v) ?w = None)"
        using Cons.prems(2) by (auto simp: byId_deleteUser)
      then have "squatter ad i ?w \<and> i \<in> u_id ` set us"
        using Cons.IH [OF run] Cons.prems(3,4) False by (simp add: byId_deleteUser)
      then show ?thesis
        using squatter_other [OF False] by simp
    qed
  qed
qed

lemma purge_loop_count:
  "purge_loop ad us (n, w, evs) = (n', w', evs') \<Longrightarrow> n' \<le> n + length us \<and> length evs' + n = length evs + n'"
proof (induction us arbitrary: n w evs)
  case Nil
  then show ?case by simp
next
  case (Cons u us)
  then show ?case
    by (cases "replaceable ad (u_id u) (ad_accounts ad (u_id u) w) w") (fastforce dest!: Cons.IH)+
qed

lemma purged_squatters:
  assumes "purgeWith ad now hours w = (n, w', evs)" "ad_userById ad i w = Some u" "ad_userById ad i w' = None"
  shows "squatter ad i w \<and> u_createdAt u < now - (case hours of Some h \<Rightarrow> h | None \<Rightarrow> 72) * 3600000 \<and> n \<le> 500 \<and> length evs = n"
proof -
  define us where "us = ad_usersWhere ad (\<lambda>u. \<not> u_emailVerified u \<and>
      u_createdAt u < now - (case hours of Some h \<Rightarrow> h | None \<Rightarrow> UNVERIFIED_TTL_HOURS) * 3600000) 500 w"
  have run: "purge_loop ad us (0, w, []) = (n, w', evs)"
    using assms(1) by (simp add: purgeWith_def us_def)
  have us: "\<not> u_emailVerified v \<and> u_createdAt v < now - (case hours of Some h \<Rightarrow> h | None \<Rightarrow> 72) * 3600000 \<and>
      ad_userById ad (u_id v) w = Some v" if "v \<in> set us" for v
    using usersWhere [OF that [unfolded us_def]] by (simp add: UNVERIFIED_TTL_HOURS_def split: option.splits)
  have "squatter ad i w \<and> i \<in> u_id ` set us"
    using purge_loop_deletes [OF run] us assms(2,3) by auto
  moreover have "n \<le> length us" "length evs = n"
    using purge_loop_count [OF run] by auto
  moreover have "length us \<le> 500"
    unfolding us_def by (rule usersWhere_limit)
  ultimately show ?thesis
    using us assms(2) by (auto split: option.splits)
qed

end


definition example_squatter :: mem_auth where
  "example_squatter =
     \<lparr>ma_users = [\<lparr>u_id = ''u1'', u_email = ''ceo@company.vn'', u_emailVerified = False, u_banned = False, u_banExpires = None,
        u_createdAt = 0, u_updatedAt = 0\<rparr>],
      ma_accounts = [\<lparr>ac_userId = ''u1'', ac_providerId = ''credential'', ac_accountId = ''u1'', ac_password = Some ''h'', ac_updatedAt = 0\<rparr>],
      ma_sessions = []\<rparr>"


text \<open>What a provider's assertion may become.\<close>

lemma microsoft_accepts:
  assumes "microsoft_getUserInfo staff hooks idToken slot w = (Some info, slot', w', evs)"
  obtains claims where "idToken = Some claims" "property_of ''tid'' claims = JStr (so_tenantId staff)"
    "claim_text ''oid'' claims = Some (pv_id info)" "claim_text ''email'' claims = Some (pv_email info)"
    "pv_emailVerified info \<longleftrightarrow> \<not> isEntraGuest claims"
    "isEntraGuest claims \<longrightarrow> so_allowGuests staff = Some True"
    "\<not> isEntraGuest claims \<longrightarrow> staffEmailIn (pv_email info) (normalizeStaffDomains (so_domains staff))"
    "\<And>user accounts. isEntraGuest claims \<Longrightarrow> mh_lookup hooks (pv_email info) w = Some (user, accounts) \<Longrightarrow>
       list_ex (\<lambda>a. is_microsoft a \<and> ac_accountId a = pv_id info) accounts"
    "\<And>user accounts. \<not> isEntraGuest claims \<Longrightarrow> \<not> mh_known hooks (pv_id info) w \<Longrightarrow>
       mh_lookup hooks (pv_email info) w = Some (user, accounts) \<Longrightarrow> list_ex is_microsoft accounts \<Longrightarrow>
       list_ex (\<lambda>a. is_microsoft a \<and> ac_accountId a = pv_id info) accounts"
    "slot' = rememberStaffSignIn \<lparr>sc_oid = pv_id info, sc_tid = so_tenantId staff, sc_email = pv_email info,
       sc_guest = isEntraGuest claims, sc_roles = validRoles (property_of ''roles'' claims)\<rparr> slot"
  using assms
  by (cases idToken) (auto simp: microsoft_getUserInfo_def Let_def split: option.splits if_splits)

definition holds_identity :: "string \<Rightarrow> auth_account list \<Rightarrow> bool" where
  "holds_identity oid accounts \<longleftrightarrow> list_ex (\<lambda>a. is_microsoft a \<and> ac_accountId a = oid) accounts"


definition example_claims :: jsval where
  "example_claims =
     JObj [(''tid'', JStr ''t1''), (''oid'', JStr ''o1''), (''email'', JStr ''jane@qnsc.vn''), (''upn'', JStr ''jane@qnsc.vn'')]"

definition example_staff :: staff_options where
  "example_staff = \<lparr>so_tenantId = ''t1'', so_domains = [''qnsc.vn''], so_allowGuests = None, so_requireUpn = None\<rparr>"

definition example_hooks :: "unit microsoft_hooks" where
  "example_hooks = \<lparr>mh_lookup = (\<lambda>e w. None), mh_known = (\<lambda>i w. False), mh_verified = (\<lambda>e w. w)\<rparr>"

lemma example_staff_domains: "normalizeStaffDomains (so_domains example_staff) = [''qnsc.vn'']"
  by (simp add: normalizeStaffDomains_def example_staff_def trim_lower_def js_lower_def js_trim_def text_simps is_space_def
      latin_lower_def to_lower_def is_upper_def)

lemma example_not_guest: "\<not> isEntraGuest example_claims"
  by (simp add: isEntraGuest_def example_claims_def property_of_def member_of_def claim_text_def)

lemma example_accepted:
  "\<exists>info slot' evs. microsoft_getUserInfo example_staff example_hooks (Some example_claims) None () = (Some info, slot', (), evs)"
proof -
  have "fst (microsoft_getUserInfo example_staff example_hooks (Some example_claims) None ()) \<noteq> None"
  proof -
    have c: "claim_text ''oid'' example_claims = Some ''o1''" "claim_text ''email'' example_claims = Some ''jane@qnsc.vn''"
        "claim_text ''upn'' example_claims = Some ''jane@qnsc.vn''" "property_of ''tid'' example_claims = JStr ''t1''"
      by (simp_all add: example_claims_def property_of_def member_of_def claim_text_def)
    have h: "staffEmailIn ''jane@qnsc.vn'' [''qnsc.vn'']"
      by code_simp
    then have u: "upnOnStaffDomain example_claims [''qnsc.vn'']"
      using c by (simp add: upnOnStaffDomain_def upnClaim_def first_some_def)
    have s: "so_tenantId example_staff = ''t1''" "so_requireUpn example_staff = None" "so_allowGuests example_staff = None"
      by (simp_all add: example_staff_def)
    have k: "mh_known example_hooks = (\<lambda>i w. False)" "mh_lookup example_hooks = (\<lambda>e w. None)"
      by (simp_all add: example_hooks_def)
    show ?thesis
      unfolding microsoft_getUserInfo_def Let_def example_staff_domains c s k option.case prod.case if_False
      using example_not_guest h u by simp
  qed
  then show ?thesis
    by (cases "microsoft_getUserInfo example_staff example_hooks (Some example_claims) None ()") auto
qed


text \<open>A registered provider claims no staff domain, belongs to an organization, and every address it makes the server fetch passed.\<close>

lemma check_urls_ok: "check_urls safe probe urls = Inr () \<Longrightarrow> url \<in> set urls \<Longrightarrow> is_ok (safe url) \<and> probe url = Inr ()"
  by (induction urls) (auto split: sum.splits)

lemma registered_provider_checked:
  assumes "ssoRegistrationGuard staffDomains safe probe ''/sso/register'' body = Inr ()"
  shows "(\<exists>org. body_string ''organizationId'' body = Some org \<and> org \<noteq> []) \<and>
    \<not> reservedClaim staffDomains (property_of ''domain'' body) \<and>
    (\<forall>url\<in>set (oidcFetchUrls (property_of ''issuer'' body) (property_of ''oidcConfig'' body)). is_ok (safe url) \<and> probe url = Inr ())"
  using assms check_urls_ok
  by (auto simp: ssoRegistrationGuard_def is_sso_write_def split: if_splits)

lemma scrubbed_no_secret:
  "(''oidcConfig'', JObj ps) \<in> set (scrub_provider answer) \<Longrightarrow> ''clientSecret'' \<notin> fst ` set ps"
  by (auto simp: scrub_provider_def split: jsval.splits if_splits)

end
