(* ===== verification/IdentityMount.thy ===== *)
theory IdentityMount
  imports Revocation AuthMail AccountPolicy HttpErrors
begin

text \<open>
  Where the identity package meets a product: the global guard of its routes (\<open>identity/src/nest/session.guard.ts\<close>), the errors of
  its calls (\<open>nest/errors.ts\<close>), the mount on Fastify (\<open>nest/fastify-mount.ts\<close>), the organization created in one transaction
  (\<open>organization-atomic.ts\<close>) and the verification of Cloudflare Access tokens (\<open>access-jwt/access-jwt.ts\<close>). Better Auth's session
  lookup and handler and jose's verification are parameters.
\<close>

section \<open>Errors of the calls\<close>

text \<open>An \<open>APIError\<close>: its status as a number, if it is one, the code and the message of its body, its own message.\<close>

record api_error =
  ae_status :: "nat option"
  ae_code :: "string option"
  ae_bodyMessage :: "string option"
  ae_message :: string

definition toDomainException :: "api_error \<Rightarrow> domain_exception" where
  "toDomainException e =
     (let code = (case ae_code e of Some c \<Rightarrow> c | None \<Rightarrow> ''AUTH_ERROR'');
          message = (case ae_bodyMessage e of Some m \<Rightarrow> m | None \<Rightarrow> ae_message e) in
      if ae_status e = Some 401 then UnauthorizedException code message
      else if ae_status e = Some 403 then PermissionDeniedException code (Some message)
      else if ae_status e = Some 404 then NotFoundException code message
      else if ae_status e = Some 409 then ConflictException code message
      else if ae_status e = Some 429 then RateLimitedException message
      else DomainException code message (case ae_status e of Some n \<Rightarrow> if 500 \<le> n then INTERNAL else VALIDATION_FAILED | None \<Rightarrow> VALIDATION_FAILED) None)"

text \<open>The machine code is kept for every status but 429, whose exception has a code of its own.\<close>

lemma code_kept: "ae_status e \<noteq> Some 429 \<Longrightarrow> ae_code e = Some c \<Longrightarrow> de_code (toDomainException e) = c"
  by (simp add: toDomainException_def Let_def exception_defs split: option.split)

lemma locked_code_lost:
  "de_code (toDomainException \<lparr>ae_status = Some 429, ae_code = Some ''ACCOUNT_LOCKED'', ae_bodyMessage = m, ae_message = t\<rparr>) = ''RATE_LIMITED''"
  by (simp add: toDomainException_def Let_def exception_defs)

section \<open>The session guard\<close>

text \<open>\<open>PublicRoute\<close> routes need no session. A mark is what \<open>markPreAuthenticated\<close> left on the request: a user id or none.\<close>

record guarded_request =
  gr_public :: bool
  gr_mark :: "string option option"
  gr_keyedByAddress :: bool

record resolved_session =
  rs_userId :: string
  rs_sessionId :: string
  rs_contextId :: jsval

datatype guard_note =
    RefusedNoPrincipal | RefusedNoUser | RefusedNotUuid | RefusedOtherUser
  | WarnedNoPrincipal | WarnedNoContext | WarnedTooLate | HookFailed

datatype guard_refusal = SignInRequired

definition warnOnce :: "guard_note \<Rightarrow> guard_note list \<Rightarrow> guard_note list" where
  "warnOnce n notes = (if n \<in> set notes then notes else notes @ [n])"

definition markPreAuthenticated :: "string option \<Rightarrow> guarded_request \<Rightarrow> guarded_request" where
  "markPreAuthenticated userId r = r\<lparr>gr_mark := Some userId\<rparr>"

definition admitPreAuthenticated ::
  "'w session_db \<Rightarrow> 's rv_env \<Rightarrow> als \<Rightarrow> string option \<Rightarrow> ('w, 's) rv_state \<Rightarrow> guard_note list \<Rightarrow>
   (guard_refusal + unit) \<times> ('w, 's) rv_state \<times> guard_note list" where
  "admitPreAuthenticated db env ctx mark st notes =
     (let principal = getRequestPrincipal ctx;
          refuse = (\<lambda>n. (Inl SignInRequired, st, notes @ [n])) in
      if ctx \<noteq> None \<and> principal = None then refuse RefusedNoPrincipal
      else
        (case (case principal of Some (u, _) \<Rightarrow> Some u | None \<Rightarrow> mark) of
           None \<Rightarrow> refuse RefusedNoUser
         | Some userId \<Rightarrow>
             if \<not> isUuid userId then refuse RefusedNotUuid
             else if principal \<noteq> None \<and> mark \<noteq> None \<and> mark \<noteq> Some userId then refuse RefusedOtherUser
             else
               let notes' = (if principal = None then warnOnce WarnedNoPrincipal notes else notes);
                   (b, st') = isUserBanned db env userId st in
               (if b = Inr False then Inr () else Inl SignInRequired, st', notes')))"

text \<open>\<open>hook\<close> is what the product's principal hook answered, if there is one: it threw, or gave its extras or nothing.\<close>

record principal_extras =
  px_workspaceId :: "jsval option"
  px_fields :: "(string \<times> jsval) list option"

definition writePrincipal ::
  "principal_extras option option \<Rightarrow> resolved_session \<Rightarrow> bool \<Rightarrow> als \<Rightarrow> guard_note list \<Rightarrow> (principal_error + als) \<times> guard_note list" where
  "writePrincipal hook s keyedByAddress ctx notes =
     (let notes1 = (if hook = None then notes @ [HookFailed] else notes);
          base = \<lparr>rp_userId = JStr (rs_userId s), rp_sessionId = JStr (rs_sessionId s), rp_workspaceId = JUndef, rp_fields = None\<rparr>;
          extras = (case hook of Some (Some x) \<Rightarrow> x | _ \<Rightarrow> \<lparr>px_workspaceId = None, px_fields = None\<rparr>);
          fromContext = (case rs_contextId s of JStr c \<Rightarrow> JStr c | _ \<Rightarrow> JUndef);
          full = base\<lparr>rp_workspaceId := (case px_workspaceId extras of None \<Rightarrow> fromContext | Some JUndef \<Rightarrow> fromContext | Some v \<Rightarrow> v),
                      rp_fields := px_fields extras\<rparr>;
          (result, notes2) = (case setRequestPrincipal full ctx of
              Inr r \<Rightarrow> (Inr r, notes1)
            | Inl _ \<Rightarrow> (setRequestPrincipal base ctx, notes1 @ [HookFailed])) in
      (case result of
         Inl e \<Rightarrow> (Inl e, notes2)
       | Inr (written, ctx') \<Rightarrow>
           (Inr ctx', if \<not> written then warnOnce WarnedNoContext notes2
                      else if keyedByAddress then warnOnce WarnedTooLate notes2 else notes2)))"

datatype guard_failure = Refusal guard_refusal | PrincipalRejected principal_error

definition session_canActivate ::
  "'w session_db \<Rightarrow> 's rv_env \<Rightarrow> resolved_session option \<Rightarrow> principal_extras option option \<Rightarrow> guarded_request \<Rightarrow> als \<Rightarrow>
   ('w, 's) rv_state \<Rightarrow> guard_note list \<Rightarrow> (guard_failure + als) \<times> ('w, 's) rv_state \<times> guard_note list" where
  "session_canActivate db env session hook r ctx st notes =
     (if gr_public r then (Inr ctx, st, notes)
      else
        (case gr_mark r of
           Some mark \<Rightarrow>
             (case admitPreAuthenticated db env ctx mark st notes of
                (Inl e, st', notes') \<Rightarrow> (Inl (Refusal e), st', notes')
              | (Inr _, st', notes') \<Rightarrow> (Inr ctx, st', notes'))
         | None \<Rightarrow>
             (case session of
                None \<Rightarrow> (Inl (Refusal SignInRequired), st, notes)
              | Some s \<Rightarrow>
                  (case writePrincipal hook s (gr_keyedByAddress r) ctx notes of
                     (Inl e, notes') \<Rightarrow> (Inl (PrincipalRejected e), st, notes')
                   | (Inr ctx', notes') \<Rightarrow> (Inr ctx', st, notes')))))"

section \<open>The mount\<close>

definition CLIENT_IP_HEADER :: string where "CLIENT_IP_HEADER = ''x-qnsc-client-ip''"

text \<open>The headers handed to Better Auth: the client address is the one resolved here, whatever the client sent.\<close>

definition mounted_headers :: "string \<Rightarrow> (string \<times> string) list \<Rightarrow> (string \<times> string) list" where
  "mounted_headers ip hs = filter (\<lambda>(k, v). js_lower k \<noteq> CLIENT_IP_HEADER) hs @ [(CLIENT_IP_HEADER, ip)]"

definition mounted_body :: "string \<Rightarrow> nat list option \<Rightarrow> nat list option" where
  "mounted_body meth body =
     (if meth = ''GET'' then None else case body of Some b \<Rightarrow> if b = [] then None else Some b | None \<Rightarrow> None)"

lemma client_ip_is_ours:
  "(k, v) \<in> set (mounted_headers ip hs) \<Longrightarrow> js_lower k = CLIENT_IP_HEADER \<Longrightarrow> v = ip"
  by (auto simp: mounted_headers_def)

text \<open>\<open>readiness\<close>: the first line of what the lookup threw; \<open>None\<close> for something that is not an \<open>Error\<close>.\<close>

definition checkIdentityReady :: "(string option + unit) \<Rightarrow> string + unit" where
  "checkIdentityReady lookup =
     (case lookup of
        Inr _ \<Rightarrow> Inr ()
      | Inl (Some message) \<Rightarrow> Inl (takeWhile (\<lambda>c. c \<noteq> CHR 0x0A) message)
      | Inl None \<Rightarrow> Inl ''identity not ready'')"

section \<open>An organization and its owner\<close>

text \<open>
  Inside a create every call of the adapter goes to the transaction's; \<open>current\<close> says one is open. \<open>atomically\<close> joins an open one.
\<close>

definition atomically ::
  "(('t \<Rightarrow> ('e tx_failure + 'a) \<times> 't) \<Rightarrow> 'd \<Rightarrow> ('e tx_failure + 'a) \<times> 'd) \<Rightarrow> ('t \<Rightarrow> bool) \<Rightarrow>
   ('t \<Rightarrow> ('e tx_failure + 'a) \<times> 't) \<Rightarrow> 'd \<Rightarrow> ('e tx_failure + 'a) \<times> 'd" where
  "atomically transact aborted run d = withTxCapture transact aborted (\<lambda>_. run) d"

text \<open>\<open>Rollback\<close> carries the response of a handler that answered with an error; other throws go on.\<close>

datatype 'x create_throw = Rollback auth_response | OtherThrow 'x

definition hasSession :: "bool \<Rightarrow> bool option \<Rightarrow> bool" where
  "hasSession credential lookup = (if \<not> credential then False else case lookup of None \<Rightarrow> False | Some found \<Rightarrow> found)"

text \<open>
  \<open>on_pool\<close> is the handler on the database, each statement its own; \<open>in_tx\<close> the same handler on the transaction's adapter.
\<close>

definition withAtomicOrganizationCreate ::
  "(('t \<Rightarrow> ('x create_throw tx_failure + auth_response) \<times> 't) \<Rightarrow> 'd \<Rightarrow> ('x create_throw tx_failure + auth_response) \<times> 'd) \<Rightarrow>
   ('t \<Rightarrow> bool) \<Rightarrow> ('d \<Rightarrow> ('x + auth_response) \<times> 'd) \<Rightarrow> ('t \<Rightarrow> ('x + auth_response) \<times> 't) \<Rightarrow> string \<Rightarrow> string \<Rightarrow> string \<Rightarrow> bool \<Rightarrow>
   'd \<Rightarrow> ('x tx_failure + auth_response) \<times> 'd" where
  "withAtomicOrganizationCreate transact aborted on_pool in_tx basePath meth path session d =
     (if meth \<noteq> ''POST'' \<or> path \<noteq> basePath @ ''/organization/create'' \<or> \<not> session then
        (case on_pool d of (Inl e, d') \<Rightarrow> (Inl (Raised e), d') | (Inr r, d') \<Rightarrow> (Inr r, d'))
      else
        (case atomically transact aborted
            (\<lambda>t. case in_tx t of
                (Inl e, t') \<Rightarrow> (Inl (Raised (OtherThrow e)), t')
              | (Inr r, t') \<Rightarrow> if 400 \<le> ar_status r then (Inl (Raised (Rollback r)), t') else (Inr r, t')) d of
           (Inr r, d') \<Rightarrow> (Inr r, d')
         | (Inl (Raised (Rollback r)), d') \<Rightarrow> (Inr r, d')
         | (Inl (Raised (OtherThrow e)), d') \<Rightarrow> (Inl (Raised e), d')
         | (Inl TransactionAborted, d') \<Rightarrow> (Inl TransactionAborted, d')))"

section \<open>Cloudflare Access\<close>

datatype access_code =
    Malformed | InvalidSignature | Expired | NotYetValid | BadIssuer | BadAudience | WrongAlgorithm | MissingPrincipal | JwksUnavailable

fun claimAt :: "jsval \<Rightarrow> string list \<Rightarrow> jsval" where
  "claimAt node [] = node"
| "claimAt node (segment # segments) =
     (case node of
        JObj ps \<Rightarrow> claimAt (member_of segment ps) segments
      | JArr vs \<Rightarrow> claimAt (if is_index segment \<and> undec segment < length vs then vs ! undec segment else JUndef) segments
      | _ \<Rightarrow> JUndef)"

text \<open>
  What jose threw: its code (empty if it has none), the claim it names, its message; or one of this package's own errors. Whether
  the message speaks of the network is \<open>network_like\<close>.
\<close>

record jose_error =
  je_code :: string
  je_claim :: string
  je_message :: string
  je_own :: "access_code option"

definition out_next :: "string \<Rightarrow> bool" where
  "out_next r = (take 3 (dropWhile is_space (if take 1 r = ''d'' then drop 1 r else r)) = ''out'')"

fun timed_out :: "string \<Rightarrow> bool" where
  "timed_out [] = False"
| "timed_out (c # cs) = (take 4 (c # cs) = ''time'' \<and> out_next (drop 4 (c # cs)) \<or> timed_out cs)"

definition network_like :: "string \<Rightarrow> bool" where
  "network_like message =
     (let m = js_lower message in
      list_ex (\<lambda>p. has_infix p m) [''fetch'', ''network'', ''socket'', ''econn'', ''enotfound'', ''expected 200 ok''] \<or> timed_out m)"

definition classify :: "jose_error \<Rightarrow> access_code" where
  "classify e =
     (let c = je_code e;
          rest = (if (c = [] \<or> c = ''ERR_JOSE_GENERIC'') \<and> network_like (je_message e) then JwksUnavailable
                  else case je_own e of Some own \<Rightarrow> own | None \<Rightarrow> Malformed) in
      if c = ''ERR_JWT_EXPIRED'' then Expired
      else if c = ''ERR_JWT_MALFORMED'' then Malformed
      else if c \<in> {''ERR_JWS_SIGNATURE_VERIFICATION_FAILED'', ''ERR_JWS_SIGNATURE_VERIFICATION_INVALID'', ''ERR_JWS_KEY_NOT_FOUND'',
                   ''ERR_JWKS_NO_MATCHING_KEY''} then InvalidSignature
      else if c = ''ERR_JWS_ALGORITHM_NOT_ALLOWED'' \<or> c = ''ERR_JOSE_ALG_NOT_ALLOWED'' then WrongAlgorithm
      else if c = ''ERR_JWT_CLAIM_VALIDATION_FAILED'' then
        (if je_claim e = ''iss'' then BadIssuer else if je_claim e = ''aud'' then BadAudience
         else if je_claim e = ''nbf'' then NotYetValid else rest)
      else if c \<in> {''ERR_JWKS_TIMEOUT'', ''ERR_JWKS_INVALID'', ''ERR_JWKS_MULTIPLE_MATCHING_KEYS''} then JwksUnavailable
      else rest)"

record access_config =
  acf_teamDomain :: string
  acf_audience :: "string list option"
  acf_oidClaimPath :: "string option"
  acf_allowEmailFallback :: bool
  acf_clockTolerance :: "nat option"

datatype access_config_error = NotHttpsOrigin | AudienceRequired | EmptyClaimPath

definition strip_slashes :: "string \<Rightarrow> string" where
  "strip_slashes s = rev (dropWhile (\<lambda>c. c = CHR ''/'') (rev s))"

definition loopback_http :: "string \<Rightarrow> bool" where
  "loopback_http s \<longleftrightarrow> take 7 s = ''http://'' \<and>
     list_ex (\<lambda>h. take (length h) (drop 7 s) = h \<and>
         (let r = drop (7 + length h) s in r = [] \<or> hd r = CHR '':'' \<and> tl r \<noteq> [] \<and> list_all is_digit (tl r)))
       [''127.0.0.1'', ''localhost'', ''[::1]'']"

definition https_origin :: "string \<Rightarrow> bool" where
  "https_origin s \<longleftrightarrow> take 8 s = ''https://'' \<and> drop 8 s \<noteq> [] \<and> CHR ''/'' \<notin> set (drop 8 s)"

record access_verifier =
  av_issuer :: string
  av_audience :: "string list"
  av_algorithms :: "string list"
  av_clockTolerance :: nat
  av_oidClaimPath :: string
  av_allowEmailFallback :: bool

text \<open>The audience of the configuration is \<open>None\<close> where it is absent or the empty text.\<close>

definition createAccessJwtVerifier :: "access_config \<Rightarrow> access_config_error + access_verifier" where
  "createAccessJwtVerifier c =
     (let teamDomain = strip_slashes (acf_teamDomain c);
          path = (case acf_oidClaimPath c of Some p \<Rightarrow> p | None \<Rightarrow> ''oid'') in
      if \<not> https_origin teamDomain \<and> \<not> loopback_http teamDomain then Inl NotHttpsOrigin
      else case acf_audience c of
        None \<Rightarrow> Inl AudienceRequired
      | Some auds \<Rightarrow>
          if path = [] then Inl EmptyClaimPath
          else Inr \<lparr>av_issuer = teamDomain, av_audience = auds, av_algorithms = [''RS256''],
                 av_clockTolerance = (case acf_clockTolerance c of Some n \<Rightarrow> n | None \<Rightarrow> 60),
                 av_oidClaimPath = path, av_allowEmailFallback = acf_allowEmailFallback c\<rparr>)"

record access_principal =
  ap_oid :: "string option"
  ap_email :: "string option"
  ap_sub :: string

text \<open>\<open>jwtVerify\<close> is jose's: the payload of a token it accepts under the options, or what it threw.\<close>

definition access_verify ::
  "(string \<Rightarrow> access_verifier \<Rightarrow> jose_error + jsval) \<Rightarrow> access_verifier \<Rightarrow> string \<Rightarrow> access_code + access_principal" where
  "access_verify jwtVerify v token =
     (case jwtVerify token v of
        Inl e \<Rightarrow> Inl (classify e)
      | Inr payload \<Rightarrow>
          (let email = claim_text ''email'' payload in
           case claim_text ''sub'' payload of
             None \<Rightarrow> Inl MissingPrincipal
           | Some sub \<Rightarrow>
               if sub = [] then Inl MissingPrincipal
               else
                 (case claimAt payload (js_split CHR ''.'' (av_oidClaimPath v)) of
                    JStr oid \<Rightarrow>
                      if oid \<noteq> [] then Inr \<lparr>ap_oid = Some oid, ap_email = email, ap_sub = sub\<rparr>
                      else if av_allowEmailFallback v \<and> email \<noteq> None \<and> email \<noteq> Some []
                      then Inr \<lparr>ap_oid = None, ap_email = email, ap_sub = sub\<rparr> else Inl MissingPrincipal
                  | _ \<Rightarrow>
                      if av_allowEmailFallback v \<and> email \<noteq> None \<and> email \<noteq> Some []
                      then Inr \<lparr>ap_oid = None, ap_email = email, ap_sub = sub\<rparr> else Inl MissingPrincipal)))"

section \<open>Who gets in\<close>

text \<open>A request without a session passes a route that is not public only marked, for a user who is named and not banned.\<close>

lemma admitted_marked:
  assumes "admitPreAuthenticated db env ctx mark st notes = (Inr (), st', notes')"
  shows "\<exists>u. isUuid u \<and> fst (isUserBanned db env u st) = Inr False \<and>
    (case getRequestPrincipal ctx of Some (p, _) \<Rightarrow> u = p \<and> (mark = None \<or> mark = Some p) | None \<Rightarrow> ctx = None \<and> mark = Some u)"
  using assms
  by (auto simp: admitPreAuthenticated_def Let_def split_beta split: option.splits prod.splits if_splits)

lemma written_principal:
  assumes "writePrincipal hook s keyed (Some c) notes = (Inr ctx', notes')"
  shows "\<exists>c'. ctx' = Some c' \<and> cx_userId c' = Some (rs_userId s) \<and> cx_sessionId c' = Some (rs_sessionId s)"
proof -
  have w: "\<exists>c'. ctx1 = Some c' \<and> cx_userId c' = Some u \<and> cx_sessionId c' = Some i"
    if "setRequestPrincipal p (Some c) = Inr (w, ctx1)" "rp_userId p = JStr u" "rp_sessionId p = JStr i" for p w ctx1 u i
    using that by (auto simp: setRequestPrincipal_def and_then_Inr_iff assertId_def split: if_splits)
  show ?thesis
    using assms by (auto simp: writePrincipal_def Let_def split: sum.splits prod.splits dest!: w)
qed


definition example_marked :: guarded_request where
  "example_marked = markPreAuthenticated (Some example_context_id) \<lparr>gr_public = False, gr_mark = None, gr_keyedByAddress = False\<rparr>"


text \<open>An organization is left behind only by a request that answered with success, its owner with it.\<close>

lemma organization_with_owner:
  assumes "pg_tx begins commits aborted transact"
    and "withAtomicOrganizationCreate transact aborted on_pool in_tx base ''POST'' (base @ ''/organization/create'') True d = (r, d')"
  shows "d' = d \<or> (\<exists>res t. r = Inr res \<and> in_tx (begins d) = (Inr res, t) \<and> \<not> aborted t \<and> ar_status res < 400 \<and> d' = commits t)"
  using assms(2) unfolding withAtomicOrganizationCreate_def atomically_def
  by (auto simp: pg_tx.captured [OF assms(1)] split: prod.splits sum.splits if_splits tx_failure.splits create_throw.splits)

lemma access_verify_cases:
  assumes "access_verify jwtVerify v token = Inr p"
  obtains payload oid where "jwtVerify token v = Inr payload" "claim_text ''sub'' payload = Some (ap_sub p)" "ap_sub p \<noteq> []"
      "claimAt payload (js_split CHR ''.'' (av_oidClaimPath v)) = JStr oid" "oid \<noteq> []" "ap_oid p = Some oid"
    | payload where "jwtVerify token v = Inr payload" "claim_text ''sub'' payload = Some (ap_sub p)" "ap_sub p \<noteq> []"
      "ap_oid p = None" "av_allowEmailFallback v" "ap_email p \<noteq> None" "ap_email p \<noteq> Some []" "ap_email p = claim_text ''email'' payload"
proof -
  obtain payload where payload: "jwtVerify token v = Inr payload"
    using assms by (cases "jwtVerify token v") (simp_all add: access_verify_def)
  obtain sub where sub: "claim_text ''sub'' payload = Some sub" "sub \<noteq> []"
    using assms payload by (cases "claim_text ''sub'' payload") (simp_all add: access_verify_def Let_def split: if_split_asm)
  let ?oid = "claimAt payload (js_split CHR ''.'' (av_oidClaimPath v))"
  show thesis
  proof (cases "\<exists>oid. ?oid = JStr oid \<and> oid \<noteq> []")
    case True
    then obtain oid where oid: "?oid = JStr oid" "oid \<noteq> []" by blast
    then show thesis
      using assms payload sub by (intro that(1) [of payload oid]) (auto simp: access_verify_def Let_def)
  next
    case False
    then have "(if av_allowEmailFallback v \<and> claim_text ''email'' payload \<noteq> None \<and> claim_text ''email'' payload \<noteq> Some []
        then Inr \<lparr>ap_oid = None, ap_email = claim_text ''email'' payload, ap_sub = sub\<rparr> else Inl MissingPrincipal) = Inr p"
      using assms payload sub by (cases ?oid) (simp_all add: access_verify_def Let_def)
    then have "av_allowEmailFallback v" "claim_text ''email'' payload \<noteq> None" "claim_text ''email'' payload \<noteq> Some []"
        "p = \<lparr>ap_oid = None, ap_email = claim_text ''email'' payload, ap_sub = sub\<rparr>"
      by (simp_all split: if_split_asm)
    then show thesis
      using payload sub by (intro that(2) [of payload]) (simp_all only: access_principal.simps HOL.simp_thms not_False_eq_True)
  qed
qed


definition example_access :: access_config where
  "example_access = \<lparr>acf_teamDomain = ''https://team.cloudflareaccess.com/'', acf_audience = Some [''aud''], acf_oidClaimPath = Some ''custom.oid'',
     acf_allowEmailFallback = False, acf_clockTolerance = None\<rparr>"

definition example_payload :: jsval where
  "example_payload = JObj [(''sub'', JStr ''s''), (''custom'', JObj [(''oid'', JStr ''o'')])]"


end
