(* ===== verification/SsoSecrets.thy ===== *)
theory SsoSecrets
  imports AccountPolicy Pagination
begin

text \<open>
  The client secrets of identity providers at rest (\<open>identity/src/sso-crypto.ts\<close>, \<open>sso-protect.ts\<close>): the keyring, sealing and
  opening a secret, the same inside a stored configuration, and the adapter that does it on every write and read.
  AES-256-GCM is a parameter; \<open>aead_laws\<close> states what is relied on. A key, an iv and a ciphertext are lists of bytes.
\<close>

section \<open>Base64\<close>

text \<open>\<open>toString('base64')\<close>: the other alphabet, padded. \<open>Buffer.from\<close> reads both (\<open>buffer_from_base64url\<close>).\<close>

definition base64_std :: "nat list \<Rightarrow> string" where
  "base64_std bs =
     map (\<lambda>c. if c = CHR ''-'' then CHR ''+'' else if c = CHR ''_'' then CHR ''/'' else c) (base64url bs) @
     replicate ((3 - length bs mod 3) mod 3) CHR ''=''"

definition to_std :: "char \<Rightarrow> char" where
  "to_std c = (if c = CHR ''-'' then CHR ''+'' else if c = CHR ''_'' then CHR ''/'' else c)"

lemma base64_std_alt: "base64_std bs = map to_std (base64url bs) @ replicate ((3 - length bs mod 3) mod 3) CHR ''=''"
  by (simp add: base64_std_def to_std_def [abs_def])

lemma to_std_b64:
  assumes "is_b64 c"
  shows "to_std c \<noteq> CHR ''=''" "to_std c \<noteq> CHR 0x0A" "to_std c \<noteq> CHR 0x0D"
    "(if to_std c = CHR ''+'' then CHR ''-'' else if to_std c = CHR ''/'' then CHR ''_'' else to_std c) = c"
  using assms by (auto simp: is_b64_def to_std_def char_class_defs)

lemma takeWhile_replicate_stop: "\<forall>c\<in>set xs. P c \<Longrightarrow> \<not> P x \<Longrightarrow> takeWhile P (xs @ replicate n x) = xs"
  by (induction xs) (cases n, auto)

lemma buffer_from_base64_std:
  assumes "bytes bs"
  shows "buffer_from_base64url (base64_std bs) = bs"
proof -
  let ?url = "\<lambda>c. if c = CHR ''+'' then CHR ''-'' else if c = CHR ''/'' then CHR ''_'' else c"
  have a: "\<forall>c\<in>set (base64url bs). is_b64 c"
    using base64url_alphabet [OF assms] .
  have "takeWhile (\<lambda>c. c \<noteq> CHR ''='') (base64_std bs) = map to_std (base64url bs)"
    unfolding base64_std_alt using a to_std_b64(1) by (intro takeWhile_replicate_stop) auto
  moreover have "map ?url (map to_std (base64url bs)) = base64url bs"
    unfolding map_map using a to_std_b64(4) by (intro map_idI) (simp only: comp_def)
  ultimately show ?thesis
    using assms by (simp only: buffer_from_base64url_def from_base64url_base64url)
qed

section \<open>The keyring\<close>

datatype sso_error =
    KeyRequired | BadEntry | DuplicateVersion nat | BadKeyLength nat | NotEncrypted | NoKeyFor nat | TooShort | CannotDecrypt | ParsedNull

record keyring =
  kr_current :: nat
  kr_keys :: "(nat \<times> nat list) list"

definition IV_BYTES :: nat where "IV_BYTES = 12"
definition TAG_BYTES :: nat where "TAG_BYTES = 16"

definition decodeKey :: "string \<Rightarrow> sso_error + nat list" where
  "decodeKey b64 = (let key = buffer_from_base64url (js_trim b64) in if length key \<noteq> 32 then Inl (BadKeyLength (length key)) else Inr key)"

text \<open>A number and the rest after a separator: \<open>\d+\<close> followed by the character.\<close>

definition number_then :: "char \<Rightarrow> string \<Rightarrow> (nat \<times> string) option" where
  "number_then x s =
     (let ds = takeWhile is_digit s in
      case dropWhile is_digit s of
        [] \<Rightarrow> None
      | c # r \<Rightarrow> if ds \<noteq> [] \<and> c = x then Some (undec ds, r) else None)"

definition versioned_entry :: "string \<Rightarrow> (nat \<times> string) option" where
  "versioned_entry s = (case dropWhile is_space s of [] \<Rightarrow> None | c # r \<Rightarrow> if c = CHR ''v'' then number_then CHR ''='' r else None)"

definition one_line :: "string \<Rightarrow> bool" where
  "one_line s \<longleftrightarrow> s \<noteq> [] \<and> list_all (\<lambda>c. c \<noteq> CHR 0x0A \<and> c \<noteq> CHR 0x0D) s"

fun parse_entries :: "string list \<Rightarrow> (nat \<times> nat list) list \<Rightarrow> sso_error + (nat \<times> nat list) list" where
  "parse_entries [] keys = Inr keys"
| "parse_entries (part # parts) keys =
     (case versioned_entry part of
        None \<Rightarrow> Inl BadEntry
      | Some (version, b64) \<Rightarrow>
          if \<not> one_line b64 then Inl BadEntry
          else if map_of keys version \<noteq> None then Inl (DuplicateVersion version)
          else and_then (decodeKey b64) (\<lambda>key. parse_entries parts (keys @ [(version, key)])))"

definition parseKeyring :: "string option \<Rightarrow> sso_error + keyring" where
  "parseKeyring value =
     (case value of
        None \<Rightarrow> Inl KeyRequired
      | Some v \<Rightarrow>
          if js_trim v = [] then Inl KeyRequired
          else if versioned_entry v = None
          then and_then (decodeKey v) (\<lambda>key. Inr \<lparr>kr_current = 1, kr_keys = [(1, key)]\<rparr>)
          else and_then (parse_entries (js_split CHR '','' v) [])
                 (\<lambda>keys. Inr \<lparr>kr_current = foldr max (map fst keys) 0, kr_keys = keys\<rparr>))"

lemma parse_entries_ok:
  "parse_entries parts keys = Inr keys' \<Longrightarrow> distinct (map fst keys) \<Longrightarrow> \<forall>k\<in>set (map snd keys). length k = 32 \<Longrightarrow>
   distinct (map fst keys') \<and> (\<forall>k\<in>set (map snd keys'). length k = 32) \<and> length keys' = length keys + length parts"
proof (induction parts keys rule: parse_entries.induct)
  case (2 part parts keys)
  obtain v b where p: "versioned_entry part = Some (v, b)"
    using "2.prems"(1) by (cases "versioned_entry part") auto
  have o: "one_line b" "map_of keys v = None"
    using "2.prems"(1) p by (simp_all only: parse_entries.simps option.case prod.case split: if_split_asm) simp_all
  obtain key where k: "decodeKey b = Inr key"
    using "2.prems"(1) p o by (cases "decodeKey b") simp_all
  have rest: "parse_entries parts (keys @ [(v, key)]) = Inr keys'"
    using "2.prems"(1) p o k by simp
  have "v \<notin> set (map fst keys)"
    using o(2) by (simp add: map_of_eq_None_iff)
  then have d: "distinct (map fst (keys @ [(v, key)]))"
    using "2.prems"(2) by simp
  have l: "\<forall>k\<in>set (map snd (keys @ [(v, key)])). length k = 32"
    using k "2.prems"(3) by (simp add: decodeKey_def Let_def ball_Un split: if_split_asm)
  have "\<not> \<not> one_line b" "\<not> map_of keys v \<noteq> None"
    using o by simp_all
  from "2.IH" [OF p refl this rest d l] show ?case
    by simp
qed simp

text \<open>An accepted keyring has a 256-bit key for the version it encrypts with, and one key a version.\<close>

lemma foldr_max_in: "xs \<noteq> [] \<Longrightarrow> foldr max xs (0 :: nat) \<in> set xs"
proof (induction xs)
  case (Cons x xs)
  then show ?case by (cases "xs = []") (auto simp: max_def)
qed simp

lemma keyring_usable:
  assumes "parseKeyring value = Inr ring"
  shows "distinct (map fst (kr_keys ring)) \<and> (\<forall>k\<in>set (map snd (kr_keys ring)). length k = 32) \<and>
    (\<exists>key. map_of (kr_keys ring) (kr_current ring) = Some key \<and> length key = 32)"
proof -
  obtain v where v: "value = Some v" "js_trim v \<noteq> []"
    using assms by (cases "value") (simp_all add: parseKeyring_def split: if_split_asm)
  show ?thesis
  proof (cases "versioned_entry v = None")
    case True
    then have "and_then (decodeKey v) (\<lambda>key. Inr \<lparr>kr_current = 1, kr_keys = [(1, key)]\<rparr>) = Inr ring"
      using assms v by (simp add: parseKeyring_def)
    then obtain key where "decodeKey v = Inr key" "ring = \<lparr>kr_current = 1, kr_keys = [(1, key)]\<rparr>"
      by (cases "decodeKey v") simp_all
    then show ?thesis
      by (simp add: decodeKey_def Let_def split: if_split_asm)
  next
    case False
    have "and_then (parse_entries (js_split CHR '','' v) [])
        (\<lambda>keys. Inr \<lparr>kr_current = foldr max (map fst keys) 0, kr_keys = keys\<rparr>) = Inr ring"
      using assms v False by (simp only: parseKeyring_def option.case if_False)
    then obtain keys where k: "parse_entries (js_split CHR '','' v) [] = Inr keys"
        "ring = \<lparr>kr_current = foldr max (map fst keys) 0, kr_keys = keys\<rparr>"
      by (cases "parse_entries (js_split CHR '','' v) []") simp_all
    have ok: "distinct (map fst keys)" "\<forall>k\<in>set (map snd keys). length k = 32" "length keys = length (js_split CHR '','' v)"
      using parse_entries_ok [OF k(1)] by simp_all
    then have "keys \<noteq> []" by auto
    then have "foldr max (map fst keys) 0 \<in> set (map fst keys)"
      by (intro foldr_max_in) simp
    then obtain key where "(foldr max (map fst keys) 0, key) \<in> set keys"
      by auto
    then have "map_of keys (foldr max (map fst keys) 0) = Some key" "length key = 32"
      using ok by force+
    then show ?thesis
      using ok k(2) by auto
  qed
qed

section \<open>One secret\<close>

text \<open>
  \<open>enc key iv text\<close> is the ciphertext and the tag, \<open>dec key iv cipher tag\<close> the plain text if the tag is right. The associated
  data is fixed. \<open>iv\<close> is the 12 random bytes of the call. A deciphered text that is not UTF-8 of the model's characters,
  which no secret sealed here is, is outside the model and stands with the failures.
\<close>

type_synonym aead_enc = "nat list \<Rightarrow> nat list \<Rightarrow> nat list \<Rightarrow> nat list \<times> nat list"
type_synonym aead_dec = "nat list \<Rightarrow> nat list \<Rightarrow> nat list \<Rightarrow> nat list \<Rightarrow> nat list option"

definition isEncrypted :: "string \<Rightarrow> bool" where
  "isEncrypted s \<longleftrightarrow> take 5 s = ''enc:v'' \<and> number_then CHR '':'' (drop 5 s) \<noteq> None"

definition encryptSecret :: "aead_enc \<Rightarrow> nat list \<Rightarrow> string \<Rightarrow> keyring \<Rightarrow> string" where
  "encryptSecret enc iv secret ring =
     (let (body, tag) = enc (the (map_of (kr_keys ring) (kr_current ring))) iv (utf8 secret)
      in ''enc:v'' @ dec (kr_current ring) @ '':'' @ base64_std (iv @ body @ tag))"

definition decryptSecret :: "aead_dec \<Rightarrow> string \<Rightarrow> keyring \<Rightarrow> sso_error + string" where
  "decryptSecret gcm value ring =
     (case (if take 5 value = ''enc:v'' then number_then CHR '':'' (drop 5 value) else None) of
        None \<Rightarrow> Inl NotEncrypted
      | Some (version, b64) \<Rightarrow>
          if \<not> one_line b64 then Inl NotEncrypted
          else case map_of (kr_keys ring) version of
            None \<Rightarrow> Inl (NoKeyFor version)
          | Some key \<Rightarrow>
              let payload = buffer_from_base64url b64; n = length payload in
              if n < IV_BYTES + TAG_BYTES then Inl TooShort
              else case gcm key (take IV_BYTES payload) (drop IV_BYTES (take (n - TAG_BYTES) payload)) (drop (n - TAG_BYTES) payload) of
                None \<Rightarrow> Inl CannotDecrypt
              | Some text \<Rightarrow> (case from_utf8 text of None \<Rightarrow> Inl CannotDecrypt | Some s \<Rightarrow> Inr s))"

section \<open>The secret inside a configuration\<close>

text \<open>
  \<open>JSON.parse\<close> may answer \<open>null\<close>, whose property cannot be read; spreading an object that has the property keeps its place.
\<close>

definition mapClientSecret :: "jsval \<Rightarrow> (string \<Rightarrow> sso_error + string) \<Rightarrow> sso_error + jsval" where
  "mapClientSecret config f =
     (case config of
        JStr t \<Rightarrow>
          (case json_parse t of
             None \<Rightarrow> Inr config
           | Some JNull \<Rightarrow> Inl ParsedNull
           | Some (JObj ps) \<Rightarrow>
               (case member_of ''clientSecret'' ps of
                  JStr s \<Rightarrow>
                    and_then (f s) (\<lambda>s'.
                      (case stringify (JObj (put ''clientSecret'' (JStr s') ps)) of
                         Inr (Some t') \<Rightarrow> Inr (JStr t')
                       | _ \<Rightarrow> Inr JUndef))
                | _ \<Rightarrow> Inr config)
           | Some _ \<Rightarrow> Inr config)
      | _ \<Rightarrow> Inr config)"

definition sealOidcConfig :: "aead_enc \<Rightarrow> nat list \<Rightarrow> jsval \<Rightarrow> keyring \<Rightarrow> sso_error + jsval" where
  "sealOidcConfig enc iv config ring = mapClientSecret config (\<lambda>s. Inr (if isEncrypted s then s else encryptSecret enc iv s ring))"

definition openOidcConfig :: "aead_dec \<Rightarrow> jsval \<Rightarrow> keyring \<Rightarrow> sso_error + jsval" where
  "openOidcConfig gcm config ring = mapClientSecret config (\<lambda>s. if isEncrypted s then decryptSecret gcm s ring else Inr s)"

definition sealSsoClientSecret :: "aead_enc \<Rightarrow> nat list \<Rightarrow> string \<Rightarrow> string option \<Rightarrow> sso_error + string" where
  "sealSsoClientSecret enc iv secret env =
     (if isEncrypted secret then Inr secret else and_then (parseKeyring env) (\<lambda>ring. Inr (encryptSecret enc iv secret ring)))"

section \<open>The adapter\<close>

datatype db_write = DbCreate | DbUpdate | DbUpdateMany | DbFindOne | DbFindMany | DbOther

type_synonym db_row = "(string \<times> jsval) list"

definition seal_row :: "aead_enc \<Rightarrow> nat list \<Rightarrow> keyring \<Rightarrow> db_row \<Rightarrow> sso_error + db_row" where
  "seal_row enc iv ring row =
     (case map_of row ''oidcConfig'' of
        None \<Rightarrow> Inr row
      | Some c \<Rightarrow> and_then (sealOidcConfig enc iv c ring) (\<lambda>c'. Inr (put ''oidcConfig'' c' row)))"

definition open_row :: "aead_dec \<Rightarrow> keyring \<Rightarrow> db_row \<Rightarrow> sso_error + db_row" where
  "open_row gcm ring row =
     (case map_of row ''oidcConfig'' of
        None \<Rightarrow> Inr row
      | Some c \<Rightarrow> and_then (openOidcConfig gcm c ring) (\<lambda>c'. Inr (put ''oidcConfig'' c' row)))"

fun open_rows :: "aead_dec \<Rightarrow> keyring \<Rightarrow> db_row list \<Rightarrow> sso_error + db_row list" where
  "open_rows gcm ring [] = Inr []"
| "open_rows gcm ring (r # rs) = and_then (open_row gcm ring r) (\<lambda>r'. and_then (open_rows gcm ring rs) (\<lambda>rs'. Inr (r' # rs')))"

text \<open>One call on the wrapped adapter: the data written (empty for a read), the store's own call, the rows answered.\<close>

definition protected_call ::
  "aead_enc \<Rightarrow> aead_dec \<Rightarrow> nat list \<Rightarrow> keyring \<Rightarrow> string \<Rightarrow> db_write \<Rightarrow> (db_row \<Rightarrow> 'w \<Rightarrow> db_row list \<times> 'w) \<Rightarrow> db_row \<Rightarrow> 'w \<Rightarrow>
   (sso_error + db_row list) \<times> 'w" where
  "protected_call enc gcm iv ring model op call data w =
     (if model \<noteq> ''ssoProvider'' \<or> op = DbOther then map_prod Inr (\<lambda>w. w) (call data w)
      else
        case (if op = DbCreate \<or> op = DbUpdate \<or> op = DbUpdateMany then seal_row enc iv ring data else Inr data) of
          Inl e \<Rightarrow> (Inl e, w)
        | Inr data' \<Rightarrow>
            let (rows, w') = call data' w in
            (if op = DbUpdateMany then Inr rows else open_rows gcm ring rows, w'))"

section \<open>What is stored and what is read back\<close>

text \<open>What is relied on of AES-256-GCM: it deciphers what it enciphered, and a tag is 16 bytes.\<close>

definition aead_laws :: "aead_enc \<Rightarrow> aead_dec \<Rightarrow> bool" where
  "aead_laws enc gcm \<longleftrightarrow>
     (\<forall>key iv text body tag. bytes text \<longrightarrow> enc key iv text = (body, tag) \<longrightarrow>
        gcm key iv body tag = Some text \<and> length tag = TAG_BYTES \<and> bytes body \<and> bytes tag)"

lemma number_then_dec: "number_then x (dec n @ x # r) = Some (n, r)" if "\<not> is_digit x"
proof -
  have d: "\<forall>c\<in>set (dec n). is_digit c"
    by (rule dec_digits)
  then have "takeWhile is_digit (dec n @ x # r) = dec n" "dropWhile is_digit (dec n @ x # r) = x # r"
    using that by (simp_all add: takeWhile_append_stop dropWhile_append_stop)
  then show ?thesis
    by (simp add: number_then_def)
qed

lemma colon_not_digit: "\<not> is_digit CHR '':''"
  by (simp add: is_digit_def)

lemma encrypted_isEncrypted: "isEncrypted (encryptSecret enc iv secret ring)"
  using colon_not_digit by (simp add: isEncrypted_def encryptSecret_def number_then_dec split: prod.split)

lemma base64url_nil_back: "base64url bs = [] \<Longrightarrow> buffer_from_base64url (base64url bs) = []"
  by (simp add: buffer_from_base64url_def from_base64url_def)

lemma base64_std_one_line:
  assumes "bytes bs" "bs \<noteq> []"
  shows "one_line (base64_std bs)"
proof -
  have "\<forall>c\<in>set (map to_std (base64url bs)). c \<noteq> CHR 0x0A \<and> c \<noteq> CHR 0x0D"
    using base64url_alphabet [OF assms(1)] to_std_b64(2,3) by simp
  moreover have "base64url bs \<noteq> []"
    using buffer_from_base64url_base64url [OF assms(1)] assms(2) by (metis base64url_nil_back)
  ultimately show ?thesis
    by (simp add: one_line_def base64_std_alt list_all_iff ball_Un)
qed

text \<open>A sealed secret opens with any keyring that still has the key of its version.\<close>

lemma decrypt_encrypt:
  assumes "aead_laws enc gcm" "length iv = IV_BYTES" "bytes iv"
    and "map_of (kr_keys ring) (kr_current ring) = Some key" "map_of (kr_keys ring') (kr_current ring) = Some key"
  shows "decryptSecret gcm (encryptSecret enc iv secret ring) ring' = Inr secret"
proof -
  obtain body tag where e: "enc key iv (utf8 secret) = (body, tag)" by fastforce
  then have law: "gcm key iv body tag = Some (utf8 secret)" "length tag = TAG_BYTES" "bytes body" "bytes tag"
    using assms(1) [unfolded aead_laws_def, rule_format, OF _ e] by (simp_all add: bytes_def utf8_bytes)
  let ?p = "iv @ body @ tag"
  have b: "bytes ?p"
    using assms(3) law by (simp add: bytes_def ball_Un)
  have "?p \<noteq> []"
    using law(2) by (cases tag) (simp_all add: TAG_BYTES_def)
  then have one: "one_line (base64_std ?p)"
    using b by (rule base64_std_one_line [rotated])
  have v: "encryptSecret enc iv secret ring = ''enc:v'' @ dec (kr_current ring) @ CHR '':'' # base64_std ?p"
    using assms(4) e by (simp add: encryptSecret_def)
  have n: "number_then CHR '':'' (dec (kr_current ring) @ CHR '':'' # base64_std ?p) = Some (kr_current ring, base64_std ?p)"
    by (rule number_then_dec [OF colon_not_digit])
  have parts: "take IV_BYTES ?p = iv" "drop IV_BYTES (take (length ?p - TAG_BYTES) ?p) = body"
      "drop (length ?p - TAG_BYTES) ?p = tag" "\<not> length ?p < IV_BYTES + TAG_BYTES"
    using assms(2) law(2) by simp_all
  show ?thesis
    unfolding v decryptSecret_def using n one assms(5) parts law(1)
    by (simp add: buffer_from_base64_std [OF b] Let_def del: append_assoc)
qed

subsection \<open>Replacing a property of an object\<close>

lemma put_map:
  "distinct (map fst ps) \<Longrightarrow> k \<in> fst ` set ps \<Longrightarrow> put k v ps = map (\<lambda>p. (fst p, if fst p = k then v else snd p)) ps"
proof (induction ps)
  case (Cons p ps)
  obtain k' w where p: "p = (k', w)" by fastforce
  show ?case
  proof (cases "k' = k")
    case True
    with Cons.prems(1) p have "k \<notin> fst ` set ps" by auto
    then have "map (\<lambda>p. (fst p, if fst p = k then v else snd p)) ps = ps"
      by (intro map_idI) (auto simp: image_iff)
    with True p show ?thesis by simp
  next
    case False
    with Cons p show ?thesis by auto
  qed
qed simp

lemma insort_key_map: "(\<And>p. f (g p) = f p) \<Longrightarrow> insort_key f (g x) (map g xs) = map g (insort_key f x xs)"
  by (induction xs) auto

lemma sort_key_map: "(\<And>p. f (g p) = f p) \<Longrightarrow> sort_key f (map g xs) = map g (sort_key f xs)"
  by (induction xs) (simp_all add: insort_key_map)

lemma own_order_map:
  fixes g :: "string \<times> 'v \<Rightarrow> string \<times> 'v"
  assumes "\<And>p. fst (g p) = fst p"
  shows "own_order (map g ps) = map g (own_order ps)"
proof -
  have "sort_key (\<lambda>p. undec (fst p)) (map g xs) = map g (sort_key (\<lambda>p. undec (fst p)) xs)" for xs
    by (rule sort_key_map) (simp add: assms)
  then show ?thesis
    by (simp add: own_order_def filter_map comp_def assms)
qed

lemma plain_members_iff: "plain_members ps \<longleftrightarrow> (\<forall>p\<in>set ps. plain (snd p))"
  by (induction ps) auto

lemma plain_put:
  assumes "plain (JObj ps)" "k \<in> fst ` set ps" "plain v"
  shows "plain (JObj (put k v ps))"
proof -
  let ?g = "\<lambda>p. (fst p, if fst p = k then v else snd p)"
  have "put k v ps = map ?g ps"
    using assms by (intro put_map) auto
  moreover have "own_order (map ?g ps) = map ?g ps"
    using assms(1) own_order_map [of ?g ps] by simp
  moreover have "plain_members (map ?g ps)"
    using assms by (auto simp: plain_members_iff)
  ultimately show ?thesis
    using assms(1) by (simp add: comp_def)
qed

lemma put_put_same: "map_of ps k = Some w \<Longrightarrow> put k w (put k v ps) = ps"
  by (induction ps) (auto split: if_splits)

lemma map_of_put_same: "map_of (put k v ps) k = Some v"
  by (induction ps) auto

text \<open>
  C31. A client secret is stored sealed and read back: in a configuration stored as the JSON text of an object that holds a
  client secret in clear, sealing with an accepted keyring replaces that property, and nothing else, by an \<open>enc:v<N>:\<close> text of
  the keyring's current version; and opening the result, under any keyring that still has the key of that version, so also
  after a rotation, gives back the text as it was.
\<close>

theorem sealed_config_round_trip:
  assumes "aead_laws enc gcm" and "length iv = IV_BYTES" and "bytes iv"
    and "map_of (kr_keys ring) (kr_current ring) = Some key" and "map_of (kr_keys ring') (kr_current ring) = Some key"
    and "plain (JObj ps)" and "map_of ps ''clientSecret'' = Some (JStr secret)" and "\<not> isEncrypted secret"
    and "stringify (JObj ps) = Inr (Some t)"
  shows "\<exists>sealed t'. sealOidcConfig enc iv (JStr t) ring = Inr (JStr t') \<and>
    stringify (JObj (put ''clientSecret'' (JStr sealed) ps)) = Inr (Some t') \<and> isEncrypted sealed \<and>
    sealed = encryptSecret enc iv secret ring \<and>
    openOidcConfig gcm (JStr t') ring' = Inr (JStr t)"
proof -
  let ?sealed = "encryptSecret enc iv secret ring"
  let ?ps = "put ''clientSecret'' (JStr ?sealed) ps"
  have k: "''clientSecret'' \<in> fst ` set ps"
    using assms(7) by (force dest: map_of_SomeD)
  have pl: "plain (JObj ?ps)"
    using plain_put [OF assms(6) k] by simp
  then obtain t' where t': "stringify (JObj ?ps) = Inr (Some t')"
    by (simp add: stringify_plain)
  have "json_parse t = Some (JObj ps)" "json_parse t' = Some (JObj ?ps)"
    using stringify_parse assms(6,9) pl t' by blast+
  moreover have "decryptSecret gcm ?sealed ring' = Inr secret"
    using decrypt_encrypt [OF assms(1-5)] .
  ultimately show ?thesis
    using t' assms(7-9) encrypted_isEncrypted [of enc iv secret ring]
    by (intro exI [of _ ?sealed] exI [of _ t'])
      (simp add: sealOidcConfig_def openOidcConfig_def mapClientSecret_def member_of_def map_of_put_same put_put_same)
qed

definition example_enc :: aead_enc where
  "example_enc key iv text = (text, replicate 16 0)"

definition example_gcm :: aead_dec where
  "example_gcm key iv body tag = Some body"

definition example_ring :: keyring where
  "example_ring = \<lparr>kr_current = 1, kr_keys = [(1, replicate 32 0)]\<rparr>"

theorem sealed_config_round_trip_witness:
  "\<exists>sealed t'. sealOidcConfig example_enc (replicate 12 0) (JStr (''{\"clientSecret\":\"s\"}'')) example_ring = Inr (JStr t') \<and>
    stringify (JObj (put ''clientSecret'' (JStr sealed) [(''clientSecret'', JStr ''s'')])) = Inr (Some t') \<and> isEncrypted sealed \<and>
    sealed = encryptSecret example_enc (replicate 12 0) ''s'' example_ring \<and>
    openOidcConfig example_gcm (JStr t') example_ring = Inr (JStr (''{\"clientSecret\":\"s\"}''))"
proof (rule sealed_config_round_trip [where key = "replicate 32 0"])
  show "aead_laws example_enc example_gcm"
    by (simp add: aead_laws_def example_enc_def example_gcm_def TAG_BYTES_def bytes_def)
  show "length (replicate 12 (0 :: nat)) = IV_BYTES" "bytes (replicate 12 0)"
    by (simp_all add: IV_BYTES_def bytes_def)
  show "map_of (kr_keys example_ring) (kr_current example_ring) = Some (replicate 32 0)"
    "map_of (kr_keys example_ring) (kr_current example_ring) = Some (replicate 32 0)"
    by (simp_all add: example_ring_def)
  show "plain (JObj [(''clientSecret'', JStr ''s'')])"
    by (simp add: own_order_def is_index_def is_digit_def)
  show "map_of [(''clientSecret'', JStr ''s'')] ''clientSecret'' = Some (JStr ''s'')"
    by simp
  show "\<not> isEncrypted ''s''"
    by (simp add: isEncrypted_def)
  show "stringify (JObj [(''clientSecret'', JStr ''s'')]) = Inr (Some (''{\"clientSecret\":\"s\"}''))"
    by code_simp
qed

end
