(* ===== verification/IdentityConfig.thy ===== *)
theory IdentityConfig
  imports SsoSecrets AuthMail
begin

text \<open>
  Building an instance (\<open>identity/src/create-identity.ts\<close>): what \<open>createIdentity\<close> refuses and the settings it derives, with the
  limits on the redirect endpoints (\<open>rate-limit.ts\<close>), the passwordless sign-in of test suites (\<open>test-login.ts\<close>) and the security
  events (\<open>plugins.ts\<close>). Assembling Better Auth itself is not modelled; the settings are what it is given.
\<close>

section \<open>The limits on the redirect endpoints\<close>

record rate_rule =
  rr_window :: int
  rr_max :: int

datatype rate_config_error = NotAnObject | UnknownKey string | GroupNotAnObject string | NotAnIntegerIn string

definition MAX_WINDOW_SECONDS :: int where "MAX_WINDOW_SECONDS = 3600"
definition MAX_REQUESTS :: int where "MAX_REQUESTS = 10000"

definition integer_setting :: "string \<Rightarrow> jsval \<Rightarrow> int \<Rightarrow> int \<Rightarrow> rate_config_error + int" where
  "integer_setting name v lo hi =
     (case v of JNum n \<Rightarrow> if n < lo \<or> hi < n then Inl (NotAnIntegerIn name) else Inr n | _ \<Rightarrow> Inl (NotAnIntegerIn name))"

definition is_object :: "jsval \<Rightarrow> bool" where
  "is_object v = (case v of JObj _ \<Rightarrow> True | JArr _ \<Rightarrow> True | JBuf _ \<Rightarrow> True | JStream _ \<Rightarrow> True | _ \<Rightarrow> False)"

definition object_keys :: "jsval \<Rightarrow> string list" where
  "object_keys v = (case v of JObj ps \<Rightarrow> map fst ps | JArr vs \<Rightarrow> map dec [0..<length vs] | JBuf bs \<Rightarrow> map dec [0..<length bs]
     | JStream ps \<Rightarrow> map fst ps | _ \<Rightarrow> [])"

definition resolve_limit :: "string \<Rightarrow> rate_rule \<Rightarrow> jsval \<Rightarrow> rate_config_error + rate_rule" where
  "resolve_limit grp d limit =
     (if limit = JUndef then Inr d
      else if \<not> is_object limit then Inl (GroupNotAnObject grp)
      else
        and_then (integer_setting (grp @ ''.windowSeconds'') (property_of ''windowSeconds'' limit) 1 MAX_WINDOW_SECONDS) (\<lambda>w.
        and_then (integer_setting (grp @ ''.max'') (property_of ''max'' limit) 1 MAX_REQUESTS) (\<lambda>m.
          Inr \<lparr>rr_window = w, rr_max = m\<rparr>)))"

definition START_PATHS :: "string list" where "START_PATHS = [''/sign-in/social'', ''/sign-in/sso'']"
definition CALLBACK_PATHS :: "string list" where "CALLBACK_PATHS = [''/callback/*'', ''/sso/callback/*'']"

definition oauthRateLimitRules :: "jsval \<Rightarrow> rate_config_error + (string \<times> rate_rule) list" where
  "oauthRateLimitRules limit =
     (if limit \<noteq> JUndef \<and> \<not> is_object limit then Inl NotAnObject
      else
        (case filter (\<lambda>k. k \<noteq> ''start'' \<and> k \<noteq> ''callback'') (object_keys limit) of
           k # _ \<Rightarrow> Inl (UnknownKey k)
         | [] \<Rightarrow>
             and_then (resolve_limit ''start'' \<lparr>rr_window = 60, rr_max = 120\<rparr> (property_of ''start'' limit)) (\<lambda>start_rule.
             and_then (resolve_limit ''callback'' \<lparr>rr_window = 10, rr_max = 100\<rparr> (property_of ''callback'' limit)) (\<lambda>callback_rule.
               Inr (map (\<lambda>p. (p, start_rule)) START_PATHS @ map (\<lambda>p. (p, callback_rule)) CALLBACK_PATHS)))))"

lemma rules_bounded:
  assumes "oauthRateLimitRules limit = Inr rules"
  shows "map fst rules = START_PATHS @ CALLBACK_PATHS \<and>
    (\<forall>r\<in>set (map snd rules). 1 \<le> rr_window r \<and> rr_window r \<le> 3600 \<and> 1 \<le> rr_max r \<and> rr_max r \<le> 10000)"
proof -
  have ok: "1 \<le> rr_window r \<and> rr_window r \<le> 3600 \<and> 1 \<le> rr_max r \<and> rr_max r \<le> 10000"
    if "resolve_limit g d v = Inr r" "1 \<le> rr_window d" "rr_window d \<le> 3600" "1 \<le> rr_max d" "rr_max d \<le> 10000" for g d v r
    using that by (auto simp: resolve_limit_def and_then_Inr_iff integer_setting_def MAX_WINDOW_SECONDS_def MAX_REQUESTS_def
        split: if_splits jsval.splits)
  obtain s c where "resolve_limit ''start'' \<lparr>rr_window = 60, rr_max = 120\<rparr> (property_of ''start'' limit) = Inr s"
      "resolve_limit ''callback'' \<lparr>rr_window = 10, rr_max = 100\<rparr> (property_of ''callback'' limit) = Inr c"
      "rules = map (\<lambda>p. (p, s)) START_PATHS @ map (\<lambda>p. (p, c)) CALLBACK_PATHS"
    using assms by (auto simp: oauthRateLimitRules_def and_then_Inr_iff split: if_splits list.splits)
  then show ?thesis
    using ok by (fastforce simp: START_PATHS_def CALLBACK_PATHS_def)
qed

section \<open>The passwordless sign-in\<close>

datatype test_login_refusal = NotATestEnvironment | NotEnabled

definition assertTestLoginAllowed :: "(string \<Rightarrow> string option) \<Rightarrow> test_login_refusal + unit" where
  "assertTestLoginAllowed env =
     (if (case env ''NODE_ENV'' of Some e \<Rightarrow> e | None \<Rightarrow> []) \<notin> {''test'', ''development''} then Inl NotATestEnvironment
      else if env ''IDENTITY_TEST_LOGIN'' \<noteq> Some ''enabled'' then Inl NotEnabled
      else Inr ())"

section \<open>The instance\<close>

record identity_options =
  io_product :: string
  io_baseURL :: string
  io_presets :: "string list"
  io_trustedOrigins :: "string list"
  io_staff :: "staff_options option"
  io_google :: bool
  io_mail :: bool
  io_hostCookies :: jsval
  io_context :: "context_options option option"
  io_oauthRateLimit :: jsval
  io_allowOrganizationCreation :: bool
  io_testLogin :: bool

datatype identity_config_error =
    PresetRequired | OriginsRequired | StaffRequired | MailRequired | SecretRequired | HttpsRequired
  | HostCookiesNotBoolean | HostCookiesNeedHttps | TestNetworkRefused | KeyringRefused sso_error | StaffDomainsRefused
  | RateLimitRefused rate_config_error | ContextRefusedConfig context_error | TestLoginRefused test_login_refusal

record identity_settings =
  iset_expiresIn :: nat
  iset_updateAge :: nat
  iset_cookieCache :: bool
  iset_useSecureCookies :: bool
  iset_cookiePrefix :: string
  iset_cookieAttributes :: "(bool \<times> string) option"
  iset_password :: bool
  iset_verification :: bool
  iset_microsoft :: bool
  iset_google :: bool
  iset_contextField :: bool
  iset_plugins :: "string list"
  iset_rules :: "(string \<times> rate_rule) list"
  iset_keyring :: "keyring option"
  iset_allowLocalNetwork :: bool
  iset_staffDomains :: "string list"
  iset_reservedDomains :: "string list"

definition MIN_SECRET_LENGTH :: nat where "MIN_SECRET_LENGTH = 32"

definition https_url :: "string \<Rightarrow> bool" where
  "https_url u \<longleftrightarrow> take 8 u = ''https://''"

definition keep_if :: "bool \<Rightarrow> string list \<Rightarrow> string list" where
  "keep_if b xs = (if b then xs else [])"

text \<open>The checks in the order of the code: those at the top, the context runtime's, the limits', the test login's.\<close>

definition identity_checks :: "identity_options \<Rightarrow> (string \<Rightarrow> string option) \<Rightarrow> bool \<Rightarrow> identity_config_error + keyring option" where
  "identity_checks opts env unsafeTestNetwork =
     (let production = env ''NODE_ENV'' = Some ''production'';
          has = (\<lambda>p. p \<in> set (io_presets opts));
          https = https_url (io_baseURL opts);
          hostCookies = io_hostCookies opts = JBool True in
      and_then (require (io_presets opts \<noteq> []) PresetRequired) (\<lambda>_.
      and_then (require (io_trustedOrigins opts \<noteq> []) OriginsRequired) (\<lambda>_.
      and_then (require (\<not> has ''staff'' \<or> io_staff opts \<noteq> None) StaffRequired) (\<lambda>_.
      and_then (require (\<not> has ''public'' \<or> io_mail opts) MailRequired) (\<lambda>_.
      and_then (require (case env ''BETTER_AUTH_SECRET'' of Some s \<Rightarrow> MIN_SECRET_LENGTH \<le> length s | None \<Rightarrow> False) SecretRequired) (\<lambda>_.
      and_then (require (\<not> production \<or> https) HttpsRequired) (\<lambda>_.
      and_then (require (case io_hostCookies opts of JUndef \<Rightarrow> True | JBool _ \<Rightarrow> True | _ \<Rightarrow> False) HostCookiesNotBoolean) (\<lambda>_.
      and_then (require (\<not> hostCookies \<or> https) HostCookiesNeedHttps) (\<lambda>_.
      and_then (require (\<not> (production \<and> unsafeTestNetwork)) TestNetworkRefused) (\<lambda>_.
      and_then (if has ''organizations'' then
                  (case parseKeyring (env ''IDENTITY_ENCRYPTION_KEY'') of Inl e \<Rightarrow> Inl (KeyringRefused e) | Inr ring \<Rightarrow> Inr (Some ring))
                else Inr None) (\<lambda>ring.
      and_then (require (staffDomainsProblem (map JStr (case io_staff opts of Some s \<Rightarrow> so_domains s | None \<Rightarrow> [])) = None) StaffDomainsRefused) (\<lambda>_.
        Inr ring))))))))))))"

definition identity_plugins :: "identity_options \<Rightarrow> string list" where
  "identity_plugins opts =
     (let has = (\<lambda>p. p \<in> set (io_presets opts)) in
      keep_if (has ''organizations'') [''organization'', ''sso'', ''qnsc-sso-registration-guard''] @ [''admin''] @
      keep_if (has ''public'') [''two-factor''] @ keep_if (has ''staff'') [''qnsc-staff-refresh-guard''] @
      keep_if (io_context opts \<noteq> None) [''qnsc-context''] @
      [''qnsc-banned-session-guard'', ''qnsc-account-lockout'', ''qnsc-company-domain-sign-up'', ''qnsc-security-events''] @
      keep_if (io_testLogin opts) [''qnsc-test-login''])"

definition settings_of ::
  "identity_options \<Rightarrow> bool \<Rightarrow> keyring option \<Rightarrow> (string \<times> rate_rule) list \<Rightarrow> identity_settings" where
  "settings_of opts unsafeTestNetwork ring rules =
     (let has = (\<lambda>p. p \<in> set (io_presets opts));
          hostCookies = io_hostCookies opts = JBool True;
          staffDomains = normalizeStaffDomains (case io_staff opts of Some s \<Rightarrow> so_domains s | None \<Rightarrow> []);
          staffOnly = has ''staff'' \<and> \<not> has ''public'' in
      \<lparr>iset_expiresIn = (if staffOnly then 12 * 3600 else 7 * 86400),
       iset_updateAge = (if staffOnly then 3600 else 86400),
       iset_cookieCache = (\<not> staffOnly \<and> \<not> has ''staff''),
       iset_useSecureCookies = (\<not> hostCookies),
       iset_cookiePrefix = (if hostCookies then ''__Host-'' @ io_product opts else io_product opts),
       iset_cookieAttributes = (if hostCookies then Some (True, ''/'') else None),
       iset_password = has ''public'',
       iset_verification = io_mail opts,
       iset_microsoft = has ''staff'',
       iset_google = (has ''public'' \<and> io_google opts),
       iset_contextField = (io_context opts \<noteq> None),
       iset_plugins = identity_plugins opts,
       iset_rules = rules,
       iset_keyring = ring,
       iset_allowLocalNetwork = unsafeTestNetwork,
       iset_staffDomains = staffDomains,
       iset_reservedDomains = staffReservedDomains staffDomains\<rparr>)"

definition createIdentity ::
  "identity_options \<Rightarrow> (string \<Rightarrow> string option) \<Rightarrow> bool \<Rightarrow> identity_config_error + identity_settings" where
  "createIdentity opts env unsafeTestNetwork =
     and_then (identity_checks opts env unsafeTestNetwork) (\<lambda>ring.
     and_then (case io_context opts of None \<Rightarrow> Inr ()
               | Some c \<Rightarrow> (case validateContextOptions (Some c) of Inl e \<Rightarrow> Inl (ContextRefusedConfig e) | Inr _ \<Rightarrow> Inr ())) (\<lambda>_.
     and_then (case oauthRateLimitRules (io_oauthRateLimit opts) of Inl e \<Rightarrow> Inl (RateLimitRefused e) | Inr r \<Rightarrow> Inr r) (\<lambda>rules.
     and_then (if io_testLogin opts
               then (case assertTestLoginAllowed env of Inl e \<Rightarrow> Inl (TestLoginRefused e) | Inr _ \<Rightarrow> Inr ()) else Inr ()) (\<lambda>_.
       Inr (settings_of opts unsafeTestNetwork ring rules)))))"

section \<open>What is built is safe\<close>

lemma checks_passed:
  assumes "identity_checks opts env unsafeTestNetwork = Inr ring"
  shows "(env ''NODE_ENV'' = Some ''production'' \<longrightarrow> https_url (io_baseURL opts) \<and> \<not> unsafeTestNetwork) \<and>
    (\<exists>s. env ''BETTER_AUTH_SECRET'' = Some s \<and> 32 \<le> length s) \<and>
    (io_hostCookies opts = JBool True \<longrightarrow> https_url (io_baseURL opts)) \<and>
    (''organizations'' \<in> set (io_presets opts) \<longleftrightarrow> ring \<noteq> None) \<and>
    (\<forall>r. ring = Some r \<longrightarrow> parseKeyring (env ''IDENTITY_ENCRYPTION_KEY'') = Inr r)"
  using assms
  by (auto simp: identity_checks_def Let_def and_then_Inr_iff require_Inr_iff MIN_SECRET_LENGTH_def
      split: option.splits if_splits sum.splits)

lemma created:
  assumes "createIdentity opts env unsafeTestNetwork = Inr cfg"
  shows "\<exists>ring. identity_checks opts env unsafeTestNetwork = Inr ring \<and>
    oauthRateLimitRules (io_oauthRateLimit opts) = Inr (iset_rules cfg) \<and>
    cfg = settings_of opts unsafeTestNetwork ring (iset_rules cfg) \<and> (io_testLogin opts \<longrightarrow> assertTestLoginAllowed env = Inr ())"
proof -
  obtain ring where ring: "identity_checks opts env unsafeTestNetwork = Inr ring"
    using assms by (cases "identity_checks opts env unsafeTestNetwork") (simp_all add: createIdentity_def)
  obtain rules where rules: "oauthRateLimitRules (io_oauthRateLimit opts) = Inr rules" "cfg = settings_of opts unsafeTestNetwork ring rules"
      "io_testLogin opts \<longrightarrow> assertTestLoginAllowed env = Inr ()"
    using assms ring unfolding createIdentity_def
    by (cases "oauthRateLimitRules (io_oauthRateLimit opts)"; cases "assertTestLoginAllowed env")
      (simp_all add: and_then_Inr_iff split: if_splits)
  then show ?thesis
    using ring by (simp add: settings_of_def Let_def)
qed

lemma settings_fields:
  "iset_allowLocalNetwork (settings_of opts u ring rules) = u"
  "iset_cookieCache (settings_of opts u ring rules) = (''staff'' \<notin> set (io_presets opts))"
  "iset_cookiePrefix (settings_of opts u ring rules) =
    (if io_hostCookies opts = JBool True then ''__Host-'' @ io_product opts else io_product opts)"
  "iset_cookieAttributes (settings_of opts u ring rules) = (if io_hostCookies opts = JBool True then Some (True, ''/'') else None)"
  "iset_useSecureCookies (settings_of opts u ring rules) = (io_hostCookies opts \<noteq> JBool True)"
  "iset_expiresIn (settings_of opts u ring rules) =
    (if ''staff'' \<in> set (io_presets opts) \<and> ''public'' \<notin> set (io_presets opts) then 43200 else 604800)"
  "iset_plugins (settings_of opts u ring rules) = identity_plugins opts" "iset_keyring (settings_of opts u ring rules) = ring"
  unfolding settings_of_def Let_def by auto

lemma plugins_loaded:
  "''qnsc-test-login'' \<in> set (identity_plugins opts) \<longleftrightarrow> io_testLogin opts"
  "''staff'' \<in> set (io_presets opts) \<Longrightarrow> ''qnsc-staff-refresh-guard'' \<in> set (identity_plugins opts)"
  "set [''qnsc-banned-session-guard'', ''qnsc-account-lockout'', ''qnsc-company-domain-sign-up'', ''qnsc-security-events'']
    \<subseteq> set (identity_plugins opts)"
  by (simp_all add: identity_plugins_def keep_if_def Let_def)

text \<open>
  C37. An instance that is built is built safely, whatever options it was given: in production it has an https origin, no
  exception for local networks and no passwordless sign-in; its secret is 32 characters or more; with the staff preset no
  cookie vouches for a session, and staff alone sign in for twelve hours; every limit on the redirect endpoints is there
  and between 1 and 10000 requests in 1 to 3600 seconds; with organizations there is a 256-bit key to seal their secrets with; and a
  \<open>__Host-\<close> cookie is secure and of an https origin.
\<close>

theorem built_instance_safe:
  assumes "createIdentity opts env unsafeTestNetwork = Inr cfg"
  shows "(env ''NODE_ENV'' = Some ''production'' \<longrightarrow>
      https_url (io_baseURL opts) \<and> \<not> iset_allowLocalNetwork cfg \<and> ''qnsc-test-login'' \<notin> set (iset_plugins cfg)) \<and>
    (\<exists>s. env ''BETTER_AUTH_SECRET'' = Some s \<and> 32 \<le> length s) \<and>
    (''staff'' \<in> set (io_presets opts) \<longrightarrow> \<not> iset_cookieCache cfg \<and> ''qnsc-staff-refresh-guard'' \<in> set (iset_plugins cfg) \<and>
      (''public'' \<notin> set (io_presets opts) \<longrightarrow> iset_expiresIn cfg = 43200)) \<and>
    map fst (iset_rules cfg) = START_PATHS @ CALLBACK_PATHS \<and>
    (\<forall>r\<in>set (map snd (iset_rules cfg)). 1 \<le> rr_window r \<and> rr_window r \<le> 3600 \<and> 1 \<le> rr_max r \<and> rr_max r \<le> 10000) \<and>
    (''organizations'' \<in> set (io_presets opts) \<longrightarrow>
      (\<exists>ring key. iset_keyring cfg = Some ring \<and> map_of (kr_keys ring) (kr_current ring) = Some key \<and> length key = 32)) \<and>
    (take 7 (iset_cookiePrefix cfg) = ''__Host-'' \<longrightarrow> take 7 (io_product opts) \<noteq> ''__Host-'' \<longrightarrow>
      https_url (io_baseURL opts) \<and> iset_cookieAttributes cfg = Some (True, ''/'') \<and> \<not> iset_useSecureCookies cfg) \<and>
    set [''qnsc-banned-session-guard'', ''qnsc-account-lockout'', ''qnsc-company-domain-sign-up'', ''qnsc-security-events'']
      \<subseteq> set (iset_plugins cfg)"
proof -
  obtain ring where ring: "identity_checks opts env unsafeTestNetwork = Inr ring"
      "oauthRateLimitRules (io_oauthRateLimit opts) = Inr (iset_rules cfg)"
      "cfg = settings_of opts unsafeTestNetwork ring (iset_rules cfg)" "io_testLogin opts \<longrightarrow> assertTestLoginAllowed env = Inr ()"
    using created [OF assms] by metis
  note c = checks_passed [OF ring(1)]
  have tl: "io_testLogin opts \<Longrightarrow> env ''NODE_ENV'' \<noteq> Some ''production''"
    using ring(4) by (auto simp: assertTestLoginAllowed_def split: if_splits)
  note cfg = settings_fields [of opts unsafeTestNetwork ring "iset_rules cfg", folded ring(3)]
  have "\<exists>ring key. iset_keyring cfg = Some ring \<and> map_of (kr_keys ring) (kr_current ring) = Some key \<and> length key = 32"
    if "''organizations'' \<in> set (io_presets opts)"
    using c that cfg(8) keyring_usable by blast
  moreover have "''qnsc-test-login'' \<notin> set (iset_plugins cfg)" if "env ''NODE_ENV'' = Some ''production''"
    using tl that by (auto simp: cfg(7) plugins_loaded)
  ultimately show ?thesis
    using c cfg(1-6) rules_bounded [OF ring(2)] plugins_loaded(2,3) [of opts] by (simp add: cfg(7))
qed

definition example_options :: identity_options where
  "example_options = \<lparr>io_product = ''rova'', io_baseURL = ''https://rova.example'', io_presets = [''public'', ''staff''],
     io_trustedOrigins = [''https://rova.example''], io_staff = Some example_staff, io_google = False, io_mail = True,
     io_hostCookies = JBool True, io_context = None, io_oauthRateLimit = JUndef, io_allowOrganizationCreation = False, io_testLogin = False\<rparr>"

definition example_environment :: "string \<Rightarrow> string option" where
  "example_environment = [''NODE_ENV'' \<mapsto> ''production'', ''BETTER_AUTH_SECRET'' \<mapsto> replicate 32 CHR ''s'']"

theorem built_instance_safe_witness:
  "\<exists>cfg. createIdentity example_options example_environment False = Inr cfg \<and> \<not> iset_allowLocalNetwork cfg \<and> \<not> iset_cookieCache cfg \<and>
     ''qnsc-test-login'' \<notin> set (iset_plugins cfg) \<and> iset_cookieAttributes cfg = Some (True, ''/'')"
proof -
  have "staffDomainsProblem [JStr ''qnsc.vn''] = None"
    by code_simp
  then have c: "identity_checks example_options example_environment False = Inr None"
    by (simp add: identity_checks_def Let_def example_options_def example_environment_def example_staff_def https_url_def MIN_SECRET_LENGTH_def)
  have "is_ok (oauthRateLimitRules JUndef)"
    by code_simp
  then obtain rules where rules: "oauthRateLimitRules (io_oauthRateLimit example_options) = Inr rules"
    by (cases "oauthRateLimitRules JUndef") (auto simp: example_options_def)
  have r: "createIdentity example_options example_environment False = Inr (settings_of example_options False None rules)"
    using c rules by (simp add: createIdentity_def) (simp add: example_options_def)
  have "iset_cookieAttributes (settings_of example_options False None rules) = Some (True, ''/'')"
    by (simp add: settings_fields example_options_def)
  then show ?thesis
    using built_instance_safe [OF r] r by (auto simp: example_options_def example_environment_def)
qed

section \<open>Security events\<close>

record security_event =
  sev_name :: string
  sev_userId :: "string option"
  sev_ip :: "string option"
  sev_method :: "string option"

definition truthy :: "string option \<Rightarrow> string option" where
  "truthy v = (case v of Some s \<Rightarrow> if s = [] then None else Some s | None \<Rightarrow> None)"

definition EVENT_BY_PATH :: "(string \<times> string) list" where
  "EVENT_BY_PATH =
     [(''/request-password-reset'', ''password.reset_requested''), (''/reset-password'', ''password.reset''),
      (''/revoke-sessions'', ''sessions.revoked''), (''/revoke-other-sessions'', ''sessions.revoked''),
      (''/admin/revoke-user-sessions'', ''sessions.revoked''), (''/admin/ban-user'', ''admin.user_banned'')]"

text \<open>The after hooks: the path's pattern, the user of a new session, the address of the mount, whether the endpoint failed.\<close>

definition securityEvents :: "string option \<Rightarrow> string option \<Rightarrow> string option \<Rightarrow> bool \<Rightarrow> security_event list" where
  "securityEvents path userId ip failed =
     (case path of
        None \<Rightarrow> []
      | Some p \<Rightarrow>
          (if p \<in> {''/callback/:id'', ''/sso/callback/:providerId''}
           then [\<lparr>sev_name = (if truthy userId \<noteq> None then ''sign_in.success'' else ''sign_in.failure''), sev_userId = truthy userId,
                  sev_ip = truthy ip, sev_method = Some (if p = ''/sso/callback/:providerId'' then ''sso'' else ''social'')\<rparr>] else []) @
          (if p = ''/sign-in/email''
           then [\<lparr>sev_name = (if failed then ''sign_in.failure'' else ''sign_in.success''), sev_userId = truthy userId, sev_ip = truthy ip,
                  sev_method = None\<rparr>]
           else if failed then []
           else (case map_of EVENT_BY_PATH p of
                   Some name \<Rightarrow> [\<lparr>sev_name = name, sev_userId = None, sev_ip = truthy ip, sev_method = None\<rparr>]
                 | None \<Rightarrow> [])))"

text \<open>A refused reset, revocation or ban raises no event.\<close>

lemma refused_no_event: "failed \<Longrightarrow> p \<in> fst ` set EVENT_BY_PATH \<Longrightarrow> securityEvents (Some p) userId ip failed = []"
  by (auto simp: securityEvents_def EVENT_BY_PATH_def)

end
