(* ===== verification/OtelBootstrap.thy ===== *)
theory OtelBootstrap
  imports Telemetry
begin

text \<open>
  The telemetry of a process: what its log lines say of it (\<open>observability/src/logger-env.ts\<close>, \<open>logger.factory.ts\<close>, \<open>script-logger.ts\<close>),
  and starting OpenTelemetry (\<open>otel.bootstrap.ts\<close>). pino and the SDK are not part of the repository: the model is what they are
  given.
\<close>

section \<open>What a log line says of its process\<close>

text \<open>\<open>text_or v d\<close> is \<open>v || d\<close>, \<open>if_missing v d\<close> is \<open>v ?? d\<close>: they differ on the empty text.\<close>

definition text_or :: "string option \<Rightarrow> string \<Rightarrow> string" where
  "text_or v d = (case v of Some s \<Rightarrow> if s = [] then d else s | None \<Rightarrow> d)"

definition if_missing :: "'a option \<Rightarrow> 'a \<Rightarrow> 'a" where
  "if_missing v d = (case v of Some s \<Rightarrow> s | None \<Rightarrow> d)"

record logger_options =
  lo_serviceName :: string
  lo_nodeEnv :: string
  lo_deploymentEnv :: "string option"
  lo_serviceVersion :: string
  lo_level :: string
  lo_pretty :: "bool option"

definition loggerOptionsFromEnv :: "env \<Rightarrow> string option \<Rightarrow> logger_options" where
  "loggerOptionsFromEnv env defaultServiceName =
     \<lparr>lo_serviceName = text_or (env ''OTEL_SERVICE_NAME'') (text_or defaultServiceName ''app''),
      lo_nodeEnv = text_or (env ''NODE_ENV'') ''development'',
      lo_deploymentEnv = (case env ''DEPLOYMENT_ENV'' of None \<Rightarrow> None | Some s \<Rightarrow> if s = [] then None else Some s),
      lo_serviceVersion = text_or (env ''SERVICE_VERSION'') ''dev'',
      lo_level = text_or (env ''LOG_LEVEL'') ''info'',
      lo_pretty = (case env ''LOG_PRETTY'' of None \<Rightarrow> None | Some s \<Rightarrow> if s = [] then None else Some (s = ''true''))\<rparr>"

definition ERROR_KEYS :: "string list" where
  "ERROR_KEYS = [''err'', ''error'', ''reason'']"

definition SECRET_HEADERS :: "string list" where
  "SECRET_HEADERS = [''authorization'', ''cookie'', ''set-cookie'', ''x-api-key'', ''x-csrf-token'', ''cf-access-jwt-assertion'',
     ''x-rova-mcp-call'']"

definition header_path :: "string \<Rightarrow> string \<Rightarrow> string" where
  "header_path holder h = holder @ ''.headers['' @ CHR 0x22 # h @ [CHR 0x22, CHR '']'']"

definition REDACTED_PATHS :: "string list" where
  "REDACTED_PATHS =
     [''req.headers.authorization'', ''req.headers.cookie'', header_path ''res'' ''set-cookie'', header_path ''req'' ''x-api-key'',
      header_path ''req'' ''x-csrf-token'', header_path ''req'' ''cf-access-jwt-assertion'', header_path ''req'' ''x-rova-mcp-call''] @
     concat (map (\<lambda>key. concat (map (\<lambda>holder. map (header_path (key @ CHR ''.'' # holder)) SECRET_HEADERS)
         [''config'', ''request'', ''response''])) ERROR_KEYS) @
     concat (map (\<lambda>key. map (header_path key) SECRET_HEADERS) ERROR_KEYS)"

text \<open>The root bindings, level, redaction and the keys under which an error is serialised; \<open>proc\<close> is the process's environment.\<close>

record pino_options =
  po_level :: string
  po_service :: string
  po_env :: string
  po_version :: string
  po_redact :: "string list"
  po_serializers :: "string list"

definition createPinoOptions :: "env \<Rightarrow> logger_options \<Rightarrow> pino_options" where
  "createPinoOptions proc lo =
     \<lparr>po_level = lo_level lo, po_service = lo_serviceName lo,
      po_env = text_or (lo_deploymentEnv lo) (text_or (proc ''DEPLOYMENT_ENV'') (lo_nodeEnv lo)),
      po_version = lo_serviceVersion lo, po_redact = REDACTED_PATHS, po_serializers = ERROR_KEYS\<rparr>"

text \<open>The options of an app's logger, and whether its lines are written for a person.\<close>

definition createLoggerOptions :: "env \<Rightarrow> logger_options \<Rightarrow> pino_options \<times> bool" where
  "createLoggerOptions proc lo = (createPinoOptions proc lo, if_missing (lo_pretty lo) (lo_nodeEnv lo \<noteq> ''production''))"

definition createScriptLogger :: "env \<Rightarrow> string \<Rightarrow> env \<Rightarrow> pino_options" where
  "createScriptLogger proc name env = createPinoOptions proc (loggerOptionsFromEnv env (Some name))"

section \<open>Starting OpenTelemetry\<close>

datatype keep_or_drop = Keep | Drop

record otel_options =
  oo_defaultServiceName :: string
  oo_serviceNameEnvVar :: "string option"
  oo_httpDurationBoundaries :: "js_int list option"
  oo_httpInstrumentationDuration :: "keep_or_drop option"
  oo_unusedSeries :: "keep_or_drop option"

datatype aggregation = DropSeries | Buckets "js_int list"

record metric_view =
  vw_meter :: "string option"
  vw_instrument :: string
  vw_aggregation :: aggregation

definition QNSC_METER :: string where "QNSC_METER = ''qnsc''"
definition HTTP_INSTRUMENTATION_METER :: string where "HTTP_INSTRUMENTATION_METER = ''@opentelemetry/instrumentation-http''"
definition RUNTIME_INSTRUMENTATION_METER :: string where
  "RUNTIME_INSTRUMENTATION_METER = ''@opentelemetry/instrumentation-runtime-node''"
definition HTTP_SERVER_DURATION_INSTRUMENT :: string where "HTTP_SERVER_DURATION_INSTRUMENT = ''http.server.duration''"

definition HTTP_INSTRUMENTATION_DURATIONS :: "string list" where
  "HTTP_INSTRUMENTATION_DURATIONS = [''http.server.duration'', ''http.server.request.duration'']"

definition UNUSED_SERIES :: "(string \<times> string) list" where
  "UNUSED_SERIES = [(QNSC_METER, ''job.duration''), (RUNTIME_INSTRUMENTATION_METER, ''v8js.gc.duration''),
     (RUNTIME_INSTRUMENTATION_METER, ''v8js.memory.heap.space.available_size''),
     (RUNTIME_INSTRUMENTATION_METER, ''v8js.memory.heap.space.physical_size''),
     (RUNTIME_INSTRUMENTATION_METER, ''v8js.memory.heap.space.size'')]"

definition otel_views :: "otel_options \<Rightarrow> metric_view list" where
  "otel_views opts =
     (let dropInstrumentation = if_missing (oo_httpInstrumentationDuration opts) Drop = Drop;
          dropUnused = if_missing (oo_unusedSeries opts) Drop = Drop in
      (if dropUnused
       then map (\<lambda>(m, i). \<lparr>vw_meter = Some m, vw_instrument = i, vw_aggregation = DropSeries\<rparr>) UNUSED_SERIES else []) @
      (if dropInstrumentation
       then map (\<lambda>i. \<lparr>vw_meter = Some HTTP_INSTRUMENTATION_METER, vw_instrument = i, vw_aggregation = DropSeries\<rparr>)
              HTTP_INSTRUMENTATION_DURATIONS else []) @
      (case oo_httpDurationBoundaries opts of
         None \<Rightarrow> []
       | Some bs \<Rightarrow> [\<lparr>vw_meter = (if dropInstrumentation then Some QNSC_METER else None),
                      vw_instrument = HTTP_SERVER_DURATION_INSTRUMENT, vw_aggregation = Buckets bs\<rparr>]))"

text \<open>Whether each automatic instrumentation is on; the requests of \<open>isIgnoredRequestPath\<close> are left out of the first.\<close>

definition INSTRUMENTATIONS :: "(string \<times> bool) list" where
  "INSTRUMENTATIONS = map (\<lambda>(n, on). (''@opentelemetry/instrumentation-'' @ n, on))
     [(''http'', True), (''pg'', True), (''ioredis'', True), (''aws-sdk'', False), (''fs'', False), (''dns'', False), (''net'', False)]"

text \<open>A running SDK, by what it was configured with; a batch is its size, export timeout and delay.\<close>

record otel_setup =
  ot_serviceName :: string
  ot_serviceVersion :: string
  ot_deploymentEnv :: string
  ot_namespace :: string
  ot_instanceId :: string
  ot_k8s :: "(string \<times> string) list"
  ot_sampling :: int
  ot_tracesUrl :: string
  ot_metricsUrl :: string
  ot_batch :: "nat \<times> nat \<times> nat"
  ot_exportInterval :: nat
  ot_exportTimeout :: nat
  ot_views :: "metric_view list"
  ot_instrumentations :: "(string \<times> bool) list"

definition startOtel ::
  "(string \<Rightarrow> int option) \<Rightarrow> string \<Rightarrow> env \<Rightarrow> otel_options \<Rightarrow> otel_setup option \<Rightarrow> boundary_error + (bool \<times> otel_setup option)" where
  "startOtel parseFloat uuid env opts sdk =
     and_then (case oo_httpDurationBoundaries opts of None \<Rightarrow> Inr () | Some bs \<Rightarrow> validateHttpDurationBoundaries bs) (\<lambda>_.
       if env ''OTEL_ENABLED'' \<noteq> Some ''true'' then Inr (False, sdk)
       else if sdk \<noteq> None then Inr (True, sdk)
       else
         let deploymentEnv = if_missing (env ''DEPLOYMENT_ENV'') (if_missing (env ''NODE_ENV'') ''development'');
             isProd = (deploymentEnv = ''production'' \<or> deploymentEnv = ''prod'');
             endpoint = if_missing (env ''OTEL_EXPORTER_OTLP_ENDPOINT'') ''http://localhost:4318'';
             interval = resolveMetricExportInterval (env ''OTEL_METRIC_EXPORT_INTERVAL'') in
         Inr (True, Some
           \<lparr>ot_serviceName = if_missing (env (if_missing (oo_serviceNameEnvVar opts) ''OTEL_SERVICE_NAME'')) (oo_defaultServiceName opts),
            ot_serviceVersion = if_missing (env ''SERVICE_VERSION'') ''dev'',
            ot_deploymentEnv = deploymentEnv,
            ot_namespace = if_missing (env ''OTEL_SERVICE_NAMESPACE'') ''qnsc'',
            ot_instanceId = uuid,
            ot_k8s = k8sResourceAttributes env,
            ot_sampling = resolveSamplingProbability parseFloat (env ''OTEL_SAMPLING_PROBABILITY'') isProd,
            ot_tracesUrl = endpoint @ ''/v1/traces'',
            ot_metricsUrl = endpoint @ ''/v1/metrics'',
            ot_batch = (if isProd then (200, 5000, 2000) else (50, 2000, 1000)),
            ot_exportInterval = interval,
            ot_exportTimeout = min 30000 interval,
            ot_views = otel_views opts,
            ot_instrumentations = INSTRUMENTATIONS\<rparr>))"

text \<open>Whether there is an SDK to flush and shut down.\<close>

definition shutdownOtel :: "otel_setup option \<Rightarrow> bool" where
  "shutdownOtel sdk \<longleftrightarrow> sdk \<noteq> None"

text \<open>A view selects the instruments of its meter, or of any, that have its name.\<close>

definition selects :: "metric_view \<Rightarrow> string \<Rightarrow> string \<Rightarrow> bool" where
  "selects v meter instrument \<longleftrightarrow> (case vw_meter v of None \<Rightarrow> True | Some m \<Rightarrow> m = meter) \<and> vw_instrument v = instrument"

text \<open>
  The one request duration: no view drops the platform's own histogram, and unless asked to keep them every series the HTTP
  instrumentation has for it is dropped, by each view that selects it.
\<close>

lemma own_duration_kept:
  "v \<in> set (otel_views opts) \<Longrightarrow> selects v QNSC_METER HTTP_SERVER_DURATION_INSTRUMENT \<Longrightarrow>
     \<exists>bs. oo_httpDurationBoundaries opts = Some bs \<and> vw_aggregation v = Buckets bs"
  by (auto simp: otel_views_def selects_def UNUSED_SERIES_def HTTP_INSTRUMENTATION_DURATIONS_def QNSC_METER_def Let_def
      HTTP_INSTRUMENTATION_METER_def RUNTIME_INSTRUMENTATION_METER_def HTTP_SERVER_DURATION_INSTRUMENT_def
      split: if_splits option.splits)

lemma instrumentation_duration_dropped:
  assumes "oo_httpInstrumentationDuration opts \<noteq> Some Keep" and "i \<in> set HTTP_INSTRUMENTATION_DURATIONS"
  shows "(\<exists>v\<in>set (otel_views opts). selects v HTTP_INSTRUMENTATION_METER i) \<and>
    (\<forall>v\<in>set (otel_views opts). selects v HTTP_INSTRUMENTATION_METER i \<longrightarrow> vw_aggregation v = DropSeries)"
proof -
  have "if_missing (oo_httpInstrumentationDuration opts) Drop = Drop"
    using assms(1) keep_or_drop.exhaust by (auto simp: if_missing_def split: option.split)
  then have views: "set (otel_views opts) =
      (if if_missing (oo_unusedSeries opts) Drop = Drop
       then (\<lambda>(m, i). \<lparr>vw_meter = Some m, vw_instrument = i, vw_aggregation = DropSeries\<rparr>) ` set UNUSED_SERIES else {}) \<union>
      (\<lambda>i. \<lparr>vw_meter = Some HTTP_INSTRUMENTATION_METER, vw_instrument = i, vw_aggregation = DropSeries\<rparr>) ` set HTTP_INSTRUMENTATION_DURATIONS \<union>
      (case oo_httpDurationBoundaries opts of None \<Rightarrow> {}
       | Some bs \<Rightarrow> {\<lparr>vw_meter = Some QNSC_METER, vw_instrument = HTTP_SERVER_DURATION_INSTRUMENT, vw_aggregation = Buckets bs\<rparr>})"
    by (auto simp: otel_views_def Let_def split: option.splits)
  have "\<lparr>vw_meter = Some HTTP_INSTRUMENTATION_METER, vw_instrument = i, vw_aggregation = DropSeries\<rparr> \<in> set (otel_views opts)"
    unfolding views using assms(2) by blast
  then have "\<exists>v\<in>set (otel_views opts). selects v HTTP_INSTRUMENTATION_METER i"
    by (rule bexI [rotated]) (simp add: selects_def)
  moreover have "vw_aggregation v = DropSeries" if "v \<in> set (otel_views opts)" "selects v HTTP_INSTRUMENTATION_METER i" for v
    using that unfolding views
    by (auto simp: selects_def HTTP_INSTRUMENTATION_METER_def QNSC_METER_def split: if_splits option.splits)
  ultimately show ?thesis
    by blast
qed

lemma export_timeout_fits: "startOtel f u env opts None = Inr (True, Some s) \<Longrightarrow> ot_exportTimeout s \<le> ot_exportInterval s"
  by (auto simp: startOtel_def and_then_Inr_iff Let_def split: if_splits)

section \<open>Recorders\<close>

text \<open>
  The remaining recorders of \<open>metrics.ts\<close>, and what keeps a failing one from its caller: \<open>body\<close> is what the recording threw, if it
  did; the first failure of each recorder is logged.
\<close>

definition METRIC_NAMES :: "string list" where
  "METRIC_NAMES = [''http.server.duration'', ''http.server.requests'', ''http.server.errors'', ''db.pool.in_use'', ''db.pool.waiting'',
     ''job.duration'', ''job.runs'', ''job.failures'', ''queue.processed'', ''queue.failures'', ''queue.lag_seconds'',
     ''security.fail_open'', ''authz.stale_token'', ''auth.login'']"

definition safely :: "string \<Rightarrow> 'e option \<Rightarrow> string list \<Rightarrow> string list \<times> string option" where
  "safely recorder body failed =
     (case body of
        None \<Rightarrow> (failed, None)
      | Some _ \<Rightarrow> if recorder \<in> set failed then (failed, None) else (failed @ [recorder], Some recorder))"

definition SecurityMetrics_recordFailOpen :: "string \<Rightarrow> data_point list" where
  "SecurityMetrics_recordFailOpen control = [Count ''security.fail_open'' 1 [(''control'', control)]]"

definition recordStaleToken :: "data_point list" where
  "recordStaleToken = [Count ''authz.stale_token'' 1 []]"

datatype login_method = SsoLogin | DevLogin

definition recordLogin :: "login_method \<Rightarrow> bool \<Rightarrow> data_point list" where
  "recordLogin m success =
     [Count ''auth.login'' 1 [(''method'', case m of SsoLogin \<Rightarrow> ''sso'' | DevLogin \<Rightarrow> ''dev''),
        (''outcome'', if success then ''success'' else ''failure'')]]"

lemma failure_logged_once:
  "safely r b failed = (failed', note) \<Longrightarrow> note = Some r \<Longrightarrow> snd (safely r b' failed') = None"
  by (auto simp: safely_def split: option.splits if_splits)

end
