(* ===== verification/Bootstrap.thy ===== *)
theory Bootstrap
  imports OtelBootstrap
begin

text \<open>
  The start of an HTTP app or a worker (\<open>platform-runtime/src/bootstrap/index.ts\<close>): the order of its stages, what happens when one
  fails, the logger before there is one, the last-resort handlers. Nest, pino and the product are not part of the repository: a
  call of theirs succeeds, and leaves an event, or throws.
\<close>

section \<open>The options\<close>

record boot_options =
  bo_defaultServiceName :: "string option"
  bo_serviceNameEnvVar :: "string option"
  bo_httpDurationBoundaries :: "js_int list option"
  bo_before :: bool
  bo_configure :: bool
  bo_env :: "env option"
  bo_trustProxy :: "bool option"
  bo_bodyLimit :: "nat option"
  bo_rawBody :: bool
  bo_keepAliveTimeoutMs :: "int option"
  bo_headersTimeoutMs :: "int option"

definition HTTP_KEEP_ALIVE_TIMEOUT_MS :: int where "HTTP_KEEP_ALIVE_TIMEOUT_MS = 65000"
definition HTTP_HEADERS_TIMEOUT_MS :: int where "HTTP_HEADERS_TIMEOUT_MS = 66000"

definition default_service_name :: "boot_options \<Rightarrow> string" where
  "default_service_name o' = if_missing (bo_defaultServiceName o') ''app''"

text \<open>The variable the service's name is read from, where the product names one.\<close>

definition name_var :: "boot_options \<Rightarrow> string option" where
  "name_var o' = (case bo_serviceNameEnvVar o' of None \<Rightarrow> None | Some v \<Rightarrow> if v = [] then None else Some v)"

definition loggerEnvFor :: "env \<Rightarrow> boot_options \<Rightarrow> env" where
  "loggerEnvFor proc o' =
     (let base = if_missing (bo_env o') proc in
      case name_var o' of
        None \<Rightarrow> base
      | Some v \<Rightarrow> base(''OTEL_SERVICE_NAME'' \<mapsto> if_missing (base v) (default_service_name o')))"

definition otel_options_of :: "boot_options \<Rightarrow> otel_options" where
  "otel_options_of o' =
     \<lparr>oo_defaultServiceName = default_service_name o', oo_serviceNameEnvVar = name_var o',
      oo_httpDurationBoundaries = bo_httpDurationBoundaries o', oo_httpInstrumentationDuration = None, oo_unusedSeries = None\<rparr>"

section \<open>The logger before there is one\<close>

text \<open>
  Nest's calls of a \<open>LoggerService\<close>: what is written, as the level, the fields and the text. An error travels under \<open>err\<close>, where
  the logger serialises it; an object's properties become fields. \<open>str\<close> is \<open>String\<close> on what is neither.
\<close>

definition enumerable :: "jsval \<Rightarrow> (string \<times> jsval) list option" where
  "enumerable v =
     (case v of JObj ps \<Rightarrow> Some ps | JStream ps \<Rightarrow> Some ps
      | JArr vs \<Rightarrow> Some (map (\<lambda>i. (dec i, vs ! i)) [0..<length vs])
      | JBuf bs \<Rightarrow> Some (map (\<lambda>i. (dec i, JNum (int (bs ! i)))) [0..<length bs])
      | _ \<Rightarrow> None)"

definition bootstrap_write ::
  "(jsval \<Rightarrow> string) \<Rightarrow> string \<Rightarrow> errval \<Rightarrow> jsval list \<Rightarrow> string \<times> (string \<times> errval) list \<times> string option" where
  "bootstrap_write str level message params =
     (let strings = List.map_filter (\<lambda>p. case p of JStr s \<Rightarrow> Some s | _ \<Rightarrow> None) params;
          context = (if strings = [] then [] else last strings);
          stack = (if level = ''error'' \<and> 1 < length strings then hd strings else []);
          fields = (if context = [] then [] else [(''context'', NotErr (JStr context))]) @
                   (if stack = [] then [] else [(''stack'', NotErr (JStr stack))]) in
      case message of
        ErrObj ty msg stk props cs \<Rightarrow> (level, put ''err'' message fields, Some msg)
      | NotErr v \<Rightarrow>
          (case enumerable v of
             Some ps \<Rightarrow> (level, fold (\<lambda>(k, x). put k (NotErr x)) ps fields, None)
           | None \<Rightarrow> (level, fields, Some (str v))))"

section \<open>The stages\<close>

datatype boot_stage =
  OtelStage | BeforeStage | BootstrapLoggerStage | ModuleStage | AppStage | LoggerStage | FlushStage | HeadersStage
  | ConfigureStage | ShutdownStage | ListenStage | LineStage | HandlersStage | FatalStage | ExitStage

record http_app =
  ha_trustProxy :: bool
  ha_bodyLimit :: "nat option"
  ha_keepAliveTimeout :: int
  ha_rawBody :: bool

datatype 'e boot_error = BoundariesRefused boundary_error | LoggerModules nat | TimeoutsCrossed int int | Threw 'e

datatype 'e boot_event =
    OtelStarted bool "otel_setup option"
  | BeforeRan
  | BootstrapLogger pino_options
  | ModuleImported
  | AppCreated http_app
  | ContextCreated
  | LoggerInstalled
  | BufferFlushed
  | HeadersTimeoutSet int
  | Configured
  | ShutdownEnabled
  | Listening js_int string
  | Wrote string
  | HandlersInstalled
  | FatalLine pino_options "'e boot_error"
  | Exited nat

fun stage_of :: "'e boot_event \<Rightarrow> boot_stage" where
  "stage_of (OtelStarted _ _) = OtelStage"
| "stage_of BeforeRan = BeforeStage"
| "stage_of (BootstrapLogger _) = BootstrapLoggerStage"
| "stage_of ModuleImported = ModuleStage"
| "stage_of (AppCreated _) = AppStage"
| "stage_of ContextCreated = AppStage"
| "stage_of LoggerInstalled = LoggerStage"
| "stage_of BufferFlushed = FlushStage"
| "stage_of (HeadersTimeoutSet _) = HeadersStage"
| "stage_of Configured = ConfigureStage"
| "stage_of ShutdownEnabled = ShutdownStage"
| "stage_of (Listening _ _) = ListenStage"
| "stage_of (Wrote _) = LineStage"
| "stage_of HandlersInstalled = HandlersStage"
| "stage_of (FatalLine _ _) = FatalStage"
| "stage_of (Exited _) = ExitStage"

text \<open>
  What the stages meet: the calls that may throw, by the stage they make up; the names of the modules of the app Nest built; the
  address the server is bound to; \<open>Number.parseFloat\<close>, the instance id and the SDK already running.
\<close>

datatype bound_address = Bound "int option" | PipeAddress | NotBound

record 'e boot_world =
  bw_throws :: "boot_stage \<Rightarrow> 'e option"
  bw_modules :: "string list"
  bw_address :: bound_address
  bw_parseFloat :: "string \<Rightarrow> int option"
  bw_uuid :: string
  bw_sdk :: "otel_setup option"

type_synonym ('e, 'a) boot = "'e boot_event list \<Rightarrow> ('e boot_error + 'a) \<times> 'e boot_event list"

definition boot_return :: "'a \<Rightarrow> ('e, 'a) boot" where
  "boot_return a tr = (Inr a, tr)"

definition boot_fail :: "'e boot_error \<Rightarrow> ('e, 'a) boot" where
  "boot_fail e tr = (Inl e, tr)"

definition boot_then :: "('e, 'a) boot \<Rightarrow> ('e, 'b) boot \<Rightarrow> ('e, 'b) boot" where
  "boot_then m m' tr = (case m tr of (Inl e, tr') \<Rightarrow> (Inl e, tr') | (Inr _, tr') \<Rightarrow> m' tr')"

definition boot_do :: "'e boot_world \<Rightarrow> 'e boot_event \<Rightarrow> ('e, unit) boot" where
  "boot_do w ev tr = (case bw_throws w (stage_of ev) of None \<Rightarrow> (Inr (), tr @ [ev]) | Some e \<Rightarrow> (Inl (Threw e), tr))"

definition boot_when :: "bool \<Rightarrow> ('e, unit) boot \<Rightarrow> ('e, unit) boot" where
  "boot_when b m = (if b then m else boot_return ())"

definition assertSingleLoggerModule :: "'e boot_world \<Rightarrow> ('e, unit) boot" where
  "assertSingleLoggerModule w =
     (let n = length (filter (\<lambda>m. m = ''LoggerModule'') (bw_modules w)) in
      if 1 < n then boot_fail (LoggerModules n) else boot_return ())"

definition installLogging :: "'e boot_world \<Rightarrow> ('e, unit) boot" where
  "installLogging w =
     boot_then (assertSingleLoggerModule w)
     (boot_then (boot_do w LoggerInstalled) (boot_do w BufferFlushed))"

definition composeRoot :: "env \<Rightarrow> 'e boot_world \<Rightarrow> boot_options \<Rightarrow> ('e, unit) boot" where
  "composeRoot proc w o' =
     boot_then
       (case startOtel (bw_parseFloat w) (bw_uuid w) proc (otel_options_of o') (bw_sdk w) of
          Inl e \<Rightarrow> boot_fail (BoundariesRefused e)
        | Inr (started, sdk) \<Rightarrow> boot_do w (OtelStarted started sdk))
     (boot_then (boot_when (bo_before o') (boot_do w BeforeRan))
     (boot_then (boot_do w (BootstrapLogger (createScriptLogger proc (default_service_name o') (loggerEnvFor proc o'))))
       (boot_do w ModuleImported)))"

definition keep_alive_of :: "boot_options \<Rightarrow> int" where
  "keep_alive_of o' = if_missing (bo_keepAliveTimeoutMs o') HTTP_KEEP_ALIVE_TIMEOUT_MS"

definition headers_timeout_of :: "boot_options \<Rightarrow> int" where
  "headers_timeout_of o' = if_missing (bo_headersTimeoutMs o') HTTP_HEADERS_TIMEOUT_MS"

definition prepareHttpApp :: "env \<Rightarrow> 'e boot_world \<Rightarrow> boot_options \<Rightarrow> ('e, unit) boot" where
  "prepareHttpApp proc w o' =
     boot_then (composeRoot proc w o')
     (boot_then
       (if headers_timeout_of o' \<le> keep_alive_of o' then boot_fail (TimeoutsCrossed (headers_timeout_of o') (keep_alive_of o'))
        else boot_return ())
     (boot_then
       (boot_do w (AppCreated
         \<lparr>ha_trustProxy = if_missing (bo_trustProxy o') True, ha_bodyLimit = (if bo_bodyLimit o' = Some 0 then None else bo_bodyLimit o'),
          ha_keepAliveTimeout = keep_alive_of o', ha_rawBody = bo_rawBody o'\<rparr>))
     (boot_then (installLogging w)
     (boot_then (boot_do w (HeadersTimeoutSet (headers_timeout_of o')))
       (boot_when (bo_configure o') (boot_do w Configured))))))"

definition prepareWorkerApp :: "env \<Rightarrow> 'e boot_world \<Rightarrow> boot_options \<Rightarrow> ('e, unit) boot" where
  "prepareWorkerApp proc w o' =
     boot_then (composeRoot proc w o') (boot_then (boot_do w ContextCreated) (installLogging w))"

definition failFatal :: "env \<Rightarrow> boot_options \<Rightarrow> 'e boot_error \<Rightarrow> 'e boot_event list \<Rightarrow> 'e boot_event list" where
  "failFatal proc o' e tr =
     tr @ [FatalLine (createScriptLogger proc (default_service_name o') (loggerEnvFor proc o')) e, Exited 1]"

definition settle :: "env \<Rightarrow> boot_options \<Rightarrow> ('e, unit) boot \<Rightarrow> 'e boot_event list" where
  "settle proc o' m = (case m [] of (Inr _, tr) \<Rightarrow> tr | (Inl e, tr) \<Rightarrow> failFatal proc o' e tr)"

text \<open>\<open>parseInt\<close> to base ten: the digits after white space and a sign; \<open>None\<close> where there are none.\<close>

definition parse_int :: "string \<Rightarrow> js_int" where
  "parse_int s =
     (let t = dropWhile is_space s;
          neg = (t \<noteq> [] \<and> hd t = CHR ''-'');
          ds = takeWhile is_digit (if t \<noteq> [] \<and> hd t \<in> {CHR ''-'', CHR ''+''} then tl t else t) in
      if ds = [] then None else Some (if neg then - int (undec ds) else int (undec ds)))"

definition boundPort :: "bound_address \<Rightarrow> js_int \<Rightarrow> js_int" where
  "boundPort address requested =
     (case address of Bound (Some p) \<Rightarrow> if p = 0 then requested else Some p | _ \<Rightarrow> requested)"

definition port_text :: "js_int \<Rightarrow> string" where
  "port_text p = (case p of None \<Rightarrow> ''NaN'' | Some n \<Rightarrow> int_text n)"

definition createHttpApp :: "env \<Rightarrow> 'e boot_world \<Rightarrow> boot_options \<Rightarrow> 'e boot_event list" where
  "createHttpApp proc w o' =
     (let env = if_missing (bo_env o') proc;
          port = parse_int (if_missing (env ''PORT'') ''3000'');
          host = if_missing (env ''HOST'') ''0.0.0.0'' in
      settle proc o'
        (boot_then (prepareHttpApp proc w o')
        (boot_then (boot_do w ShutdownEnabled)
        (boot_then (boot_do w (Listening port host))
        (boot_then (boot_do w (Wrote (''Listening on '' @ host @ CHR '':'' # port_text (boundPort (bw_address w) port))))
          (boot_do w HandlersInstalled))))))"

definition createWorkerApp :: "env \<Rightarrow> 'e boot_world \<Rightarrow> boot_options \<Rightarrow> 'e boot_event list" where
  "createWorkerApp proc w o' =
     settle proc o'
       (boot_then (prepareWorkerApp proc w o')
       (boot_then (boot_do w ShutdownEnabled)
       (boot_then (boot_do w (Wrote ''Worker process started'')) (boot_do w HandlersInstalled))))"

section \<open>Last resort\<close>

datatype process_error = UnhandledRejection errval | UncaughtException errval

datatype last_resort = Logged string errval | ExitedWith nat

definition process_error_handler :: "process_error \<Rightarrow> last_resort list" where
  "process_error_handler e =
     (case e of UnhandledRejection reason \<Rightarrow> [Logged ''Unhandled promise rejection'' reason, ExitedWith 1]
      | UncaughtException err \<Rightarrow> [Logged ''Uncaught exception'' err, ExitedWith 1])"

section \<open>In order, or one line and exit\<close>

text \<open>\<open>follows m ss\<close>: run to its end \<open>m\<close> passes the stages \<open>ss\<close> in order, and when it fails it has passed the first of them, not all.\<close>

definition follows :: "('e, 'a) boot \<Rightarrow> boot_stage list \<Rightarrow> bool" where
  "follows m ss \<longleftrightarrow> (\<forall>tr. case m tr of
      (Inr _, tr') \<Rightarrow> map stage_of tr' = map stage_of tr @ ss
    | (Inl _, tr') \<Rightarrow> \<exists>n<length ss. map stage_of tr' = map stage_of tr @ take n ss)"

named_theorems following

lemma follows_return [following]: "follows (boot_return a) []"
  by (simp add: follows_def boot_return_def)

lemma follows_fail [following]: "ss \<noteq> [] \<Longrightarrow> follows (boot_fail e) ss"
  by (auto simp: follows_def boot_fail_def intro: exI [of _ 0])

lemma follows_do [following]: "follows (boot_do w ev) [stage_of ev]"
  by (auto simp: follows_def boot_do_def split: option.split intro: exI [of _ 0])

lemma follows_then [following]:
  assumes "follows m ss" and "follows m' ts"
  shows "follows (boot_then m m') (ss @ ts)"
  unfolding follows_def
proof (intro allI)
  fix tr
  obtain r tr1 where r: "m tr = (r, tr1)" by (rule prod.exhaust)
  show "case boot_then m m' tr of
      (Inr _, tr') \<Rightarrow> map stage_of tr' = map stage_of tr @ ss @ ts
    | (Inl _, tr') \<Rightarrow> \<exists>n<length (ss @ ts). map stage_of tr' = map stage_of tr @ take n (ss @ ts)"
  proof (cases r)
    case (Inl e)
    then obtain n where "n < length ss" "map stage_of tr1 = map stage_of tr @ take n ss"
      using assms(1) r by (auto simp: follows_def dest!: spec [of _ tr])
    then show ?thesis
      using r Inl by (auto simp: boot_then_def intro!: exI [of _ n])
  next
    case (Inr a)
    then have one: "map stage_of tr1 = map stage_of tr @ ss"
      using assms(1) r by (auto simp: follows_def dest!: spec [of _ tr])
    obtain r' tr2 where r': "m' tr1 = (r', tr2)" by (rule prod.exhaust)
    show ?thesis
    proof (cases r')
      case (Inl e)
      then obtain n where "n < length ts" "map stage_of tr2 = map stage_of tr1 @ take n ts"
        using assms(2) r' by (auto simp: follows_def dest!: spec [of _ tr1])
      then show ?thesis
        using r Inr r' Inl one by (auto simp: boot_then_def intro!: exI [of _ "length ss + n"])
    next
      case Inr': (Inr b)
      then have "map stage_of tr2 = map stage_of tr1 @ ts"
        using assms(2) r' by (auto simp: follows_def dest!: spec [of _ tr1])
      then show ?thesis
        using r Inr r' Inr' one by (simp add: boot_then_def)
    qed
  qed
qed

lemma follows_when [following]: "follows m ss \<Longrightarrow> follows (boot_when b m) (if b then ss else [])"
  by (simp add: boot_when_def follows_return)

text \<open>The stages of each, in order.\<close>

definition root_stages :: "boot_options \<Rightarrow> boot_stage list" where
  "root_stages o' = [OtelStage] @ (if bo_before o' then [BeforeStage] else []) @ [BootstrapLoggerStage, ModuleStage]"

definition http_stages :: "boot_options \<Rightarrow> boot_stage list" where
  "http_stages o' = root_stages o' @ [AppStage, LoggerStage, FlushStage, HeadersStage] @
     (if bo_configure o' then [ConfigureStage] else []) @ [ShutdownStage, ListenStage, LineStage, HandlersStage]"

definition worker_stages :: "boot_options \<Rightarrow> boot_stage list" where
  "worker_stages o' = root_stages o' @ [AppStage, LoggerStage, FlushStage, ShutdownStage, LineStage, HandlersStage]"

lemma composeRoot_follows: "follows (composeRoot proc w o') (root_stages o')"
proof -
  let ?otel = "case startOtel (bw_parseFloat w) (bw_uuid w) proc (otel_options_of o') (bw_sdk w) of
          Inl e \<Rightarrow> boot_fail (BoundariesRefused e) | Inr (started, sdk) \<Rightarrow> boot_do w (OtelStarted started sdk)"
  have otel: "follows ?otel [OtelStage]"
    using follows_do [of w "OtelStarted _ _"] by (auto simp: follows_fail split: sum.split prod.split)
  show ?thesis
    unfolding composeRoot_def root_stages_def
    using follows_then [OF otel follows_then [OF follows_when [where b = "bo_before o'", OF follows_do [of w BeforeRan]]
        follows_then [OF follows_do [of w "BootstrapLogger (createScriptLogger proc (default_service_name o') (loggerEnvFor proc o'))"]
          follows_do [of w ModuleImported]]]]
    by (simp cong: if_cong split del: if_split)
qed

lemma follows_check_then:
  "follows m ss \<Longrightarrow> ss \<noteq> [] \<Longrightarrow> follows (boot_then (if b then boot_fail e else boot_return ()) m) ss"
  by (auto simp: boot_then_def boot_fail_def boot_return_def follows_def intro: exI [of _ 0])

lemma installLogging_follows: "follows (installLogging w) [LoggerStage, FlushStage]"
proof -
  have "follows (boot_then (boot_do w LoggerInstalled) (boot_do w BufferFlushed)) [LoggerStage, FlushStage]"
    using follows_then [OF follows_do [of w LoggerInstalled] follows_do [of w BufferFlushed]] by simp
  then show ?thesis
    by (simp add: installLogging_def assertSingleLoggerModule_def Let_def follows_check_then)
qed

lemma settle_follows:
  assumes "follows m ss"
  shows "map stage_of (settle proc o' m) = ss \<or>
    (\<exists>n<length ss. map stage_of (settle proc o' m) = take n ss @ [FatalStage, ExitStage])"
proof -
  obtain r tr where r: "m [] = (r, tr)" by (rule prod.exhaust)
  then show ?thesis
    using assms by (cases r) (auto simp: settle_def failFatal_def follows_def dest!: spec [of _ "[]"])
qed

lemma http_follows:
  "follows (boot_then (prepareHttpApp proc w o') (boot_then (boot_do w ShutdownEnabled)
     (boot_then (boot_do w (Listening port host)) (boot_then (boot_do w (Wrote line)) (boot_do w HandlersInstalled))))) (http_stages o')"
proof -
  have app: "follows (boot_then (boot_do w (AppCreated a)) (boot_then (installLogging w)
      (boot_then (boot_do w (HeadersTimeoutSet h)) (boot_when (bo_configure o') (boot_do w Configured)))))
      ([AppStage] @ [LoggerStage, FlushStage] @ [HeadersStage] @ (if bo_configure o' then [ConfigureStage] else []))" for a h
    using follows_then [OF follows_do [of w "AppCreated a"] follows_then [OF installLogging_follows [of w]
        follows_then [OF follows_do [of w "HeadersTimeoutSet h"] follows_when [where b = "bo_configure o'", OF follows_do [of w Configured]]]]]
    by (simp cong: if_cong split del: if_split)
  have prepare: "follows (prepareHttpApp proc w o')
      (root_stages o' @ [AppStage] @ [LoggerStage, FlushStage] @ [HeadersStage] @ (if bo_configure o' then [ConfigureStage] else []))"
    unfolding prepareHttpApp_def by (rule follows_then [OF composeRoot_follows follows_check_then [OF app]]) simp
  show ?thesis
    using follows_then [OF prepare follows_then [OF follows_do [of w ShutdownEnabled] follows_then [OF follows_do [of w "Listening port host"]
        follows_then [OF follows_do [of w "Wrote line"] follows_do [of w HandlersInstalled]]]]]
    by (simp add: http_stages_def)
qed

lemma worker_follows:
  "follows (boot_then (prepareWorkerApp proc w o') (boot_then (boot_do w ShutdownEnabled)
     (boot_then (boot_do w (Wrote line)) (boot_do w HandlersInstalled)))) (worker_stages o')"
proof -
  have prepare: "follows (prepareWorkerApp proc w o') (root_stages o' @ [AppStage] @ [LoggerStage, FlushStage])"
    unfolding prepareWorkerApp_def
    using follows_then [OF composeRoot_follows follows_then [OF follows_do [of w ContextCreated] installLogging_follows [of w]]] by simp
  show ?thesis
    using follows_then [OF prepare follows_then [OF follows_do [of w ShutdownEnabled]
        follows_then [OF follows_do [of w "Wrote line"] follows_do [of w HandlersInstalled]]]]
    by (simp add: worker_stages_def)
qed

text \<open>A server whose two timeouts cross is not made.\<close>

lemma composeRoot_prefix: "composeRoot proc w o' tr = (r, tr') \<Longrightarrow> AppStage \<notin> set (map stage_of tr) \<Longrightarrow> AppStage \<notin> set (map stage_of tr')"
proof (cases r)
  case (Inl e)
  assume "composeRoot proc w o' tr = (r, tr')" and new: "AppStage \<notin> set (map stage_of tr)"
  with Inl composeRoot_follows [of proc w o'] obtain n where "map stage_of tr' = map stage_of tr @ take n (root_stages o')"
    by (auto simp: follows_def dest!: spec [of _ tr])
  moreover have "AppStage \<notin> set (take n (root_stages o'))"
    by (rule contra_subsetD [OF set_take_subset]) (simp add: root_stages_def)
  ultimately show ?thesis
    using new by simp
next
  case (Inr a)
  assume "composeRoot proc w o' tr = (r, tr')" and new: "AppStage \<notin> set (map stage_of tr)"
  with Inr composeRoot_follows [of proc w o'] have "map stage_of tr' = map stage_of tr @ root_stages o'"
    by (auto simp: follows_def dest!: spec [of _ tr])
  with new show ?thesis
    by (simp add: root_stages_def)
qed

lemma crossed_no_app:
  assumes "headers_timeout_of o' \<le> keep_alive_of o'"
  shows "AppStage \<notin> set (map stage_of (createHttpApp proc w o'))"
proof -
  obtain r tr where r: "composeRoot proc w o' [] = (r, tr)" by (rule prod.exhaust)
  then have "AppStage \<notin> set (map stage_of tr)"
    by (rule composeRoot_prefix) simp
  with r assms show ?thesis
    by (cases r) (auto simp: createHttpApp_def settle_def failFatal_def prepareHttpApp_def boot_then_def boot_fail_def Let_def)
qed

text \<open>
  C38. A process starts in one order or dies of it: whatever throws on the way, a start is its stages in order (OpenTelemetry,
  the product's hook, and only then the product's module; the logger before the buffered lines are flushed; shutdown before the
  port is open; the last-resort handlers at the end), or the first of them, one fatal line and exit. A server is made only
  where its headers' deadline is beyond its keep-alive.
\<close>

theorem start_in_order_or_exit:
  shows "(map stage_of (createHttpApp proc w o') = http_stages o' \<or>
      (\<exists>n<length (http_stages o'). map stage_of (createHttpApp proc w o') = take n (http_stages o') @ [FatalStage, ExitStage])) \<and>
    (map stage_of (createWorkerApp proc w o') = worker_stages o' \<or>
      (\<exists>n<length (worker_stages o'). map stage_of (createWorkerApp proc w o') = take n (worker_stages o') @ [FatalStage, ExitStage])) \<and>
    (AppStage \<in> set (map stage_of (createHttpApp proc w o')) \<longrightarrow> keep_alive_of o' < headers_timeout_of o')"
  using settle_follows [OF http_follows] settle_follows [OF worker_follows] crossed_no_app [of o' proc w]
  unfolding createHttpApp_def createWorkerApp_def Let_def by (meson not_le)

definition example_boot :: boot_options where
  "example_boot = \<lparr>bo_defaultServiceName = Some ''api'', bo_serviceNameEnvVar = None, bo_httpDurationBoundaries = None, bo_before = True,
     bo_configure = True, bo_env = None, bo_trustProxy = None, bo_bodyLimit = None, bo_rawBody = False, bo_keepAliveTimeoutMs = None,
     bo_headersTimeoutMs = None\<rparr>"

definition example_boot_world :: "(boot_stage \<Rightarrow> unit option) \<Rightarrow> unit boot_world" where
  "example_boot_world throws = \<lparr>bw_throws = throws, bw_modules = [''LoggerModule''], bw_address = Bound (Some 3000),
     bw_parseFloat = (\<lambda>_. None), bw_uuid = ''id'', bw_sdk = None\<rparr>"

theorem start_in_order_or_exit_witness:
  "last (map stage_of (createHttpApp (\<lambda>_. None) (example_boot_world (\<lambda>_. None)) example_boot)) = HandlersStage \<and>
   keep_alive_of example_boot < headers_timeout_of example_boot"
proof -
  have "map stage_of (createHttpApp (\<lambda>_. None) (example_boot_world (\<lambda>_. None)) example_boot) = http_stages example_boot"
    by (simp add: createHttpApp_def settle_def prepareHttpApp_def composeRoot_def installLogging_def assertSingleLoggerModule_def
        boot_then_def boot_do_def boot_when_def boot_return_def boot_fail_def startOtel_def otel_options_of_def name_var_def
        example_boot_def example_boot_world_def headers_timeout_of_def keep_alive_of_def if_missing_def HTTP_KEEP_ALIVE_TIMEOUT_MS_def
        HTTP_HEADERS_TIMEOUT_MS_def http_stages_def root_stages_def Let_def)
  then show ?thesis
    using start_in_order_or_exit [of "\<lambda>_. None" "example_boot_world (\<lambda>_. None)" example_boot]
    by (simp add: http_stages_def root_stages_def)
qed

section \<open>One name\<close>

text \<open>The log lines and the spans of a process carry one name, environment and version, where no variable is blank.\<close>

lemma names_agree:
  assumes "startOtel f u proc (otel_options_of o') None = Inr (True, Some s)" and "bo_env o' = None" and "default_service_name o' \<noteq> []"
    and "\<forall>v. proc v \<noteq> Some []"
  shows "po_service (createScriptLogger proc (default_service_name o') (loggerEnvFor proc o')) = ot_serviceName s \<and>
    po_env (createScriptLogger proc (default_service_name o') (loggerEnvFor proc o')) = ot_deploymentEnv s \<and>
    po_version (createScriptLogger proc (default_service_name o') (loggerEnvFor proc o')) = ot_serviceVersion s"
proof -
  have "ot_serviceName s = if_missing (proc (if_missing (name_var o') ''OTEL_SERVICE_NAME'')) (default_service_name o')"
    and "ot_deploymentEnv s = if_missing (proc ''DEPLOYMENT_ENV'') (if_missing (proc ''NODE_ENV'') ''development'')"
    and "ot_serviceVersion s = if_missing (proc ''SERVICE_VERSION'') ''dev''"
    using assms(1) by (auto simp: startOtel_def and_then_Inr_iff Let_def otel_options_of_def split: if_split_asm)
  moreover have blank: "text_or (proc v) d = if_missing (proc v) d" for v d
    using assms(4) by (auto simp: text_or_def if_missing_def split: option.split)
  moreover have "loggerEnvFor proc o' ''OTEL_SERVICE_NAME'' \<noteq> Some []"
    using assms(2-4) by (auto simp: loggerEnvFor_def if_missing_def split: option.split)
  moreover have "loggerEnvFor proc o' v = proc v" if "v \<noteq> ''OTEL_SERVICE_NAME''" for v
    using assms(2) that by (simp add: loggerEnvFor_def if_missing_def split: option.split)
  ultimately show ?thesis
    using assms(2,3)
    by (auto simp: createScriptLogger_def createPinoOptions_def loggerOptionsFromEnv_def loggerEnvFor_def text_or_def if_missing_def
        split: option.split)
qed

text \<open>A blank one tells them apart: the logger falls back, OpenTelemetry does not.\<close>

definition example_blank_env :: env where
  "example_blank_env = [''OTEL_ENABLED'' \<mapsto> ''true'', ''OTEL_SERVICE_NAME'' \<mapsto> [], ''DEPLOYMENT_ENV'' \<mapsto> []]"

lemma blank_name_differs:
  assumes "startOtel f u example_blank_env (otel_options_of example_boot) None = Inr (True, Some s)"
  shows "ot_serviceName s = [] \<and> ot_deploymentEnv s = [] \<and>
    po_service (createScriptLogger example_blank_env ''api'' (loggerEnvFor example_blank_env example_boot)) = ''api'' \<and>
    po_env (createScriptLogger example_blank_env ''api'' (loggerEnvFor example_blank_env example_boot)) = ''development''"
  using assms
  by (auto simp: startOtel_def and_then_Inr_iff Let_def createScriptLogger_def createPinoOptions_def loggerOptionsFromEnv_def loggerEnvFor_def
      otel_options_of_def text_or_def if_missing_def name_var_def example_boot_def example_blank_env_def split: option.splits)

end
