(* ===== verification/MailTools.thy ===== *)
theory MailTools
  imports MailTransport MailJobs Pagination Telemetry
begin

text \<open>
  The tools around the mail: the proof that an app's mail is scoped to one mailbox (\<open>platform-mail/src/check/check.ts\<close>), the test
  message after a deploy (\<open>smoke/smoke.ts\<close>), and what the Nest module refuses (\<open>nest/mail.module.ts\<close>). The credential, the
  transport's sends and the rendering of a time are parameters.
\<close>

definition if_none :: "'a \<Rightarrow> 'a option \<Rightarrow> 'a" where
  "if_none d v = (case v of None \<Rightarrow> d | Some x \<Rightarrow> x)"

section \<open>The scope check\<close>

text \<open>How a send ends: the code, the status and the request id of a \<open>MailSendError\<close>, or some other throw.\<close>

datatype send_failure = MailFailure mail_error_code "nat option" "string option" | OtherFailure

datatype check_line =
    TokenLine bool
  | ScopeLine bool
  | SendLine bool
  | DeniedLine string bool
  | DeniedSkipped

fun line_passed :: "check_line \<Rightarrow> bool" where
  "line_passed (TokenLine ok) = ok" | "line_passed (ScopeLine ok) = ok" | "line_passed (SendLine ok) = ok" | "line_passed (DeniedLine m ok) = ok"
| "line_passed DeniedSkipped = True"

text \<open>\<open>decode\<close> is \<open>toString('utf8')\<close>; a token whose payload does not parse carries no claims.\<close>

definition claimsOf :: "(nat list \<Rightarrow> string) \<Rightarrow> string \<Rightarrow> jsval" where
  "claimsOf decode token =
     (case json_parse (decode (buffer_from_base64url (case split_on CHR ''.'' token of _ # p # _ \<Rightarrow> p | _ \<Rightarrow> []))) of
        Some v \<Rightarrow> v | None \<Rightarrow> JObj [])"

text \<open>The app a token was issued for; \<open>None\<close> where the claims name none, or the reading throws.\<close>

definition issuedFor :: "jsval \<Rightarrow> string option" where
  "issuedFor claims =
     (case property_of ''appid'' claims of
        JStr s \<Rightarrow> Some s
      | JUndef \<Rightarrow> (case property_of ''azp'' claims of JStr s \<Rightarrow> Some s | _ \<Rightarrow> None)
      | JNull \<Rightarrow> (case property_of ''azp'' claims of JStr s \<Rightarrow> Some s | _ \<Rightarrow> None)
      | _ \<Rightarrow> None)"

text \<open>The roles: \<open>None\<close> where they are no array, so that joining them throws; an entry that is no text throws when it is looked at.\<close>

definition rolesOf :: "jsval \<Rightarrow> jsval list option" where
  "rolesOf claims = (case property_of ''roles'' claims of JUndef \<Rightarrow> Some [] | JNull \<Rightarrow> Some [] | JArr rs \<Rightarrow> Some rs | _ \<Rightarrow> None)"

definition role_texts :: "jsval list \<Rightarrow> string list option" where
  "role_texts rs = (if list_all (\<lambda>r. case r of JStr _ \<Rightarrow> True | _ \<Rightarrow> False) rs
     then Some (List.map_filter (\<lambda>r. case r of JStr s \<Rightarrow> Some s | _ \<Rightarrow> None) rs) else None)"

definition scope_ok :: "string list \<Rightarrow> string list \<Rightarrow> bool" where
  "scope_ok permitted roles \<longleftrightarrow> list_all (\<lambda>r. take 5 r \<noteq> ''Mail.'' \<and> r \<in> set permitted) roles"

text \<open>The first part: the lines on the token and its roles, and whether the check goes on.\<close>

definition token_check :: "(nat list \<Rightarrow> string) \<Rightarrow> string \<Rightarrow> string list \<Rightarrow> string option option \<Rightarrow> check_line list \<times> bool" where
  "token_check decode clientId permitted token =
     (case token of
        Some (Some t) \<Rightarrow>
          (let claims = claimsOf decode t in
           if map_option js_lower (issuedFor claims) \<noteq> Some (js_lower clientId) then ([TokenLine False], False)
           else
             (case rolesOf claims of
                None \<Rightarrow> ([TokenLine False], False)
              | Some rs \<Rightarrow>
                  (case role_texts rs of
                     None \<Rightarrow> ([TokenLine True, TokenLine False], False)
                   | Some roles \<Rightarrow> ([TokenLine True, ScopeLine (scope_ok permitted roles)], True))))
      | _ \<Rightarrow> ([TokenLine False], False))"

definition refused :: "send_failure + unit \<Rightarrow> bool" where
  "refused r \<longleftrightarrow> (case r of Inl (MailFailure c (Some status) q) \<Rightarrow> status = 403 | _ \<Rightarrow> False)"

text \<open>
  \<open>token\<close> is what the credential answered: nothing where it threw. \<open>send_as n mailbox\<close> is the outcome of the \<open>n\<close>-th send.
\<close>

definition runGraphCheck ::
  "(nat list \<Rightarrow> string) \<Rightarrow> string \<Rightarrow> string list \<Rightarrow> string \<Rightarrow> string list \<Rightarrow> string option option \<Rightarrow>
   (nat \<Rightarrow> string \<Rightarrow> send_failure + unit) \<Rightarrow> nat \<times> check_line list" where
  "runGraphCheck decode clientId permitted sender deniedMailboxes token send_as =
     (let (first, on) = token_check decode clientId permitted token in
      if \<not> on then (1, first)
      else
        let lines = first @ [SendLine (is_ok (send_as 0 sender))] @
              map (\<lambda>i. DeniedLine (deniedMailboxes ! i) (refused (send_as (Suc i) (deniedMailboxes ! i)))) [0..<length deniedMailboxes];
            failed = \<not> list_all line_passed lines in
        if deniedMailboxes = [] then (if failed then 1 else 3, lines @ [DeniedSkipped])
        else (if failed then 1 else 0, lines))"

lemma role_texts_texts [simp]: "role_texts (map JStr roles) = Some roles"
proof -
  have "List.map_filter (\<lambda>r. case r of JStr s \<Rightarrow> Some s | _ \<Rightarrow> None) (map JStr roles) = roles"
    by (induction roles) (auto simp: List.map_filter_simps)
  then show ?thesis
    by (simp add: role_texts_def list_all_iff)
qed

lemma role_texts_map: "role_texts rs = Some roles \<longleftrightarrow> rs = map JStr roles"
proof
  assume a: "role_texts rs = Some roles"
  then have shape: "case r of JStr _ \<Rightarrow> True | _ \<Rightarrow> False" if "r \<in> set rs" for r
    using that by (auto simp: role_texts_def list_all_iff split: if_split_asm)
  have "\<exists>s. r = JStr s" if "r \<in> set rs" for r
    using shape [OF that] by (cases r) simp_all
  then have "\<exists>ts. rs = map JStr ts"
    by (simp add: ex_map_conv)
  with a show "rs = map JStr roles"
    by auto
qed simp

lemma token_check_on:
  "snd (token_check decode clientId permitted token) \<longleftrightarrow>
     (\<exists>t a roles. token = Some (Some t) \<and> issuedFor (claimsOf decode t) = Some a \<and> js_lower a = js_lower clientId \<and>
        rolesOf (claimsOf decode t) = Some (map JStr roles) \<and>
        token_check decode clientId permitted token = ([TokenLine True, ScopeLine (scope_ok permitted roles)], True))"
  (is "?on \<longleftrightarrow> ?known")
proof
  assume ?on
  then obtain t where t: "token = Some (Some t)"
    by (auto simp: token_check_def split: option.splits)
  with \<open>?on\<close> obtain a where a: "issuedFor (claimsOf decode t) = Some a" "js_lower a = js_lower clientId"
    by (auto simp: token_check_def Let_def split: if_splits)
  with t \<open>?on\<close> obtain rs where rs: "rolesOf (claimsOf decode t) = Some rs"
    by (auto simp: token_check_def Let_def split: option.splits)
  with t a \<open>?on\<close> obtain roles where "role_texts rs = Some roles"
    by (auto simp: token_check_def Let_def split: option.splits)
  with t a rs show ?known
    by (auto simp: token_check_def role_texts_map)
qed auto

text \<open>
  C39. The check proves what it says: it answers 0 exactly if the token was issued for the app being proved, every role in it is
  one that was allowed and none is of mail, the mailbox itself could send, and at least one other mailbox was tried and each
  that was tried was refused with 403. Without one tried it never answers 0.
\<close>

theorem check_proves_scope:
  "fst (runGraphCheck decode clientId permitted sender denied token send_as) = 0 \<longleftrightarrow>
     (\<exists>t a roles. token = Some (Some t) \<and> issuedFor (claimsOf decode t) = Some a \<and> js_lower a = js_lower clientId \<and>
        rolesOf (claimsOf decode t) = Some (map JStr roles) \<and> (\<forall>r\<in>set roles. take 5 r \<noteq> ''Mail.'' \<and> r \<in> set permitted)) \<and>
     is_ok (send_as 0 sender) \<and> denied \<noteq> [] \<and> (\<forall>i<length denied. refused (send_as (Suc i) (denied ! i)))"
  (is "_ \<longleftrightarrow> ?proved")
proof (cases "snd (token_check decode clientId permitted token)")
  case False
  then have "\<not> ?proved"
    unfolding token_check_on by (auto simp: token_check_def role_texts_map [THEN iffD2])
  with False show ?thesis
    by (simp add: runGraphCheck_def split_beta Let_def)
next
  case True
  then obtain t a roles where t: "token = Some (Some t)" "issuedFor (claimsOf decode t) = Some a" "js_lower a = js_lower clientId"
      "rolesOf (claimsOf decode t) = Some (map JStr roles)"
      "token_check decode clientId permitted token = ([TokenLine True, ScopeLine (scope_ok permitted roles)], True)"
    unfolding token_check_on by blast
  then show ?thesis
    by (auto simp: runGraphCheck_def Let_def scope_ok_def list_all_iff inj_map_eq_map inj_on_def)
qed

definition example_token_claims :: jsval where
  "example_token_claims = JObj [(''appid'', JStr ''APP''), (''roles'', JArr [JStr ''Files.Read''])]"

theorem check_proves_scope_witness:
  "fst (runGraphCheck (\<lambda>_. tokens_text (tokens example_token_claims)) ''app'' [''Files.Read''] ''own'' [''other''] (Some (Some ''a.b.c''))
     (\<lambda>n m. if m = ''own'' then Inr () else Inl (MailFailure Forbidden (Some 403) None))) = 0 \<and>
   refused (Inl (MailFailure Forbidden (Some 403) None)) \<and> \<not> refused (Inl (MailFailure Network None None))"
proof -
  let ?decode = "\<lambda>_::nat list. tokens_text (tokens example_token_claims)"
  have plain: "plain example_token_claims"
    by (simp add: example_token_claims_def own_order_def is_index_def is_digit_def)
  have "claimsOf ?decode t = example_token_claims" for t
    using json_round_trip [of example_token_claims] plain by (simp add: claimsOf_def)
  then have "issuedFor (claimsOf ?decode ''a.b.c'') = Some ''APP''"
      "rolesOf (claimsOf ?decode ''a.b.c'') = Some (map JStr [''Files.Read''])"
    by (simp_all add: issuedFor_def rolesOf_def example_token_claims_def property_of_def member_of_def)
  moreover have "js_lower ''APP'' = js_lower ''app''"
    by (simp add: js_lower_def latin_lower_def is_upper_def) (simp add: char_of_def bit_simps)
  ultimately show ?thesis
    by (subst check_proves_scope) (auto simp: refused_def intro!: exI [of _ "[''Files.Read'']"])
qed

section \<open>The smoke test\<close>

definition SMOKE_DOMAIN :: string where "SMOKE_DOMAIN = ''qnsc.vn''"
definition SMOKE_CATEGORY :: string where "SMOKE_CATEGORY = ''ops.smoke''"
definition SMOKE_TIMEOUT_MS :: nat where "SMOKE_TIMEOUT_MS = 60000"

record smoke_exit =
  sx_ok :: nat
  sx_failed :: nat
  sx_config :: nat
  sx_auth :: nat
  sx_forbidden :: nat
  sx_throttled :: nat
  sx_mailboxNotFound :: nat

definition SMOKE_EXIT :: smoke_exit where
  "SMOKE_EXIT = \<lparr>sx_ok = 0, sx_failed = 1, sx_config = 2, sx_auth = 3, sx_forbidden = 4, sx_throttled = 5, sx_mailboxNotFound = 6\<rparr>"

definition EXIT_FOR_CODE :: "mail_error_code \<Rightarrow> nat option" where
  "EXIT_FOR_CODE c =
     (case c of Config \<Rightarrow> Some (sx_config SMOKE_EXIT) | Unauthenticated \<Rightarrow> Some (sx_auth SMOKE_EXIT)
      | Forbidden \<Rightarrow> Some (sx_forbidden SMOKE_EXIT) | Throttled \<Rightarrow> Some (sx_throttled SMOKE_EXIT)
      | Mailbox_not_found \<Rightarrow> Some (sx_mailboxNotFound SMOKE_EXIT) | _ \<Rightarrow> None)"

text \<open>The domain of one plain address: no name, no list, no quotes.\<close>

definition plain_domain :: "string \<Rightarrow> string option" where
  "plain_domain s =
     (case split_on CHR ''@'' s of
        [l, d] \<Rightarrow> if l \<noteq> [] \<and> d \<noteq> [] \<and> list_all (\<lambda>c. is_alnum c \<or> c \<in> set ''._%+-'') l \<and> list_all (\<lambda>c. is_alnum c \<or> c \<in> set ''.-'') d
                   then Some d else None
      | _ \<Rightarrow> None)"

definition SAFE_VERSION :: "string \<Rightarrow> bool" where
  "SAFE_VERSION v \<longleftrightarrow> v \<noteq> [] \<and> length v \<le> 64 \<and> list_all (\<lambda>c. is_alnum c \<or> c \<in> set ''._+-'') v"

definition smokeRecipient :: "(string \<Rightarrow> string option) \<Rightarrow> mail_send_error + string" where
  "smokeRecipient env =
     (let raw = (case env ''MAIL_SMOKE_TO'' of None \<Rightarrow> [] | Some v \<Rightarrow> js_trim v) in
      if raw = [] then config_error (''MAIL_SMOKE_TO is required: the @'' @ SMOKE_DOMAIN @ '' address that receives the test message.'')
      else if map_option js_lower (plain_domain raw) \<noteq> Some SMOKE_DOMAIN
      then config_error (''MAIL_SMOKE_TO must be one plain @'' @ SMOKE_DOMAIN @ '' address; the smoke test never emails anyone else.'')
      else Inr raw)"

record smoke_mail =
  sm_to :: string
  sm_subject :: string
  sm_html :: string
  sm_text :: string
  sm_category :: string
  sm_idempotencyKey :: string

definition smoke_version :: "(string \<Rightarrow> string option) \<Rightarrow> string" where
  "smoke_version env = (case map_option js_trim (env ''SERVICE_VERSION'') of
     Some v \<Rightarrow> if SAFE_VERSION v then v else ''unknown'' | None \<Rightarrow> ''unknown'')"

definition smokeMessage :: "string \<Rightarrow> (string \<Rightarrow> string option) \<Rightarrow> string \<Rightarrow> string \<Rightarrow> smoke_mail" where
  "smokeMessage recipient env timestamp uuid =
     (let version = smoke_version env in
      \<lparr>sm_to = recipient, sm_subject = ''[smoke] platform-mail '' @ version @ '' '' @ timestamp,
       sm_html = ''<p>Post-deploy mail smoke test.</p><p>Version '' @ version @ '', '' @ timestamp @
         ''.</p><p>Nothing to do: it confirms this deployment can send mail.</p>'',
       sm_text = ''Post-deploy mail smoke test.'' @ CHR 0x0A # ''Version '' @ version @ '', '' @ timestamp @ ''.'' @ CHR 0x0A #
         ''Nothing to do: it confirms this deployment can send mail.'',
       sm_category = SMOKE_CATEGORY, sm_idempotencyKey = ''smoke:'' @ version @ CHR '':'' # timestamp @ CHR '':'' # uuid\<rparr>)"

datatype smoke_line = ToStdout string | ToStderr string

text \<open>
  \<open>create\<close> builds the sender from the environment, or refuses; the sender answers the transport and the id of the message.
\<close>

definition runSmoke ::
  "(string \<Rightarrow> string option) \<Rightarrow> ((string \<Rightarrow> string option) \<Rightarrow> mail_send_error + (smoke_mail \<Rightarrow> send_failure + (string \<times> string))) \<Rightarrow>
   string \<Rightarrow> string \<Rightarrow> nat \<times> smoke_line" where
  "runSmoke env create timestamp uuid =
     (case and_then (smokeRecipient env) (\<lambda>recipient. and_then (create env) (\<lambda>sender. Inr (recipient, sender))) of
        Inl e \<Rightarrow> (sx_config SMOKE_EXIT, ToStderr (''platform-mail-smoke: FAILED code=config '' @ me_message e))
      | Inr (recipient, sender) \<Rightarrow>
          (case sender (smokeMessage recipient env timestamp uuid) of
             Inr (transport, i) \<Rightarrow> (sx_ok SMOKE_EXIT, ToStdout (''platform-mail-smoke: OK transport='' @ transport @ '' id='' @ i))
           | Inl (MailFailure c status request) \<Rightarrow>
               (if_none (sx_failed SMOKE_EXIT) (EXIT_FOR_CODE c),
                ToStderr (''platform-mail-smoke: FAILED code='' @ mail_code_text c @
                  (case status of None \<Rightarrow> [] | Some n \<Rightarrow> '' status='' @ dec n) @ (case request of None \<Rightarrow> [] | Some r \<Rightarrow> '' request='' @ r)))
           | Inl OtherFailure \<Rightarrow> (sx_failed SMOKE_EXIT, ToStderr ''platform-mail-smoke: FAILED code=internal'')))"

text \<open>The smoke test never emails anyone else, and says which thing is wrong.\<close>

lemma smoke_reaches_only_us:
  assumes "smokeRecipient env = Inr recipient"
  shows "map_option js_lower (plain_domain recipient) = Some SMOKE_DOMAIN"
  using assms by (auto simp: smokeRecipient_def config_error_def Let_def split: if_split_asm)

lemma smoke_ok: "fst (runSmoke env create timestamp uuid) = 0 \<longleftrightarrow>
   (\<exists>recipient sender transport i. smokeRecipient env = Inr recipient \<and> create env = Inr sender \<and>
      sender (smokeMessage recipient env timestamp uuid) = Inr (transport, i))"
  by (cases "smokeRecipient env"; cases "create env")
    (auto simp: runSmoke_def SMOKE_EXIT_def EXIT_FOR_CODE_def if_none_def split: sum.splits send_failure.splits mail_error_code.splits)

section \<open>The module\<close>

text \<open>
  A sender of the product's own is refused in production unless it says so; a worker without the ledger does not start, and the
  handler of a process without it fails its jobs.
\<close>

datatype mail_module_error = CustomSenderRefused | LedgerRequired | NoLedger | NoQueue | NotConfigured mail_send_error

definition resolveSender ::
  "(string \<Rightarrow> string option) \<Rightarrow> 'sender option \<Rightarrow> bool \<Rightarrow> ((string \<Rightarrow> string option) \<Rightarrow> mail_send_error + 'sender) \<Rightarrow>
   mail_module_error + 'sender" where
  "resolveSender env sender allowCustomSenderInProduction create =
     (case sender of
        None \<Rightarrow> (case create env of Inl e \<Rightarrow> Inl (NotConfigured e) | Inr s \<Rightarrow> Inr s)
      | Some s \<Rightarrow> if isProduction env \<and> \<not> allowCustomSenderInProduction then Inl CustomSenderRefused else Inr s)"

definition MailSendHandler :: "'state option \<Rightarrow> bool \<Rightarrow> ('state \<Rightarrow> 'installed) \<Rightarrow> mail_module_error + 'installed option" where
  "MailSendHandler state worker build =
     (case state of Some st \<Rightarrow> Inr (Some (build st)) | None \<Rightarrow> if worker then Inl LedgerRequired else Inr None)"

definition MailSendHandler_send :: "('job \<Rightarrow> mail_module_error + unit) option \<Rightarrow> 'job \<Rightarrow> mail_module_error + unit" where
  "MailSendHandler_send installed job = (case installed of None \<Rightarrow> Inl NoLedger | Some h \<Rightarrow> h job)"

definition MailService_enqueue :: "('m \<Rightarrow> mail_module_error + string option) option \<Rightarrow> 'm \<Rightarrow> mail_module_error + string option" where
  "MailService_enqueue mailQueue message = (case mailQueue of None \<Rightarrow> Inl NoQueue | Some q \<Rightarrow> q message)"

lemma production_sends_for_real:
  "resolveSender env sender False create = Inr s \<Longrightarrow> isProduction env \<Longrightarrow> create env = Inr s"
  by (auto simp: resolveSender_def split: option.splits sum.splits)

text \<open>What a worker that started does with a job, it does with the ledger.\<close>

lemma worker_has_ledger: "MailSendHandler state True build = Inr h \<Longrightarrow> \<exists>st. state = Some st \<and> h = Some (build st)"
  by (auto simp: MailSendHandler_def split: option.splits)

end
