(* ===== verification/DbTransactions.thy ===== *)
theory DbTransactions
  imports AuthMail Database
begin

text \<open>
  Transactions as \<open>platform-db/src/drizzle/index.ts\<close> offers them: \<open>withTransaction\<close> opens one on a database and joins the one
  it is given; \<open>createDatabase\<close> puts a read pool beside the primary. Drizzle's own transaction is the one of \<open>pg_tx\<close>.
\<close>

datatype ('d, 't) executor = RootDb 'd | OpenTx 't

datatype 'e with_tx_error = ConfigOnOpenTransaction | TxFailed "'e tx_failure"

definition isTransaction :: "('d, 't) executor \<Rightarrow> bool" where
  "isTransaction ex = (case ex of OpenTx _ \<Rightarrow> True | RootDb _ \<Rightarrow> False)"

fun tx_result :: "'e tx_failure + 'a \<Rightarrow> 'e with_tx_error + 'a" where
  "tx_result (Inl e) = Inl (TxFailed e)"
| "tx_result (Inr a) = Inr a"

text \<open>\<open>config\<close> says whether an isolation level or access mode was given.\<close>

definition withTransaction ::
  "(('t \<Rightarrow> ('e tx_failure + 'a) \<times> 't) \<Rightarrow> 'd \<Rightarrow> ('e tx_failure + 'a) \<times> 'd) \<Rightarrow> ('t \<Rightarrow> ('e tx_failure + 'a) \<times> 't) \<Rightarrow> bool \<Rightarrow>
   ('d, 't) executor \<Rightarrow> ('e with_tx_error + 'a) \<times> ('d, 't) executor" where
  "withTransaction transact fn config ex =
     (case ex of
        OpenTx t \<Rightarrow> if config then (Inl ConfigOnOpenTransaction, ex) else (case fn t of (r, t') \<Rightarrow> (tx_result r, OpenTx t'))
      | RootDb d \<Rightarrow> (case transact fn d of (r, d') \<Rightarrow> (tx_result r, RootDb d')))"

text \<open>Reads go to the read pool where there is one, writes and transactions to the primary.\<close>

record 'p database =
  dbs_primary :: 'p
  dbs_replica :: "'p option"

datatype db_access = ReadAccess | WriteAccess | TransactionAccess

definition createDatabase :: "'p \<Rightarrow> 'p option \<Rightarrow> 'p database" where
  "createDatabase pool readPool = \<lparr>dbs_primary = pool, dbs_replica = readPool\<rparr>"

definition pool_for :: "'p database \<Rightarrow> db_access \<Rightarrow> 'p" where
  "pool_for db a = (case (a, dbs_replica db) of (ReadAccess, Some r) \<Rightarrow> r | _ \<Rightarrow> dbs_primary db)"

lemma writes_on_primary: "a \<noteq> ReadAccess \<Longrightarrow> pool_for (createDatabase p r) a = p"
  by (cases a) (simp_all add: pool_for_def createDatabase_def)

text \<open>Joining is running in place: what is written lives or dies with the outer transaction.\<close>

lemma joined_in_place: "withTransaction transact fn False (OpenTx t) = (case fn t of (r, t') \<Rightarrow> (tx_result r, OpenTx t'))"
  by (simp add: withTransaction_def)

lemma tx_result_Inl_iff: "(\<exists>e. tx_result r = Inl e) \<longleftrightarrow> \<not> is_ok r"
  by (cases r) auto

context pg_tx
begin

lemma failed_transaction_writes_nothing:
  assumes "withTransaction transact fn config (RootDb d) = (Inl e, ex)"
  shows "ex = RootDb d"
proof -
  obtain r t where r: "fn (begins d) = (r, t)" by (rule prod.exhaust)
  show ?thesis
    using assms r by (cases r) (auto simp: withTransaction_def throws returns)
qed

text \<open>
  A service that calls \<open>withTransaction\<close> in the transaction of its caller writes nothing if the caller fails afterwards, even where
  the service itself succeeded.
\<close>

lemma nested_writes_die_with_the_outer:
  assumes "inner (begins d) = (Inr a, t)" and "cont a t = (Inl e, t')"
    and "outer = (\<lambda>t. case inner t of (Inr a, t') \<Rightarrow> cont a t' | (Inl e, t') \<Rightarrow> (Inl e, t'))"
  shows "withTransaction transact outer config (RootDb d) = (Inl (TxFailed e), RootDb d)"
  using assms throws [of outer d e t'] by (simp add: withTransaction_def)

end

end
