(* ===== verification/Spec2Isabelle.thy ===== *)
theory Spec2Isabelle
  imports EdgeWorker Cache Pagination CacheRequirement RateLimitGuard Idempotency RequestContext Telemetry HttpLogging
    JobsOnce LockoutBounds IdentityMount IdentityConfig Bootstrap MailTools DbTransactions
begin

text \<open>
  A verification development of the platform packages (\<open>src/packages\<close>): the libraries every product builds on, in TypeScript.

  \<^bold>\<open>The program.\<close> An HTTP request comes in through a Cloudflare Worker that signs the visitor's address (\<open>platform-http/src/http/edge.ts\<close>).
  The API verifies the signature, resolves the client's address, seeds a request context with a correlation id, limits the rate per
  caller, replays or claims an idempotency key and logs the request (\<open>platform-http\<close>, \<open>observability\<close>), on top of the shared cache
  (\<open>platform-cache\<close>). Work that must not block a request is a job of pg-boss (\<open>platform-jobs\<close>); mail is such a job, with a ledger and
  a pace per mailbox (\<open>platform-mail\<close>). Accounts, sessions and sign-in are Better Auth, configured, guarded and hooked by \<open>identity\<close>.
  \<open>platform-db\<close> and \<open>platform-runtime\<close> connect, start, report readiness and shut down.

  \<^bold>\<open>How the code appears.\<close> A function is a HOL function of the same name, state passed explicitly; a class with state is a record and one
  definition per method. What throws returns a sum, \<open>Inl\<close> the error (\<open>Prelude\<close>: \<open>and_then\<close>, \<open>require\<close>). An asynchronous function is the
  sequence of its steps; where interleavings matter (locks, rate limits, idempotency, attempts, shutdown) the steps are separate and a run
  is a list of them or a relation. Strings are lists of 8-bit characters, JavaScript's values the datatype \<open>jsval\<close> (\<open>Json\<close>), whole
  numbers \<open>int\<close> or \<open>nat\<close>, milliseconds \<open>nat\<close>, other fractions \<open>rat\<close>.

  \<^bold>\<open>The theories\<close>, by package:
  \<^item> shared: \<open>Prelude\<close>, \<open>Base64Url\<close>, \<open>Json\<close> (values, \<open>JSON.parse\<close> and \<open>stringify\<close>, UTF-8), \<open>Valkey\<close> (the server's commands);
  \<^item> \<open>platform-http\<close>: \<open>EdgeProtocol\<close>, \<open>EdgeClientIp\<close>, \<open>EdgeWorker\<close>, \<open>ClientIp\<close>, \<open>HttpErrors\<close>, \<open>Pagination\<close>, \<open>Fingerprint\<close>,
    \<open>CacheRequirement\<close>, \<open>RateLimitGuard\<close>, \<open>Idempotency\<close>, \<open>HttpLogging\<close>;
  \<^item> \<open>platform-cache\<close>: \<open>Cache\<close> (the lock, the sliding window, the life of the connection);
  \<^item> \<open>observability\<close>: \<open>RequestContext\<close>, \<open>Telemetry\<close>, \<open>OtelBootstrap\<close>;
  \<^item> \<open>platform-jobs\<close>: \<open>JobsConfig\<close>, \<open>PgBoss\<close> (the tables), \<open>JobsCore\<close>, \<open>JobsEngine\<close>, \<open>JobsRun\<close>, \<open>JobsOnce\<close>, \<open>Redrive\<close>;
  \<^item> \<open>platform-mail\<close>: \<open>MailMessage\<close>, \<open>MailState\<close>, \<open>MailPacing\<close>, \<open>MailJobs\<close>, \<open>MailTransport\<close>, \<open>MailTools\<close>;
  \<^item> \<open>platform-db\<close>: \<open>Database\<close>, \<open>DbTransactions\<close>; \<open>platform-runtime\<close>: \<open>Health\<close>, \<open>Shutdown\<close>, \<open>ExclusiveJob\<close>, \<open>Bootstrap\<close>;
  \<^item> \<open>identity\<close>: \<open>IdentityDomains\<close>, \<open>BetterAuth\<close> (its adapters), \<open>KnownDevice\<close>, \<open>Lockout\<close> and \<open>LockoutBounds\<close> (attempts), \<open>RequestSlot\<close>,
    \<open>StaffSession\<close>, \<open>SessionGuards\<close>, \<open>SessionContext\<close>, \<open>ReadGuards\<close> (the guards over time), \<open>AccountPolicy\<close>, \<open>SsoSecrets\<close>, \<open>AuthEnvelope\<close>,
    \<open>AuthMail\<close>, \<open>Revocation\<close>, \<open>IdentityMount\<close>, \<open>IdentityConfig\<close>.

  \<^bold>\<open>Interfaces.\<close> What is not in the repository is an argument, and a locale states its documented behaviour; each is interpreted:
  \<open>valkey_server\<close> and \<open>slot_laws\<close> (commands and scripts of the server), \<open>counter_server\<close> (its counters), \<open>mail_ledger\<close> (what the
  handler asks of the ledger, given by \<open>state.ts\<close> itself), \<open>boss_send\<close> and \<open>boss_settle\<close> (pg-boss), \<open>auth_adapter\<close> and \<open>two_stores\<close> (Better
  Auth's adapters, alone and beside the cache), \<open>belief\<close> (the memos of the guards, given by the code's own), \<open>pg_tx\<close> (transactions).
  HMAC and SHA-256, AES-GCM, URL parsing, \<open>jose\<close>, DNS, \<open>fetch\<close> and clocks are parameters without laws, or with the one law used, as a
  hypothesis of the theorem that uses it.

  \<^bold>\<open>What is shown.\<close> A lock has one holder while its lease lasts; limits bound how often callers, guesses and mails get through, over every
  interleaving of calls; a signed address is accepted as signed and cannot be forged by a header; a cursor walk visits every row once;
  an idempotent request runs once and is replayed as answered; a label cannot blow up the metrics; a job's effect happens at most once,
  a batch settles every job, redriving loses and invents none and returns; a mail is sent only by the holder of its claim; sessions of staff
  end in time; only squatters' accounts are deleted and no sign-in takes another's account; a sealed secret comes back; bans and lost
  memberships reach sessions; revoked sessions stay revoked however the cache fails; errors are enveloped and server errors say nothing;
  an instance that is built is safe; a process starts in order or exits. Each is a theorem with its claim id before it, and a witness on
  concrete inputs where it has hypotheses; the other lemmas are the behaviour of single operations that the theorems rest on.

  \<^bold>\<open>Bounds and fuel.\<close> Loops that might not end carry fuel, and the theorems show how much is enough: \<open>redrive\<close> with \<open>redrive_fuel\<close>, the
  jobs in the table and the limit; \<open>purge_batches\<close> with more than the number of rows, each round deleting one at least; \<open>graph_loop\<close> its attempts;
  \<open>waitForSlot\<close> the time it may wait; an attempt on the lockout ends within five calls of the server. \<open>serializeError\<close> goes five causes
  deep, as the code does.

  \<^bold>\<open>Not modelled.\<close> Nest's modules and decorators, command lines, test kits, the reference consumer and one-line calls of libraries (argon2,
  \<open>SELECT 1\<close>, loading \<open>.env\<close>). Of \<open>create-identity.ts\<close>, assembling Better Auth from the settings: the checks and the settings are
  modelled, not the functions handed over, each of which is modelled in its own theory. Fastify's routes, timers and sockets are the
  environment. Strings are of 8-bit characters, so a length in UTF-16 units and a length in characters agree here; text beyond Latin-1
  is outside the model. Numbers are exact: the rounding of doubles is not modelled. The deletes of a batch, which run at once in the
  code, are taken in order, each with its own outcome.
\<close>

section \<open>A ban, from the call to the guard\<close>

lemma banned_mark_refused:
  assumes "fst (isUserBanned db env u st) = Inr True" and "\<not> gr_public rq" and "gr_mark rq = Some (Some u)"
  shows "fst (session_canActivate db env session hook rq ctx st notes) = Inl (Refusal SignInRequired)"
proof -
  obtain r st' notes' where a: "admitPreAuthenticated db env ctx (Some u) st notes = (r, st', notes')"
    by (rule prod_cases3)
  have "r = Inl SignInRequired"
  proof (cases r)
    case (Inl e)
    then show ?thesis by (cases e) simp
  next
    case (Inr x)
    with a have "admitPreAuthenticated db env ctx (Some u) st notes = (Inr (), st', notes')" by simp
    from admitted_marked [OF this] assms(1) show ?thesis
      by (auto split: option.splits)
  qed
  with a assms(2,3) show ?thesis
    by (simp add: session_canActivate_def)
qed



end
